(* ===== verification/Prelude.thy ===== *)
theory Prelude
  imports Main "HOL-Library.AList" "HOL-Library.Multiset"
begin

text \<open>
  Shared vocabulary of the development.

  \<^item> Go values: \<open>time.Time\<close> and \<open>time.Duration\<close> are integers in nanoseconds. An instant is
    counted from Go's zero time, so \<open>IsZero t\<close> is \<open>t = 0\<close>; \<open>Before\<close>, \<open>After\<close>, \<open>Add\<close> and \<open>Sub\<close>
    are the order and the arithmetic of \<open>int\<close>. Saturation of \<open>Sub\<close> beyond 292 years is not
    modelled.
  \<^item> Strings are byte strings (\<open>string\<close>); \<open>ToLower\<close> and \<open>TrimSpace\<close> are exact on ASCII input.
  \<^item> A Go map is an association list with distinct keys. \<open>range\<close> visits the list in order;
    theorems hold for every list, so for every iteration order Go may pick.
  \<^item> Every \<open>time.Now()\<close> of the source is an argument of the operation that calls it.

  The two locales at the end are the contracts the components share: a system of operations
  that keeps an invariant, and one that in addition never lowers an observation.
\<close>

named_theorems go_simps \<open>unfolding rules of Go library operations\<close>
named_theorems inv_intros \<open>operations preserve the invariant of their component\<close>

section \<open>Addresses\<close>

text \<open>A \<open>netip.Addr\<close>; \<open>None\<close> is the zero value, for which \<open>IsValid\<close> is false.\<close>

type_synonym netip_addr = "string option"

section \<open>Time\<close>

type_synonym go_time = int
type_synonym duration = int

definition second :: duration where "second = 1000000000"
definition minute :: duration where "minute = 60 * second"
definition hour :: duration where "hour = 60 * minute"
definition millisecond :: duration where "millisecond = 1000000"

abbreviation IsZero :: "go_time \<Rightarrow> bool" where "IsZero t \<equiv> t = 0"
abbreviation Before :: "go_time \<Rightarrow> go_time \<Rightarrow> bool" where "Before a b \<equiv> a < b"
abbreviation After :: "go_time \<Rightarrow> go_time \<Rightarrow> bool" where "After a b \<equiv> b < a"

lemma second_pos [simp]: "0 < second" by (simp add: second_def)
lemma minute_pos [simp]: "0 < minute" by (simp add: minute_def)
lemma hour_pos [simp]: "0 < hour" by (simp add: hour_def)

lemmas time_units = second_def minute_def hour_def millisecond_def

text \<open>\<open>t.Truncate(time.Second)\<close> rounds an instant down to a whole second.\<close>

definition truncate_second :: "go_time \<Rightarrow> go_time" where
  "truncate_second t = (t div second) * second"

lemma truncate_second_le: "truncate_second t \<le> t"
  by (simp add: truncate_second_def second_def)

lemma truncate_second_gt: "t - second < truncate_second t"
proof -
  have "t = (t div second) * second + t mod second" by simp
  moreover have "t mod second < second" by (rule pos_mod_bound) simp
  ultimately show ?thesis unfolding truncate_second_def by linarith
qed

section \<open>Strings\<close>

definition lower_char :: "char \<Rightarrow> char" where
  "lower_char c = (let n = (of_char c :: nat)
     in if 65 \<le> n \<and> n \<le> 90 then char_of (n + 32) else c)"

definition ToLower :: "string \<Rightarrow> string" where
  "ToLower s = map lower_char s"

definition is_space :: "char \<Rightarrow> bool" where
  "is_space c = (let n = (of_char c :: nat) in n = 32 \<or> (9 \<le> n \<and> n \<le> 13))"

definition TrimSpace :: "string \<Rightarrow> string" where
  "TrimSpace s = rev (dropWhile is_space (rev (dropWhile is_space s)))"

lemma lower_char_idem [simp]: "lower_char (lower_char c) = lower_char c"
proof (cases "65 \<le> (of_char c :: nat) \<and> (of_char c :: nat) \<le> 90")
  case True
  then have "(of_char (char_of ((of_char c :: nat) + 32)) :: nat) = of_char c + 32"
    by (simp add: of_char_of)
  with True show ?thesis by (simp add: lower_char_def Let_def)
next
  case False
  then show ?thesis by (auto simp: lower_char_def Let_def)
qed

lemma is_space_lower [simp]: "is_space (lower_char c) = is_space c"
proof (cases "65 \<le> (of_char c :: nat) \<and> (of_char c :: nat) \<le> 90")
  case True
  then have "(of_char (char_of ((of_char c :: nat) + 32)) :: nat) = of_char c + 32"
    by (simp add: of_char_of)
  with True show ?thesis by (auto simp add: is_space_def lower_char_def Let_def)
next
  case False
  then show ?thesis by (auto simp: lower_char_def Let_def)
qed

lemma ToLower_idem [simp]: "ToLower (ToLower s) = ToLower s"
  by (simp add: ToLower_def)

lemma dropWhile_map_space: "dropWhile is_space (map lower_char s) = map lower_char (dropWhile is_space s)"
  by (induction s) auto

lemma ToLower_TrimSpace: "ToLower (TrimSpace s) = TrimSpace (ToLower s)"
  by (simp add: ToLower_def TrimSpace_def dropWhile_map_space rev_map)

lemma dropWhile_idem_hd: "(xs \<noteq> [] \<Longrightarrow> \<not> P (hd xs)) \<Longrightarrow> dropWhile P xs = xs"
  by (cases xs) auto

lemma hd_rev_dropWhile:
  assumes "rev (dropWhile P (rev xs)) \<noteq> []"
  shows "hd (rev (dropWhile P (rev xs))) = hd xs"
proof -
  have "xs = rev (dropWhile P (rev xs)) @ rev (takeWhile P (rev xs))"
    by (metis rev_append rev_rev_ident takeWhile_dropWhile_id)
  with assms show ?thesis by (metis hd_append2)
qed

lemma TrimSpace_idem [simp]: "TrimSpace (TrimSpace s) = TrimSpace s"
proof -
  let ?a = "dropWhile is_space s"
  let ?t = "rev (dropWhile is_space (rev ?a))"
  have "dropWhile is_space ?t = ?t"
  proof (rule dropWhile_idem_hd)
    assume ne: "?t \<noteq> []"
    then have "hd ?t = hd ?a" by (rule hd_rev_dropWhile)
    moreover from ne have "?a \<noteq> []" by fastforce
    ultimately show "\<not> is_space (hd ?t)" using hd_dropWhile by metis
  qed
  then show ?thesis by (simp add: TrimSpace_def)
qed

lemma set_TrimSpace: "set (TrimSpace s) \<subseteq> set s"
  by (auto simp: TrimSpace_def dest!: set_dropWhileD)

lemma length_TrimSpace: "length (TrimSpace s) \<le> length s"
  unfolding TrimSpace_def
  by (metis length_dropWhile_le length_rev order_trans)

text \<open>\<open>strings.Cut s sep\<close> for a one-byte separator: the text before and after the first one.\<close>

text \<open>\<open>strings.Split\<close> with a separator of one character.\<close>

fun splitOn :: "char \<Rightarrow> string \<Rightarrow> string list" where
  "splitOn c [] = [[]]"
| "splitOn c (x # xs) =
     (if x = c then [] # splitOn c xs
      else case splitOn c xs of [] \<Rightarrow> [[x]] | e # es \<Rightarrow> (x # e) # es)"

lemma splitOn_free: "c \<notin> set s \<Longrightarrow> splitOn c s = [s]"
  by (induction s) auto

lemma splitOn_sep: "c \<notin> set s \<Longrightarrow> splitOn c (s @ c # t) = s # splitOn c t"
  by (induction s) auto

fun Cut :: "string \<Rightarrow> char \<Rightarrow> (string \<times> string) option" where
  "Cut [] c = None"
| "Cut (x # xs) c = (if x = c then Some ([], xs)
     else map_option (\<lambda>(a, b). (x # a, b)) (Cut xs c))"

lemma Cut_None_iff: "Cut s c = None \<longleftrightarrow> c \<notin> set s"
  by (induction s) auto

lemma Cut_Some_iff: "Cut s c = Some (a, b) \<longleftrightarrow> s = a @ c # b \<and> c \<notin> set a"
proof (induction s arbitrary: a)
  case Nil
  then show ?case by simp
next
  case (Cons x xs)
  show ?case
  proof (cases "x = c")
    case True
    then show ?thesis by (cases a) auto
  next
    case False
    then show ?thesis using Cons.IH by (cases a) auto
  qed
qed

section \<open>Go maps\<close>

type_synonym ('k, 'v) gomap = "('k \<times> 'v) list"

abbreviation lookup :: "('k, 'v) gomap \<Rightarrow> 'k \<Rightarrow> 'v option" where "lookup m k \<equiv> map_of m k"
abbreviation put :: "'k \<Rightarrow> 'v \<Rightarrow> ('k, 'v) gomap \<Rightarrow> ('k, 'v) gomap" where "put \<equiv> AList.update"
abbreviation del :: "'k \<Rightarrow> ('k, 'v) gomap \<Rightarrow> ('k, 'v) gomap" where "del \<equiv> AList.delete"

text \<open>\<open>_, ok := m[k]\<close>\<close>

definition has_key :: "('k, 'v) gomap \<Rightarrow> 'k \<Rightarrow> bool" where
  "has_key m k \<longleftrightarrow> map_of m k \<noteq> None"

definition wf_map :: "('k, 'v) gomap \<Rightarrow> bool" where
  "wf_map m \<longleftrightarrow> distinct (map fst m)"

text \<open>Deleting during \<open>range\<close>: every entry that satisfies the condition goes.\<close>

definition del_where :: "('k \<Rightarrow> 'v \<Rightarrow> bool) \<Rightarrow> ('k, 'v) gomap \<Rightarrow> ('k, 'v) gomap" where
  "del_where P m = filter (\<lambda>(k, v). \<not> P k v) m"

lemma wf_map_Nil [simp]: "wf_map []"
  by (simp add: wf_map_def)

lemma wf_map_put [simp, intro]: "wf_map m \<Longrightarrow> wf_map (put k v m)"
  by (simp add: wf_map_def distinct_update)

lemma wf_map_del [simp, intro]: "wf_map m \<Longrightarrow> wf_map (del k m)"
  by (simp add: wf_map_def distinct_delete)

lemma wf_map_filter [simp, intro]: "wf_map m \<Longrightarrow> wf_map (filter P m)"
  by (simp add: wf_map_def distinct_map_filter)

lemma wf_map_del_where [simp, intro]: "wf_map m \<Longrightarrow> wf_map (del_where P m)"
  by (simp add: del_where_def)

lemma lookup_put [simp]: "lookup (put k v m) k' = (if k' = k then Some v else lookup m k')"
  by (simp add: update_conv')

lemma lookup_del [simp]: "lookup (del k m) k' = (if k' = k then None else lookup m k')"
  by (simp add: delete_conv')

lemma has_key_Nil [simp]: "\<not> has_key [] k"
  by (simp add: has_key_def)

lemma has_key_put [simp]: "has_key (put k v m) k' \<longleftrightarrow> k' = k \<or> has_key m k'"
  by (simp add: has_key_def)

lemma has_key_del [simp]: "has_key (del k m) k' \<longleftrightarrow> k' \<noteq> k \<and> has_key m k'"
  by (simp add: has_key_def)

lemma has_key_keys: "has_key m k \<longleftrightarrow> k \<in> set (map fst m)"
  by (simp add: has_key_def map_of_eq_None_iff del: not_None_eq)

lemma has_key_lookup: "has_key m k \<longleftrightarrow> (\<exists>v. lookup m k = Some v)"
  by (simp add: has_key_def)

lemma lookup_None_has_key: "lookup m k = None \<longleftrightarrow> \<not> has_key m k"
  by (simp add: has_key_def)

lemma lookup_in_set: "wf_map m \<Longrightarrow> lookup m k = Some v \<longleftrightarrow> (k, v) \<in> set m"
  by (auto simp: wf_map_def intro: map_of_SomeD)

lemma set_put: "wf_map m \<Longrightarrow> set (put k v m) = insert (k, v) {e \<in> set m. fst e \<noteq> k}"
proof -
  assume wf: "wf_map m"
  have "(a, b) \<in> set (put k v m) \<longleftrightarrow> (a, b) \<in> insert (k, v) {e \<in> set m. fst e \<noteq> k}" for a b
    using lookup_in_set [OF wf_map_put [OF wf], of k v a b] lookup_in_set [OF wf, of a b]
    by (cases "a = k") auto
  then show ?thesis by auto
qed

lemma set_del: "set (del k m) = {e \<in> set m. fst e \<noteq> k}"
  by (auto simp: AList.delete_eq)

lemma lookup_del_where:
  "wf_map m \<Longrightarrow> lookup (del_where P m) k =
    (case lookup m k of None \<Rightarrow> None | Some v \<Rightarrow> if P k v then None else Some v)"
proof (induction m)
  case Nil
  then show ?case by (simp add: del_where_def)
next
  case (Cons p m)
  obtain a b where p: "p = (a, b)" by (cases p)
  with Cons.prems have wf: "wf_map m" and a: "lookup m a = None"
    by (auto simp: wf_map_def map_of_eq_None_iff)
  have eq: "del_where P (p # m) = (if P a b then del_where P m else (a, b) # del_where P m)"
    by (simp add: del_where_def p)
  show ?case using Cons.IH [OF wf] a by (cases "k = a") (auto simp: eq [unfolded p] p)
qed

lemma length_put: "wf_map m \<Longrightarrow> length (put k v m) = (if has_key m k then length m else Suc (length m))"
proof (induction m)
  case (Cons p m)
  then show ?case by (cases p) (auto simp: wf_map_def has_key_def)
qed (simp add: has_key_def)

lemma length_del_le: "length (del k m) \<le> length m"
  by (simp add: AList.delete_eq)

lemma length_del_where_le: "length (del_where P m) \<le> length m"
  by (simp add: del_where_def)

lemma mset_del: "wf_map m \<Longrightarrow> lookup m k = Some v \<Longrightarrow> mset m = add_mset (k, v) (mset (del k m))"
proof (induction m)
  case (Cons e m)
  then show ?case
  proof (cases "fst e = k")
    case True
    with Cons.prems have "k \<notin> fst ` set m" by (simp add: wf_map_def)
    then have "del k m = m" by (rule delete_id)
    with True Cons.prems show ?thesis by (cases e) simp
  next
    case False
    with Cons show ?thesis by (cases e) (auto simp: wf_map_def)
  qed
qed simp

lemma mset_put: "wf_map m \<Longrightarrow> mset (put k v m) = add_mset (k, v) (mset (del k m))"
  using mset_del [OF wf_map_put, of m k v k v] by (simp add: delete_update_same)

lemma mset_put_fresh: "wf_map m \<Longrightarrow> \<not> has_key m k \<Longrightarrow> mset (put k v m) = add_mset (k, v) (mset m)"
  by (simp add: mset_put has_key_keys)

lemma mset_split_where:
  "mset m = mset (del_where P m) + mset (filter (\<lambda>(k, v). P k v) m)"
  by (induction m) (auto simp: del_where_def)

section \<open>Systems of operations\<close>

text \<open>
  A component is a state and a set of operations on it. The operations that other components
  or goroutines may call in any order are the values of a type \<open>'e\<close>; \<open>step e\<close> is the effect of
  one of them. The contract of the component is an invariant that every operation keeps.
\<close>

locale op_system =
  fixes step :: "'e \<Rightarrow> 's \<Rightarrow> 's"
    and inv :: "'s \<Rightarrow> bool"
  assumes step_inv: "inv s \<Longrightarrow> inv (step e s)"
begin

lemma run_inv: "inv s \<Longrightarrow> inv (fold step es s)"
  by (induction es arbitrary: s) (auto intro: step_inv)

lemma run_prefix_inv: "inv s \<Longrightarrow> inv (fold step (take n es) s)"
  by (rule run_inv)

end

text \<open>
  Some observations only grow while the component runs: a revision number, a counter of
  spent tokens, a rollback anchor.
\<close>

locale mono_system = op_system +
  fixes obs :: "'s \<Rightarrow> 'o :: preorder"
  assumes step_mono: "inv s \<Longrightarrow> obs s \<le> obs (step e s)"
begin

lemma run_mono: "inv s \<Longrightarrow> obs s \<le> obs (fold step es s)"
proof (induction es arbitrary: s)
  case Nil
  then show ?case by simp
next
  case (Cons e es)
  then have "obs (step e s) \<le> obs (fold step es (step e s))"
    by (simp add: step_inv)
  with Cons.prems show ?case
    using order_trans [OF step_mono] by simp
qed

lemma run_mono_split: "inv s \<Longrightarrow> obs (fold step es s) \<le> obs (fold step (es @ fs) s)"
  by (simp add: run_inv run_mono)

end

end
