(* ===== verification/Service_Types.thy ===== *)
theory Service_Types
  imports Prelude
begin

text \<open>
  The shared data of \<open>src/types/identity.go\<close> and \<open>src/types/api.go\<close>: service identities and
  their comparable key, the textual form of a key and its parser, lease metadata with its
  bounds, and the relay's routing decision for an identity. The properties are that parsing
  is a canonicalisation (parsing its own output changes nothing) and that printing a
  canonical key and parsing it back is the identity.
\<close>

section \<open>Identities and their keys\<close>

record Identity =
  Name :: string
  Address :: string
  PublicKey :: string
  PrivateKey :: string
  Mnemonic :: string
  DerivationPath :: string
  TokenSecret :: string

datatype ServiceIdentityKey = ServiceIdentityKey (key_name: string) (key_address: string)

datatype identity_error = InvalidIdentityKey string

abbreviation IdentityKeySeparator :: char where "IdentityKeySeparator \<equiv> CHR '':''"

definition NewServiceIdentityKey :: "string \<Rightarrow> string \<Rightarrow> ServiceIdentityKey" where
  "NewServiceIdentityKey name address =
     ServiceIdentityKey (TrimSpace (ToLower name)) (TrimSpace (ToLower address))"

definition Valid :: "ServiceIdentityKey \<Rightarrow> bool" where
  "Valid k \<longleftrightarrow> key_address k \<noteq> ''''"

definition String :: "ServiceIdentityKey \<Rightarrow> string" where
  "String k = (if key_name k = '''' \<and> key_address k = '''' then ''''
     else key_name k @ IdentityKeySeparator # key_address k)"

definition ParseServiceIdentityKey :: "string \<Rightarrow> identity_error + ServiceIdentityKey" where
  "ParseServiceIdentityKey raw =
     (case Cut raw IdentityKeySeparator of
        None \<Rightarrow> Inl (InvalidIdentityKey raw)
      | Some (name, address) \<Rightarrow>
          if IdentityKeySeparator \<in> set address then Inl (InvalidIdentityKey raw)
          else let key = NewServiceIdentityKey name address in
            if \<not> Valid key then Inl (InvalidIdentityKey raw) else Inr key)"

definition CanonicalIdentityKey :: "string \<Rightarrow> string \<Rightarrow> string" where
  "CanonicalIdentityKey name address = String (NewServiceIdentityKey name address)"

definition ParseIdentityKey :: "string \<Rightarrow> identity_error + string" where
  "ParseIdentityKey raw =
     (case ParseServiceIdentityKey raw of Inl e \<Rightarrow> Inl e | Inr key \<Rightarrow> Inr (String key))"

definition ServiceKey :: "Identity \<Rightarrow> ServiceIdentityKey" where
  "ServiceKey i = NewServiceIdentityKey (Name i) (Address i)"

definition Key :: "Identity \<Rightarrow> string" where
  "Key i = String (ServiceKey i)"

definition Copy_Identity :: "Identity \<Rightarrow> Identity" where
  "Copy_Identity i = \<lparr>Name = Name i, Address = Address i, PublicKey = PublicKey i,
     PrivateKey = PrivateKey i, Mnemonic = Mnemonic i, DerivationPath = DerivationPath i,
     TokenSecret = TokenSecret i\<rparr>"

section \<open>Lease metadata\<close>

record LeaseMetadata =
  Description :: string
  Owner :: string
  Thumbnail :: string
  Tags :: "string list"
  Hide :: bool

datatype metadata_error = MetadataExceedsLimits | MetadataTagExceedsLimit | MetadataExceedsAggregateLimit

text \<open>The loop over the tags: the running total, or the error of the first long tag.\<close>

fun validate_tags :: "nat \<Rightarrow> string list \<Rightarrow> metadata_error + nat" where
  "validate_tags tot [] = Inr tot"
| "validate_tags tot (tag # tags) =
     (if length tag > 128 then Inl MetadataTagExceedsLimit
      else validate_tags (tot + length tag) tags)"

definition Validate_LeaseMetadata :: "LeaseMetadata \<Rightarrow> metadata_error + unit" where
  "Validate_LeaseMetadata m =
     (if length (Description m) > 4096 \<or> length (Owner m) > 256
         \<or> length (Thumbnail m) > 2048 \<or> length (Tags m) > 32
      then Inl MetadataExceedsLimits
      else case validate_tags (length (Description m) + length (Owner m) + length (Thumbnail m)) (Tags m) of
          Inl e \<Rightarrow> Inl e
        | Inr tot \<Rightarrow> if tot > 8192 then Inl MetadataExceedsAggregateLimit else Inr ())"

definition Copy_LeaseMetadata :: "LeaseMetadata \<Rightarrow> LeaseMetadata" where
  "Copy_LeaseMetadata m = \<lparr>Description = Description m, Owner = Owner m, Thumbnail = Thumbnail m,
     Tags = [] @ Tags m, Hide = Hide m\<rparr>"

section \<open>Routing decisions\<close>

text \<open>\<open>LeaseAccess\<close> is a string type; \<open>LeaseAccessOther\<close> is any value without a named constant.\<close>

datatype LeaseAccess = LeaseRoutable | LeasePending | LeaseDenied | LeaseAccessOther string

section \<open>Registration requests\<close>

record RegisterChallengeRequest =
  Cache :: bool
  CacheTTL :: int
  AllowCanonicalFallback :: bool
  req_Identity :: Identity
  req_Metadata :: LeaseMetadata
  req_Overlay :: bool
  req_TTL :: int
  UDPEnabled :: bool
  TCPEnabled :: bool

section \<open>Properties\<close>

lemma NewServiceIdentityKey_idem [simp]:
  "NewServiceIdentityKey (key_name (NewServiceIdentityKey n a)) (key_address (NewServiceIdentityKey n a))
    = NewServiceIdentityKey n a"
  by (simp add: NewServiceIdentityKey_def ToLower_TrimSpace)

lemma Copy_Identity_eq [simp]: "Copy_Identity i = i"
  by (simp add: Copy_Identity_def)

lemma Copy_LeaseMetadata_eq [simp]: "Copy_LeaseMetadata m = m"
  by (simp add: Copy_LeaseMetadata_def)

lemma lower_char_ne_sep: "c \<noteq> IdentityKeySeparator \<Longrightarrow> lower_char c \<noteq> IdentityKeySeparator"
proof
  assume c: "c \<noteq> IdentityKeySeparator" and eq: "lower_char c = IdentityKeySeparator"
  show False
  proof (cases "65 \<le> (of_char c :: nat) \<and> (of_char c :: nat) \<le> 90")
    case True
    then have "(of_char (lower_char c) :: nat) = of_char c + 32"
      by (simp add: lower_char_def Let_def of_char_of)
    with True eq show False by auto
  next
    case False
    with c eq show False by (auto simp: lower_char_def Let_def split: if_splits)
  qed
qed

lemma canonical_part_no_sep:
  "IdentityKeySeparator \<notin> set s \<Longrightarrow> IdentityKeySeparator \<notin> set (TrimSpace (ToLower s))"
  using set_TrimSpace [of "ToLower s"] lower_char_ne_sep by (force simp: ToLower_def)

definition canonical_key :: "ServiceIdentityKey \<Rightarrow> bool" where
  "canonical_key k \<longleftrightarrow> NewServiceIdentityKey (key_name k) (key_address k) = k
     \<and> IdentityKeySeparator \<notin> set (key_name k) \<and> IdentityKeySeparator \<notin> set (key_address k)"

lemma ParseServiceIdentityKey_canonical:
  assumes "ParseServiceIdentityKey raw = Inr k"
  shows "canonical_key k \<and> Valid k"
proof -
  from assms obtain n a where "Cut raw IdentityKeySeparator = Some (n, a)"
    and "IdentityKeySeparator \<notin> set a" and k: "k = NewServiceIdentityKey n a" and v: "Valid k"
    by (auto simp: ParseServiceIdentityKey_def Let_def split: option.splits if_splits)
  then have "IdentityKeySeparator \<notin> set n" and "IdentityKeySeparator \<notin> set a"
    by (simp_all add: Cut_Some_iff)
  then show ?thesis
    using k v by (simp add: canonical_key_def) (simp add: NewServiceIdentityKey_def canonical_part_no_sep)
qed

lemma ParseServiceIdentityKey_String:
  assumes "canonical_key k" and "Valid k"
  shows "ParseServiceIdentityKey (String k) = Inr k"
proof -
  from assms have "String k = key_name k @ IdentityKeySeparator # key_address k"
    by (simp add: String_def Valid_def)
  then have "Cut (String k) IdentityKeySeparator = Some (key_name k, key_address k)"
    using assms by (simp add: Cut_Some_iff canonical_key_def)
  with assms show ?thesis
    by (simp add: ParseServiceIdentityKey_def canonical_key_def)
qed

lemma ServiceKey_canonical_parts: "NewServiceIdentityKey (key_name (ServiceKey i)) (key_address (ServiceKey i)) = ServiceKey i"
  by (simp add: ServiceKey_def)

lemma validate_tags_Inr:
  "validate_tags t ts = Inr n \<longleftrightarrow> (\<forall>tag \<in> set ts. length tag \<le> 128) \<and> n = t + sum_list (map length ts)"
  by (induction ts arbitrary: t) auto

text \<open>
  An identity key that parses is in canonical form after parsing: the parser accepts its
  own output and returns it unchanged, and what it prints is the key itself. Keys stored in
  policy files and sent over the API therefore denote the same service when they are read back.
\<close>

theorem ParseIdentityKey_roundtrip:
  assumes "ParseServiceIdentityKey raw = Inr k"
  shows "ParseServiceIdentityKey (String k) = Inr k \<and> ParseIdentityKey (String k) = ParseIdentityKey raw"
proof -
  have "ParseServiceIdentityKey (String k) = Inr k"
    using ParseServiceIdentityKey_canonical [OF assms] by (simp add: ParseServiceIdentityKey_String)
  then show ?thesis using assms by (simp add: ParseIdentityKey_def)
qed

theorem ParseIdentityKey_roundtrip_witness:
  "ParseServiceIdentityKey '' MyApp:0xAB '' = Inr (ServiceIdentityKey ''myapp'' ''0xab'')
   \<and> ParseServiceIdentityKey ''myapp:0xab'' = Inr (ServiceIdentityKey ''myapp'' ''0xab'')"
proof -
  have p: "ParseServiceIdentityKey '' MyApp:0xAB '' = Inr (ServiceIdentityKey ''myapp'' ''0xab'')"
    by code_simp
  have s: "String (ServiceIdentityKey ''myapp'' ''0xab'') = ''myapp:0xab''" by code_simp
  from ParseIdentityKey_roundtrip [OF p] p show ?thesis by (simp only: s)
qed

text \<open>
  Metadata validation accepts exactly the values within every bound: each field, the
  number of tags, each tag, and the sum of all of them. So one lease retains at most 8192
  bytes of metadata on the relay.
\<close>

theorem Validate_LeaseMetadata_exact:
  "Validate_LeaseMetadata m = Inr () \<longleftrightarrow>
     length (Description m) \<le> 4096 \<and> length (Owner m) \<le> 256 \<and> length (Thumbnail m) \<le> 2048
     \<and> length (Tags m) \<le> 32 \<and> list_all (\<lambda>tag. length tag \<le> 128) (Tags m)
     \<and> length (Description m) + length (Owner m) + length (Thumbnail m)
         + sum_list (map length (Tags m)) \<le> 8192"
proof -
  let ?t = "length (Description m) + length (Owner m) + length (Thumbnail m)"
  show ?thesis
  proof (cases "validate_tags ?t (Tags m)")
    case (Inl e)
    then have "\<not> list_all (\<lambda>tag. length tag \<le> 128) (Tags m)"
      using validate_tags_Inr [of ?t "Tags m"] by (auto simp: list_all_iff)
    with Inl show ?thesis by (simp add: Validate_LeaseMetadata_def)
  next
    case (Inr n)
    then have "list_all (\<lambda>tag. length tag \<le> 128) (Tags m)" and "n = ?t + sum_list (map length (Tags m))"
      using validate_tags_Inr [of ?t "Tags m" n] by (auto simp: list_all_iff)
    with Inr show ?thesis by (auto simp: Validate_LeaseMetadata_def)
  qed
qed

end
