(* ===== verification/Access_Policy.thy ===== *)
theory Access_Policy
  imports Service_Types "HOL-Library.Word"
begin

text \<open>
  The relay operator's access decisions, \<open>src/cmd/relay-server/policy/access.go\<close>. A detached
  \<open>AccessState\<close> holds the approval mode, the approved, denied and banned identities and the
  revision of the committed snapshot; \<open>Access\<close> holds the committed one. A set
  \<open>map[ServiceIdentityKey]struct{}\<close> is an association list to \<open>unit\<close> (a nil map is the empty
  list). The component's contract is that no identity is approved and denied at once and
  that only valid keys are stored; the decision function is characterised on every branch,
  and saving the key lists and restoring them reproduces every decision.
\<close>

section \<open>State\<close>

datatype policy_error = InvalidApprovalMode string

type_synonym Mode = string

abbreviation ModeAuto :: Mode where "ModeAuto \<equiv> ''auto''"
abbreviation ModeManual :: Mode where "ModeManual \<equiv> ''manual''"

definition ParseMode :: "string \<Rightarrow> policy_error + Mode" where
  "ParseMode raw = (let mode = TrimSpace raw in
     if mode \<noteq> ModeAuto \<and> mode \<noteq> ModeManual then Inl (InvalidApprovalMode raw) else Inr mode)"

type_synonym key_set = "(ServiceIdentityKey, unit) gomap"

record AccessState =
  revision :: "64 word"
  mode :: Mode
  approved :: key_set
  denied :: key_set
  banned :: key_set

definition NewAccess :: AccessState where
  "NewAccess = \<lparr>revision = 0, mode = '''', approved = [], denied = [], banned = []\<rparr>"

section \<open>Decisions\<close>

definition Mode_of :: "AccessState \<Rightarrow> Mode" where
  "Mode_of s = (if mode s = '''' then ModeAuto else mode s)"

definition SetMode :: "Mode \<Rightarrow> AccessState \<Rightarrow> AccessState" where
  "SetMode m s = s\<lparr>mode := m\<rparr>"

definition EffectiveApproval :: "AccessState \<Rightarrow> ServiceIdentityKey \<Rightarrow> bool" where
  "EffectiveApproval s key = (if Mode_of s = ModeAuto then True else has_key (approved s) key)"

definition IsDenied :: "AccessState \<Rightarrow> ServiceIdentityKey \<Rightarrow> bool" where
  "IsDenied s key = has_key (denied s) key"

definition IsBanned :: "AccessState \<Rightarrow> ServiceIdentityKey \<Rightarrow> bool" where
  "IsBanned s key = has_key (banned s) key"

definition Access :: "AccessState \<Rightarrow> ServiceIdentityKey \<Rightarrow> LeaseAccess" where
  "Access s key =
     (if \<not> Valid key then LeaseRoutable
      else if IsBanned s key \<or> IsDenied s key then LeaseDenied
      else if \<not> EffectiveApproval s key then LeasePending
      else LeaseRoutable)"

section \<open>Operations\<close>

definition Approve :: "ServiceIdentityKey \<Rightarrow> AccessState \<Rightarrow> AccessState" where
  "Approve key s = (if \<not> Valid key then s
     else s\<lparr>approved := put key () (approved s), denied := del key (denied s)\<rparr>)"

definition Revoke :: "ServiceIdentityKey \<Rightarrow> AccessState \<Rightarrow> AccessState" where
  "Revoke key s = s\<lparr>approved := del key (approved s)\<rparr>"

definition Deny :: "ServiceIdentityKey \<Rightarrow> AccessState \<Rightarrow> AccessState" where
  "Deny key s = (if \<not> Valid key then s
     else s\<lparr>denied := put key () (denied s), approved := del key (approved s)\<rparr>)"

definition Undeny :: "ServiceIdentityKey \<Rightarrow> AccessState \<Rightarrow> AccessState" where
  "Undeny key s = s\<lparr>denied := del key (denied s)\<rparr>"

definition Ban :: "ServiceIdentityKey \<Rightarrow> AccessState \<Rightarrow> AccessState" where
  "Ban key s = (if \<not> Valid key then s else s\<lparr>banned := put key () (banned s)\<rparr>)"

definition Unban :: "ServiceIdentityKey \<Rightarrow> AccessState \<Rightarrow> AccessState" where
  "Unban key s = s\<lparr>banned := del key (banned s)\<rparr>"

definition ApprovedKeys :: "AccessState \<Rightarrow> ServiceIdentityKey list" where
  "ApprovedKeys s = map fst (approved s)"

definition DeniedKeys :: "AccessState \<Rightarrow> ServiceIdentityKey list" where
  "DeniedKeys s = map fst (denied s)"

definition BannedKeys :: "AccessState \<Rightarrow> ServiceIdentityKey list" where
  "BannedKeys s = map fst (banned s)"

definition SetDecisions :: "ServiceIdentityKey list \<Rightarrow> ServiceIdentityKey list \<Rightarrow> AccessState \<Rightarrow> AccessState" where
  "SetDecisions approvedKeys deniedKeys s =
     (let s1 = s\<lparr>approved := fold (\<lambda>key m. if Valid key then put key () m else m) approvedKeys [],
                 denied := []\<rparr>
      in fold (\<lambda>key st. if Valid key
                then st\<lparr>approved := del key (approved st), denied := put key () (denied st)\<rparr> else st)
           deniedKeys s1)"

definition SetBannedKeys :: "ServiceIdentityKey list \<Rightarrow> AccessState \<Rightarrow> AccessState" where
  "SetBannedKeys keys s = fold Ban keys (s\<lparr>banned := []\<rparr>)"

text \<open>\<open>Commit\<close> installs a candidate over the committed state, with the next revision (\<open>uint64\<close>).\<close>

definition Commit :: "AccessState \<Rightarrow> AccessState \<Rightarrow> AccessState" where
  "Commit next_state previous = next_state\<lparr>revision := revision previous + 1\<rparr>"

section \<open>Contract: the edits of a transaction\<close>

datatype access_edit =
    EditMode Mode
  | EditApprove ServiceIdentityKey | EditRevoke ServiceIdentityKey
  | EditDeny ServiceIdentityKey | EditUndeny ServiceIdentityKey
  | EditDecisions "ServiceIdentityKey list" "ServiceIdentityKey list"
  | EditBan ServiceIdentityKey | EditUnban ServiceIdentityKey
  | EditBannedKeys "ServiceIdentityKey list"
  | EditCommit AccessState

fun access_step :: "access_edit \<Rightarrow> AccessState \<Rightarrow> AccessState" where
  "access_step (EditMode m) s = SetMode m s"
| "access_step (EditApprove k) s = Approve k s"
| "access_step (EditRevoke k) s = Revoke k s"
| "access_step (EditDeny k) s = Deny k s"
| "access_step (EditUndeny k) s = Undeny k s"
| "access_step (EditDecisions a d) s = SetDecisions a d s"
| "access_step (EditBan k) s = Ban k s"
| "access_step (EditUnban k) s = Unban k s"
| "access_step (EditBannedKeys ks) s = SetBannedKeys ks s"
| "access_step (EditCommit prev) s = Commit s prev"

definition valid_set :: "key_set \<Rightarrow> bool" where
  "valid_set m \<longleftrightarrow> wf_map m \<and> list_all (\<lambda>e. Valid (fst e)) m"

definition access_inv :: "AccessState \<Rightarrow> bool" where
  "access_inv s \<longleftrightarrow> valid_set (approved s) \<and> valid_set (denied s) \<and> valid_set (banned s)
     \<and> (\<forall>k. has_key (approved s) k \<longrightarrow> \<not> has_key (denied s) k)"

lemma valid_set_Nil [simp]: "valid_set []"
  by (simp add: valid_set_def)

lemma valid_set_put [simp]: "valid_set m \<Longrightarrow> Valid k \<Longrightarrow> valid_set (put k () m)"
  by (auto simp: valid_set_def list_all_iff set_put)

lemma valid_set_del [simp]: "valid_set m \<Longrightarrow> valid_set (del k m)"
  by (auto simp: valid_set_def list_all_iff set_del)

lemma valid_set_Valid: "valid_set m \<Longrightarrow> has_key m k \<Longrightarrow> Valid k"
  by (auto simp: valid_set_def list_all_iff has_key_keys)

lemma fold_put_valid_set:
  "valid_set m \<Longrightarrow> valid_set (fold (\<lambda>key m. if Valid key then put key () m else m) ks m)"
  by (induction ks arbitrary: m) auto

lemma lookup_fold_put:
  "has_key (fold (\<lambda>key m. if Valid key then put key () m else m) ks m) k
     \<longleftrightarrow> has_key m k \<or> (k \<in> set ks \<and> Valid k)"
  by (induction ks arbitrary: m) auto

text \<open>Denying a list of keys, the second loop of \<open>SetDecisions\<close>, is a fold of \<open>Deny\<close>.\<close>

lemma SetDecisions_Deny:
  "SetDecisions as ds s = fold Deny ds
     (s\<lparr>approved := fold (\<lambda>key m. if Valid key then put key () m else m) as [], denied := []\<rparr>)"
proof -
  have "(\<lambda>key st. if Valid key then st\<lparr>approved := del key (approved st), denied := put key () (denied st)\<rparr> else st)
    = Deny"
    by (rule ext)+ (simp add: Deny_def)
  then show ?thesis by (simp add: SetDecisions_def Let_def)
qed

lemma access_inv_Approve [inv_intros]: "access_inv s \<Longrightarrow> access_inv (Approve k s)"
  by (auto simp: access_inv_def Approve_def)

lemma access_inv_Revoke [inv_intros]: "access_inv s \<Longrightarrow> access_inv (Revoke k s)"
  by (auto simp: access_inv_def Revoke_def)

lemma access_inv_Deny [inv_intros]: "access_inv s \<Longrightarrow> access_inv (Deny k s)"
  by (auto simp: access_inv_def Deny_def)

lemma access_inv_Undeny [inv_intros]: "access_inv s \<Longrightarrow> access_inv (Undeny k s)"
  by (auto simp: access_inv_def Undeny_def)

lemma access_inv_Ban [inv_intros]: "access_inv s \<Longrightarrow> access_inv (Ban k s)"
  by (auto simp: access_inv_def Ban_def)

lemma access_inv_Unban [inv_intros]: "access_inv s \<Longrightarrow> access_inv (Unban k s)"
  by (auto simp: access_inv_def Unban_def)

lemma access_inv_fold: "(\<And>k s. access_inv s \<Longrightarrow> access_inv (f k s)) \<Longrightarrow> access_inv s \<Longrightarrow> access_inv (fold f ks s)"
  by (induction ks arbitrary: s) auto

lemma access_inv_SetDecisions [inv_intros]: "access_inv s \<Longrightarrow> access_inv (SetDecisions as ds s)"
  unfolding SetDecisions_Deny
  by (rule access_inv_fold [OF access_inv_Deny]) (auto simp: access_inv_def fold_put_valid_set)

lemma access_inv_SetBannedKeys [inv_intros]: "access_inv s \<Longrightarrow> access_inv (SetBannedKeys ks s)"
  unfolding SetBannedKeys_def
  by (rule access_inv_fold [OF access_inv_Ban]) (auto simp: access_inv_def)

lemma access_inv_other [inv_intros]:
  "access_inv s \<Longrightarrow> access_inv (SetMode m s)" "access_inv s \<Longrightarrow> access_inv (Commit s p)"
  by (simp_all add: access_inv_def SetMode_def Commit_def)

interpretation acc: op_system access_step access_inv
proof
  fix s e
  assume "access_inv s"
  then show "access_inv (access_step e s)" by (cases e) (auto intro: inv_intros)
qed

lemma fold_Deny_denied: "has_key (denied (fold Deny ds s)) k \<longleftrightarrow> has_key (denied s) k \<or> (k \<in> set ds \<and> Valid k)"
  by (induction ds arbitrary: s) (auto simp: Deny_def)

lemma fold_Deny_approved:
  "has_key (approved (fold Deny ds s)) k \<longleftrightarrow> has_key (approved s) k \<and> \<not> (k \<in> set ds \<and> Valid k)"
  by (induction ds arbitrary: s) (auto simp: Deny_def)

lemma fold_Deny_frame [simp]: "mode (fold Deny ds s) = mode s" "banned (fold Deny ds s) = banned s"
  by (induction ds arbitrary: s) (simp_all add: Deny_def)

lemma fold_Ban_banned: "has_key (banned (fold Ban ks s)) k \<longleftrightarrow> has_key (banned s) k \<or> (k \<in> set ks \<and> Valid k)"
  by (induction ks arbitrary: s) (auto simp: Ban_def)

lemma fold_Ban_frame [simp]: "mode (fold Ban ks s) = mode s" "approved (fold Ban ks s) = approved s"
  "denied (fold Ban ks s) = denied s"
  by (induction ks arbitrary: s) (simp_all add: Ban_def)

section \<open>Properties\<close>

text \<open>
  Whatever sequence of edits and commits a relay applies to a well-formed access state,
  no identity ever counts as approved and denied at once, and invalid keys are never stored.
\<close>

theorem access_edits_consistent:
  assumes "access_inv s"
  shows "access_inv (fold access_step es s)"
  using assms by (rule acc.run_inv)

theorem access_edits_consistent_witness:
  "access_inv (fold access_step
     [EditApprove (ServiceIdentityKey ''a'' ''0x1''), EditDeny (ServiceIdentityKey ''a'' ''0x1''),
      EditDecisions [ServiceIdentityKey ''b'' ''0x2''] [ServiceIdentityKey ''b'' ''0x2'']] NewAccess)"
  by (rule access_edits_consistent) (simp add: access_inv_def NewAccess_def)

text \<open>The edits that take a ban of \<open>k\<close> away: lifting it, or replacing the list by one without it.\<close>

fun lifts_ban :: "ServiceIdentityKey \<Rightarrow> access_edit \<Rightarrow> bool" where
  "lifts_ban k (EditUnban k') \<longleftrightarrow> k' = k"
| "lifts_ban k (EditBannedKeys ks) \<longleftrightarrow> k \<notin> set ks"
| "lifts_ban k _ \<longleftrightarrow> False"

lemma ban_step: "IsBanned s k \<Longrightarrow> Valid k \<Longrightarrow> \<not> lifts_ban k e \<Longrightarrow> IsBanned (access_step e s) k"
  by (cases e) (auto simp: IsBanned_def SetMode_def Approve_def Revoke_def Deny_def Undeny_def SetDecisions_Deny
      Ban_def Unban_def SetBannedKeys_def fold_Ban_banned Commit_def)

lemma ban_run: "IsBanned s k \<Longrightarrow> Valid k \<Longrightarrow> list_all (\<lambda>e. \<not> lifts_ban k e) es \<Longrightarrow> IsBanned (fold access_step es s) k"
  by (induction es arbitrary: s) (auto intro: ban_step)

text \<open>
  A ban outranks everything else. Once an identity is banned it is denied, whatever
  approvals, modes, decision lists, commits or bans of others follow, until an edit lifts that
  ban; an approval given in between takes effect only then.
\<close>

theorem ban_outlives_edits:
  assumes "Valid k" and "list_all (\<lambda>e. \<not> lifts_ban k e) es"
  shows "Access (fold access_step es (Ban k s)) k = LeaseDenied
     \<and> Access (Unban k (Approve k (fold access_step es (Ban k s)))) k = LeaseRoutable"
proof -
  have "IsBanned (Ban k s) k" using assms(1) by (simp add: IsBanned_def Ban_def)
  from ban_run [OF this assms] show ?thesis using assms(1)
    by (simp add: Access_def Approve_def Unban_def IsBanned_def IsDenied_def EffectiveApproval_def)
qed

theorem ban_outlives_edits_witness:
  "let k = ServiceIdentityKey ''a'' ''0x1'';
       s = fold access_step [EditApprove k, EditBannedKeys [k], EditMode ModeAuto, EditUnban (ServiceIdentityKey ''b'' ''0x2'')] (Ban k NewAccess)
   in Access s k = LeaseDenied \<and> Access (Unban k (Approve k s)) k = LeaseRoutable"
  unfolding Let_def by (rule ban_outlives_edits) (simp_all add: Valid_def)

text \<open>
  Persisting the approved, denied and banned key lists and restoring them into any other
  state with the same mode reproduces the decision for every identity.
\<close>

theorem decisions_persist_roundtrip:
  assumes "access_inv s" and "mode t = mode s"
  shows "Access (SetBannedKeys (BannedKeys s) (SetDecisions (ApprovedKeys s) (DeniedKeys s) t)) k = Access s k"
proof -
  let ?t = "SetBannedKeys (BannedKeys s) (SetDecisions (ApprovedKeys s) (DeniedKeys s) t)"
  have v: "valid_set m \<Longrightarrow> has_key m k \<and> Valid k \<longleftrightarrow> has_key m k" for m
    using valid_set_Valid by blast
  from assms(1) have vs: "valid_set (approved s)" "valid_set (denied s)" "valid_set (banned s)"
    and dj: "has_key (approved s) k \<longrightarrow> \<not> has_key (denied s) k"
    by (auto simp: access_inv_def)
  have "has_key (approved ?t) k \<longleftrightarrow> has_key (approved s) k"
    using dj by (simp add: SetBannedKeys_def SetDecisions_Deny fold_Deny_approved lookup_fold_put
        ApprovedKeys_def DeniedKeys_def has_key_keys [symmetric] v vs del: set_map list.set_map) blast
  moreover have "has_key (denied ?t) k \<longleftrightarrow> has_key (denied s) k"
    by (simp add: SetBannedKeys_def SetDecisions_Deny fold_Deny_denied
        DeniedKeys_def has_key_keys [symmetric] v vs del: set_map list.set_map)
  moreover have "has_key (banned ?t) k \<longleftrightarrow> has_key (banned s) k"
    by (simp add: SetBannedKeys_def fold_Ban_banned BannedKeys_def has_key_keys [symmetric] v vs
        del: set_map list.set_map)
  moreover have "mode ?t = mode s"
    using assms(2) by (simp add: SetBannedKeys_def SetDecisions_Deny)
  ultimately show ?thesis
    by (simp add: Access_def IsBanned_def IsDenied_def EffectiveApproval_def Mode_of_def)
qed

theorem decisions_persist_roundtrip_witness:
  "Access (SetBannedKeys (BannedKeys (Deny (ServiceIdentityKey ''a'' ''0x1'') NewAccess))
     (SetDecisions (ApprovedKeys (Deny (ServiceIdentityKey ''a'' ''0x1'') NewAccess))
        (DeniedKeys (Deny (ServiceIdentityKey ''a'' ''0x1'') NewAccess)) NewAccess))
     (ServiceIdentityKey ''a'' ''0x1'') = LeaseDenied"
proof -
  let ?k = "ServiceIdentityKey ''a'' ''0x1''"
  have i: "access_inv (Deny ?k NewAccess)"
    by (intro inv_intros) (simp add: access_inv_def NewAccess_def)
  have m: "mode NewAccess = mode (Deny ?k NewAccess)" by (simp add: Deny_def)
  have d: "Access (Deny ?k NewAccess) ?k = LeaseDenied"
    by (simp add: Access_def Deny_def Valid_def IsDenied_def)
  show ?thesis using decisions_persist_roundtrip [OF i m, of ?k] d by simp
qed

end
