(* ===== verification/Port_Pool.thy ===== *)
theory Port_Pool
  imports Service_Types "HOL-Library.Multiset"
begin

text \<open>
  The registry's port pools, \<open>portPool\<close> of \<open>src/portal/lease.go\<close>: a queue of free ports, the
  ports in use with their owning lease record, and the ports reserved for an identity during
  a grace period. A lease record is known to the pool by its address (\<open>ref\<close>) and its service
  key. Each \<open>time.Now()\<close> is an argument; \<open>release\<close> reads the clock twice.

  Shown: every port of the configured range is at every moment in exactly one of the three
  places (conservation), allocation is exclusive, a reservation gives its identity the same
  port back, a late or repeated release changes nothing. The locale \<open>port_allocator\<close> is the
  contract the lease registry relies on; the pool interprets it.
\<close>

section \<open>State\<close>

record portReservation =
  port :: int
  expiresAt :: go_time

record portAllocation =
  alloc_record :: nat
  reservation :: portReservation

record portPool =
  available :: "int list"
  inUse :: "(int, portAllocation) gomap"
  reserved :: "(ServiceIdentityKey, portReservation) gomap"
  grace :: duration

datatype port_error = PortExhausted

abbreviation noReservation :: portReservation where
  "noReservation \<equiv> \<lparr>port = 0, expiresAt = 0\<rparr>"

section \<open>Operations\<close>

definition newPortPool :: "int \<Rightarrow> int \<Rightarrow> duration \<Rightarrow> portPool" where
  "newPortPool mn mx g =
     (if mn \<le> 0 \<or> mx \<le> 0 \<or> mn > mx
      then \<lparr>available = [], inUse = [], reserved = [], grace = g\<rparr>
      else \<lparr>available = [mn..mx], inUse = [], reserved = [], grace = g\<rparr>)"

definition cleanupExpired :: "go_time \<Rightarrow> portPool \<Rightarrow> portPool" where
  "cleanupExpired now a =
     a\<lparr>reserved := del_where (\<lambda>key res. After now (expiresAt res)) (reserved a),
       available := available a
         @ map (\<lambda>(key, res). port res) (filter (\<lambda>(key, res). After now (expiresAt res)) (reserved a))\<rparr>"

definition allocate :: "nat \<Rightarrow> ServiceIdentityKey \<Rightarrow> go_time \<Rightarrow> portPool \<Rightarrow> (port_error + int) \<times> portPool" where
  "allocate ref key now a0 =
     (let a = cleanupExpired now a0 in
      case lookup (reserved a) key of
        Some res \<Rightarrow>
          (Inr (port res),
           a\<lparr>reserved := del key (reserved a),
             inUse := put (port res) \<lparr>alloc_record = ref, reservation = res\<rparr> (inUse a)\<rparr>)
      | None \<Rightarrow>
          (case available a of
             [] \<Rightarrow> (Inl PortExhausted, a)
           | p # rest \<Rightarrow>
               (Inr p, a\<lparr>available := rest,
                  inUse := put p \<lparr>alloc_record = ref, reservation = noReservation\<rparr> (inUse a)\<rparr>)))"

definition rollback :: "int \<Rightarrow> nat \<Rightarrow> ServiceIdentityKey \<Rightarrow> go_time \<Rightarrow> portPool \<Rightarrow> portPool" where
  "rollback p ref key now a =
     (case lookup (inUse a) p of
        None \<Rightarrow> a
      | Some allocation \<Rightarrow>
          if alloc_record allocation \<noteq> ref then a
          else
            let a1 = a\<lparr>inUse := del p (inUse a)\<rparr>; res = reservation allocation in
            if port res \<noteq> 0 \<and> Before now (expiresAt res) \<and> \<not> has_key (reserved a1) key
            then a1\<lparr>reserved := put key res (reserved a1)\<rparr>
            else a1\<lparr>available := available a1 @ [p]\<rparr>)"

definition release :: "int \<Rightarrow> nat \<Rightarrow> ServiceIdentityKey \<Rightarrow> go_time \<Rightarrow> go_time \<Rightarrow> portPool \<Rightarrow> portPool" where
  "release p ref key now1 now2 a =
     (case lookup (inUse a) p of
        None \<Rightarrow> a
      | Some allocation \<Rightarrow>
          if alloc_record allocation \<noteq> ref then a
          else
            let a1 = a\<lparr>inUse := del p (inUse a)\<rparr>;
                a2 = (case lookup (reserved a1) key of
                        Some prev \<Rightarrow> a1\<lparr>available := available a1 @ [port prev]\<rparr>
                      | None \<Rightarrow> a1);
                a3 = a2\<lparr>reserved := put key \<lparr>port = p, expiresAt = now1 + grace a2\<rparr> (reserved a2)\<rparr>
            in cleanupExpired now2 a3)"

section \<open>Conservation\<close>

definition ports :: "portPool \<Rightarrow> int multiset" where
  "ports a = mset (available a) + mset (map fst (inUse a)) + mset (map (port \<circ> snd) (reserved a))"

definition pool_inv :: "int set \<Rightarrow> portPool \<Rightarrow> bool" where
  "pool_inv R a \<longleftrightarrow> finite R \<and> 0 \<notin> R \<and> ports a = mset_set R \<and> wf_map (inUse a) \<and> wf_map (reserved a)
     \<and> (\<forall>(p, al) \<in> set (inUse a). port (reservation al) = 0 \<or> port (reservation al) = p)"

lemma ports_cleanupExpired [simp]: "ports (cleanupExpired now a) = ports a"
proof -
  let ?P = "\<lambda>(key :: ServiceIdentityKey) res. After now (expiresAt res)"
  have "image_mset (port \<circ> snd) (mset (reserved a)) =
      image_mset (port \<circ> snd) (mset (del_where ?P (reserved a)))
      + image_mset (port \<circ> snd) (mset (filter (\<lambda>(k, v). ?P k v) (reserved a)))"
    by (subst mset_split_where [of _ ?P]) simp
  moreover have "(\<lambda>(key, res). port res) = (port \<circ> snd :: ServiceIdentityKey \<times> portReservation \<Rightarrow> int)"
    by auto
  ultimately show ?thesis by (simp add: ports_def cleanupExpired_def ac_simps)
qed

lemma pool_inv_cleanupExpired: "pool_inv R a \<Longrightarrow> pool_inv R (cleanupExpired now a)"
  by (simp add: pool_inv_def) (simp add: cleanupExpired_def)

lemma cleanupExpired_fields [simp]:
  "inUse (cleanupExpired now a) = inUse a" "grace (cleanupExpired now a) = grace a"
  by (simp_all add: cleanupExpired_def)

lemma ports_not_inUse_twice:
  assumes "pool_inv R a" and "p \<in># mset (available a) + mset (map (port \<circ> snd) (reserved a))"
  shows "\<not> has_key (inUse a) p"
proof
  assume "has_key (inUse a) p"
  then have "p \<in># mset (map fst (inUse a))" by (simp add: has_key_keys)
  then have "1 \<le> count (mset (map fst (inUse a))) p" by (simp only: count_greater_eq_one_iff)
  moreover from assms(2) have "1 \<le> count (mset (available a) + mset (map (port \<circ> snd) (reserved a))) p"
    by (simp only: count_greater_eq_one_iff)
  ultimately have "2 \<le> count (ports a) p" unfolding ports_def count_union by linarith
  moreover from assms(1) have "count (ports a) p \<le> 1"
    by (simp add: pool_inv_def count_mset_set')
  ultimately show False by simp
qed

lemma pool_inv_allocate [inv_intros]:
  assumes inv: "pool_inv R a0" and alloc: "allocate ref key now a0 = (r, a')"
  shows "pool_inv R a'"
proof -
  let ?a = "cleanupExpired now a0"
  have inva: "pool_inv R ?a" using inv by (rule pool_inv_cleanupExpired)
  show ?thesis
  proof (cases "lookup (reserved ?a) key")
    case (Some res)
    then have "(key, res) \<in> set (reserved ?a)" by (rule map_of_SomeD)
    then have "\<not> has_key (inUse ?a) (port res)"
      by (intro ports_not_inUse_twice [OF inva]) force
    with Some alloc inva show ?thesis
      by (auto simp: allocate_def Let_def pool_inv_def ports_def mset_put_fresh set_put mset_del [of "reserved ?a"])
  next
    case None
    show ?thesis
    proof (cases "available ?a")
      case Nil
      with None alloc inva show ?thesis by (simp add: allocate_def)
    next
      case (Cons p rest)
      then have "\<not> has_key (inUse ?a) p" by (intro ports_not_inUse_twice [OF inva]) simp
      with None Cons alloc inva show ?thesis
        by (auto simp: allocate_def Let_def pool_inv_def ports_def mset_put_fresh set_put)
    qed
  qed
qed

lemma pool_inv_drop_inUse:
  assumes "pool_inv R a" and "lookup (inUse a) p = Some al"
  shows "ports a = add_mset p (ports (a\<lparr>inUse := del p (inUse a)\<rparr>))"
    and "port (reservation al) = 0 \<or> port (reservation al) = p"
  using assms mset_del [of "inUse a" p al] map_of_SomeD [OF assms(2)]
  by (auto simp: pool_inv_def ports_def)

lemma pool_inv_rollback [inv_intros]: "pool_inv R a \<Longrightarrow> pool_inv R (rollback p ref key now a)"
proof (cases "lookup (inUse a) p")
  case (Some al)
  assume inv: "pool_inv R a"
  note drop = pool_inv_drop_inUse [OF inv Some]
  show ?thesis
    using inv Some drop
    by (auto simp: rollback_def Let_def pool_inv_def ports_def mset_put_fresh set_put set_del)
qed (simp add: rollback_def)

lemma pool_inv_release [inv_intros]: "pool_inv R a \<Longrightarrow> pool_inv R (release p ref key now1 now2 a)"
proof (cases "lookup (inUse a) p")
  case (Some al)
  assume inv: "pool_inv R a"
  let ?a1 = "a\<lparr>inUse := del p (inUse a)\<rparr>"
  let ?a2 = "case lookup (reserved ?a1) key of
      Some prev \<Rightarrow> ?a1\<lparr>available := available ?a1 @ [port prev]\<rparr> | None \<Rightarrow> ?a1"
  let ?a3 = "?a2\<lparr>reserved := put key \<lparr>port = p, expiresAt = now1 + grace ?a2\<rparr> (reserved ?a2)\<rparr>"
  note drop = pool_inv_drop_inUse [OF inv Some]
  have "pool_inv R ?a3"
  proof (cases "lookup (reserved a) key")
    case None
    moreover from this have "\<not> has_key (reserved a) key" by (simp add: has_key_def)
    ultimately show ?thesis using inv drop
      by (auto simp: pool_inv_def ports_def mset_put_fresh set_put set_del)
  next
    case prev: (Some prev)
    with inv drop show ?thesis
      using mset_del [of "reserved a" key prev]
      by (auto simp: pool_inv_def ports_def mset_put set_del add_mset_commute)
  qed
  then have "pool_inv R (cleanupExpired now2 ?a3)" by (rule pool_inv_cleanupExpired)
  with inv Some show ?thesis by (simp add: release_def Let_def)
qed (simp add: release_def)

lemma pool_inv_new: "pool_inv (if mn \<le> 0 \<or> mx \<le> 0 then {} else {mn..mx}) (newPortPool mn mx g)"
proof -
  have "mset [mn..mx] = mset_set {mn..mx}"
    using mset_set_set [OF distinct_upto, of mn mx] by simp
  then show ?thesis by (auto simp: pool_inv_def newPortPool_def ports_def)
qed


section \<open>The contract of a port allocator\<close>

text \<open>
  What the lease registry relies on: an allocation hands out a port nobody holds, only the
  record that holds a port can give it back, and no operation touches the ports of others.
\<close>

locale port_allocator =
  fixes alloc :: "'r \<Rightarrow> 'k \<Rightarrow> 't \<Rightarrow> 's \<Rightarrow> ('e + 'p) \<times> 's"
    and give_back :: "'p \<Rightarrow> 'r \<Rightarrow> 'k \<Rightarrow> 't \<Rightarrow> 's \<Rightarrow> 's"
    and retire :: "'p \<Rightarrow> 'r \<Rightarrow> 'k \<Rightarrow> 't \<Rightarrow> 't \<Rightarrow> 's \<Rightarrow> 's"
    and owner :: "'s \<Rightarrow> 'p \<Rightarrow> 'r option"
    and wf :: "'s \<Rightarrow> bool"
  assumes wf_alloc: "wf s \<Longrightarrow> alloc r k t s = (res, s') \<Longrightarrow> wf s'"
    and wf_give_back: "wf s \<Longrightarrow> wf (give_back p r k t s)"
    and wf_retire: "wf s \<Longrightarrow> wf (retire p r k t u s)"
    and alloc_ok: "wf s \<Longrightarrow> alloc r k t s = (Inr p, s') \<Longrightarrow> owner s p = None \<and> owner s' = (owner s)(p := Some r)"
    and alloc_err: "wf s \<Longrightarrow> alloc r k t s = (Inl e, s') \<Longrightarrow> owner s' = owner s"
    and give_back_owner: "wf s \<Longrightarrow> owner (give_back p r k t s) = (if owner s p = Some r then (owner s)(p := None) else owner s)"
    and retire_owner: "wf s \<Longrightarrow> owner (retire p r k t u s) = (if owner s p = Some r then (owner s)(p := None) else owner s)"
begin

lemma alloc_keeps: "wf s \<Longrightarrow> alloc r' k t s = (res, s') \<Longrightarrow> owner s p = Some r \<Longrightarrow> owner s' p = Some r"
  by (cases res) (use alloc_ok alloc_err in fastforce)+

lemma give_back_keeps: "wf s \<Longrightarrow> r' \<noteq> r \<Longrightarrow> owner s p = Some r \<Longrightarrow> owner (give_back q r' k t s) p = Some r"
  by (auto simp: give_back_owner)

lemma retire_keeps: "wf s \<Longrightarrow> r' \<noteq> r \<Longrightarrow> owner s p = Some r \<Longrightarrow> owner (retire q r' k t u s) p = Some r"
  by (auto simp: retire_owner)

lemma retire_twice: "wf s \<Longrightarrow> owner (retire p r k t' u' (retire p r k t u s)) = owner (retire p r k t u s)"
  by (auto simp: retire_owner wf_retire)

end

definition holder :: "portPool \<Rightarrow> int \<Rightarrow> nat option" where
  "holder a p = map_option alloc_record (lookup (inUse a) p)"

definition pool_wf :: "portPool \<Rightarrow> bool" where
  "pool_wf a \<longleftrightarrow> pool_inv (set_mset (ports a)) a"

lemma pool_inv_wf: "pool_inv R a \<Longrightarrow> pool_wf a"
  by (simp add: pool_wf_def) (simp add: pool_inv_def)

lemma pool_wf_inv: "pool_wf a \<Longrightarrow> pool_inv (set_mset (ports a)) a"
  by (simp add: pool_wf_def)

lemma allocate_owner:
  assumes "pool_inv R a0" and "allocate ref key now a0 = (Inr p, a')"
  shows "holder a0 p = None \<and> holder a' = (holder a0)(p := Some ref)"
proof -
  let ?a = "cleanupExpired now a0"
  have inv: "pool_inv R ?a" using assms(1) by (rule pool_inv_cleanupExpired)
  have "p \<in># mset (available ?a) + mset (map (port \<circ> snd) (reserved ?a))"
    using assms(2) by (force simp: allocate_def Let_def split: option.splits list.splits dest: map_of_SomeD)
  then have "\<not> has_key (inUse ?a) p" by (rule ports_not_inUse_twice [OF inv])
  then show ?thesis using assms(2)
    by (auto simp: holder_def allocate_def Let_def has_key_def fun_eq_iff split: option.splits list.splits)
qed

lemma allocate_exhausted:
  "allocate ref key now a0 = (Inl e, a') \<Longrightarrow> inUse a' = inUse a0 \<and> available a' = [] \<and> \<not> has_key (reserved a') key"
  by (auto simp: allocate_def Let_def has_key_def split: option.splits list.splits)

lemma release_inUse:
  "inUse (release p ref key n1 n2 a) = (if holder a p = Some ref then del p (inUse a) else inUse a)"
  by (auto simp: release_def holder_def Let_def split: option.splits)

lemma rollback_inUse:
  "inUse (rollback p ref key now a) = (if holder a p = Some ref then del p (inUse a) else inUse a)"
  by (auto simp: rollback_def holder_def Let_def split: option.splits)

lemma holder_del: "holder (a\<lparr>inUse := del p (inUse a)\<rparr>) = (holder a)(p := None)"
  by (auto simp: holder_def fun_eq_iff)

lemma holder_inUse: "inUse a = inUse b \<Longrightarrow> holder a = holder b"
  by (simp add: holder_def fun_eq_iff)

interpretation pp: port_allocator allocate rollback release holder pool_wf
proof
  fix s s' r k t u p e res
  assume wf: "pool_wf s"
  note inv = pool_wf_inv [OF wf]
  show "allocate r k t s = (res, s') \<Longrightarrow> pool_wf s'"
    using pool_inv_allocate [OF inv] pool_inv_wf by blast
  show "pool_wf (rollback p r k t s)" using pool_inv_rollback [OF inv] by (rule pool_inv_wf)
  show "pool_wf (release p r k t u s)" using pool_inv_release [OF inv] by (rule pool_inv_wf)
  show "allocate r k t s = (Inr p, s') \<Longrightarrow> holder s p = None \<and> holder s' = (holder s)(p := Some r)"
    by (rule allocate_owner [OF inv])
  show "allocate r k t s = (Inl e, s') \<Longrightarrow> holder s' = holder s"
    by (rule holder_inUse) (simp add: allocate_exhausted)
  show "holder (rollback p r k t s) = (if holder s p = Some r then (holder s)(p := None) else holder s)"
    by (auto simp: holder_def rollback_inUse fun_eq_iff)
  show "holder (release p r k t u s) = (if holder s p = Some r then (holder s)(p := None) else holder s)"
    by (auto simp: holder_def release_inUse fun_eq_iff)
qed

datatype pool_op =
    PoolAllocate nat ServiceIdentityKey go_time
  | PoolRollback int nat ServiceIdentityKey go_time
  | PoolRelease int nat ServiceIdentityKey go_time go_time

fun pool_step :: "pool_op \<Rightarrow> portPool \<Rightarrow> portPool" where
  "pool_step (PoolAllocate r k t) a = snd (allocate r k t a)"
| "pool_step (PoolRollback p r k t) a = rollback p r k t a"
| "pool_step (PoolRelease p r k t u) a = release p r k t u a"

interpretation pool: op_system pool_step "pool_inv R"
proof
  fix s e
  assume "pool_inv R s"
  then show "pool_inv R (pool_step e s)"
    by (cases e) (auto intro: inv_intros simp: prod_eq_iff)
qed

section \<open>Properties\<close>

text \<open>
  C34: conservation of ports. Whatever leases allocate, roll back and release, in any order,
  each port of the configured range is in exactly one place: free, in use, or reserved; no
  port outside the range ever appears, and none is lost.
\<close>

theorem pool_conserves_ports:
  assumes "0 < mn" and "mn \<le> mx"
  shows "ports (fold pool_step ops (newPortPool mn mx g)) = mset_set {mn..mx}"
proof -
  have "pool_inv {mn..mx} (newPortPool mn mx g)"
    using pool_inv_new [of mn mx g] assms by simp
  from pool.run_inv [OF this] show ?thesis by (simp add: pool_inv_def)
qed

theorem pool_conserves_ports_witness:
  "ports (fold pool_step
     [PoolAllocate 1 (ServiceIdentityKey ''a'' ''0x1'') 5, PoolRelease 40 1 (ServiceIdentityKey ''a'' ''0x1'') 6 7,
      PoolAllocate 2 (ServiceIdentityKey ''b'' ''0x2'') 8, PoolRollback 41 2 (ServiceIdentityKey ''b'' ''0x2'') 9]
     (newPortPool 40 42 300)) = mset_set {40..42}"
  by (rule pool_conserves_ports) simp_all

fun by_other :: "nat \<Rightarrow> pool_op \<Rightarrow> bool" where
  "by_other r (PoolAllocate r' k t) \<longleftrightarrow> True"
| "by_other r (PoolRollback p r' k t) \<longleftrightarrow> r' \<noteq> r"
| "by_other r (PoolRelease p r' k t u) \<longleftrightarrow> r' \<noteq> r"

lemma pool_step_keeps: "pool_wf a \<Longrightarrow> by_other r e \<Longrightarrow> holder a p = Some r \<Longrightarrow> holder (pool_step e a) p = Some r"
  by (cases e) (auto intro: pp.give_back_keeps pp.retire_keeps pp.alloc_keeps simp: prod_eq_iff)

lemma pool_step_wf: "pool_wf a \<Longrightarrow> pool_wf (pool_step e a)"
  by (cases e) (auto intro: pp.wf_alloc pp.wf_give_back pp.wf_retire simp: prod_eq_iff)

lemma pool_run_keeps:
  "pool_wf a \<Longrightarrow> list_all (by_other r) ops \<Longrightarrow> holder a p = Some r \<Longrightarrow> holder (fold pool_step ops a) p = Some r"
  by (induction ops arbitrary: a) (auto simp: pool_step_keeps pool_step_wf)

lemma holder_in_range:
  assumes "pool_inv R a" and "holder a p = Some r"
  shows "p \<in> R"
proof -
  from assms(2) obtain al where "(p, al) \<in> set (inUse a)"
    by (auto simp: holder_def dest: map_of_SomeD)
  then have "p \<in># ports a" by (force simp: ports_def)
  with assms(1) show ?thesis by (simp add: pool_inv_def)
qed

text \<open>
  Exclusive ownership. A successful allocation returns a port that no record held, and
  from then on, through any operations of other records, the port stays with its record: a
  late or repeated cleanup of another lease cannot free it.
\<close>

theorem allocation_exclusive:
  assumes "pool_inv R a" and "allocate r k t a = (Inr p, a')" and "list_all (by_other r) ops"
  shows "holder a p = None \<and> p \<in> R \<and> holder (fold pool_step ops a') p = Some r"
proof -
  have wf: "pool_wf a" using assms(1) by (rule pool_inv_wf)
  from allocate_owner [OF assms(1,2)] have own: "holder a p = None" "holder a' p = Some r" by auto
  have "pool_inv R a'" using assms(1,2) by (rule pool_inv_allocate)
  then have "p \<in> R" using own(2) by (rule holder_in_range)
  with own pool_run_keeps [OF pp.wf_alloc [OF wf assms(2)] assms(3) own(2)] show ?thesis by simp
qed

theorem allocation_exclusive_witness:
  "holder (fold pool_step [PoolAllocate 2 (ServiceIdentityKey ''b'' ''0x2'') 8, PoolRelease 40 2 (ServiceIdentityKey ''b'' ''0x2'') 9 9]
     (snd (allocate 1 (ServiceIdentityKey ''a'' ''0x1'') 5 (newPortPool 40 42 300)))) 40 = Some 1"
proof -
  let ?k = "ServiceIdentityKey ''a'' ''0x1''"
  let ?a' = "snd (allocate 1 ?k 5 (newPortPool 40 42 300))"
  have inv: "pool_inv {40..42} (newPortPool 40 42 300)" using pool_inv_new [of 40 42 300] by simp
  have al: "allocate 1 ?k 5 (newPortPool 40 42 300) = (Inr 40, ?a')"
    by (simp add: allocate_def newPortPool_def cleanupExpired_def del_where_def Let_def upto.simps)
  show ?thesis
    using allocation_exclusive [OF inv al, of "[PoolAllocate 2 (ServiceIdentityKey ''b'' ''0x2'') 8,
      PoolRelease 40 2 (ServiceIdentityKey ''b'' ''0x2'') 9 9]"] by simp
qed

lemma release_reserves:
  assumes "pool_inv R a" and "holder a p = Some r" and "n2 \<le> n1 + grace a"
  shows "lookup (reserved (release p r k n1 n2 a)) k = Some \<lparr>port = p, expiresAt = n1 + grace a\<rparr>"
proof -
  from assms(2) obtain al where al: "lookup (inUse a) p = Some al" "alloc_record al = r"
    by (auto simp: holder_def)
  from assms(1) have "wf_map (reserved a)" by (simp add: pool_inv_def)
  then show ?thesis using al assms(3)
    by (auto simp: release_def Let_def cleanupExpired_def lookup_del_where split: option.splits)
qed

text \<open>
  Stable ports across a reconnect. After a lease releases its port, the same identity
  gets that very port again at any time until the grace period ends, and rolling that second
  allocation back before the end leaves the reservation in place with its original expiry.
\<close>

theorem reservation_reclaimed:
  assumes "pool_inv R a" and "holder a p = Some r" and "n2 \<le> n1 + grace a"
    and "t \<le> n1 + grace a" and "u < n1 + grace a"
  shows "\<exists>a'. allocate r' k t (release p r k n1 n2 a) = (Inr p, a')
     \<and> lookup (reserved (rollback p r' k u a')) k = Some \<lparr>port = p, expiresAt = n1 + grace a\<rparr>"
proof -
  let ?b = "release p r k n1 n2 a"
  let ?res = "\<lparr>port = p, expiresAt = n1 + grace a\<rparr>"
  have p0: "p \<noteq> 0" using holder_in_range [OF assms(1,2)] assms(1) by (auto simp: pool_inv_def)
  have wfr: "wf_map (reserved ?b)"
    using pool_inv_release [OF assms(1)] by (simp add: pool_inv_def)
  have "lookup (reserved (cleanupExpired t ?b)) k = Some ?res"
    using release_reserves [OF assms(1-3)] wfr assms(4)
    by (simp add: cleanupExpired_def lookup_del_where)
  then show ?thesis
    using p0 assms(5) by (simp add: allocate_def Let_def rollback_def)
qed

theorem reservation_reclaimed_witness:
  "\<exists>a'. allocate 2 (ServiceIdentityKey ''a'' ''0x1'') 200
      (release 40 1 (ServiceIdentityKey ''a'' ''0x1'') 6 7
        (snd (allocate 1 (ServiceIdentityKey ''a'' ''0x1'') 5 (newPortPool 40 42 300)))) = (Inr 40, a')
    \<and> lookup (reserved (rollback 40 2 (ServiceIdentityKey ''a'' ''0x1'') 250 a')) (ServiceIdentityKey ''a'' ''0x1'')
        = Some \<lparr>port = 40, expiresAt = 306\<rparr>"
proof -
  let ?k = "ServiceIdentityKey ''a'' ''0x1''"
  let ?a = "snd (allocate 1 ?k 5 (newPortPool 40 42 300))"
  have "pool_inv {40..42} (newPortPool 40 42 300)" using pool_inv_new [of 40 42 300] by simp
  then have inv: "pool_inv {40..42} ?a" by (rule pool_inv_allocate) (rule surjective_pairing)
  have h: "holder ?a 40 = Some 1" "grace ?a = 300"
    by (simp_all add: holder_def allocate_def newPortPool_def cleanupExpired_def del_where_def Let_def upto.simps)
  show ?thesis using reservation_reclaimed [OF inv h(1), of 7 6 200 250 2 ?k] h(2) by simp
qed

end
