(* ===== verification/Datagram_Codec.thy ===== *)
theory Datagram_Codec
  imports Prelude "HOL-Library.Word"
begin

text \<open>
  The flow-framed datagrams of \<open>src/types/transport.go\<close>: a flow number as an unsigned varint
  followed by the payload. The varint routines are Go's \<open>encoding/binary\<close>, on 64-bit words.
  Shown: decoding inverts encoding for every 32-bit flow number and payload, a frame adds at
  most five bytes (so a payload within the limit fits the smallest QUIC packet), and a decoded
  payload is always a suffix of the input.
\<close>

unbundle bit_operations_syntax

type_synonym byte = "8 word"
type_synonym bytes = "byte list"
type_synonym u32 = "32 word"
type_synonym u64 = "64 word"

section \<open>Constants\<close>

definition MaxVarintLen32 :: nat where "MaxVarintLen32 = 5"
definition MaxVarintLen64 :: nat where "MaxVarintLen64 = 10"
definition QUICInitialPacketSize :: nat where "QUICInitialPacketSize = 1280"
definition MaxUDPPayloadSize :: nat where
  "MaxUDPPayloadSize = QUICInitialPacketSize - 37 - MaxVarintLen32"

lemma unat_drop7: "unat (drop_bit 7 (x :: u64)) = unat x div 128"
  by (simp only: unat_drop_bit_eq drop_bit_eq_div) (simp add: unat_div)

section \<open>Varints of \<open>encoding/binary\<close>\<close>

function PutUvarint :: "u64 \<Rightarrow> bytes" where
  "PutUvarint x = (if x \<ge> 128 then (ucast x OR 128) # PutUvarint (drop_bit 7 x) else [ucast x])"
  by pat_completeness auto
termination
proof (relation "measure unat")
  fix x :: u64
  assume "128 \<le> x"
  then have "128 \<le> unat x" by (simp add: word_le_nat_alt)
  then show "(drop_bit 7 x, x) \<in> measure unat"
    by (simp add: unat_drop7 del: drop_bit_numeral_bit0)
qed simp

declare PutUvarint.simps [simp del]

text \<open>\<open>Uvarint\<close>: the value and the number of bytes read; 0 when the input ends early, negative on overflow.\<close>

fun Uvarint_loop :: "nat \<Rightarrow> u64 \<Rightarrow> nat \<Rightarrow> bytes \<Rightarrow> u64 \<times> int" where
  "Uvarint_loop i x s [] = (0, 0)"
| "Uvarint_loop i x s (b # bs) =
     (if i = MaxVarintLen64 then (0, - int (i + 1))
      else if b < 128 then
        (if i = MaxVarintLen64 - 1 \<and> b > 1 then (0, - int (i + 1))
         else (x OR push_bit s (ucast b), int (i + 1)))
      else Uvarint_loop (i + 1) (x OR push_bit s (ucast (b AND 127))) (s + 7) bs)"

definition Uvarint :: "bytes \<Rightarrow> u64 \<times> int" where
  "Uvarint buf = Uvarint_loop 0 0 0 buf"

section \<open>Frames\<close>

datatype codec_error = DatagramTooSmall | DatagramFlowIDOverflow

text \<open>\<open>LeaseDone\<close> is a channel; it is known by its address.\<close>

record DatagramFrame =
  FlowID :: u32
  Payload :: bytes
  FrameAddress :: string
  RelayURL :: string
  UDPAddr :: string
  LeaseDone :: "nat option"

definition EncodeDatagram :: "u32 \<Rightarrow> bytes \<Rightarrow> bytes" where
  "EncodeDatagram flowID payload = PutUvarint (ucast flowID) @ payload"

definition DecodeDatagram :: "bytes \<Rightarrow> codec_error + DatagramFrame" where
  "DecodeDatagram data =
     (let (flowID, n) = Uvarint data in
      if n \<le> 0 then Inl DatagramTooSmall
      else if flowID > ucast (NOT 0 :: u32) then Inl DatagramFlowIDOverflow
      else Inr \<lparr>FlowID = ucast flowID, Payload = drop (nat n) data,
                FrameAddress = '''', RelayURL = '''', UDPAddr = '''', LeaseDone = None\<rparr>)"

section \<open>Varint lemmas\<close>

lemma low7_of_continuation: "ucast (((ucast x :: byte) OR 128) AND 127) = (x AND 127 :: u64)"
proof (rule bit_word_eqI)
  fix n
  assume "n < LENGTH(64)"
  have "bit (128 :: byte) n \<longleftrightarrow> n = 7" "bit (127 :: byte) n \<longleftrightarrow> n < 7" "bit (127 :: u64) n \<longleftrightarrow> n < 7"
    using bit_exp_iff [of 7 n, where 'a = byte] bit_mask_iff [of 7 n, where 'a = byte]
      bit_mask_iff [of 7 n, where 'a = u64]
    by (auto simp: mask_eq_exp_minus_1)
  then show "bit (ucast (((ucast x :: byte) OR 128) AND 127) :: u64) n = bit (x AND 127) n"
    by (auto simp: bit_simps)
qed

lemma continuation_ge: "\<not> ((ucast x :: byte) OR 128) < 128"
proof -
  have "(128 :: byte) \<le> 128 OR ucast x" by (rule le_word_or2)
  then show ?thesis by (simp add: or.commute)
qed

lemma split7: "push_bit s (x AND 127) OR push_bit (s + 7) (drop_bit 7 x) = push_bit s (x :: u64)"
proof (rule bit_word_eqI)
  fix n
  assume n: "n < LENGTH(64)"
  have m: "bit (127 :: u64) k \<longleftrightarrow> k < 7" for k
    using bit_mask_iff [of 7 k, where 'a = u64] by (auto simp: mask_eq_exp_minus_1)
  have p: "bit (push_bit k w) n \<longleftrightarrow> k \<le> n \<and> bit w (n - k)" for k and w :: u64
    using n by (simp add: bit_push_bit_iff)
  have d: "s + 7 \<le> n \<Longrightarrow> 7 + (n - (s + 7)) = n - s" by simp
  show "bit (push_bit s (x AND 127) OR push_bit (s + 7) (drop_bit 7 x)) n = bit (push_bit s x) n"
    unfolding bit_or_iff p bit_and_iff m bit_drop_bit_eq o_def
    using d by (cases "s + 7 \<le> n") auto
qed

lemma unat_ucast_mod: "unat (ucast (x :: 'a :: len word) :: 'b :: len word) = unat x mod 2 ^ LENGTH('b)"
  by (simp only: unsigned_ucast_eq take_bit_eq_mod)

lemma unat_u32_lt: "unat (f :: u32) < 4294967296"
proof -
  have "unat f < 2 ^ LENGTH(32)" by (rule unsigned_less)
  then show ?thesis by simp
qed

lemma unat_u32_up [simp]: "unat (ucast (f :: u32) :: u64) = unat f"
proof -
  show ?thesis using unat_u32_lt [of f] by (simp only: unat_ucast_mod) simp
qed

lemma unat_ucast_small: "x < 128 \<Longrightarrow> unat (ucast (x :: u64) :: byte) = unat x"
  by (simp only: unat_ucast_mod) (simp add: word_less_nat_alt)

lemma ucast_small: "x < 128 \<Longrightarrow> (ucast (ucast x :: byte) :: u64) = x"
proof -
  assume x: "x < 128"
  then have "unat x < 128" by (simp add: word_less_nat_alt)
  then have "unat (ucast (ucast x :: byte) :: u64) = unat x"
    using unat_ucast_small [OF x] by (simp only: unat_ucast_mod) simp
  then show ?thesis by (simp only: word_unat_eq_iff)
qed

lemma ucast_small_lt: "x < 128 \<Longrightarrow> (ucast (x :: u64) :: byte) < 128"
  using unat_ucast_small [of x] by (simp add: word_less_nat_alt)

lemma length_PutUvarint: "unat x < 2 ^ (7 * k) \<Longrightarrow> 0 < k \<Longrightarrow> length (PutUvarint x) \<le> k"
proof (induction k arbitrary: x)
  case (Suc k)
  show ?case
  proof (cases "x \<ge> 128")
    case True
    then have "128 \<le> unat x" by (simp add: word_le_nat_alt)
    with Suc.prems have k: "0 < k" by (cases k) auto
    have "unat (drop_bit 7 x) < 2 ^ (7 * k)"
      using Suc.prems(1) by (simp only: unat_drop7) (simp add: less_mult_imp_div_less power_add mult.commute)
    with k Suc.IH have "length (PutUvarint (drop_bit 7 x)) \<le> k" by blast
    with True show ?thesis by (subst PutUvarint.simps) simp
  next
    case False
    then show ?thesis by (subst PutUvarint.simps) simp
  qed
qed simp

lemma Uvarint_loop_PutUvarint:
  "i + length (PutUvarint v) \<le> 9 \<Longrightarrow>
   Uvarint_loop i x s (PutUvarint v @ rest) = (x OR push_bit s v, int (i + length (PutUvarint v)))"
proof (induction v arbitrary: i x s rule: PutUvarint.induct)
  case (1 v)
  show ?case
  proof (cases "v \<ge> 128")
    case True
    let ?w = "drop_bit 7 v"
    have put: "PutUvarint v = (ucast v OR 128) # PutUvarint ?w"
      using True by (subst PutUvarint.simps) simp
    with "1.prems" have i: "i \<noteq> MaxVarintLen64" and le: "(i + 1) + length (PutUvarint ?w) \<le> 9"
      by (auto simp: MaxVarintLen64_def)
    have "Uvarint_loop i x s (PutUvarint v @ rest)
        = Uvarint_loop (i + 1) (x OR push_bit s (v AND 127)) (s + 7) (PutUvarint ?w @ rest)"
      using i continuation_ge [of v] by (simp add: put low7_of_continuation)
    also have "\<dots> = ((x OR push_bit s (v AND 127)) OR push_bit (s + 7) ?w, int ((i + 1) + length (PutUvarint ?w)))"
      using "1.IH" [OF True le] .
    also have "(x OR push_bit s (v AND 127)) OR push_bit (s + 7) ?w = x OR push_bit s v"
      by (simp only: or.assoc split7)
    finally show ?thesis by (simp add: put)
  next
    case False
    then have put: "PutUvarint v = [ucast v]" by (subst PutUvarint.simps) simp
    from "1.prems" put have "i < 9" by simp
    with False show ?thesis by (simp add: put ucast_small ucast_small_lt MaxVarintLen64_def)
  qed
qed

lemma ucast_u32_lt: "unat (ucast (f :: u32) :: u64) < 2 ^ (7 * 5)"
  using unat_u32_lt [of f] by simp

lemma length_flow_varint: "length (PutUvarint (ucast (f :: u32))) \<le> MaxVarintLen32"
  unfolding MaxVarintLen32_def by (rule length_PutUvarint [OF ucast_u32_lt]) simp

lemma PutUvarint_nonempty: "PutUvarint v \<noteq> []"
  by (subst PutUvarint.simps) simp

lemma Uvarint_flow:
  "Uvarint (PutUvarint (ucast (f :: u32)) @ rest) = (ucast f, int (length (PutUvarint (ucast f))))"
proof -
  have "length (PutUvarint (ucast f)) \<le> 5" using length_flow_varint [of f] by (simp add: MaxVarintLen32_def)
  then show ?thesis
    unfolding Uvarint_def by (subst Uvarint_loop_PutUvarint) simp_all
qed

lemma ucast_u32_le_max: "\<not> (ucast (- 1 :: u32) :: u64) < ucast (f :: u32)"
proof -
  have "unat f \<le> unat (- 1 :: u32)" by (simp flip: word_le_nat_alt)
  then show ?thesis by (simp add: word_less_nat_alt)
qed

lemma ucast_down_up: "(ucast (ucast (f :: u32) :: u64) :: u32) = f"
proof -
  have "unat (ucast (ucast f :: u64) :: u32) = unat f"
    using unat_u32_lt [of f] by (simp only: unat_ucast_mod [where 'b = 32]) simp
  then show ?thesis by (simp only: word_unat_eq_iff)
qed

section \<open>Properties\<close>

text \<open>
  Decoding inverts encoding. For every flow number and every payload, the decoder returns
  exactly the flow number and the payload that were framed.
\<close>

theorem DecodeDatagram_EncodeDatagram:
  "DecodeDatagram (EncodeDatagram f payload)
    = Inr \<lparr>FlowID = f, Payload = payload, FrameAddress = '''', RelayURL = '''', UDPAddr = '''', LeaseDone = None\<rparr>"
  using PutUvarint_nonempty [of "ucast f"]
  by (simp add: DecodeDatagram_def EncodeDatagram_def Uvarint_flow ucast_u32_le_max ucast_down_up not_le)

text \<open>
  A payload within the limit always fits. Framing adds at most five bytes, so an encoded
  datagram of an admissible payload stays within the 1243 bytes that the smallest QUIC packet
  leaves for a DATAGRAM frame.
\<close>

theorem EncodeDatagram_fits:
  assumes "length payload \<le> MaxUDPPayloadSize"
  shows "length (EncodeDatagram f payload) \<le> QUICInitialPacketSize - 37
     \<and> length (EncodeDatagram f payload) \<le> length payload + MaxVarintLen32"
  using assms length_flow_varint [of f]
  by (simp add: EncodeDatagram_def MaxUDPPayloadSize_def QUICInitialPacketSize_def MaxVarintLen32_def)

theorem EncodeDatagram_fits_witness:
  "length (EncodeDatagram 7 (replicate 1238 0)) \<le> QUICInitialPacketSize - 37
   \<and> length (EncodeDatagram 7 (replicate 1238 0)) \<le> length (replicate 1238 (0 :: byte)) + MaxVarintLen32"
  by (rule EncodeDatagram_fits)
    (simp add: MaxUDPPayloadSize_def QUICInitialPacketSize_def MaxVarintLen32_def)

lemma Uvarint_loop_count:
  "Uvarint_loop i x s bs = (v, n) \<Longrightarrow> 0 < n \<Longrightarrow> int i < n \<and> n \<le> int i + int (length bs)"
proof (induction bs arbitrary: i x s)
  case Nil
  then show ?case by simp
next
  case (Cons b bs)
  show ?case
  proof (cases "i = MaxVarintLen64 \<or> b < 128")
    case True
    with Cons.prems show ?thesis by (auto split: if_splits)
  next
    case False
    with Cons.prems have "Uvarint_loop (i + 1) (x OR push_bit s (ucast (b AND 127))) (s + 7) bs = (v, n)"
      by simp
    from Cons.IH [OF this Cons.prems(2)] show ?thesis by simp
  qed
qed

text \<open>
  The decoder is total and never reads past its input. A frame it accepts carries as
  payload a proper suffix of the datagram; anything else is one of the two errors.
\<close>

theorem DecodeDatagram_suffix:
  "case DecodeDatagram data of
     Inl e \<Rightarrow> e = DatagramTooSmall \<or> e = DatagramFlowIDOverflow
   | Inr frame \<Rightarrow> \<exists>header. header \<noteq> [] \<and> data = header @ Payload frame"
proof (cases "DecodeDatagram data")
  case (Inl e)
  then show ?thesis by (cases e) simp_all
next
  case (Inr frame)
  obtain v n where u: "Uvarint data = (v, n)" by force
  with Inr have n: "0 < n" and p: "Payload frame = drop (nat n) data"
    by (auto simp: DecodeDatagram_def split: if_splits)
  from Uvarint_loop_count [OF u [unfolded Uvarint_def] n]
  have "0 < nat n" "nat n \<le> length data" by auto
  then have "take (nat n) data \<noteq> []" by auto
  with Inr p show ?thesis by (auto intro!: exI [of _ "take (nat n) data"])
qed

end
