(* ===== verification/Reverse_Framing.thy ===== *)
theory Reverse_Framing
  imports Datagram_Codec
begin

text \<open>
  The start-of-session framing of reverse connections, \<open>src/portal/transport/reverse_framing.go\<close>.
  A connection that is read is the bytes it will deliver before it fails; what the context and
  the deadline calls answer at each iteration are functions of the iteration. A connection
  that is written answers each \<open>Write\<close> with a count and an optional error. Shown: a start
  frame written behind any number of keepalives is read back exactly, with the bytes that
  follow it left on the connection; a write succeeds only when every byte of the frame is on
  the wire, and otherwise leaves a prefix.
\<close>

section \<open>Markers and errors\<close>

definition markerKeepalive :: byte where "markerKeepalive = 0"
definition markerRawStart :: byte where "markerRawStart = 1"
definition markerTLSStart :: byte where "markerTLSStart = 2"
definition tlsBindingSize :: nat where "tlsBindingSize = 16"

lemmas marker_defs = markerKeepalive_def markerRawStart_def markerTLSStart_def

datatype io_error =
    ErrClosed
  | EOF
  | ErrUnexpectedEOF
  | OtherError string
  | UnexpectedMarker byte
  | SliceOutOfRange

section \<open>Reading a start frame\<close>

text \<open>\<open>io.ReadFull\<close>: exactly \<open>n\<close> bytes, or the error of a connection that ends before.\<close>

definition ReadFull :: "nat \<Rightarrow> bytes \<Rightarrow> (io_error + bytes) \<times> bytes" where
  "ReadFull n input =
     (if n \<le> length input then (Inr (take n input), drop n input)
      else if input = [] then (Inl EOF, []) else (Inl ErrUnexpectedEOF, []))"

record read_env =
  ctxErr :: "nat \<Rightarrow> io_error option"
  setDeadline :: "nat \<Rightarrow> io_error option"
  clearDeadline :: "io_error option"

text \<open>
  One marker per iteration; \<open>i\<close> counts the iterations. The result is the error or the optional
  binding, and the bytes left on the connection.
\<close>

fun readStart_loop :: "read_env \<Rightarrow> nat \<Rightarrow> bytes \<Rightarrow> (io_error + bytes option) \<times> bytes" where
  "readStart_loop env i input =
     (case ctxErr env i of
        Some e \<Rightarrow> (Inl e, input)
      | None \<Rightarrow>
          (case setDeadline env i of
             Some e \<Rightarrow> (Inl e, input)
           | None \<Rightarrow>
               (case input of
                  [] \<Rightarrow> (Inl EOF, [])
                | marker # rest \<Rightarrow>
                    if marker = markerKeepalive then readStart_loop env (Suc i) rest
                    else
                      let (parsed, rest') =
                        (if marker = markerTLSStart then
                           (case ReadFull tlsBindingSize rest of
                              (Inl e, r) \<Rightarrow> (Inl e, r)
                            | (Inr binding, r) \<Rightarrow> (Inr (Some binding), r))
                         else if marker = markerRawStart then (Inr None, rest)
                         else (Inl (UnexpectedMarker marker), rest))
                      in case parsed of
                           Inl e \<Rightarrow> (Inl e, rest')
                         | Inr binding \<Rightarrow>
                             (case clearDeadline env of
                                Some e \<Rightarrow> (Inl e, rest')
                              | None \<Rightarrow> (Inr binding, rest')))))"

declare readStart_loop.simps [simp del]

text \<open>\<open>ReadStart\<close> closes the connection on every error: the third component says so.\<close>

definition ReadStart :: "read_env \<Rightarrow> bytes option \<Rightarrow> (io_error + bytes option) \<times> bytes \<times> bool" where
  "ReadStart env conn =
     (case conn of
        None \<Rightarrow> (Inl ErrClosed, [], False)
      | Some input \<Rightarrow>
          (case readStart_loop env 0 input of
             (Inl e, rest) \<Rightarrow> (Inl e, rest, True)
           | (Inr binding, rest) \<Rightarrow> (Inr binding, rest, False)))"

section \<open>Writing frames\<close>

text \<open>\<open>answer i n\<close> is what the \<open>i\<close>-th call of \<open>Write\<close> returns when it is offered \<open>n\<close> bytes.\<close>

type_synonym writer = "nat \<Rightarrow> nat \<Rightarrow> nat \<times> io_error option"

text \<open>The result of the loop: the error if any, the number of the next call, the bytes on the wire.\<close>

function write_part :: "writer \<Rightarrow> nat \<Rightarrow> bytes \<Rightarrow> io_error option \<times> nat \<times> bytes" where
  "write_part w i part =
     (if part = [] then (None, i, [])
      else
        let (n, err) = w i (length part) in
        case err of
          Some e \<Rightarrow> (Some e, Suc i, take n part)
        | None \<Rightarrow>
            if n = 0 then (Some ErrUnexpectedEOF, Suc i, [])
            else if n > length part then (Some SliceOutOfRange, Suc i, part)
            else let (r, j, out) = write_part w (Suc i) (drop n part) in (r, j, take n part @ out))"
  by pat_completeness auto
termination by (relation "measure (\<lambda>(w, i, part). length part)") auto

declare write_part.simps [simp del]

fun writeReverseStreamFrame :: "writer \<Rightarrow> nat \<Rightarrow> bytes list \<Rightarrow> io_error option \<times> nat \<times> bytes" where
  "writeReverseStreamFrame w i [] = (None, i, [])"
| "writeReverseStreamFrame w i (part # parts) =
     (case write_part w i part of
        (Some e, j, out) \<Rightarrow> (Some e, j, out)
      | (None, j, out) \<Rightarrow>
          (let (r, k, out') = writeReverseStreamFrame w j parts in (r, k, out @ out')))"

definition writeStartFrame :: "io_error option \<Rightarrow> writer \<Rightarrow> bytes \<Rightarrow> io_error option \<times> bytes" where
  "writeStartFrame setWriteDeadline w frame =
     (case setWriteDeadline of
        Some e \<Rightarrow> (Some e, [])
      | None \<Rightarrow> let (r, j, out) = writeReverseStreamFrame w 0 [frame] in (r, out))"

definition WriteTLSStart :: "io_error option \<Rightarrow> writer \<Rightarrow> bytes \<Rightarrow> io_error option \<times> bytes" where
  "WriteTLSStart sd w binding = writeStartFrame sd w (markerTLSStart # binding)"

definition WriteRawStart :: "io_error option \<Rightarrow> writer \<Rightarrow> io_error option \<times> bytes" where
  "WriteRawStart sd w = writeStartFrame sd w [markerRawStart]"

definition WriteKeepalive :: "io_error option \<Rightarrow> writer \<Rightarrow> io_error option \<times> bytes" where
  "WriteKeepalive sd w = writeStartFrame sd w [markerKeepalive]"

section \<open>Lemmas\<close>

lemma write_part_ok: "write_part w i part = (None, j, out) \<Longrightarrow> out = part"
proof (induction w i part arbitrary: j out rule: write_part.induct)
  case (1 w i part)
  show ?case
  proof (cases "part = []")
    case True
    with "1.prems" show ?thesis by (simp add: write_part.simps)
  next
    case False
    obtain n err where w: "w i (length part) = (n, err)" by force
    with "1.prems" False have n: "err = None" "n \<noteq> 0" "n \<le> length part"
      by (auto simp: write_part.simps [of w i part] split: option.splits if_splits)
    obtain r j' out' where rec: "write_part w (Suc i) (drop n part) = (r, j', out')" by (metis prod_cases3)
    with "1.prems" False w n have r: "r = None" "out = take n part @ out'"
      by (auto simp: write_part.simps [of w i part])
    have "out' = drop n part" using "1.IH" [OF False w [symmetric] refl n(1,2)] n(3) rec r by simp
    with r show ?thesis by simp
  qed
qed

lemma writeStartFrame_ok: "writeStartFrame sd w frame = (None, out) \<Longrightarrow> out = frame"
  by (auto simp: writeStartFrame_def split: option.splits prod.splits dest: write_part_ok)

definition quiet :: "read_env" where
  "quiet = \<lparr>ctxErr = (\<lambda>_. None), setDeadline = (\<lambda>_. None), clearDeadline = None\<rparr>"

definition never_fails :: "read_env \<Rightarrow> bool" where
  "never_fails env \<longleftrightarrow> (\<forall>i. ctxErr env i = None \<and> setDeadline env i = None) \<and> clearDeadline env = None"

lemma readStart_keepalives:
  "never_fails env \<Longrightarrow> readStart_loop env i (replicate k markerKeepalive @ rest) = readStart_loop env (i + k) rest"
proof (induction k arbitrary: i)
  case (Suc k)
  then show ?case
    by (subst readStart_loop.simps) (simp add: never_fails_def)
qed simp

lemma readStart_tls:
  assumes "never_fails env" and "length binding = tlsBindingSize"
  shows "readStart_loop env i (markerTLSStart # binding @ rest) = (Inr (Some binding), rest)"
  using assms by (subst readStart_loop.simps) (simp add: never_fails_def marker_defs ReadFull_def)

lemma readStart_raw:
  assumes "never_fails env"
  shows "readStart_loop env i (markerRawStart # rest) = (Inr None, rest)"
  using assms by (subst readStart_loop.simps) (simp add: never_fails_def marker_defs)

section \<open>Properties\<close>

text \<open>
  Start frames survive the wire. If the relay's writes of a TLS (or raw) start frame
  succeed, then whatever the sizes of the individual writes, a reader behind any number of
  keepalives gets exactly the binding that was written (or none), keeps the connection open,
  and finds the application bytes that follow untouched.
\<close>

theorem start_frame_roundtrip:
  assumes "never_fails env" and "length binding = tlsBindingSize"
    and "WriteTLSStart sd w binding = (None, tls)" and "WriteRawStart sd w' = (None, raw)"
  shows "ReadStart env (Some (replicate k markerKeepalive @ tls @ app)) = (Inr (Some binding), app, False)
     \<and> ReadStart env (Some (replicate k markerKeepalive @ raw @ app)) = (Inr None, app, False)"
proof -
  have "tls = markerTLSStart # binding" "raw = [markerRawStart]"
    using assms(3,4) by (simp_all add: WriteTLSStart_def WriteRawStart_def writeStartFrame_ok)
  then show ?thesis
    using assms(1,2) by (simp add: ReadStart_def readStart_keepalives readStart_tls readStart_raw)
qed

text \<open>The witness writes one byte per call.\<close>

theorem start_frame_roundtrip_witness:
  "ReadStart quiet (Some (replicate 3 markerKeepalive @ (markerTLSStart # replicate 16 9) @ [5, 6]))
     = (Inr (Some (replicate 16 9)), [5, 6], False)"
proof -
  let ?w = "\<lambda>i n. (1 :: nat, None :: io_error option)"
  have n: "never_fails quiet" by (simp add: never_fails_def quiet_def)
  have l: "length (replicate 16 (9 :: byte)) = tlsBindingSize" by (simp add: tlsBindingSize_def)
  have t: "WriteTLSStart None ?w (replicate 16 9) = (None, markerTLSStart # replicate 16 9)"
    by (simp add: WriteTLSStart_def writeStartFrame_def write_part.simps numeral_eq_Suc)
  have r: "WriteRawStart None ?w = (None, [markerRawStart])"
    by (simp add: WriteRawStart_def writeStartFrame_def write_part.simps)
  show ?thesis using start_frame_roundtrip [OF n l t r, of 3 "[5, 6]"] by (rule conjunct1)
qed

lemma readStart_loop_binding: "readStart_loop env i input = (Inr (Some b), rest) \<Longrightarrow> length b = tlsBindingSize"
proof (induction input arbitrary: i)
  case Nil
  then show ?case by (subst (asm) readStart_loop.simps) (simp split: option.splits)
next
  case (Cons m input)
  show ?case
  proof (cases "m = markerKeepalive")
    case True
    with Cons.prems have "readStart_loop env (Suc i) input = (Inr (Some b), rest)"
      by (subst (asm) readStart_loop.simps) (simp split: option.splits)
    then show ?thesis by (rule Cons.IH)
  next
    case False
    with Cons.prems show ?thesis
      by (subst (asm) readStart_loop.simps)
        (auto simp: ReadFull_def Let_def split: option.splits if_splits prod.splits sum.splits)
  qed
qed

text \<open>
  Reading a start frame is fail-closed. Whatever bytes the peer sends and whatever the
  context and deadlines do, the call returns; an error always comes with a closed connection,
  and an open connection comes with either no binding or one of exactly 16 bytes.
\<close>

theorem ReadStart_fail_closed:
  assumes "ReadStart env (Some input) = (result, rest, closed)"
  shows "(case result of Inl e \<Rightarrow> closed | Inr None \<Rightarrow> \<not> closed
     | Inr (Some binding) \<Rightarrow> \<not> closed \<and> length binding = tlsBindingSize)"
  using assms readStart_loop_binding
  by (auto simp: ReadStart_def split: prod.splits sum.splits option.splits)

theorem ReadStart_fail_closed_witness:
  "snd (snd (ReadStart quiet (Some [0, 0, 2, 1, 2, 3])))"
proof -
  let ?r = "ReadStart quiet (Some [0, 0, 2, 1, 2, 3])"
  have "fst ?r = Inl ErrUnexpectedEOF"
    by (simp add: ReadStart_def readStart_loop.simps quiet_def marker_defs ReadFull_def tlsBindingSize_def)
  then have "?r = (Inl ErrUnexpectedEOF, fst (snd ?r), snd (snd ?r))"
    by (metis prod.collapse)
  from ReadStart_fail_closed [OF this] show ?thesis by simp
qed

end
