(* ===== verification/Reverse_Pool.thy ===== *)
theory Reverse_Pool
  imports Prelude "HOL-Library.Multiset"
begin

text \<open>
  The pool of idle reverse connections of a lease, \<open>ReversePool\<close> of
  \<open>src/portal/transport/reverse_pool.go\<close>. Each function below is one critical section of the
  source (the code between \<open>Lock\<close> and \<open>Unlock\<close>); connections are known by number. The
  goroutines of the source (offers with their reservations, \<open>Acquire\<close>, the idle writer of
  each pooled connection, \<open>Close\<close>) interleave these sections: the relation \<open>pool_step\<close> has one
  rule per section, and \<open>pool_reachable\<close> is the set of states any schedule can reach.

  Shown for every schedule: the pool never holds more connections and reservations than its
  limit; every offered connection has exactly one owner (its reservation, the pool, an
  \<open>Acquire\<close> in progress, the caller that got it, or it is closed); a paused pool is empty; a
  finished \<open>Close\<close> leaves the pool empty for good.
\<close>

section \<open>State\<close>

record ReversePool =
  ready :: "nat list"
  idleInterval :: duration
  readyLimit :: int
  reserved_offers :: int
  paused :: bool
  closing :: bool

datatype pool_error = ErrConnRequired | ErrPoolClosed | ErrPoolFull | ErrPoolPaused

record offerReservation =
  offer_conn :: nat
  finished :: bool

definition NewReversePool :: "duration \<Rightarrow> int \<Rightarrow> ReversePool" where
  "NewReversePool interval limit = \<lparr>ready = [], idleInterval = interval, readyLimit = limit,
     reserved_offers = 0, paused = False, closing = False\<rparr>"

section \<open>Critical sections\<close>

definition ReserveOffer :: "nat option \<Rightarrow> ReversePool \<Rightarrow> (pool_error + offerReservation) \<times> ReversePool" where
  "ReserveOffer conn p =
     (case conn of
        None \<Rightarrow> (Inl ErrConnRequired, p)
      | Some c \<Rightarrow>
          if closing p then (Inl ErrPoolClosed, p)
          else if readyLimit p > 0 \<and> int (length (ready p)) + reserved_offers p \<ge> readyLimit p
          then (Inl ErrPoolFull, p)
          else (Inr \<lparr>offer_conn = c, finished = False\<rparr>, p\<lparr>reserved_offers := reserved_offers p + 1\<rparr>))"

definition CommitOffer :: "offerReservation \<Rightarrow> ReversePool \<Rightarrow> pool_error option \<times> offerReservation \<times> ReversePool" where
  "CommitOffer r p =
     (if finished r then (Some ErrPoolClosed, r, p)
      else
        let r' = r\<lparr>finished := True\<rparr>; p1 = p\<lparr>reserved_offers := reserved_offers p - 1\<rparr> in
        if paused p1 then (Some ErrPoolPaused, r', p1)
        else (None, r', p1\<lparr>ready := ready p1 @ [offer_conn r]\<rparr>))"

definition CancelOffer :: "offerReservation \<Rightarrow> ReversePool \<Rightarrow> offerReservation \<times> ReversePool" where
  "CancelOffer r p =
     (if \<not> finished r then (r\<lparr>finished := True\<rparr>, p\<lparr>reserved_offers := reserved_offers p - 1\<rparr>) else (r, p))"

text \<open>\<open>Offer\<close> without interference; the flag says whether it closed the connection.\<close>

definition Offer :: "nat option \<Rightarrow> ReversePool \<Rightarrow> pool_error option \<times> bool \<times> ReversePool" where
  "Offer conn p =
     (case ReserveOffer conn p of
        (Inl e, p1) \<Rightarrow> (Some e, conn \<noteq> None, p1)
      | (Inr r, p1) \<Rightarrow>
          (case CommitOffer r p1 of
             (Some e, r', p2) \<Rightarrow> (Some e, conn \<noteq> None, p2)
           | (None, r', p2) \<Rightarrow> (None, False, p2)))"

text \<open>The locked part of one \<open>Acquire\<close> iteration: refuse, take the oldest connection, or wait.\<close>

datatype acquire_result = AcquireClosed | AcquireConn nat | AcquireWait

definition AcquireSection :: "ReversePool \<Rightarrow> acquire_result \<times> ReversePool" where
  "AcquireSection p =
     (if closing p then (AcquireClosed, p)
      else case ready p of
             [] \<Rightarrow> (AcquireWait, p)
           | c # rest \<Rightarrow> (AcquireConn c, p\<lparr>ready := rest\<rparr>))"

definition detachReadyLocked :: "ReversePool \<Rightarrow> nat list \<times> ReversePool" where
  "detachReadyLocked p = (ready p, p\<lparr>ready := []\<rparr>)"

text \<open>\<open>Pause\<close> returns the connections its result function closes.\<close>

definition Pause :: "ReversePool \<Rightarrow> nat list \<times> ReversePool" where
  "Pause p = detachReadyLocked (p\<lparr>paused := True\<rparr>)"

definition Resume :: "ReversePool \<Rightarrow> ReversePool" where
  "Resume p = p\<lparr>paused := False\<rparr>"

text \<open>\<open>Close\<close>: begin, then, once no reservation is outstanding, detach what is left.\<close>

definition CloseBegin :: "ReversePool \<Rightarrow> ReversePool" where
  "CloseBegin p = p\<lparr>closing := True\<rparr>"

definition CloseFinish :: "ReversePool \<Rightarrow> (nat list \<times> ReversePool) option" where
  "CloseFinish p = (if reserved_offers p > 0 then None else Some (detachReadyLocked p))"

definition ReadyCount :: "ReversePool \<Rightarrow> int" where
  "ReadyCount p = int (length (ready p))"

text \<open>The idle writer drops its connection after a failed keepalive, if it is still queued.\<close>

definition keepIdleFailed :: "nat \<Rightarrow> ReversePool \<Rightarrow> ReversePool" where
  "keepIdleFailed c p = p\<lparr>ready := remove1 c (ready p)\<rparr>"

section \<open>Schedules\<close>

text \<open>
  The pool with what its goroutines hold: outstanding reservations, connections an \<open>Acquire\<close>
  has taken and whose idle writer it waits for, connections handed to callers (by \<open>Acquire\<close>, or
  back after a refused commit or a cancel), and closed connections. \<open>offered\<close> counts the
  connections that were ever offered; they get fresh numbers.
\<close>

record pool_sys =
  pool :: ReversePool
  reservations :: "offerReservation list"
  stopping :: "nat list"
  acquired :: "nat list"
  returned :: "nat list"
  closed_conns :: "nat list"
  offered :: nat
  close_started :: bool
  close_done :: bool

definition init_sys :: "duration \<Rightarrow> int \<Rightarrow> pool_sys" where
  "init_sys interval limit = \<lparr>pool = NewReversePool interval limit, reservations = [], stopping = [],
     acquired = [], returned = [], closed_conns = [], offered = 0, close_started = False, close_done = False\<rparr>"

inductive pool_step :: "pool_sys \<Rightarrow> pool_sys \<Rightarrow> bool" where
  reserve_ok: "ReserveOffer (Some (offered s)) (pool s) = (Inr r, p') \<Longrightarrow>
    pool_step s (s\<lparr>pool := p', reservations := r # reservations s, offered := Suc (offered s)\<rparr>)"
| reserve_refused: "ReserveOffer (Some (offered s)) (pool s) = (Inl e, p') \<Longrightarrow>
    pool_step s (s\<lparr>pool := p', returned := offered s # returned s, offered := Suc (offered s)\<rparr>)"
| commit_ok: "reservations s = rs1 @ r # rs2 \<Longrightarrow> CommitOffer r (pool s) = (None, r', p') \<Longrightarrow>
    pool_step s (s\<lparr>pool := p', reservations := rs1 @ r' # rs2\<rparr>)"
| commit_paused: "reservations s = rs1 @ r # rs2 \<Longrightarrow> CommitOffer r (pool s) = (Some ErrPoolPaused, r', p') \<Longrightarrow>
    pool_step s (s\<lparr>pool := p', reservations := rs1 @ r' # rs2, returned := offer_conn r # returned s\<rparr>)"
| commit_again: "reservations s = rs1 @ r # rs2 \<Longrightarrow> CommitOffer r (pool s) = (Some ErrPoolClosed, r', p') \<Longrightarrow>
    pool_step s (s\<lparr>pool := p', reservations := rs1 @ r' # rs2\<rparr>)"
| cancel: "reservations s = rs1 @ r # rs2 \<Longrightarrow> \<not> finished r \<Longrightarrow> CancelOffer r (pool s) = (r', p') \<Longrightarrow>
    pool_step s (s\<lparr>pool := p', reservations := rs1 @ r' # rs2, returned := offer_conn r # returned s\<rparr>)"
| cancel_again: "reservations s = rs1 @ r # rs2 \<Longrightarrow> finished r \<Longrightarrow> CancelOffer r (pool s) = (r', p') \<Longrightarrow>
    pool_step s (s\<lparr>pool := p', reservations := rs1 @ r' # rs2\<rparr>)"
| acquire_take: "AcquireSection (pool s) = (AcquireConn c, p') \<Longrightarrow>
    pool_step s (s\<lparr>pool := p', stopping := c # stopping s\<rparr>)"
| acquire_return: "c \<in> set (stopping s) \<Longrightarrow>
    pool_step s (s\<lparr>stopping := remove1 c (stopping s), acquired := c # acquired s\<rparr>)"
| acquire_drop: "c \<in> set (stopping s) \<Longrightarrow>
    pool_step s (s\<lparr>stopping := remove1 c (stopping s), closed_conns := c # closed_conns s\<rparr>)"
| idle_failed: "c \<in> set (ready (pool s)) \<Longrightarrow>
    pool_step s (s\<lparr>pool := keepIdleFailed c (pool s), closed_conns := c # closed_conns s\<rparr>)"
| pause: "Pause (pool s) = (cs, p') \<Longrightarrow>
    pool_step s (s\<lparr>pool := p', closed_conns := cs @ closed_conns s\<rparr>)"
| resume: "pool_step s (s\<lparr>pool := Resume (pool s)\<rparr>)"
| close_begin: "\<not> close_started s \<Longrightarrow>
    pool_step s (s\<lparr>pool := CloseBegin (pool s), close_started := True\<rparr>)"
| close_finish: "close_started s \<Longrightarrow> \<not> close_done s \<Longrightarrow> CloseFinish (pool s) = Some (cs, p') \<Longrightarrow>
    pool_step s (s\<lparr>pool := p', closed_conns := cs @ closed_conns s, close_done := True\<rparr>)"

inductive pool_reachable :: "duration \<Rightarrow> int \<Rightarrow> pool_sys \<Rightarrow> bool" for interval limit where
  start: "pool_reachable interval limit (init_sys interval limit)"
| step: "pool_reachable interval limit s \<Longrightarrow> pool_step s t \<Longrightarrow> pool_reachable interval limit t"

section \<open>Invariant\<close>

text \<open>The connections an unfinished reservation still owns.\<close>

definition pending :: "pool_sys \<Rightarrow> nat list" where
  "pending s = map offer_conn (filter (\<lambda>r. \<not> finished r) (reservations s))"

definition owners :: "pool_sys \<Rightarrow> nat multiset" where
  "owners s = mset (pending s) + mset (ready (pool s)) + mset (stopping s) + mset (acquired s)
     + mset (returned s) + mset (closed_conns s)"

definition pool_sys_inv :: "int \<Rightarrow> pool_sys \<Rightarrow> bool" where
  "pool_sys_inv limit s \<longleftrightarrow>
     readyLimit (pool s) = limit
     \<and> reserved_offers (pool s) = int (length (pending s))
     \<and> (limit > 0 \<longrightarrow> int (length (ready (pool s))) + reserved_offers (pool s) \<le> limit)
     \<and> owners s = mset [0..<offered s]
     \<and> (paused (pool s) \<longrightarrow> ready (pool s) = [])
     \<and> closing (pool s) = close_started s
     \<and> (close_done s \<longrightarrow> close_started s \<and> ready (pool s) = [] \<and> pending s = [])"

lemmas section_defs = ReserveOffer_def CommitOffer_def CancelOffer_def AcquireSection_def
  detachReadyLocked_def Pause_def Resume_def CloseBegin_def CloseFinish_def keepIdleFailed_def

lemma pool_sys_inv_init: "pool_sys_inv limit (init_sys interval limit)"
  by (simp add: pool_sys_inv_def init_sys_def NewReversePool_def pending_def owners_def)

lemma mset_upt_Suc: "mset [0..<Suc n] = add_mset n (mset [0..<n])"
  by simp

lemma move_owner:
  assumes "c \<in> set xs"
  obtains M where "mset xs = add_mset c M" "mset (remove1 c xs) = M" "length xs = Suc (length (remove1 c xs))"
proof
  show "mset xs = add_mset c (mset xs - {#c#})" using assms by simp
  show "length xs = Suc (length (remove1 c xs))"
    using assms by (simp add: length_remove1) (metis Suc_pred length_pos_if_in_set)
qed simp

lemma pool_step_inv: "pool_step s t \<Longrightarrow> pool_sys_inv limit s \<Longrightarrow> pool_sys_inv limit t"
proof (induction rule: pool_step.induct)
  case (acquire_take s c p')
  then show ?case
    by (auto simp: pool_sys_inv_def section_defs pending_def owners_def split: if_splits list.splits)
next
  case (acquire_return c s)
  obtain M where M: "mset (stopping s) = add_mset c M" "mset (remove1 c (stopping s)) = M"
    "length (stopping s) = Suc (length (remove1 c (stopping s)))"
    using acquire_return.hyps by (rule move_owner)
  then show ?case using acquire_return
    by (auto simp: pool_sys_inv_def pending_def owners_def simp del: mset_remove1)
next
  case (acquire_drop c s)
  obtain M where M: "mset (stopping s) = add_mset c M" "mset (remove1 c (stopping s)) = M"
    "length (stopping s) = Suc (length (remove1 c (stopping s)))"
    using acquire_drop.hyps by (rule move_owner)
  then show ?case using acquire_drop
    by (auto simp: pool_sys_inv_def pending_def owners_def simp del: mset_remove1)
next
  case (idle_failed c s)
  obtain M where M: "mset (ready (pool s)) = add_mset c M" "mset (remove1 c (ready (pool s))) = M"
    "length (ready (pool s)) = Suc (length (remove1 c (ready (pool s))))"
    using idle_failed.hyps by (rule move_owner)
  then show ?case using idle_failed
    by (auto simp: pool_sys_inv_def keepIdleFailed_def pending_def owners_def simp del: mset_remove1)
next
  case (pause s cs p')
  then show ?case by (auto simp: pool_sys_inv_def section_defs pending_def owners_def ac_simps)
next
  case (close_finish s cs p')
  then show ?case
    by (auto simp: pool_sys_inv_def section_defs pending_def owners_def ac_simps split: if_splits)
qed (auto simp: pool_sys_inv_def section_defs Let_def pending_def owners_def split: if_splits)

lemma pool_reachable_inv: "pool_reachable interval limit s \<Longrightarrow> pool_sys_inv limit s"
  by (induction rule: pool_reachable.induct) (auto intro: pool_sys_inv_init pool_step_inv)

inductive_cases pool_stepE: "pool_step s t"

lemma owners_distinct:
  assumes "pool_sys_inv limit s"
  shows "distinct (pending s @ ready (pool s) @ stopping s @ acquired s @ returned s @ closed_conns s)"
proof -
  have "mset (pending s @ ready (pool s) @ stopping s @ acquired s @ returned s @ closed_conns s) = mset [0..<offered s]"
    using assms by (simp add: pool_sys_inv_def owners_def ac_simps)
  then show ?thesis using distinct_upt mset_eq_imp_distinct_iff by blast
qed

lemma pool_step_close_done: "pool_step s t \<Longrightarrow> close_done s \<Longrightarrow> close_done t"
  by (erule pool_stepE) simp_all

lemma reachable_steps:
  "pool_step\<^sup>*\<^sup>* s t \<Longrightarrow> pool_reachable interval limit s \<Longrightarrow> pool_reachable interval limit t"
  by (induction rule: rtranclp_induct) (auto intro: pool_reachable.step)

lemma steps_close_done: "pool_step\<^sup>*\<^sup>* s t \<Longrightarrow> close_done s \<Longrightarrow> close_done t"
  by (induction rule: rtranclp_induct) (auto intro: pool_step_close_done)

text \<open>Cancelling an unfinished reservation removes exactly its connection from the pending ones.\<close>

lemma cancel_one:
  assumes "pending s \<noteq> []" and "close_started s"
  shows "\<exists>t. pool_step s t \<and> length (pending t) < length (pending s) \<and> close_started t"
proof -
  from assms(1) obtain r where "r \<in> set (reservations s)" and nf: "\<not> finished r"
    by (auto simp: pending_def filter_empty_conv)
  then obtain rs1 rs2 where rs: "reservations s = rs1 @ r # rs2" by (meson split_list)
  let ?r' = "r\<lparr>finished := True\<rparr>"
  let ?p' = "(pool s)\<lparr>reserved_offers := reserved_offers (pool s) - 1\<rparr>"
  let ?t = "s\<lparr>pool := ?p', reservations := rs1 @ ?r' # rs2, returned := offer_conn r # returned s\<rparr>"
  have "pool_step s ?t"
    by (rule pool_step.cancel [OF rs nf]) (simp add: CancelOffer_def nf)
  moreover have "length (pending ?t) < length (pending s)" by (simp add: pending_def rs nf)
  ultimately show ?thesis using assms(2) by (intro exI [of _ ?t]) simp
qed

lemma close_completes_from:
  assumes "pool_reachable interval limit s" and "close_started s"
  shows "\<exists>t. pool_step\<^sup>*\<^sup>* s t \<and> close_done t"
  using assms
proof (induction "length (pending s)" arbitrary: s rule: less_induct)
  case less
  show ?case
  proof (cases "close_done s")
    case True
    then show ?thesis by blast
  next
    case False
    show ?thesis
    proof (cases "pending s = []")
      case True
      with pool_reachable_inv [OF less.prems(1)] have "reserved_offers (pool s) = 0"
        by (simp add: pool_sys_inv_def)
      then have cf: "CloseFinish (pool s) = Some (ready (pool s), (pool s)\<lparr>ready := []\<rparr>)"
        by (simp add: CloseFinish_def detachReadyLocked_def)
      let ?t = "s\<lparr>pool := (pool s)\<lparr>ready := []\<rparr>, closed_conns := ready (pool s) @ closed_conns s, close_done := True\<rparr>"
      have "pool_step s ?t" by (rule pool_step.close_finish [OF less.prems(2) False cf])
      then show ?thesis by (intro exI [of _ ?t]) auto
    next
      case pend: False
      from cancel_one [OF pend less.prems(2)] obtain u where
        u: "pool_step s u" "length (pending u) < length (pending s)" "close_started u" by blast
      from less.hyps [OF u(2) pool_reachable.step [OF less.prems(1) u(1)] u(3)]
      show ?thesis using u(1) by (meson converse_rtranclp_into_rtranclp)
    qed
  qed
qed

section \<open>Properties\<close>

text \<open>
  In every state any schedule can reach, the idle connections together with the offers in
  progress stay within the pool's limit, and a paused pool holds no idle connection.
\<close>

theorem pool_within_limit:
  assumes "pool_reachable interval limit s" and "0 < limit"
  shows "ReadyCount (pool s) + reserved_offers (pool s) \<le> limit \<and> 0 \<le> reserved_offers (pool s)
     \<and> \<not> (paused (pool s) \<and> ReadyCount (pool s) \<noteq> 0)"
  using pool_reachable_inv [OF assms(1)] assms(2) by (auto simp: pool_sys_inv_def ReadyCount_def)

lemma reachable_offered:
  "pool_reachable 15 8 ((init_sys 15 8)\<lparr>pool := (NewReversePool 15 8)\<lparr>reserved_offers := 1\<rparr>,
     reservations := [\<lparr>offer_conn = 0, finished = False\<rparr>], offered := 1\<rparr>)"
  (is "pool_reachable _ _ ?s1")
proof -
  have "ReserveOffer (Some (offered (init_sys 15 8))) (pool (init_sys 15 8))
      = (Inr \<lparr>offer_conn = 0, finished = False\<rparr>, (NewReversePool 15 8)\<lparr>reserved_offers := 1\<rparr>)"
    by (simp add: ReserveOffer_def init_sys_def NewReversePool_def)
  from pool_step.reserve_ok [OF this]
  have "pool_step (init_sys 15 8) ?s1" by (simp add: init_sys_def)
  then show ?thesis by (rule pool_reachable.step [OF pool_reachable.start])
qed

theorem pool_within_limit_witness:
  "\<exists>s. pool_reachable 15 8 s \<and> offered s = 1 \<and> ReadyCount (pool s) + reserved_offers (pool s) \<le> 8"
  using pool_within_limit [OF reachable_offered] reachable_offered
  by (intro exI conjI) (assumption, simp_all)

text \<open>
  Every connection has one owner. A connection that \<open>Acquire\<close> handed to a caller is, in
  every reachable state, no longer in the pool, not with another \<open>Acquire\<close>, not returned to an
  offering caller and not closed by the pool; and no connection is handed out twice.
\<close>

theorem acquired_exclusively:
  assumes "pool_reachable interval limit s" and "c \<in> set (acquired s)"
  shows "c \<notin> set (ready (pool s)) \<and> c \<notin> set (stopping s) \<and> c \<notin> set (returned s)
     \<and> c \<notin> set (closed_conns s) \<and> c \<notin> set (pending s) \<and> count_list (acquired s) c = 1"
proof -
  note d = owners_distinct [OF pool_reachable_inv [OF assms(1)]]
  then have "distinct (acquired s)" by simp
  then have "count_list (acquired s) c = 1" using assms(2) by (simp add: distinct_count_atmost_1 count_mset)
  with d assms(2) show ?thesis by auto
qed

text \<open>The witness runs one offer through commit and acquisition.\<close>

lemma reachable_acquired:
  "\<exists>s. pool_reachable 15 8 s \<and> acquired s = [0]"
proof -
  let ?p = "NewReversePool 15 8"
  let ?s1 = "(init_sys 15 8)\<lparr>pool := ?p\<lparr>reserved_offers := 1\<rparr>,
     reservations := [\<lparr>offer_conn = 0, finished = False\<rparr>], offered := 1\<rparr>"
  let ?s2 = "?s1\<lparr>pool := ?p\<lparr>ready := [0]\<rparr>, reservations := [\<lparr>offer_conn = 0, finished = True\<rparr>]\<rparr>"
  let ?s3 = "?s2\<lparr>pool := ?p, stopping := [0]\<rparr>"
  have "pool_step ?s1 ?s2"
    using pool_step.commit_ok [of ?s1 "[]" "\<lparr>offer_conn = 0, finished = False\<rparr>" "[]"]
    by (simp add: CommitOffer_def NewReversePool_def)
  with reachable_offered have r2: "pool_reachable 15 8 ?s2" by (rule pool_reachable.step)
  have "pool_step ?s2 ?s3"
    using pool_step.acquire_take [of ?s2 0 ?p] by (simp add: AcquireSection_def NewReversePool_def init_sys_def)
  with r2 have r3: "pool_reachable 15 8 ?s3" by (rule pool_reachable.step)
  have "pool_step ?s3 (?s3\<lparr>stopping := [], acquired := [0]\<rparr>)"
    using pool_step.acquire_return [of 0 ?s3] by (simp add: init_sys_def)
  with r3 have "pool_reachable 15 8 (?s3\<lparr>stopping := [], acquired := [0]\<rparr>)" by (rule pool_reachable.step)
  then show ?thesis by (intro exI conjI) (assumption, simp)
qed

theorem acquired_exclusively_witness:
  "\<exists>s. pool_reachable 15 8 s \<and> acquired s = [0] \<and> 0 \<notin> set (ready (pool s)) \<and> 0 \<notin> set (closed_conns s)"
proof -
  from reachable_acquired obtain s where s: "pool_reachable 15 8 s" "acquired s = [0]" by blast
  then show ?thesis using acquired_exclusively [OF s(1), of 0] by auto
qed

text \<open>
  C35: closing is final and always possible. From every reachable state in which \<open>Close\<close> has
  begun some schedule finishes it; and once it has finished, in every later state the pool is
  empty, refuses every offer and every acquisition.
\<close>

theorem close_completes_and_is_final:
  assumes "pool_reachable interval limit s" and "close_started s"
  shows "(\<exists>t. pool_step\<^sup>*\<^sup>* s t \<and> close_done t)
     \<and> (\<forall>t u. pool_step\<^sup>*\<^sup>* s t \<longrightarrow> close_done t \<longrightarrow> pool_step\<^sup>*\<^sup>* t u \<longrightarrow>
          ready (pool u) = [] \<and> fst (AcquireSection (pool u)) = AcquireClosed
          \<and> fst (ReserveOffer (Some c) (pool u)) = Inl ErrPoolClosed)"
proof (intro conjI allI impI)
  show "\<exists>t. pool_step\<^sup>*\<^sup>* s t \<and> close_done t" using assms by (rule close_completes_from)
next
  fix t u
  assume st: "pool_step\<^sup>*\<^sup>* s t" "close_done t" and tu: "pool_step\<^sup>*\<^sup>* t u"
  have "pool_reachable interval limit u"
    using reachable_steps [OF tu reachable_steps [OF st(1) assms(1)]] .
  then have "pool_sys_inv limit u" by (rule pool_reachable_inv)
  moreover have "close_done u" using tu st(2) by (rule steps_close_done)
  ultimately have "ready (pool u) = []" "closing (pool u)" by (auto simp: pool_sys_inv_def)
  then show "ready (pool u) = []" "fst (AcquireSection (pool u)) = AcquireClosed"
    "fst (ReserveOffer (Some c) (pool u)) = Inl ErrPoolClosed"
    by (simp_all add: AcquireSection_def ReserveOffer_def)
qed

theorem close_completes_and_is_final_witness:
  "\<exists>s t. pool_reachable 15 8 s \<and> close_started s \<and> pool_step\<^sup>*\<^sup>* s t \<and> close_done t"
proof -
  let ?s = "(init_sys 15 8)\<lparr>pool := CloseBegin (pool (init_sys 15 8)), close_started := True\<rparr>"
  have "pool_step (init_sys 15 8) ?s" by (rule pool_step.close_begin) (simp add: init_sys_def)
  then have r: "pool_reachable 15 8 ?s" by (rule pool_reachable.step [OF pool_reachable.start])
  have c: "close_started ?s" by simp
  from close_completes_and_is_final [OF r c] r c show ?thesis by blast
qed

end
