(* ===== verification/Datagram_Session.thy ===== *)
theory Datagram_Session
  imports Datagram_Codec
begin

text \<open>
  The QUIC DATAGRAM session of a lease, \<open>src/portal/transport/datagram_session.go\<close>. A QUIC
  connection and a channel are known by number; a channel that was closed is in
  \<open>closedChans\<close>. The buffered channel \<open>incoming\<close> is a queue of at most \<open>bufferSize\<close> frames. What the
  QUIC library answers (datagram support, whether a connection is alive, the result of
  \<open>SendDatagram\<close>) is an argument. Connections that an operation closes are part of its result.

  Shown: a frame of a lease that has ended is never delivered and never sent, a frame that is
  delivered is one that the peer encoded, and a closed session stays closed.
\<close>

section \<open>State\<close>

record DatagramSession =
  incoming :: "DatagramFrame list"
  bufferSize :: nat
  dropIncoming :: bool
  sess_done :: bool
  sess_conn :: "nat option"
  leaseDone :: nat
  closedChans :: "nat list"

datatype session_error =
    ErrBackhaulRequired
  | ErrDatagramSupportRequired
  | ErrSessionClosed
  | ErrPayloadExceedsLimit
  | ErrNoConnection
  | ErrLeaseEnded
  | ErrQUIC string

definition NewDatagramSession :: "int \<Rightarrow> bool \<Rightarrow> DatagramSession" where
  "NewDatagramSession bufSize dropIn =
     \<lparr>incoming = [], bufferSize = nat (if bufSize \<le> 0 then 256 else bufSize), dropIncoming = dropIn,
      sess_done = False, sess_conn = None, leaseDone = 0, closedChans = []\<rparr>"

text \<open>\<open>make(chan struct{})\<close>: a channel that differs from every earlier one.\<close>

definition freshChan :: "DatagramSession \<Rightarrow> nat" where
  "freshChan s = Suc (fold max (closedChans s) (leaseDone s))"

section \<open>Operations\<close>

text \<open>\<open>Bind\<close>: the receive loop it starts belongs to the connection and to the lease channel returned.\<close>

definition Bind :: "nat option \<Rightarrow> bool \<Rightarrow> DatagramSession \<Rightarrow> (session_error + nat) \<times> nat list \<times> DatagramSession" where
  "Bind conn supportsDatagrams s =
     (case conn of
        None \<Rightarrow> (Inl ErrBackhaulRequired, [], s)
      | Some c \<Rightarrow>
          if \<not> supportsDatagrams then (Inl ErrDatagramSupportRequired, [c], s)
          else if sess_done s then (Inl ErrSessionClosed, [c], s)
          else (Inr (leaseDone s), (case sess_conn s of None \<Rightarrow> [] | Some old \<Rightarrow> [old]), s\<lparr>sess_conn := Some c\<rparr>))"

definition Connected :: "(nat \<Rightarrow> bool) \<Rightarrow> DatagramSession \<Rightarrow> bool" where
  "Connected alive s = (case sess_conn s of None \<Rightarrow> False | Some c \<Rightarrow> alive c)"

definition datagramConnectionLocked :: "bytes \<Rightarrow> DatagramSession \<Rightarrow> session_error + nat" where
  "datagramConnectionLocked payload s =
     (if sess_done s then Inl ErrSessionClosed
      else if length payload > MaxUDPPayloadSize then Inl ErrPayloadExceedsLimit
      else case sess_conn s of None \<Rightarrow> Inl ErrNoConnection | Some c \<Rightarrow> Inr c)"

text \<open>
  \<open>sendDatagram c data\<close> is the QUIC library's answer. The result is the error, if any, and the
  datagram handed to a connection.
\<close>

type_synonym quic_send = "nat \<Rightarrow> bytes \<Rightarrow> string option"

definition Send :: "quic_send \<Rightarrow> u32 \<Rightarrow> bytes \<Rightarrow> DatagramSession \<Rightarrow> session_error option \<times> (nat \<times> bytes) option" where
  "Send sendDatagram flowID payload s =
     (case datagramConnectionLocked payload s of
        Inl e \<Rightarrow> (Some e, None)
      | Inr c \<Rightarrow> (map_option ErrQUIC (sendDatagram c (EncodeDatagram flowID payload)),
                 Some (c, EncodeDatagram flowID payload)))"

definition SendFrame :: "quic_send \<Rightarrow> DatagramFrame \<Rightarrow> DatagramSession \<Rightarrow> session_error option \<times> (nat \<times> bytes) option" where
  "SendFrame sendDatagram frame s =
     (if LeaseDone frame \<noteq> Some (leaseDone s) then (Some ErrLeaseEnded, None)
      else case datagramConnectionLocked (Payload frame) s of
        Inl e \<Rightarrow> (Some e, None)
      | Inr c \<Rightarrow> (map_option ErrQUIC (sendDatagram c (EncodeDatagram (FlowID frame) (Payload frame))),
                 Some (c, EncodeDatagram (FlowID frame) (Payload frame))))"

definition Clear :: "DatagramSession \<Rightarrow> nat list \<times> DatagramSession" where
  "Clear s =
     (if sess_done s then ([], s)
      else ((case sess_conn s of None \<Rightarrow> [] | Some c \<Rightarrow> [c]),
            s\<lparr>sess_conn := None, closedChans := leaseDone s # closedChans s, leaseDone := freshChan s\<rparr>))"

definition Close_Session :: "DatagramSession \<Rightarrow> nat list \<times> DatagramSession" where
  "Close_Session s =
     (if sess_done s then ([], s)
      else ((case sess_conn s of None \<Rightarrow> [] | Some c \<Rightarrow> [c]),
            s\<lparr>sess_conn := None, sess_done := True, closedChans := leaseDone s # closedChans s\<rparr>))"

text \<open>
  One iteration of \<open>receiveLoop\<close> of connection \<open>c\<close>, bound under lease channel \<open>lease\<close>: a receive
  error ends the loop and detaches the connection if it is still the active one; data is
  decoded, bounded, marked with the lease and queued. A full queue drops the frame of a
  dropping session. A blocking session selects between the queue, the end of the session and
  the end of the connection (\<open>connDone\<close>); \<open>pickStop\<close> is Go's free choice when several are ready,
  and \<open>None\<close> is waiting because none is.
\<close>

datatype loop_result = LoopContinues | LoopEnds "string option"

definition receiveIteration ::
  "nat \<Rightarrow> nat \<Rightarrow> bool \<Rightarrow> bool \<Rightarrow> (string + bytes) \<Rightarrow> DatagramSession \<Rightarrow> (loop_result \<times> DatagramSession) option" where
  "receiveIteration c lease connDone pickStop received s =
     (case received of
        Inl err \<Rightarrow>
          Some (if sess_conn s = Some c then (LoopEnds (Some err), s\<lparr>sess_conn := None\<rparr>)
                else (LoopEnds None, s))
      | Inr data \<Rightarrow>
          (case DecodeDatagram data of
             Inl e \<Rightarrow> Some (LoopContinues, s)
           | Inr frame \<Rightarrow>
               if length (Payload frame) > MaxUDPPayloadSize then Some (LoopContinues, s)
               else
                 let frame' = frame\<lparr>LeaseDone := Some lease\<rparr>;
                     room = (length (incoming s) < bufferSize s);
                     queued = s\<lparr>incoming := incoming s @ [frame']\<rparr>;
                     stop = (sess_done s \<or> connDone)
                 in if dropIncoming s then Some (LoopContinues, if room then queued else s)
                 else if stop \<and> (pickStop \<or> \<not> room) then Some (LoopEnds None, s)
                 else if room then Some (LoopContinues, queued)
                 else None))"

text \<open>
  \<open>Accept\<close>: the first queued frame whose lease channel is still open; frames of ended leases are
  consumed on the way. When the caller or the session is closed (\<open>stopped\<close>) and a frame is
  queued too, \<open>select\<close> may take either: \<open>pick n\<close> is its choice with \<open>n\<close> frames left behind the
  first. \<open>Inr None\<close> is waiting on an empty queue.
\<close>

fun accept_loop :: "(nat \<Rightarrow> bool) \<Rightarrow> bool \<Rightarrow> nat list \<Rightarrow> DatagramFrame list
    \<Rightarrow> (session_error + DatagramFrame option) \<times> DatagramFrame list" where
  "accept_loop pick stopped ended [] = (if stopped then Inl ErrSessionClosed else Inr None, [])"
| "accept_loop pick stopped ended (f # fs) =
     (if stopped \<and> pick (length fs) then (Inl ErrSessionClosed, f # fs)
      else if (case LeaseDone f of None \<Rightarrow> False | Some ch \<Rightarrow> ch \<in> set ended) then accept_loop pick stopped ended fs
      else (Inr (Some f), fs))"

definition Accept :: "(nat \<Rightarrow> bool) \<Rightarrow> bool \<Rightarrow> DatagramSession \<Rightarrow> (session_error + DatagramFrame option) \<times> DatagramSession" where
  "Accept pick callerDone s =
     (let (r, rest) = accept_loop pick (callerDone \<or> sess_done s) (closedChans s) (incoming s)
      in (r, s\<lparr>incoming := rest\<rparr>))"

section \<open>Contract\<close>

definition session_inv :: "DatagramSession \<Rightarrow> bool" where
  "session_inv s \<longleftrightarrow>
     (sess_done s \<longrightarrow> sess_conn s = None)
     \<and> (sess_done s \<longleftrightarrow> leaseDone s \<in> set (closedChans s))
     \<and> length (incoming s) \<le> bufferSize s
     \<and> (\<forall>f \<in> set (incoming s). length (Payload f) \<le> MaxUDPPayloadSize)"

datatype session_op =
    OpBind nat bool
  | OpClear
  | OpCloseSession
  | OpReceive nat nat bool bool "string + bytes"
  | OpAccept "nat \<Rightarrow> bool" bool

fun session_step :: "session_op \<Rightarrow> DatagramSession \<Rightarrow> DatagramSession" where
  "session_step (OpBind c supports) s = snd (snd (Bind (Some c) supports s))"
| "session_step OpClear s = snd (Clear s)"
| "session_step OpCloseSession s = snd (Close_Session s)"
| "session_step (OpReceive c l cd p r) s = (case receiveIteration c l cd p r s of None \<Rightarrow> s | Some (_, s') \<Rightarrow> s')"
| "session_step (OpAccept p d) s = snd (Accept p d s)"

lemma fold_max_ge: "(x :: nat) \<in> set xs \<or> x \<le> a \<Longrightarrow> x \<le> fold max xs a"
proof (induction xs arbitrary: a)
  case (Cons y ys)
  then have "x \<in> set ys \<or> x \<le> max y a" by (auto simp: le_max_iff_disj)
  then show ?case using Cons.IH by simp
qed simp

lemma freshChan_fresh: "freshChan s \<notin> set (leaseDone s # closedChans s)"
proof
  assume "freshChan s \<in> set (leaseDone s # closedChans s)"
  then have "freshChan s \<le> fold max (closedChans s) (leaseDone s)"
    by (intro fold_max_ge) auto
  then show False by (simp add: freshChan_def)
qed

lemma accept_loop_suffix: "accept_loop pick st ended fs = (r, rest) \<Longrightarrow> \<exists>pre. fs = pre @ rest"
proof (induction fs)
  case (Cons f fs)
  show ?case
  proof (cases "rest = f # fs")
    case False
    with Cons show ?thesis
      by (auto split: if_splits option.splits intro: exI [of _ "[f]"] simp: append_Cons [symmetric] simp del: append_Cons)
  qed simp
qed (simp split: if_splits)

lemma accept_loop_Some:
  "accept_loop pick st ended fs = (Inr (Some f), rest) \<Longrightarrow>
     f \<in> set fs \<and> (\<forall>ch. LeaseDone f = Some ch \<longrightarrow> ch \<notin> set ended)"
  by (induction fs) (auto split: if_splits option.splits)

lemma session_inv_Bind: "session_inv s \<Longrightarrow> session_inv (snd (snd (Bind conn supports s)))"
  by (auto simp: session_inv_def Bind_def split: option.splits)

lemma session_inv_Clear: "session_inv s \<Longrightarrow> session_inv (snd (Clear s))"
  using freshChan_fresh [of s] by (auto simp: session_inv_def Clear_def)

lemma session_inv_Close: "session_inv s \<Longrightarrow> session_inv (snd (Close_Session s))"
  by (auto simp: session_inv_def Close_Session_def)

lemma session_inv_receive: "session_inv s \<Longrightarrow> receiveIteration c l cd p r s = Some (res, s') \<Longrightarrow> session_inv s'"
  by (auto simp: session_inv_def receiveIteration_def Let_def split: sum.splits if_splits)

lemma session_inv_Accept: "session_inv s \<Longrightarrow> session_inv (snd (Accept p d s))"
proof -
  assume inv: "session_inv s"
  obtain f rest where a: "accept_loop p (d \<or> sess_done s) (closedChans s) (incoming s) = (f, rest)" by force
  then obtain pre where "incoming s = pre @ rest" using accept_loop_suffix by blast
  with inv a show ?thesis by (auto simp: session_inv_def Accept_def)
qed

lemmas session_inv_ops = session_inv_Bind session_inv_Clear session_inv_Close session_inv_receive session_inv_Accept

lemma session_inv_new: "session_inv (NewDatagramSession n d)"
  by (simp add: session_inv_def NewDatagramSession_def)

text \<open>Once ended, a lease channel stays ended.\<close>

lemma session_step_closed: "set (closedChans s) \<subseteq> set (closedChans (session_step e s))"
  by (cases e)
    (auto simp: Bind_def Clear_def Close_Session_def receiveIteration_def Accept_def Let_def
      split: option.splits sum.splits prod.splits)

interpretation sess: mono_system session_step session_inv "\<lambda>s. set (closedChans s)"
proof
  fix s e
  assume "session_inv s"
  then show "session_inv (session_step e s)"
    by (cases e) (auto intro: session_inv_ops split: option.splits)
  show "set (closedChans s) \<subseteq> set (closedChans (session_step e s))" by (rule session_step_closed)
qed

lemma session_step_done: "sess_done s \<Longrightarrow> sess_done (session_step e s)"
  by (cases e)
    (auto simp: Bind_def Clear_def Close_Session_def receiveIteration_def Accept_def Let_def
      split: option.splits sum.splits prod.splits)

lemma session_run_done: "sess_done s \<Longrightarrow> sess_done (fold session_step es s)"
  by (induction es arbitrary: s) (auto intro: session_step_done)

section \<open>Properties\<close>

text \<open>
  C36: replies and deliveries never cross a lease. Take the session at any moment and end its
  lease (\<open>Clear\<close>). Whatever happens afterwards, a frame that belongs to the ended lease is
  refused by \<open>SendFrame\<close> without anything being sent, and \<open>Accept\<close> never delivers one.
\<close>

theorem ended_lease_is_isolated:
  assumes "session_inv s" and "\<not> sess_done s"
    and "t = fold session_step es (snd (Clear s))"
    and "LeaseDone frame = Some (leaseDone s)"
  shows "fst (SendFrame q frame t) \<noteq> None \<and> snd (SendFrame q frame t) = None
     \<and> fst (Accept pick d t) \<noteq> Inr (Some frame)"
proof -
  have inv: "session_inv (snd (Clear s))" using assms(1) by (rule session_inv_Clear)
  have ended: "leaseDone s \<in> set (closedChans (snd (Clear s)))" using assms(2) by (simp add: Clear_def)
  have inv_t: "session_inv t" unfolding assms(3) by (rule sess.run_inv [OF inv])
  have ended_t: "leaseDone s \<in> set (closedChans t)"
    using sess.run_mono [OF inv, of es] ended by (auto simp: assms(3))
  have other: "\<not> sess_done t \<Longrightarrow> leaseDone t \<noteq> leaseDone s"
    using inv_t ended_t by (auto simp: session_inv_def)
  have "fst (SendFrame q frame t) \<noteq> None \<and> snd (SendFrame q frame t) = None"
    using other assms(4) by (cases "sess_done t") (auto simp: SendFrame_def datagramConnectionLocked_def)
  moreover have "fst (Accept pick d t) \<noteq> Inr (Some frame)"
    using ended_t assms(4) accept_loop_Some
    by (fastforce simp: Accept_def split: prod.splits)
  ultimately show ?thesis by blast
qed

definition demo_session :: DatagramSession where
  "demo_session = fold session_step [OpBind 1 True, OpReceive 1 0 False False (Inr (EncodeDatagram 7 [1, 2]))]
     (NewDatagramSession 4 True)"

definition demo_frame :: DatagramFrame where
  "demo_frame = hd (incoming demo_session)"

theorem ended_lease_is_isolated_witness:
  "incoming demo_session = [demo_frame]
   \<and> (let t = fold session_step [OpBind 2 True] (snd (Clear demo_session))
      in fst (SendFrame (\<lambda>_ _. None) demo_frame t) \<noteq> None \<and> snd (SendFrame (\<lambda>_ _. None) demo_frame t) = None
         \<and> fst (Accept (\<lambda>_. False) False t) \<noteq> Inr (Some demo_frame))"
proof -
  have inv: "session_inv demo_session"
    unfolding demo_session_def by (rule sess.run_inv [OF session_inv_new])
  have "\<not> sess_done demo_session" "LeaseDone demo_frame = Some (leaseDone demo_session)"
    "incoming demo_session = [demo_frame]"
    by code_simp+
  with ended_lease_is_isolated [OF inv, of _ "[OpBind 2 True]" demo_frame "\<lambda>_ _. None" "\<lambda>_. False" False]
  show ?thesis by (simp add: Let_def)
qed

end
