(* ===== verification/Datagram_Relay.thy ===== *)
theory Datagram_Relay
  imports Datagram_Session Service_Types
begin

text \<open>
  The UDP ingress of a lease, \<open>src/portal/transport/datagram_relay.go\<close>: public clients are mapped to
  32-bit flow numbers, their packets are sent over the QUIC session of the lease and replies
  come back by flow number. \<open>flowTable\<close> and \<open>addrIndex\<close> are the two directions of that mapping;
  only \<open>&flowState{...}\<close> is ever stored, so the source's nil checks on a flow never fire and the
  table holds flow states directly.

  Each definition is one critical section of \<open>d.mu\<close> or one atomic load. What other goroutines do
  between two of them is an argument \<open>between\<close> of the functions that have several. The rate
  limiter of new flows is a library; its answer is the argument \<open>allow\<close>. Logging is left out.

  Shown: the search for a free flow number ends although it wraps around, the two maps stay
  inverse to each other and bounded under every interleaving, a reply is written only to the
  client that owns its flow, an unsuccessful first packet leaves no flow behind.
\<close>

section \<open>State\<close>

definition DefaultUDPFlowIdleTimeout :: duration where "DefaultUDPFlowIdleTimeout = 5 * minute"
definition DefaultUDPMaxFlows :: nat where "DefaultUDPMaxFlows = 1024"

text \<open>A \<open>netip.AddrPort\<close> is a comparable pair of an address and a port.\<close>

datatype AddrPort = AddrPort (Addr: string) (Port: nat)

record flowState =
  addr :: AddrPort
  lastSeen :: go_time

record RelayDatagram =
  rd_identityKey :: ServiceIdentityKey
  rd_port :: int
  rd_session :: DatagramSession
  flowTable :: "(u32, flowState) gomap"
  addrIndex :: "(AddrPort, u32) gomap"
  nextFlow :: u32
  enabled :: bool
  rd_conn :: "nat option"
  started :: bool

definition NewRelayDatagram :: "ServiceIdentityKey \<Rightarrow> int \<Rightarrow> RelayDatagram" where
  "NewRelayDatagram key port =
     \<lparr>rd_identityKey = key, rd_port = port, rd_session = NewDatagramSession 256 True,
      flowTable = [], addrIndex = [], nextFlow = 1, enabled = False, rd_conn = None, started = False\<rparr>"

section \<open>Operations\<close>

datatype relay_error = RelayClosed | RelayListen string | RelaySession session_error

text \<open>\<open>listen\<close> is the answer of \<open>net.ListenUDP\<close>: an error or the socket.\<close>

definition Start_RelayDatagram :: "(string + nat) \<Rightarrow> RelayDatagram \<Rightarrow> relay_error option \<times> RelayDatagram" where
  "Start_RelayDatagram listen d =
     (if sess_done (rd_session d) then (Some RelayClosed, d)
      else if started d then (None, d)
      else if rd_port d > 0 then
        (case listen of
           Inl e \<Rightarrow> (Some (RelayListen e), d)
         | Inr c \<Rightarrow> (None, d\<lparr>rd_conn := Some c, started := True\<rparr>))
      else (None, d\<lparr>started := True\<rparr>))"

text \<open>The result names the UDP socket and the QUIC connections that are closed.\<close>

definition Close_RelayDatagram :: "RelayDatagram \<Rightarrow> (nat option \<times> nat list) \<times> RelayDatagram" where
  "Close_RelayDatagram d =
     (let (cs, sess) = Close_Session (rd_session d)
      in ((rd_conn d, cs), d\<lparr>rd_session := sess, flowTable := [], addrIndex := []\<rparr>))"

definition BindBackhaul :: "nat option \<Rightarrow> bool \<Rightarrow> RelayDatagram \<Rightarrow> relay_error option \<times> RelayDatagram" where
  "BindBackhaul conn supportsDatagrams d =
     (case Bind conn supportsDatagrams (rd_session d) of
        (Inl e, _, sess) \<Rightarrow> (Some (RelaySession e), d\<lparr>rd_session := sess\<rparr>)
      | (Inr _, _, sess) \<Rightarrow> (None, d\<lparr>rd_session := sess\<rparr>))"

text \<open>
  The search of \<open>touchFlow\<close> for a free flow number: \<open>nextFlow++\<close> wraps at 32 bits, and the loop has
  no bound of its own. The result is the number found and the new counter.
\<close>

partial_function (option) freeFlow :: "(u32, flowState) gomap \<Rightarrow> u32 \<Rightarrow> (u32 \<times> u32) option" where
  "freeFlow tbl i = (if has_key tbl i then freeFlow tbl (i + 1) else Some (i, i + 1))"

declare freeFlow.simps [code]

text \<open>\<open>None\<close> is a search that never ends; the triple is \<open>id, fresh, admitted\<close>.\<close>

definition touchFlow ::
  "AddrPort \<Rightarrow> go_time \<Rightarrow> bool \<Rightarrow> RelayDatagram \<Rightarrow> ((u32 \<times> bool \<times> bool) \<times> RelayDatagram) option" where
  "touchFlow a now allow d =
     (if sess_done (rd_session d) then Some ((0, False, False), d)
      else
        case (case lookup (addrIndex d) a of
                None \<Rightarrow> None
              | Some i \<Rightarrow> map_option (Pair i) (lookup (flowTable d) i)) of
          Some (i, flow) \<Rightarrow>
            Some ((i, False, True), d\<lparr>flowTable := put i (flow\<lparr>lastSeen := now\<rparr>) (flowTable d)\<rparr>)
        | None \<Rightarrow>
            (let d = d\<lparr>addrIndex := del a (addrIndex d)\<rparr> in
             if length (flowTable d) \<ge> DefaultUDPMaxFlows \<or> \<not> allow then Some ((0, False, False), d)
             else case freeFlow (flowTable d) (nextFlow d) of
                 None \<Rightarrow> None
               | Some (i, nxt) \<Rightarrow>
                   Some ((i, True, True),
                     d\<lparr>nextFlow := nxt,
                       flowTable := put i \<lparr>addr = a, lastSeen = now\<rparr> (flowTable d),
                       addrIndex := put a i (addrIndex d)\<rparr>)))"

definition UDPPort :: "RelayDatagram option \<Rightarrow> int" where
  "UDPPort d = (case d of None \<Rightarrow> 0 | Some d \<Rightarrow> rd_port d)"

definition ActiveFlowCount :: "RelayDatagram option \<Rightarrow> int" where
  "ActiveFlowCount d = (case d of None \<Rightarrow> 0 | Some d \<Rightarrow> int (length (flowTable d)))"

definition SetEnabled :: "bool \<Rightarrow> RelayDatagram \<Rightarrow> RelayDatagram" where
  "SetEnabled on d = d\<lparr>enabled := on\<rparr>"

definition forgetFlow :: "u32 \<Rightarrow> RelayDatagram \<Rightarrow> RelayDatagram" where
  "forgetFlow i d =
     (case lookup (flowTable d) i of
        None \<Rightarrow> d
      | Some flow \<Rightarrow> d\<lparr>addrIndex := del (addr flow) (addrIndex d), flowTable := del i (flowTable d)\<rparr>)"

definition idle :: "go_time \<Rightarrow> flowState \<Rightarrow> bool" where
  "idle now flow \<longleftrightarrow> now - lastSeen flow > DefaultUDPFlowIdleTimeout"

definition expireFlow :: "go_time \<Rightarrow> u32 \<times> flowState \<Rightarrow> RelayDatagram \<Rightarrow> RelayDatagram" where
  "expireFlow now e d =
     (if idle now (snd e)
      then d\<lparr>addrIndex := del (addr (snd e)) (addrIndex d), flowTable := del (fst e) (flowTable d)\<rparr>
      else d)"

definition expireIdleFlows :: "go_time \<Rightarrow> RelayDatagram \<Rightarrow> RelayDatagram" where
  "expireIdleFlows now d = fold (expireFlow now) (flowTable d) d"

text \<open>
  \<open>dispatch\<close> in its two parts: the section under the lock selects the socket and the client and
  refreshes the flow; afterwards the packet is written, and a failed write forgets the flow.
\<close>

definition dispatchSelect :: "go_time \<Rightarrow> DatagramFrame \<Rightarrow> RelayDatagram \<Rightarrow> (nat \<times> AddrPort) option \<times> RelayDatagram" where
  "dispatchSelect now frame d =
     (if \<not> enabled d \<or> length (Payload frame) > MaxUDPPayloadSize then (None, d)
      else case (lookup (flowTable d) (FlowID frame), rd_conn d) of
        (Some flow, Some c) \<Rightarrow>
          (Some (c, addr flow),
           d\<lparr>flowTable := put (FlowID frame) (flow\<lparr>lastSeen := now\<rparr>) (flowTable d)\<rparr>)
      | _ \<Rightarrow> (None, d))"

text \<open>
  The result is the packet written: socket, client and payload. \<open>writeFails\<close> is the answer of
  the socket.
\<close>

definition dispatch ::
  "go_time \<Rightarrow> (RelayDatagram \<Rightarrow> RelayDatagram) \<Rightarrow> bool \<Rightarrow> DatagramFrame \<Rightarrow> RelayDatagram
     \<Rightarrow> (nat \<times> AddrPort \<times> bytes) option \<times> RelayDatagram" where
  "dispatch now between writeFails frame d =
     (case dispatchSelect now frame d of
        (None, d1) \<Rightarrow> (None, d1)
      | (Some (c, a), d1) \<Rightarrow>
          (let d2 = between d1 in
           if \<not> enabled d2 then (None, d2)
           else (Some (c, a, Payload frame), if writeFails then forgetFlow (FlowID frame) d2 else d2)))"

text \<open>One turn of \<open>runDispatchLoop\<close> that finds a frame: the queue of the session is read directly.\<close>

definition takeIncoming :: "RelayDatagram \<Rightarrow> (DatagramFrame \<times> RelayDatagram) option" where
  "takeIncoming d =
     (case incoming (rd_session d) of
        [] \<Rightarrow> None
      | f # fs \<Rightarrow> Some (f, d\<lparr>rd_session := (rd_session d)\<lparr>incoming := fs\<rparr>\<rparr>))"

text \<open>
  \<open>forwardDatagram\<close>: the gate, the admission of the flow, and after whatever runs in between the
  second look at \<open>enabled\<close>, the send and the rollback of a fresh flow. The result is the datagram
  handed to the QUIC connection.
\<close>

definition forwardFinish ::
  "quic_send \<Rightarrow> u32 \<Rightarrow> bool \<Rightarrow> bytes \<Rightarrow> RelayDatagram \<Rightarrow> (nat \<times> bytes) option \<times> RelayDatagram" where
  "forwardFinish sendDatagram i fresh payload d =
     (if \<not> enabled d then (None, if fresh then forgetFlow i d else d)
      else case Send sendDatagram i payload (rd_session d) of
        (Some e, out) \<Rightarrow> (None, if fresh then forgetFlow i d else d)
      | (None, out) \<Rightarrow> (out, d))"

definition forwardDatagram ::
  "(nat \<Rightarrow> bool) \<Rightarrow> quic_send \<Rightarrow> go_time \<Rightarrow> bool \<Rightarrow> (RelayDatagram \<Rightarrow> RelayDatagram) \<Rightarrow> AddrPort \<Rightarrow> bytes
     \<Rightarrow> RelayDatagram \<Rightarrow> ((nat \<times> bytes) option \<times> RelayDatagram) option" where
  "forwardDatagram alive sendDatagram now allow between a payload d =
     (if \<not> enabled d \<or> length payload > MaxUDPPayloadSize \<or> \<not> Connected alive (rd_session d) then Some (None, d)
      else case touchFlow a now allow d of
          None \<Rightarrow> None
        | Some ((i, fresh, admitted), d1) \<Rightarrow>
            if \<not> admitted then Some (None, d1)
            else Some (forwardFinish sendDatagram i fresh payload (between d1)))"

section \<open>The search for a free flow number ends\<close>

lemma freeFlow_steps:
  "\<not> has_key tbl (i + of_nat k) \<Longrightarrow> \<exists>r. freeFlow tbl i = Some r"
proof (induction k arbitrary: i)
  case 0
  then show ?case by (subst freeFlow.simps) simp
next
  case (Suc k)
  then have "\<exists>r. freeFlow tbl (i + 1) = Some r" by (intro Suc.IH) (simp add: add.assoc)
  then show ?case by (subst freeFlow.simps) auto
qed

lemma some_flow_free:
  assumes "length (tbl :: (u32, flowState) gomap) < 2 ^ 32"
  shows "\<exists>k. \<not> has_key tbl (i + of_nat k)"
proof (rule ccontr)
  assume "\<not> ?thesis"
  then have sub: "(\<lambda>k. i + of_nat k) ` {..length tbl} \<subseteq> set (map fst tbl)"
    by (auto simp: has_key_keys)
  have "inj_on (\<lambda>k. i + of_nat k) {..length tbl}"
  proof (rule inj_onI)
    fix x y assume "x \<in> {..length tbl}" "y \<in> {..length tbl}" "i + of_nat x = i + of_nat y"
    then have "unat (of_nat x :: u32) = unat (of_nat y :: u32)" "x < 2 ^ 32" "y < 2 ^ 32"
      using assms by auto
    then show "x = y" by (simp add: unat_of_nat)
  qed
  then have "Suc (length tbl) \<le> card (set (map fst tbl))"
    using card_mono [OF _ sub] by (simp add: card_image)
  then show False using card_length [of "map fst tbl"] by simp
qed

lemma freeFlow_returns:
  "length tbl < 2 ^ 32 \<Longrightarrow> \<exists>j. freeFlow tbl i = Some (j, j + 1) \<and> \<not> has_key tbl j"
proof -
  assume "length tbl < 2 ^ 32"
  then obtain r where r: "freeFlow tbl i = Some r" using some_flow_free freeFlow_steps by blast
  then have "snd r = fst r + 1 \<and> \<not> has_key tbl (fst r)"
    by (rule freeFlow.raw_induct [where P = "\<lambda>tbl i r. snd r = fst r + 1 \<and> \<not> has_key tbl (fst r)", rotated])
      (auto split: if_splits)
  with r show ?thesis by (metis prod.collapse)
qed

section \<open>Invariant\<close>

definition inverse_maps :: "(u32, flowState) gomap \<Rightarrow> (AddrPort, u32) gomap \<Rightarrow> bool" where
  "inverse_maps tbl idx \<longleftrightarrow>
     (\<forall>a i. lookup idx a = Some i \<longleftrightarrow> (\<exists>f. lookup tbl i = Some f \<and> addr f = a))"

definition relay_inv :: "RelayDatagram \<Rightarrow> bool" where
  "relay_inv d \<longleftrightarrow>
     session_inv (rd_session d)
     \<and> wf_map (flowTable d) \<and> wf_map (addrIndex d)
     \<and> length (flowTable d) \<le> DefaultUDPMaxFlows
     \<and> inverse_maps (flowTable d) (addrIndex d)
     \<and> (sess_done (rd_session d) \<longrightarrow> flowTable d = [] \<and> addrIndex d = [])"

lemma inverse_maps_del:
  assumes "inverse_maps tbl idx" and "lookup tbl i = Some f"
  shows "inverse_maps (del i tbl) (del (addr f) idx)"
  using assms by (auto simp: inverse_maps_def) (metis option.inject)+

lemma inverse_maps_touch:
  assumes "inverse_maps tbl idx" and "lookup tbl i = Some f"
  shows "inverse_maps (put i (f\<lparr>lastSeen := now\<rparr>) tbl) idx"
  using assms by (auto simp: inverse_maps_def)

lemma inverse_maps_put:
  assumes "inverse_maps tbl idx" and "\<not> has_key tbl i" and "\<not> has_key idx a"
  shows "inverse_maps (put i \<lparr>addr = a, lastSeen = now\<rparr> tbl) (put a i idx)"
  using assms by (auto simp: inverse_maps_def has_key_def)

lemma inverse_maps_known:
  "inverse_maps tbl idx \<Longrightarrow> lookup idx a = Some i \<Longrightarrow> \<exists>f. lookup tbl i = Some f \<and> addr f = a"
  by (auto simp: inverse_maps_def)

lemma del_absent: "lookup m k = None \<Longrightarrow> del k m = m"
  by (simp add: AList.delete_eq map_of_eq_None_iff filter_id_conv) force

text \<open>What \<open>touchFlow\<close> does on a well-formed relay, branch by branch.\<close>

lemma touchFlow_cases:
  assumes "relay_inv d"
  obtains
    (shut) "sess_done (rd_session d)" "touchFlow a now allow d = Some ((0, False, False), d)"
  | (known) i f where "\<not> sess_done (rd_session d)" "lookup (addrIndex d) a = Some i"
      "lookup (flowTable d) i = Some f" "addr f = a"
      "touchFlow a now allow d =
         Some ((i, False, True), d\<lparr>flowTable := put i (f\<lparr>lastSeen := now\<rparr>) (flowTable d)\<rparr>)"
  | (refused) "\<not> sess_done (rd_session d)" "lookup (addrIndex d) a = None"
      "length (flowTable d) \<ge> DefaultUDPMaxFlows \<or> \<not> allow"
      "touchFlow a now allow d = Some ((0, False, False), d)"
  | (fresh) j where "\<not> sess_done (rd_session d)" "lookup (addrIndex d) a = None"
      "length (flowTable d) < DefaultUDPMaxFlows" "allow" "\<not> has_key (flowTable d) j"
      "touchFlow a now allow d =
         Some ((j, True, True), d\<lparr>nextFlow := j + 1, flowTable := put j \<lparr>addr = a, lastSeen = now\<rparr> (flowTable d),
            addrIndex := put a j (addrIndex d)\<rparr>)"
proof (cases "sess_done (rd_session d)")
  case True
  then show ?thesis using shut by (simp add: touchFlow_def)
next
  case open_session: False
  have inv: "inverse_maps (flowTable d) (addrIndex d)" using assms by (simp add: relay_inv_def)
  show ?thesis
  proof (cases "lookup (addrIndex d) a")
    case (Some i)
    then obtain f where "lookup (flowTable d) i = Some f" "addr f = a"
      using inverse_maps_known [OF inv] by blast
    with open_session Some show ?thesis by (intro known) (simp_all add: touchFlow_def)
  next
    case None
    note absent = None del_absent [OF None]
    show ?thesis
    proof (cases "length (flowTable d) \<ge> DefaultUDPMaxFlows \<or> \<not> allow")
      case True
      with open_session absent show ?thesis by (intro refused) (simp_all add: touchFlow_def Let_def)
    next
      case False
      then have "length (flowTable d) < 2 ^ 32" by (simp add: DefaultUDPMaxFlows_def)
      then obtain j where "freeFlow (flowTable d) (nextFlow d) = Some (j, j + 1)" "\<not> has_key (flowTable d) j"
        using freeFlow_returns by blast
      with open_session absent False show ?thesis
        by (intro fresh [of j]) (simp_all add: touchFlow_def Let_def)
    qed
  qed
qed

lemma relay_inv_touched:
  "relay_inv d \<Longrightarrow> lookup (flowTable d) i = Some f \<Longrightarrow>
     relay_inv (d\<lparr>flowTable := put i (f\<lparr>lastSeen := now\<rparr>) (flowTable d)\<rparr>)"
  by (auto simp: relay_inv_def length_put has_key_def inverse_maps_touch)

lemma relay_inv_touchFlow [inv_intros]:
  assumes "relay_inv d" and "touchFlow a now allow d = Some (r, d')"
  shows "relay_inv d'"
  using assms(1)
proof (cases rule: touchFlow_cases [where a = a and now = now and allow = allow])
  case (known i f)
  with assms show ?thesis by (auto intro: relay_inv_touched)
next
  case (fresh j)
  then have "\<not> has_key (addrIndex d) a" by (simp add: has_key_def)
  with fresh assms show ?thesis
    by (auto simp: relay_inv_def length_put inverse_maps_put)
qed (use assms in auto)

lemma relay_inv_forgetFlow [inv_intros]: "relay_inv d \<Longrightarrow> relay_inv (forgetFlow i d)"
proof (cases "lookup (flowTable d) i")
  case (Some f)
  assume "relay_inv d"
  with Some show ?thesis
    using inverse_maps_del [of "flowTable d" "addrIndex d" i f] length_del_le [of i "flowTable d"]
    by (auto simp: relay_inv_def forgetFlow_def intro: order_trans)
qed (simp add: forgetFlow_def)

lemma expireFlow_forget:
  "lookup (flowTable d) i = Some f \<Longrightarrow> expireFlow now (i, f) d = (if idle now f then forgetFlow i d else d)"
  by (simp add: expireFlow_def forgetFlow_def)

text \<open>The loop of \<open>expireIdleFlows\<close> over entries that are still in the table.\<close>

lemma expire_fold:
  assumes "relay_inv d" and "wf_map es" and "\<forall>(i, f) \<in> set es. lookup (flowTable d) i = Some f"
  shows "relay_inv (fold (expireFlow now) es d)
     \<and> rd_session (fold (expireFlow now) es d) = rd_session d
     \<and> (\<forall>i. lookup (flowTable (fold (expireFlow now) es d)) i =
          (case lookup es i of None \<Rightarrow> lookup (flowTable d) i
           | Some f \<Rightarrow> if idle now f then None else Some f))"
  using assms
proof (induction es arbitrary: d)
  case Nil
  then show ?case by simp
next
  case (Cons e es)
  obtain i f where e: "e = (i, f)" by (cases e)
  let ?d = "expireFlow now e d"
  have f: "lookup (flowTable d) i = Some f" and i: "lookup es i = None" and wf: "wf_map es"
    using Cons.prems by (auto simp: e wf_map_def map_of_eq_None_iff)
  have tbl: "lookup (flowTable ?d) j = (if j = i \<and> idle now f then None else lookup (flowTable d) j)" for j
    using f by (simp add: e expireFlow_def)
  have inv: "relay_inv ?d"
    using Cons.prems(1) f by (simp add: e expireFlow_forget relay_inv_forgetFlow)
  have "\<forall>(j, g) \<in> set es. lookup (flowTable ?d) j = Some g"
  proof clarify
    fix j g
    assume jg: "(j, g) \<in> set es"
    then have "j \<noteq> i" using i by (force simp: map_of_eq_None_iff)
    with jg Cons.prems(3) show "lookup (flowTable ?d) j = Some g" by (auto simp: tbl)
  qed
  note IH = Cons.IH [OF inv wf this]
  have "rd_session ?d = rd_session d" by (simp add: expireFlow_def)
  moreover have "lookup (e # es) j = (if j = i then Some f else lookup es j)" for j by (simp add: e)
  ultimately show ?case using f i IH by (simp add: tbl split: option.splits del: map_of.simps)
qed

lemma expireIdle_facts:
  assumes "relay_inv d"
  shows "relay_inv (expireIdleFlows now d)"
    and "rd_session (expireIdleFlows now d) = rd_session d"
    and "lookup (flowTable (expireIdleFlows now d)) i =
       (case lookup (flowTable d) i of None \<Rightarrow> None | Some f \<Rightarrow> if idle now f then None else Some f)"
proof -
  have "wf_map (flowTable d)" using assms by (simp add: relay_inv_def)
  moreover from this have "\<forall>(i, f) \<in> set (flowTable d). lookup (flowTable d) i = Some f"
    by (simp add: lookup_in_set)
  ultimately have *: "relay_inv (expireIdleFlows now d)"
    "rd_session (expireIdleFlows now d) = rd_session d"
    "lookup (flowTable (expireIdleFlows now d)) i =
       (case lookup (flowTable d) i of None \<Rightarrow> lookup (flowTable d) i | Some f \<Rightarrow> if idle now f then None else Some f)"
    unfolding expireIdleFlows_def using expire_fold [OF assms, of "flowTable d" now] by blast+
  show "relay_inv (expireIdleFlows now d)" "rd_session (expireIdleFlows now d) = rd_session d"
    by (fact *)+
  show "lookup (flowTable (expireIdleFlows now d)) i =
       (case lookup (flowTable d) i of None \<Rightarrow> None | Some f \<Rightarrow> if idle now f then None else Some f)"
    using *(3) by (simp split: option.splits)
qed

lemmas relay_inv_expire [inv_intros] = expireIdle_facts(1)

lemma relay_inv_dispatchSelect [inv_intros]:
  "relay_inv d \<Longrightarrow> relay_inv (snd (dispatchSelect now frame d))"
  by (auto simp: dispatchSelect_def intro: relay_inv_touched split: option.splits)

text \<open>The atomic operations that the goroutines of a relay run in any order.\<close>

datatype relay_op =
    OpStartRelay "string + nat"
  | OpCloseRelay
  | OpBindBackhaul "nat option" bool
  | OpTouchFlow AddrPort go_time bool
  | OpSetEnabled bool
  | OpDispatchSelect go_time DatagramFrame
  | OpForgetFlow u32
  | OpExpireIdle go_time
  | OpReceiveBackhaul nat nat bool bool "string + bytes"
  | OpTakeIncoming

fun relay_step :: "relay_op \<Rightarrow> RelayDatagram \<Rightarrow> RelayDatagram" where
  "relay_step (OpStartRelay l) d = snd (Start_RelayDatagram l d)"
| "relay_step OpCloseRelay d = snd (Close_RelayDatagram d)"
| "relay_step (OpBindBackhaul c supports) d = snd (BindBackhaul c supports d)"
| "relay_step (OpTouchFlow a now allow) d = (case touchFlow a now allow d of None \<Rightarrow> d | Some (_, d') \<Rightarrow> d')"
| "relay_step (OpSetEnabled b) d = SetEnabled b d"
| "relay_step (OpDispatchSelect now f) d = snd (dispatchSelect now f d)"
| "relay_step (OpForgetFlow i) d = forgetFlow i d"
| "relay_step (OpExpireIdle now) d = expireIdleFlows now d"
| "relay_step (OpReceiveBackhaul c l cd p r) d = d\<lparr>rd_session := session_step (OpReceive c l cd p r) (rd_session d)\<rparr>"
| "relay_step OpTakeIncoming d = (case takeIncoming d of None \<Rightarrow> d | Some (_, d') \<Rightarrow> d')"

lemma relay_inv_new: "relay_inv (NewRelayDatagram key p)"
  by (simp add: relay_inv_def NewRelayDatagram_def session_inv_new inverse_maps_def)

lemma relay_inv_session:
  "relay_inv d \<Longrightarrow> session_inv s \<Longrightarrow> sess_done s = sess_done (rd_session d) \<Longrightarrow> relay_inv (d\<lparr>rd_session := s\<rparr>)"
  by (auto simp: relay_inv_def)

lemma relay_inv_Close [inv_intros]: "relay_inv d \<Longrightarrow> relay_inv (snd (Close_RelayDatagram d))"
  using session_inv_Close [of "rd_session d"]
  by (auto simp: relay_inv_def Close_RelayDatagram_def inverse_maps_def split: prod.splits)

lemma relay_inv_Bind [inv_intros]: "relay_inv d \<Longrightarrow> relay_inv (snd (BindBackhaul c supports d))"
proof -
  assume inv: "relay_inv d"
  then have "session_inv (snd (snd (Bind c supports (rd_session d))))"
    by (auto simp: relay_inv_def intro: session_inv_Bind)
  moreover have "sess_done (snd (snd (Bind c supports (rd_session d)))) = sess_done (rd_session d)"
    by (auto simp: Bind_def split: option.splits)
  ultimately show ?thesis using relay_inv_session [OF inv]
    by (auto simp: BindBackhaul_def split: sum.splits prod.splits)
qed

lemma relay_inv_Start [inv_intros]: "relay_inv d \<Longrightarrow> relay_inv (snd (Start_RelayDatagram l d))"
  by (auto simp: relay_inv_def Start_RelayDatagram_def split: sum.splits)

lemma receive_keeps_done: "receiveIteration c l cd p r s = Some (x, s') \<Longrightarrow> sess_done s' = sess_done s"
  by (auto simp: receiveIteration_def Let_def split: sum.splits if_splits)

lemma relay_inv_receive [inv_intros]:
  "relay_inv d \<Longrightarrow> relay_inv (d\<lparr>rd_session := session_step (OpReceive c l cd p r) (rd_session d)\<rparr>)"
  using sess.step_inv [of "rd_session d" "OpReceive c l cd p r"]
  by (intro relay_inv_session)
    (auto simp: relay_inv_def receive_keeps_done split: option.splits)

lemma relay_inv_take [inv_intros]: "relay_inv d \<Longrightarrow> takeIncoming d = Some (f, d') \<Longrightarrow> relay_inv d'"
  by (auto simp: takeIncoming_def relay_inv_def session_inv_def split: list.splits)

lemma relay_inv_step: "relay_inv d \<Longrightarrow> relay_inv (relay_step e d)"
proof (cases e)
  case (OpSetEnabled b)
  assume "relay_inv d"
  then show ?thesis by (simp add: OpSetEnabled SetEnabled_def relay_inv_def)
next
  case (OpReceiveBackhaul c l cd p r)
  assume "relay_inv d"
  then show ?thesis unfolding OpReceiveBackhaul relay_step.simps by (rule relay_inv_receive)
qed (auto intro: inv_intros split: option.splits)

interpretation relay: op_system relay_step relay_inv
  by unfold_locales (rule relay_inv_step)

section \<open>Properties\<close>

text \<open>A live flow keeps its client: no operation rebinds a flow number that is in use.\<close>

lemma relay_step_keeps_owner:
  assumes "relay_inv d" and "lookup (flowTable d) i = Some f" and "lookup (flowTable (relay_step e d)) i = Some g"
  shows "addr g = addr f"
proof (cases e)
  case (OpTouchFlow a now allow)
  from assms(1) show ?thesis
    by (cases rule: touchFlow_cases [where a = a and now = now and allow = allow])
      (use assms OpTouchFlow in \<open>auto simp: has_key_def split: if_splits\<close>)
next
  case (OpExpireIdle now)
  with assms show ?thesis by (simp add: expireIdle_facts(3) split: if_splits)
qed (use assms in \<open>auto simp: Start_RelayDatagram_def Close_RelayDatagram_def BindBackhaul_def SetEnabled_def
       dispatchSelect_def forgetFlow_def takeIncoming_def
       split: if_splits option.splits sum.splits prod.splits list.splits\<close>)

lemma owner_along_run:
  assumes "relay_inv d" and "\<forall>k \<le> length es. has_key (flowTable (fold relay_step (take k es) d)) i"
    and "lookup (flowTable d) i = Some f"
  shows "\<exists>g. lookup (flowTable (fold relay_step es d)) i = Some g \<and> addr g = addr f"
  using assms
proof (induction es arbitrary: d f)
  case Nil
  then show ?case by simp
next
  case (Cons e es)
  have "has_key (flowTable (relay_step e d)) i" using Cons.prems(2)[rule_format, of 1] by simp
  then obtain g where g: "lookup (flowTable (relay_step e d)) i = Some g" by (auto simp: has_key_def)
  have "\<forall>k \<le> length es. has_key (flowTable (fold relay_step (take k es) (relay_step e d))) i"
    using Cons.prems(2) by (metis Suc_le_mono fold_simps(2) length_Cons take_Suc_Cons)
  from Cons.IH [OF relay_inv_step [OF Cons.prems(1)] this g]
  show ?case using relay_step_keeps_owner [OF Cons.prems(1,3) g] by simp
qed

lemma touchFlow_admitted:
  "relay_inv d \<Longrightarrow> touchFlow a now allow d = Some ((i, fresh, True), d') \<Longrightarrow>
     \<exists>f. lookup (flowTable d') i = Some f \<and> addr f = a"
  by (cases rule: touchFlow_cases [where a = a and now = now and allow = allow]) auto

text \<open>
  C24: under every sequence of starts, closes, packets, replies, expiries and backhaul events, the
  relay tracks at most 1024 flows, no two clients share a flow number, no client has two, and
  a closed relay holds no flow.
\<close>

theorem relay_flows_exclusive:
  assumes "d = fold relay_step es (NewRelayDatagram key p)"
  shows "length (flowTable d) \<le> 1024
     \<and> (\<forall>a i. lookup (addrIndex d) a = Some i \<longleftrightarrow> (\<exists>f. lookup (flowTable d) i = Some f \<and> addr f = a))
     \<and> (\<forall>i j f g. lookup (flowTable d) i = Some f \<and> lookup (flowTable d) j = Some g \<and> addr f = addr g \<longrightarrow> i = j)
     \<and> (sess_done (rd_session d) \<longrightarrow> flowTable d = [] \<and> addrIndex d = [])"
proof -
  have inv: "relay_inv d" unfolding assms by (rule relay.run_inv [OF relay_inv_new])
  then have inverse: "inverse_maps (flowTable d) (addrIndex d)" by (simp add: relay_inv_def)
  then have "\<forall>i j f g. lookup (flowTable d) i = Some f \<and> lookup (flowTable d) j = Some g \<and> addr f = addr g \<longrightarrow> i = j"
    by (metis inverse_maps_def option.inject)
  with inv inverse show ?thesis by (simp add: relay_inv_def inverse_maps_def DefaultUDPMaxFlows_def)
qed

definition demo_key :: ServiceIdentityKey where
  "demo_key = ServiceIdentityKey ''app'' ''0xabc''"

definition demo_ops :: "relay_op list" where
  "demo_ops = [OpStartRelay (Inr 3), OpBindBackhaul (Some 1) True, OpSetEnabled True,
     OpTouchFlow (AddrPort ''10.0.0.1'' 5000) 10 True, OpTouchFlow (AddrPort ''10.0.0.2'' 5000) 11 True]"

theorem relay_flows_exclusive_witness:
  "let d = fold relay_step demo_ops (NewRelayDatagram demo_key 4000)
   in length (flowTable d) = 2 \<and> length (flowTable d) \<le> 1024"
proof -
  have "length (flowTable (fold relay_step demo_ops (NewRelayDatagram demo_key 4000))) = 2" by code_simp
  then show ?thesis using relay_flows_exclusive [OF refl, of demo_ops demo_key 4000] by (simp add: Let_def)
qed

text \<open>
  On every well-formed relay the admission of a packet returns, although its search for a
  flow number wraps around at 32 bits; a packet is admitted exactly when the relay is open and
  the client is known, or there is room and the rate limiter allows it; an admitted client owns
  the returned number, which no other flow had, and every other flow stays as it was.
\<close>

theorem touchFlow_admission:
  assumes "relay_inv d"
  shows "\<exists>i fresh admitted d'. touchFlow a now allow d = Some ((i, fresh, admitted), d')
     \<and> (admitted \<longleftrightarrow> \<not> sess_done (rd_session d)
          \<and> (has_key (addrIndex d) a \<or> length (flowTable d) < DefaultUDPMaxFlows \<and> allow))
     \<and> (fresh \<longleftrightarrow> admitted \<and> \<not> has_key (addrIndex d) a)
     \<and> (fresh \<longrightarrow> \<not> has_key (flowTable d) i)
     \<and> (admitted \<longrightarrow> lookup (flowTable d') i = Some \<lparr>addr = a, lastSeen = now\<rparr> \<and> lookup (addrIndex d') a = Some i
          \<and> (\<forall>j. j \<noteq> i \<longrightarrow> lookup (flowTable d') j = lookup (flowTable d) j)
          \<and> (\<forall>b. b \<noteq> a \<longrightarrow> lookup (addrIndex d') b = lookup (addrIndex d) b))
     \<and> (\<not> admitted \<longrightarrow> d' = d)"
proof -
  have upd: "addr f = a \<Longrightarrow> f\<lparr>lastSeen := now\<rparr> = \<lparr>addr = a, lastSeen = now\<rparr>" for f :: flowState by simp
  from assms show ?thesis
  proof (cases rule: touchFlow_cases [where a = a and now = now and allow = allow])
    case shut
    with assms show ?thesis by (auto simp: relay_inv_def)
  qed (use upd in \<open>auto simp: has_key_def\<close>)
qed

text \<open>The relay of the witness is full of numbers where the counter stands, so the search has to skip.\<close>

definition demo_client :: "string \<Rightarrow> AddrPort" where "demo_client ip = AddrPort ip 5000"

definition demo_relay :: RelayDatagram where
  "demo_relay = (NewRelayDatagram demo_key 4000)\<lparr>rd_session := (NewDatagramSession 256 True)\<lparr>sess_conn := Some 1\<rparr>,
     flowTable := [(1, \<lparr>addr = demo_client ''10.0.0.1'', lastSeen = 10\<rparr>)], addrIndex := [(demo_client ''10.0.0.1'', 1)],
     nextFlow := 2, enabled := True, rd_conn := Some 3, started := True\<rparr>"

definition demo_touched :: RelayDatagram where
  "demo_touched = demo_relay\<lparr>nextFlow := 3,
     flowTable := [(1, \<lparr>addr = demo_client ''10.0.0.1'', lastSeen = 10\<rparr>), (2, \<lparr>addr = demo_client ''10.0.0.2'', lastSeen = 11\<rparr>)],
     addrIndex := [(demo_client ''10.0.0.1'', 1), (demo_client ''10.0.0.2'', 2)]\<rparr>"

lemmas demo_relay_defs = demo_touched_def demo_relay_def demo_client_def NewRelayDatagram_def NewDatagramSession_def

lemma demo_touch: "touchFlow (demo_client ''10.0.0.2'') 11 True demo_relay = Some ((2, True, True), demo_touched)"
  by (simp add: touchFlow_def demo_relay_defs DefaultUDPMaxFlows_def Let_def freeFlow.simps has_key_def)

lemma relay_inv_demo: "relay_inv demo_relay" "relay_inv demo_touched"
proof -
  show r: "relay_inv demo_relay"
    by (auto simp: relay_inv_def session_inv_def inverse_maps_def wf_map_def demo_relay_defs DefaultUDPMaxFlows_def)
  show "relay_inv demo_touched" by (rule relay_inv_touchFlow [OF r demo_touch])
qed

theorem touchFlow_admission_witness:
  "relay_inv (demo_touched\<lparr>nextFlow := 1\<rparr>) \<and> has_key (flowTable demo_touched) 1
   \<and> (\<exists>d'. touchFlow (demo_client ''10.0.0.3'') 12 True (demo_touched\<lparr>nextFlow := 1\<rparr>) = Some ((3, True, True), d'))"
proof -
  have "relay_inv (demo_touched\<lparr>nextFlow := 1\<rparr>)" using relay_inv_demo(2) by (simp add: relay_inv_def)
  moreover have "has_key (flowTable demo_touched) 1"
    and "map_option fst (touchFlow (demo_client ''10.0.0.3'') 12 True (demo_touched\<lparr>nextFlow := 1\<rparr>)) = Some (3, True, True)"
    by (simp_all add: touchFlow_def demo_relay_defs DefaultUDPMaxFlows_def Let_def freeFlow.simps has_key_def)
  ultimately show ?thesis
    using touchFlow_admission [of "demo_touched\<lparr>nextFlow := 1\<rparr>" "demo_client ''10.0.0.3''" 12 True] by auto
qed

text \<open>
  A reply is written only to the client that owns its flow. Let client \<open>a\<close> be admitted under
  flow \<open>i\<close>; whatever operations run afterwards, as long as flow \<open>i\<close> has not been dropped in between,
  a reply that is written for flow \<open>i\<close> goes to \<open>a\<close>, carries the payload of the frame, and is written
  only while the relay is enabled.
\<close>

theorem reply_reaches_flow_owner:
  assumes "relay_inv d" and "touchFlow a now allow d = Some ((i, fresh, True), d1)"
    and "\<forall>k \<le> length es. has_key (flowTable (fold relay_step (take k es) d1)) i"
    and "FlowID frame = i"
    and "dispatch later between fails frame (fold relay_step es d1) = (Some (c, client, out), d2)"
  shows "client = a \<and> out = Payload frame \<and> enabled (fold relay_step es d1)
     \<and> rd_conn (fold relay_step es d1) = Some c \<and> length out \<le> MaxUDPPayloadSize"
proof -
  from assms(1,2) obtain f where f: "lookup (flowTable d1) i = Some f" "addr f = a"
    using touchFlow_admitted by blast
  have "relay_inv d1" using assms(1,2) by (rule relay_inv_touchFlow)
  from owner_along_run [OF this assms(3) f(1)] f(2)
  obtain g where "lookup (flowTable (fold relay_step es d1)) i = Some g" "addr g = a" by auto
  with assms(4,5) show ?thesis
    by (auto simp: dispatch_def dispatchSelect_def Let_def split: option.splits if_splits)
qed

definition demo_reply :: DatagramFrame where
  "demo_reply = \<lparr>FlowID = 2, Payload = [4, 2], FrameAddress = '''', RelayURL = '''', UDPAddr = '''', LeaseDone = None\<rparr>"

theorem reply_reaches_flow_owner_witness:
  "let d = fold relay_step [OpForgetFlow 1] demo_touched
   in fst (dispatch 12 (relay_step (OpForgetFlow 2)) False demo_reply d) = Some (3, demo_client ''10.0.0.2'', [4, 2])
      \<and> enabled d \<and> length (Payload demo_reply) \<le> MaxUDPPayloadSize"
proof -
  let ?d = "fold relay_step [OpForgetFlow 1] demo_touched"
  let ?r = "dispatch 12 (relay_step (OpForgetFlow 2)) False demo_reply ?d"
  have live: "\<forall>k \<le> length [OpForgetFlow 1]. has_key (flowTable (fold relay_step (take k [OpForgetFlow 1]) demo_touched)) 2"
    by (simp add: le_Suc_eq forgetFlow_def demo_relay_defs has_key_def)
  have id: "FlowID demo_reply = 2" by (simp add: demo_reply_def)
  have out: "fst ?r = Some (3, demo_client ''10.0.0.2'', [4, 2])"
    by (simp add: dispatch_def dispatchSelect_def demo_reply_def forgetFlow_def demo_relay_defs MaxUDPPayloadSize_def QUICInitialPacketSize_def MaxVarintLen32_def Let_def)
  then obtain d2 where "?r = (Some (3, demo_client ''10.0.0.2'', [4, 2]), d2)" by (metis prod.collapse)
  from reply_reaches_flow_owner [OF relay_inv_demo(1) demo_touch live id this] out
  show ?thesis unfolding Let_def by (metis)
qed

text \<open>
  Forwarding a client's packet always returns on a well-formed relay. If the client was
  unknown and the QUIC connection refuses the packet, no flow is left behind: both maps answer
  every lookup as before, and nothing counts as sent.
\<close>

theorem failed_first_send_rolls_back:
  assumes "relay_inv d" and "\<not> has_key (addrIndex d) a" and "\<forall>c. \<forall>b. q c b \<noteq> None"
  shows "\<exists>d'. forwardDatagram alive q now allow (\<lambda>d. d) a payload d = Some (None, d')
     \<and> lookup (flowTable d') = lookup (flowTable d) \<and> lookup (addrIndex d') = lookup (addrIndex d)"
proof -
  have fails: "fst (Send q i payload s) \<noteq> None" for i s
    using assms(3) by (auto simp: Send_def split: sum.splits)
  have finish: "forwardFinish q j True payload d1 = (None, forgetFlow j d1)" for j d1
    using fails [of j "rd_session d1"] by (auto simp: forwardFinish_def split: prod.splits option.splits)
  from assms(1) show ?thesis
  proof (cases rule: touchFlow_cases [where a = a and now = now and allow = allow])
    case (fresh j)
    then show ?thesis using assms(2)
      by (auto simp: forwardDatagram_def finish forgetFlow_def has_key_def fun_eq_iff)
  qed (use assms(2) in \<open>auto simp: forwardDatagram_def has_key_def\<close>)
qed

theorem failed_first_send_rolls_back_witness:
  "\<exists>d'. forwardDatagram (\<lambda>_. True) (\<lambda>_ _. Some ''congested'') 12 True (\<lambda>d. d) (demo_client ''10.0.0.2'') [1] demo_relay
       = Some (None, d') \<and> lookup (flowTable d') 2 = None \<and> lookup (addrIndex d') (demo_client ''10.0.0.2'') = None"
proof -
  have "\<not> has_key (addrIndex demo_relay) (demo_client ''10.0.0.2'')" "lookup (flowTable demo_relay) 2 = None"
    by (simp_all add: demo_relay_defs has_key_def)
  with failed_first_send_rolls_back [OF relay_inv_demo(1), of "demo_client ''10.0.0.2''" "\<lambda>_ _. Some ''congested''" "\<lambda>_. True" 12 True "[1]"]
  show ?thesis by (auto simp: has_key_def)
qed

end
