(* ===== verification/Cache_Manager.thy ===== *)
theory Cache_Manager
  imports Service_Types "HOL-Library.Word" "HOL-Library.Multiset" "HOL-Library.Char_ord" "HOL-Library.List_Lexorder"
begin

text \<open>
  The offline cache of the relay, \<open>src/portal/cache\<close>: \<open>manager.go\<close> (leases, published snapshots,
  retirement, byte accounting), \<open>manifest.go\<close> (admission of a manifest), \<open>config.go\<close>, and the
  critical sections of the upload handler in \<open>http.go\<close> and of \<open>serve.go\<close>.

  A \<open>*cachedSite\<close> is a number; the objects are in \<open>sites\<close>, so \<open>c.entries[host] == site\<close> compares
  numbers as Go compares pointers. Sites that a goroutine alone holds are made visible in three
  lists that the Go program keeps on goroutine stacks: \<open>staging\<close> (uploads between \<open>reserve\<close> and
  publication), \<open>removing\<close> (retired sites whose directory \<open>collect\<close> is removing) and \<open>reading\<close>
  (sites that a call of \<open>Serve\<close> has acquired and not yet released).
  Each definition is one critical section of \<open>c.mu\<close>; answers of the file system are arguments.
  Sizes are mathematical integers: the accounting theorem keeps them between 0 and \<open>MaxBytes\<close>,
  so \<open>int64\<close> never wraps.

  Shown: under every interleaving the bytes and snapshots charged are exactly those of the
  sites that still have a directory, and both stay within the configured budget; a revoked
  owner has nothing served until a later upload; an admitted manifest is sorted, bounded and
  contains its entry file.
\<close>

section \<open>Configuration and manifests\<close>

record Config =
  Enabled :: bool
  MaxBytes :: int
  MaxTTL :: duration

datatype cache_error =
    ErrCacheTotalBytes
  | ErrCacheOfflineTTL
  | ErrCacheDirectory
  | ErrFileCount
  | ErrFilePaths
  | ErrFileSha256
  | ErrSnapshotExceedsLimits
  | ErrMissingEntry
  | ErrManifestTooLarge
  | ErrCacheFull
  | ErrOther string

definition Validate_Config :: "Config \<Rightarrow> cache_error option" where
  "Validate_Config cfg =
     (if \<not> Enabled cfg then None
      else if MaxBytes cfg \<le> 0 then Some ErrCacheTotalBytes
      else if MaxTTL cfg < second \<or> MaxTTL cfg > 365 * 24 * hour then Some ErrCacheOfflineTTL
      else None)"

record StaticCacheFile =
  Path :: string
  Size :: int
  SHA256 :: string

record StaticCacheManifest =
  Index :: string
  Files :: "StaticCacheFile list"

definition StaticCacheMaxFiles :: nat where "StaticCacheMaxFiles = 2048"
definition StaticCacheManifestLimit :: nat where "StaticCacheManifestLimit = 1048576"

text \<open>\<open>fs.ValidPath\<close>: no empty, dot or dot-dot element; \<open>utf8\<close> stands for \<open>utf8.ValidString\<close>.\<close>

definition ValidPath :: "(string \<Rightarrow> bool) \<Rightarrow> string \<Rightarrow> bool" where
  "ValidPath utf8 p \<longleftrightarrow> utf8 p \<and>
     (p = ''.'' \<or> (\<forall>e \<in> set (splitOn (CHR ''/'') p). e \<noteq> '''' \<and> e \<noteq> ''.'' \<and> e \<noteq> ''..''))"

definition is_hex :: "char \<Rightarrow> bool" where
  "is_hex c = (let n = (of_char c :: nat)
     in (48 \<le> n \<and> n \<le> 57) \<or> (97 \<le> n \<and> n \<le> 102) \<or> (65 \<le> n \<and> n \<le> 70))"

text \<open>\<open>hex.DecodeString\<close> succeeds on an even number of hex digits; \<open>sha256.Size\<close> is 32 bytes.\<close>

definition valid_sha256 :: "string \<Rightarrow> bool" where
  "valid_sha256 s \<longleftrightarrow> list_all is_hex s \<and> length s = 64 \<and> s = ToLower s"

definition safe_path :: "(string \<Rightarrow> bool) \<Rightarrow> string \<Rightarrow> bool" where
  "safe_path utf8 p \<longleftrightarrow> ValidPath utf8 p \<and> p \<noteq> ''.'' \<and> length p \<le> 2048
     \<and> (\<forall>c \<in> set p. (of_char c :: nat) \<notin> {92, 0, 13, 10})"

fun manifest_loop ::
  "(string \<Rightarrow> bool) \<Rightarrow> int \<Rightarrow> int \<Rightarrow> string \<Rightarrow> int \<Rightarrow> string \<Rightarrow> bool \<Rightarrow> StaticCacheFile list \<Rightarrow> cache_error + int \<times> bool" where
  "manifest_loop utf8 maxObject maxBytes idx tot previous hasIndex [] = Inr (tot, hasIndex)"
| "manifest_loop utf8 maxObject maxBytes idx tot previous hasIndex (file # files) =
     (if \<not> safe_path utf8 (Path file) \<or> Path file \<le> previous then Inl ErrFilePaths
      else if \<not> valid_sha256 (SHA256 file) then Inl ErrFileSha256
      else if Size file < 0 \<or> Size file > maxObject \<or> Size file > maxBytes - tot then Inl ErrSnapshotExceedsLimits
      else manifest_loop utf8 maxObject maxBytes idx (tot + Size file) (Path file)
             (hasIndex \<or> Path file = idx) files)"

text \<open>
  \<open>marshal\<close> is \<open>json.Marshal\<close> of a manifest and \<open>sha256hex\<close> the hexadecimal SHA-256 of its bytes.
\<close>

definition manifestDigest ::
  "(string \<Rightarrow> bool) \<Rightarrow> (StaticCacheManifest \<Rightarrow> string + string) \<Rightarrow> (string \<Rightarrow> string)
     \<Rightarrow> StaticCacheManifest \<Rightarrow> int \<Rightarrow> int \<Rightarrow> cache_error + string \<times> int" where
  "manifestDigest utf8 marshal sha256hex m maxObject maxBytes =
     (if length (Files m) = 0 \<or> length (Files m) > StaticCacheMaxFiles then Inl ErrFileCount
      else case manifest_loop utf8 maxObject maxBytes (Index m) 0 '''' False (Files m) of
          Inl e \<Rightarrow> Inl e
        | Inr (tot, hasIndex) \<Rightarrow>
            if \<not> hasIndex then Inl ErrMissingEntry
            else case marshal m of
                Inl e \<Rightarrow> Inl (ErrOther e)
              | Inr raw \<Rightarrow>
                  if length raw > StaticCacheManifestLimit then Inl ErrManifestTooLarge
                  else Inr (sha256hex raw, tot))"

section \<open>State\<close>

record Lease =
  ID :: string
  CachedHostname :: string
  LeaseOwner :: ServiceIdentityKey
  LeaseExpiresAt :: go_time
  LeaseLastSeenAt :: go_time

record leaseState =
  ls_lease :: Lease
  ls_ttl :: duration
  ls_generation :: "64 word"

record cachedSite =
  cs_host :: string
  cs_leaseID :: string
  cs_owner :: ServiceIdentityKey
  cs_digest :: string
  cs_bytes :: int
  cs_ttl :: duration
  cs_expiresAt :: go_time
  cs_usedAt :: go_time
  cs_readers :: int

record StaticCacheLimits =
  MaxExposureBytes :: int
  MaxObjectSize :: int

record CacheManager =
  cfg :: Config
  limits :: StaticCacheLimits
  leases :: "(string, leaseState) gomap"
  entries :: "(string, nat) gomap"
  retired :: "nat list"
  used :: int
  snapshots :: int
  uploads :: "(ServiceIdentityKey, unit) gomap"
  generation :: "64 word"
  sites :: "(nat, cachedSite) gomap"
  nextSite :: nat
  staging :: "nat list"
  removing :: "nat list"
  reading :: "nat list"

text \<open>\<open>New\<close> after the directory work, whose outcome \<open>prepared\<close> is; \<open>Inr None\<close> is the disabled cache.\<close>

definition New_Manager :: "Config \<Rightarrow> string \<Rightarrow> string option \<Rightarrow> cache_error + CacheManager option" where
  "New_Manager c dir prepared =
     (if \<not> Enabled c then Inr None
      else if TrimSpace dir = '''' then Inl ErrCacheDirectory
      else case Validate_Config c of
          Some e \<Rightarrow> Inl e
        | None \<Rightarrow>
            (case prepared of
               Some e \<Rightarrow> Inl (ErrOther e)
             | None \<Rightarrow>
                 let exposureBytes = min 67108864 (max 1 (MaxBytes c div 4)) in
                 Inr (Some
                   \<lparr>cfg = c,
                    limits = \<lparr>MaxExposureBytes = exposureBytes, MaxObjectSize = min 10485760 exposureBytes\<rparr>,
                    leases = [], entries = [], retired = [], used = 0, snapshots = 0, uploads = [],
                    generation = 0, sites = [], nextSite = 0, staging = [], removing = [], reading = []\<rparr>)))"

definition observationWindow :: duration where "observationWindow = 2 * minute"
definition maxSnapshots :: int where "maxSnapshots = 128"

definition cacheExpiry :: "leaseState \<Rightarrow> go_time" where
  "cacheExpiry l =
     (let till = LeaseLastSeenAt (ls_lease l) + observationWindow;
          till = (if Before (LeaseExpiresAt (ls_lease l)) till then LeaseExpiresAt (ls_lease l) else till)
      in till + ls_ttl l)"

section \<open>Operations\<close>

text \<open>The object behind a pointer. Every pointer the manager holds is allocated.\<close>

definition site :: "CacheManager \<Rightarrow> nat \<Rightarrow> cachedSite" where
  "site c r = the (lookup (sites c) r)"

definition retireLocked :: "nat \<Rightarrow> CacheManager \<Rightarrow> CacheManager" where
  "retireLocked r c =
     (if lookup (entries c) (cs_host (site c r)) \<noteq> Some r then c
      else c\<lparr>entries := del (cs_host (site c r)) (entries c), retired := retired c @ [r]\<rparr>)"

text \<open>The loops \<open>for _, site := range c.entries { if ... { c.retireLocked(site) } }\<close>.\<close>

definition retireWhere :: "(cachedSite \<Rightarrow> bool) \<Rightarrow> CacheManager \<Rightarrow> CacheManager" where
  "retireWhere P c = fold (\<lambda>(h, r) c. if P (site c r) then retireLocked r c else c) (entries c) c"

definition Register_Cache :: "Lease \<Rightarrow> RegisterChallengeRequest \<Rightarrow> CacheManager \<Rightarrow> CacheManager" where
  "Register_Cache lease req c =
     (let c = (case lookup (entries c) (CachedHostname lease) of None \<Rightarrow> c | Some r \<Rightarrow> retireLocked r c);
          c = c\<lparr>leases := del_where (\<lambda>i previous. LeaseOwner lease = LeaseOwner (ls_lease previous)
                  \<or> CachedHostname lease = CachedHostname (ls_lease previous)) (leases c)\<rparr>
      in if \<not> Cache req \<or> UDPEnabled req \<or> TCPEnabled req then c
         else if CachedHostname lease = '''' \<or> CHR ''*'' \<in> set (CachedHostname lease) then c
         else
           let ttl = (if CacheTTL req > 0 \<and> CacheTTL req < MaxTTL (cfg c) div second
                      then CacheTTL req * second else MaxTTL (cfg c));
               g = generation c + 1
           in c\<lparr>generation := g,
                leases := put (ID lease) \<lparr>ls_lease = lease, ls_ttl = ttl, ls_generation = g\<rparr> (leases c)\<rparr>)"

definition set_expiry :: "nat \<Rightarrow> go_time \<Rightarrow> CacheManager \<Rightarrow> CacheManager" where
  "set_expiry r t c = c\<lparr>sites := put r ((site c r)\<lparr>cs_expiresAt := t\<rparr>) (sites c)\<rparr>"

definition Renew_Cache :: "Lease \<Rightarrow> go_time \<Rightarrow> CacheManager \<Rightarrow> CacheManager" where
  "Renew_Cache lease now c =
     (case lookup (leases c) (ID lease) of
        None \<Rightarrow> c
      | Some st \<Rightarrow>
          let st = st\<lparr>ls_lease := lease\<rparr>;
              c = c\<lparr>leases := put (ID lease) st (leases c)\<rparr>
          in case lookup (entries c) (CachedHostname lease) of
               None \<Rightarrow> c
             | Some r \<Rightarrow>
                 if cs_leaseID (site c r) \<noteq> ID lease then c
                 else if \<not> Before now (cs_expiresAt (site c r)) then retireLocked r c
                 else set_expiry r (cacheExpiry st) c)"

definition Detach_Cache :: "Lease \<Rightarrow> go_time \<Rightarrow> CacheManager \<Rightarrow> CacheManager" where
  "Detach_Cache lease now c =
     (let c = c\<lparr>leases := del (ID lease) (leases c)\<rparr>
      in case lookup (entries c) (CachedHostname lease) of
           None \<Rightarrow> c
         | Some r \<Rightarrow>
             if cs_leaseID (site c r) \<noteq> ID lease then c
             else if \<not> Before now (cs_expiresAt (site c r)) then retireLocked r c
             else
               let disconnected = (if Before (LeaseExpiresAt lease) now then LeaseExpiresAt lease else now);
                   expiry = disconnected + cs_ttl (site c r)
               in if Before expiry (cs_expiresAt (site c r)) then set_expiry r expiry c else c)"

definition Limits :: "CacheManager option \<Rightarrow> StaticCacheLimits option" where
  "Limits c = map_option limits c"

definition Owners :: "CacheManager \<Rightarrow> ServiceIdentityKey list" where
  "Owners c = remdups (map (\<lambda>(h, r). cs_owner (site c r)) (entries c))"

definition eligibleLocked :: "string \<Rightarrow> go_time \<Rightarrow> CacheManager \<Rightarrow> bool" where
  "eligibleLocked i now c =
     (case lookup (leases c) i of None \<Rightarrow> False | Some l \<Rightarrow> Before now (LeaseExpiresAt (ls_lease l)))"

definition Generation :: "string \<Rightarrow> CacheManager \<Rightarrow> 64 word" where
  "Generation i c = (case lookup (leases c) i of None \<Rightarrow> 0 | Some l \<Rightarrow> ls_generation l)"

definition DetachOwner :: "ServiceIdentityKey \<Rightarrow> CacheManager \<Rightarrow> CacheManager" where
  "DetachOwner owner c =
     (if \<not> Valid owner then c
      else
        let g = generation c + 1;
            c = c\<lparr>generation := g,
                  leases := map (\<lambda>(i, l). (i, if LeaseOwner (ls_lease l) = owner then l\<lparr>ls_generation := g\<rparr> else l)) (leases c)\<rparr>
        in retireWhere (\<lambda>s. cs_owner s = owner) c)"

text \<open>\<open>collect\<close>: the section under the lock, then one section for each directory removed.\<close>

definition collectLocked :: "go_time \<Rightarrow> CacheManager \<Rightarrow> nat list \<times> CacheManager" where
  "collectLocked now c =
     (let c = retireWhere (\<lambda>s. \<not> Before now (cs_expiresAt s)) c;
          ready = filter (\<lambda>r. cs_readers (site c r) = 0) (retired c)
      in (ready, c\<lparr>retired := filter (\<lambda>r. cs_readers (site c r) \<noteq> 0) (retired c),
                   removing := removing c @ ready\<rparr>))"

definition collectRemoved :: "nat \<Rightarrow> bool \<Rightarrow> CacheManager \<Rightarrow> CacheManager" where
  "collectRemoved r removed c =
     (if removed
      then c\<lparr>used := used c - cs_bytes (site c r), snapshots := snapshots c - 1, removing := remove1 r (removing c)\<rparr>
      else c\<lparr>retired := retired c @ [r], removing := remove1 r (removing c)\<rparr>)"

definition collect :: "go_time \<Rightarrow> (nat \<Rightarrow> bool) \<Rightarrow> CacheManager \<Rightarrow> CacheManager" where
  "collect now rmAll c =
     (let (ready, c) = collectLocked now c in fold (\<lambda>r. collectRemoved r (rmAll r)) ready c)"

text \<open>
  \<open>reserve\<close> for the site of an upload: one turn of the loop under the lock. The site becomes an
  object of the store when its bytes are charged. \<open>oldestIdle\<close> is the inner loop: the least
  recently used site without readers, ties broken by host name.
\<close>

datatype reserve_result = Reserved nat | Evicted | CacheFull

definition older :: "cachedSite \<Rightarrow> cachedSite \<Rightarrow> bool" where
  "older s t \<longleftrightarrow> Before (cs_usedAt s) (cs_usedAt t) \<or> (cs_usedAt s = cs_usedAt t \<and> cs_host s < cs_host t)"

definition oldestIdle :: "CacheManager \<Rightarrow> nat option" where
  "oldestIdle c =
     fold (\<lambda>(h, r) oldest.
       if cs_readers (site c r) \<noteq> 0 then oldest
       else case oldest of
           None \<Rightarrow> Some r
         | Some b \<Rightarrow> if older (site c r) (site c b) then Some r else Some b) (entries c) None"

definition reserveLocked :: "cachedSite \<Rightarrow> CacheManager \<Rightarrow> reserve_result \<times> CacheManager" where
  "reserveLocked s c =
     (if cs_bytes s \<le> MaxBytes (cfg c) - used c \<and> snapshots c < maxSnapshots
      then (Reserved (nextSite c),
            c\<lparr>used := used c + cs_bytes s, snapshots := snapshots c + 1,
              sites := put (nextSite c) s (sites c), staging := nextSite c # staging c,
              nextSite := Suc (nextSite c)\<rparr>)
      else case oldestIdle c of
          None \<Rightarrow> (CacheFull, c)
        | Some r \<Rightarrow> (Evicted, retireLocked r c))"

text \<open>
  The whole loop, run without interference. \<open>clock n\<close> is the reading of \<open>time.Now()\<close> before turn \<open>n\<close>
  and \<open>rmAll\<close> the answers of the file system. Nothing in the code bounds the loop; \<open>None\<close> is a
  loop that does not end.
\<close>

partial_function (option) reserve_loop ::
  "(nat \<Rightarrow> go_time) \<Rightarrow> (nat \<Rightarrow> bool) \<Rightarrow> nat \<Rightarrow> cachedSite \<Rightarrow> CacheManager \<Rightarrow> (nat option \<times> CacheManager) option" where
  "reserve_loop clock rmAll n s c =
     (case reserveLocked s c of
        (Reserved r, c') \<Rightarrow> Some (Some r, c')
      | (CacheFull, c') \<Rightarrow> Some (None, c')
      | (Evicted, c') \<Rightarrow> reserve_loop clock rmAll (Suc n) s (collect (clock n) rmAll c'))"

declare reserve_loop.simps [code]

definition reserve ::
  "(nat \<Rightarrow> go_time) \<Rightarrow> (nat \<Rightarrow> bool) \<Rightarrow> cachedSite \<Rightarrow> CacheManager \<Rightarrow> (nat option \<times> CacheManager) option" where
  "reserve clock rmAll s c = reserve_loop clock rmAll 1 s (collect (clock 0) rmAll c)"

definition lookupLocked :: "string \<Rightarrow> go_time \<Rightarrow> CacheManager \<Rightarrow> nat option" where
  "lookupLocked host now c =
     (case lookup (entries c) host of
        None \<Rightarrow> None
      | Some r \<Rightarrow> if Before now (cs_expiresAt (site c r)) then Some r else None)"

definition Has :: "string \<Rightarrow> go_time \<Rightarrow> CacheManager \<Rightarrow> bool" where
  "Has host now c \<longleftrightarrow> lookupLocked host now c \<noteq> None"

definition acquire :: "string \<Rightarrow> go_time \<Rightarrow> CacheManager \<Rightarrow> nat option \<times> CacheManager" where
  "acquire host now c =
     (case lookupLocked host now c of
        None \<Rightarrow> (None, c)
      | Some r \<Rightarrow>
          (Some r, c\<lparr>sites := put r ((site c r)\<lparr>cs_readers := cs_readers (site c r) + 1, cs_usedAt := now\<rparr>) (sites c),
                     reading := r # reading c\<rparr>))"

definition release_site :: "nat \<Rightarrow> CacheManager \<Rightarrow> CacheManager" where
  "release_site r c =
     c\<lparr>sites := put r ((site c r)\<lparr>cs_readers := cs_readers (site c r) - 1\<rparr>) (sites c),
       reading := remove1 r (reading c)\<rparr>"

definition discard :: "nat \<Rightarrow> CacheManager \<Rightarrow> CacheManager" where
  "discard r c = (if lookup (entries c) (cs_host (site c r)) = Some r then retireLocked r c else c)"

subsection \<open>The critical sections of the upload handler\<close>

definition admitted_upload :: "string \<Rightarrow> 64 word \<Rightarrow> go_time \<Rightarrow> CacheManager \<Rightarrow> bool" where
  "admitted_upload i gen now c \<longleftrightarrow> eligibleLocked i now c \<and> Generation i c = gen"

definition handleDelete :: "string \<Rightarrow> string \<Rightarrow> 64 word \<Rightarrow> go_time \<Rightarrow> CacheManager \<Rightarrow> CacheManager" where
  "handleDelete host i gen now c =
     (case lookup (entries c) host of
        None \<Rightarrow> c
      | Some r \<Rightarrow> if cs_leaseID (site c r) = i \<and> admitted_upload i gen now c then retireLocked r c else c)"

definition uploadBegin :: "ServiceIdentityKey \<Rightarrow> CacheManager \<Rightarrow> bool \<times> CacheManager" where
  "uploadBegin owner c =
     (if has_key (uploads c) owner \<or> length (uploads c) \<ge> 2 then (False, c)
      else (True, c\<lparr>uploads := put owner () (uploads c)\<rparr>))"

definition uploadEnd :: "ServiceIdentityKey \<Rightarrow> CacheManager \<Rightarrow> CacheManager" where
  "uploadEnd owner c = c\<lparr>uploads := del owner (uploads c)\<rparr>"

text \<open>The probe (\<open>POST\<close>): \<open>Inr t\<close> is "present until \<open>t\<close>", \<open>Inl True\<close> is "forbidden", \<open>Inl False\<close> "absent".\<close>

definition handleProbe ::
  "string \<Rightarrow> string \<Rightarrow> string \<Rightarrow> 64 word \<Rightarrow> go_time \<Rightarrow> go_time \<Rightarrow> CacheManager \<Rightarrow> (bool + go_time) \<times> CacheManager" where
  "handleProbe host i digest gen now1 now2 c =
     (if \<not> admitted_upload i gen now1 c then (Inl True, c)
      else case lookup (entries c) host of
          None \<Rightarrow> (Inl False, c)
        | Some r \<Rightarrow>
            if cs_leaseID (site c r) \<noteq> i then (Inl False, c)
            else if cs_digest (site c r) = digest \<and> Before now2 (cs_expiresAt (site c r))
            then (Inr (cs_expiresAt (site c r)), c)
            else (Inl False, retireLocked r c))"

definition handlePublish :: "nat \<Rightarrow> 64 word \<Rightarrow> go_time \<Rightarrow> CacheManager \<Rightarrow> go_time option \<times> CacheManager" where
  "handlePublish r gen now c =
     (let i = cs_leaseID (site c r); host = cs_host (site c r) in
      case lookup (leases c) i of
        None \<Rightarrow> (None, c)
      | Some active \<Rightarrow>
          if \<not> admitted_upload i gen now c then (None, c)
          else
            let c = (case lookup (entries c) host of None \<Rightarrow> c | Some previous \<Rightarrow> retireLocked previous c);
                c = set_expiry r (cacheExpiry active) c
            in (Some (cacheExpiry active),
                c\<lparr>entries := put host r (entries c), staging := remove1 r (staging c)\<rparr>))"

definition handleAbort :: "nat \<Rightarrow> CacheManager \<Rightarrow> CacheManager" where
  "handleAbort r c = c\<lparr>retired := retired c @ [r], staging := remove1 r (staging c)\<rparr>"

section \<open>Accounting invariant\<close>

text \<open>Every site that still has a directory is in exactly one of four places.\<close>

definition charged :: "CacheManager \<Rightarrow> nat multiset" where
  "charged c = image_mset snd (mset (entries c)) + mset (retired c) + mset (staging c) + mset (removing c)"

definition sites_inv :: "CacheManager \<Rightarrow> bool" where
  "sites_inv c \<longleftrightarrow> wf_map (entries c) \<and> wf_map (sites c)
     \<and> (\<forall>(h, r) \<in> set (entries c). cs_host (site c r) = h)
     \<and> (\<forall>r \<in># charged c. r < nextSite c \<and> 0 \<le> cs_bytes (site c r))
     \<and> (\<forall>r. count (charged c) r \<le> 1)"

definition budget_inv :: "CacheManager \<Rightarrow> bool" where
  "budget_inv c \<longleftrightarrow>
     used c = (\<Sum>r \<in># charged c. cs_bytes (site c r)) \<and> used c \<le> MaxBytes (cfg c)
     \<and> snapshots c = int (size (charged c)) \<and> snapshots c \<le> maxSnapshots
     \<and> wf_map (uploads c) \<and> length (uploads c) \<le> 2"

definition readers_inv :: "CacheManager \<Rightarrow> bool" where
  "readers_inv c \<longleftrightarrow>
     (\<forall>r < nextSite c. cs_readers (site c r) = int (count (mset (reading c)) r))
     \<and> (\<forall>r \<in> set (reading c). r < nextSite c)
     \<and> (\<forall>r \<in> set (removing c) \<union> set (staging c). r \<notin> set (reading c))"

definition cache_inv :: "CacheManager \<Rightarrow> bool" where
  "cache_inv c \<longleftrightarrow> sites_inv c \<and> budget_inv c \<and> readers_inv c"

lemmas cache_inv_defs = cache_inv_def sites_inv_def budget_inv_def readers_inv_def

lemma site_frame: "sites c = sites d \<Longrightarrow> site c = site d"
  by (auto simp: site_def)

lemma site_upd [simp]:
  "site (c\<lparr>leases := x0\<rparr>) = site c"
  "site (c\<lparr>entries := x1\<rparr>) = site c"
  "site (c\<lparr>retired := x2\<rparr>) = site c"
  "site (c\<lparr>used := x3\<rparr>) = site c"
  "site (c\<lparr>snapshots := x4\<rparr>) = site c"
  "site (c\<lparr>uploads := x5\<rparr>) = site c"
  "site (c\<lparr>generation := x6\<rparr>) = site c"
  "site (c\<lparr>nextSite := x7\<rparr>) = site c"
  "site (c\<lparr>staging := x8\<rparr>) = site c"
  "site (c\<lparr>removing := x9\<rparr>) = site c"
  "site (c\<lparr>reading := x10\<rparr>) = site c"
  by (simp_all add: site_def fun_eq_iff)

lemma site_put [simp]: "site (c\<lparr>sites := put r s (sites c)\<rparr>) r' = (if r' = r then s else site c r')"
  by (simp add: site_def)

text \<open>Retiring moves a site from one place to another and changes nothing else.\<close>

lemma retire_frame [simp]:
  "sites (retireLocked r c) = sites c" "used (retireLocked r c) = used c"
  "snapshots (retireLocked r c) = snapshots c" "cfg (retireLocked r c) = cfg c"
  "uploads (retireLocked r c) = uploads c" "nextSite (retireLocked r c) = nextSite c"
  "staging (retireLocked r c) = staging c" "removing (retireLocked r c) = removing c"
  "reading (retireLocked r c) = reading c" "leases (retireLocked r c) = leases c"
  "generation (retireLocked r c) = generation c" "site (retireLocked r c) = site c"
  by (simp_all add: retireLocked_def site_def fun_eq_iff)

lemma charged_retire [simp]: "wf_map (entries c) \<Longrightarrow> charged (retireLocked r c) = charged c"
  by (auto simp: retireLocked_def charged_def mset_del)

lemma wf_entries_retire [simp]: "wf_map (entries c) \<Longrightarrow> wf_map (entries (retireLocked r c))"
  by (auto simp: retireLocked_def)

lemma entries_retire: "set (entries (retireLocked r c)) \<subseteq> set (entries c)"
  by (auto simp: retireLocked_def set_del)

lemma cache_inv_retire [inv_intros]: "cache_inv c \<Longrightarrow> cache_inv (retireLocked r c)"
  using entries_retire [of r c] by (auto simp: cache_inv_defs)

text \<open>Two managers that agree on what the invariant reads.\<close>

lemma cache_inv_same:
  assumes "cache_inv c" and "entries d = entries c" "charged d = charged c" "sites d = sites c"
    "used d = used c" "snapshots d = snapshots c" "cfg d = cfg c" "uploads d = uploads c"
    "nextSite d = nextSite c" "reading d = reading c" "staging d = staging c" "removing d = removing c"
  shows "cache_inv d"
  using assms site_frame [of d c] by (auto simp: cache_inv_defs)

text \<open>A section that only moves sites between places.\<close>

lemma cache_inv_move:
  assumes "cache_inv c" and "entries d = entries c" "charged d = charged c" "sites d = sites c"
    "used d = used c" "snapshots d = snapshots c" "cfg d = cfg c" "uploads d = uploads c"
    "nextSite d = nextSite c" "reading d = reading c"
    and "\<And>r. r \<in> set (removing d) \<union> set (staging d) \<Longrightarrow> r \<notin> set (reading c)"
  shows "cache_inv d"
  using assms site_frame [of d c] by (simp add: cache_inv_defs)

text \<open>The loops over the entries retire a selection of them.\<close>

lemma retire_loop:
  assumes "cache_inv c" and "set es \<subseteq> set (entries c)" and "wf_map es"
    and "d = fold (\<lambda>(h, r) c. if P (site c r) then retireLocked r c else c) es c"
  shows "cache_inv d \<and> sites d = sites c \<and> leases d = leases c \<and> generation d = generation c
     \<and> cfg d = cfg c \<and> staging d = staging c \<and> removing d = removing c \<and> used d = used c
     \<and> snapshots d = snapshots c \<and> uploads d = uploads c \<and> nextSite d = nextSite c \<and> reading d = reading c
     \<and> limits d = limits c
     \<and> set (entries d) = {(h, r) \<in> set (entries c). \<not> ((h, r) \<in> set es \<and> P (site c r))}"
  using assms
proof (induction es arbitrary: c)
  case Nil
  then show ?case by simp
next
  case (Cons e es)
  obtain h r where e: "e = (h, r)" by (cases e)
  have hr: "(h, r) \<in> set (entries c)" using Cons.prems(2) e by auto
  have wf: "wf_map (entries c)" and host: "cs_host (site c r) = h"
    using Cons.prems(1) hr by (auto simp: cache_inv_defs)
  have look: "lookup (entries c) h = Some r" using hr wf by (simp add: lookup_in_set)
  let ?c = "if P (site c r) then retireLocked r c else c"
  have ent: "set (entries ?c) = {p \<in> set (entries c). \<not> (P (site c r) \<and> p = (h, r))}"
    using look hr wf by (auto simp: retireLocked_def host set_del lookup_in_set [symmetric])
  have "set es \<subseteq> set (entries ?c)"
    using Cons.prems(2,3) by (auto simp: ent e wf_map_def) (force)
  moreover have "cache_inv ?c" using Cons.prems(1) by (simp add: cache_inv_retire)
  moreover have "wf_map es" using Cons.prems(3) by (simp add: wf_map_def)
  ultimately have IH: "cache_inv d \<and> sites d = sites ?c \<and> leases d = leases ?c \<and> generation d = generation ?c
     \<and> cfg d = cfg ?c \<and> staging d = staging ?c \<and> removing d = removing ?c \<and> used d = used ?c
     \<and> snapshots d = snapshots ?c \<and> uploads d = uploads ?c \<and> nextSite d = nextSite ?c \<and> reading d = reading ?c
     \<and> limits d = limits ?c
     \<and> set (entries d) = {(h, r) \<in> set (entries ?c). \<not> ((h, r) \<in> set es \<and> P (site ?c r))}"
    using Cons.prems(4) by (intro Cons.IH) (simp_all add: e)
  have same: "site ?c = site c" "limits ?c = limits c" by (auto simp: retireLocked_def)
  with IH show ?case by (auto simp: ent e)
qed

lemma cache_inv_set_site:
  assumes "cache_inv c" and "cs_host s = cs_host (site c r)" "cs_bytes s = cs_bytes (site c r)"
    "cs_readers s = cs_readers (site c r)"
  shows "cache_inv (c\<lparr>sites := put r s (sites c)\<rparr>)"
proof -
  let ?d = "c\<lparr>sites := put r s (sites c)\<rparr>"
  have same: "cs_host (site ?d q) = cs_host (site c q)" "cs_bytes (site ?d q) = cs_bytes (site c q)"
    "cs_readers (site ?d q) = cs_readers (site c q)" for q
    using assms(2-4) by auto
  have "charged ?d = charged c" by (simp add: charged_def)
  then show ?thesis using assms(1) by (simp add: cache_inv_defs same del: site_put)
qed

lemma cache_inv_set_expiry [inv_intros]: "cache_inv c \<Longrightarrow> cache_inv (set_expiry r t c)"
  unfolding set_expiry_def by (rule cache_inv_set_site) auto

lemma cache_inv_leases [inv_intros]: "cache_inv c \<Longrightarrow> cache_inv (c\<lparr>leases := l\<rparr>)"
  by (erule cache_inv_same) (simp_all add: charged_def)

lemma cache_inv_generation [inv_intros]: "cache_inv c \<Longrightarrow> cache_inv (c\<lparr>generation := l\<rparr>)"
  by (erule cache_inv_same) (simp_all add: charged_def)

lemma cache_inv_Register [inv_intros]: "cache_inv c \<Longrightarrow> cache_inv (Register_Cache lease req c)"
  unfolding Register_Cache_def Let_def
  by (auto intro!: inv_intros split: option.splits)

lemma cache_inv_Renew [inv_intros]: "cache_inv c \<Longrightarrow> cache_inv (Renew_Cache lease now c)"
  unfolding Renew_Cache_def Let_def
  by (auto intro!: inv_intros split: option.splits)

lemma cache_inv_Detach [inv_intros]: "cache_inv c \<Longrightarrow> cache_inv (Detach_Cache lease now c)"
  unfolding Detach_Cache_def Let_def
  by (auto intro!: inv_intros split: option.splits)

lemma retire_all:
  assumes "cache_inv c" and "d = retireWhere P c"
  shows "cache_inv d \<and> sites d = sites c \<and> leases d = leases c \<and> generation d = generation c
     \<and> cfg d = cfg c \<and> staging d = staging c \<and> removing d = removing c \<and> used d = used c
     \<and> snapshots d = snapshots c \<and> uploads d = uploads c \<and> nextSite d = nextSite c \<and> reading d = reading c
     \<and> limits d = limits c \<and> set (entries d) = {(h, r) \<in> set (entries c). \<not> P (site c r)}"
proof -
  have "wf_map (entries c)" using assms(1) by (simp add: cache_inv_defs)
  from retire_loop [OF assms(1) subset_refl this assms(2) [unfolded retireWhere_def]] show ?thesis by auto
qed

text \<open>\<open>DetachOwner\<close> takes every entry of the owner out and gives its leases a new generation.\<close>

lemma DetachOwner_effect:
  assumes "cache_inv c" and "Valid owner"
  shows "cache_inv (DetachOwner owner c)
     \<and> set (entries (DetachOwner owner c)) = {(h, r) \<in> set (entries c). cs_owner (site c r) \<noteq> owner}
     \<and> sites (DetachOwner owner c) = sites c
     \<and> generation (DetachOwner owner c) = generation c + 1
     \<and> (\<forall>i. lookup (leases (DetachOwner owner c)) i =
          map_option (\<lambda>l. if LeaseOwner (ls_lease l) = owner then l\<lparr>ls_generation := generation c + 1\<rparr> else l)
            (lookup (leases c) i))"
proof -
  let ?f = "\<lambda>l. if LeaseOwner (ls_lease l) = owner then l\<lparr>ls_generation := generation c + 1\<rparr> else l"
  let ?c = "c\<lparr>generation := generation c + 1, leases := map (\<lambda>(i, l). (i, ?f l)) (leases c)\<rparr>"
  have inv: "cache_inv ?c" using assms(1) by (auto intro!: inv_intros)
  have D: "DetachOwner owner c = retireWhere (\<lambda>s. cs_owner s = owner) ?c"
    using assms(2) by (simp add: DetachOwner_def Let_def)
  from retire_all [OF inv D] show ?thesis by (auto simp: map_of_map)
qed

lemma cache_inv_DetachOwner [inv_intros]: "cache_inv c \<Longrightarrow> cache_inv (DetachOwner owner c)"
  using DetachOwner_effect [of c owner] by (cases "Valid owner") (auto simp: DetachOwner_def)

lemma filter_split_mset: "mset (filter P xs) + mset (filter (\<lambda>x. \<not> P x) xs) = mset xs"
  by (induction xs) auto

lemma cache_inv_collectLocked [inv_intros]: "cache_inv c \<Longrightarrow> cache_inv (snd (collectLocked now c))"
proof -
  assume "cache_inv c"
  define d where "d = retireWhere (\<lambda>s. \<not> Before now (cs_expiresAt s)) c"
  have inv: "cache_inv d" using retire_all [OF \<open>cache_inv c\<close> d_def] by blast
  let ?idle = "\<lambda>r. cs_readers (site d r) = 0"
  let ?e = "d\<lparr>retired := filter (\<lambda>r. \<not> ?idle r) (retired d), removing := removing d @ filter ?idle (retired d)\<rparr>"
  have ch: "charged ?e = charged d"
    using filter_split_mset [of ?idle "retired d"] by (simp add: charged_def ac_simps)
  have "r \<notin> set (reading d)" if "r \<in> set (retired d)" "?idle r" for r
  proof -
    have "r < nextSite d" using that(1) inv by (auto simp: cache_inv_defs charged_def)
    then show ?thesis using that(2) inv by (auto simp: cache_inv_defs)
  qed
  moreover have "\<forall>r \<in> set (removing d) \<union> set (staging d). r \<notin> set (reading d)"
    using inv by (simp add: cache_inv_defs)
  ultimately have "cache_inv ?e" by (intro cache_inv_move [OF inv _ ch]) auto
  then show ?thesis by (simp add: collectLocked_def Let_def d_def)
qed

lemma cache_inv_collectRemoved [inv_intros]:
  assumes inv: "cache_inv c" and r: "r \<in> set (removing c)"
  shows "cache_inv (collectRemoved r removed c)"
proof -
  let ?d = "collectRemoved r removed c"
  have rm: "mset (removing c) = add_mset r (mset (remove1 r (removing c)))"
    using r by simp
  have sub: "x \<in> set (remove1 r (removing c)) \<Longrightarrow> x \<in> set (removing c)" for x
    by (rule set_mp [OF set_remove1_subset])
  show ?thesis
  proof (cases removed)
    case True
    then have ch: "charged c = add_mset r (charged ?d)"
      unfolding collectRemoved_def using rm by (simp add: charged_def)
    have "\<forall>q. count (charged ?d) q \<le> 1"
    proof
      fix q
      have "count (charged c) q \<le> 1" using inv by (simp add: cache_inv_defs)
      then show "count (charged ?d) q \<le> 1" by (simp add: ch split: if_splits)
    qed
    moreover have old: "sites_inv c" "budget_inv c" "readers_inv c" using inv by (simp_all add: cache_inv_def)
    moreover have same: "site ?d = site c" "entries ?d = entries c" "sites ?d = sites c" "nextSite ?d = nextSite c"
      "cfg ?d = cfg c" "uploads ?d = uploads c" "reading ?d = reading c" "staging ?d = staging c"
      "removing ?d = remove1 r (removing c)" "used ?d = used c - cs_bytes (site c r)" "snapshots ?d = snapshots c - 1"
      using True by (simp_all add: collectRemoved_def)
    ultimately have "sites_inv ?d" by (simp add: sites_inv_def ch)
    moreover have "budget_inv ?d" using old(1,2) by (simp add: budget_inv_def sites_inv_def same ch)
    moreover have "readers_inv ?d" using old(3) sub by (auto simp: readers_inv_def same)
    ultimately
    show ?thesis by (simp add: cache_inv_def)
  next
    case False
    then have "charged ?d = charged c"
      unfolding collectRemoved_def using rm by (simp add: charged_def)
    moreover have "q \<notin> set (reading c)" if "q \<in> set (removing ?d) \<union> set (staging ?d)" for q
      using that inv sub False by (auto simp: cache_inv_defs collectRemoved_def)
    ultimately show ?thesis using inv False by (intro cache_inv_move [OF inv]) (simp_all add: collectRemoved_def)
  qed
qed

lemma cache_inv_reserveLocked [inv_intros]:
  assumes inv: "cache_inv c" and pos: "0 \<le> cs_bytes s" and idle: "cs_readers s = 0"
  shows "cache_inv (snd (reserveLocked s c))"
proof (cases "cs_bytes s \<le> MaxBytes (cfg c) - used c \<and> snapshots c < maxSnapshots")
  case True
  let ?n = "nextSite c"
  let ?d = "snd (reserveLocked s c)"
  have old: "sites_inv c" "budget_inv c" "readers_inv c" using inv by (simp_all add: cache_inv_def)
  have fields: "entries ?d = entries c" "sites ?d = put ?n s (sites c)" "nextSite ?d = Suc ?n" "cfg ?d = cfg c"
    "uploads ?d = uploads c" "reading ?d = reading c" "staging ?d = ?n # staging c" "removing ?d = removing c"
    "used ?d = used c + cs_bytes s" "snapshots ?d = snapshots c + 1"
    using True by (simp_all add: reserveLocked_def)
  have st: "site ?d q = (if q = ?n then s else site c q)" for q
    using True by (simp add: reserveLocked_def site_def)
  have ch: "charged ?d = add_mset ?n (charged c)"
    using True by (simp add: reserveLocked_def charged_def)
  have below: "q \<in># charged c \<Longrightarrow> q < ?n" for q using old(1) by (simp add: sites_inv_def)
  then have new: "?n \<notin># charged c" by blast
  have ent: "(h, q) \<in> set (entries c) \<Longrightarrow> q \<noteq> ?n" for h q
    using below [of q] by (force simp: charged_def)
  have "sites_inv ?d"
    using old(1) pos new ent by (auto simp: sites_inv_def fields st ch less_SucI not_in_iff)
  moreover have "(\<Sum>r \<in># charged c. cs_bytes (site ?d r)) = (\<Sum>r \<in># charged c. cs_bytes (site c r))"
    using new by (intro arg_cong [where f = sum_mset] image_mset_cong) (auto simp: st)
  then have "budget_inv ?d" using old(2) True by (simp add: budget_inv_def fields ch st)
  moreover have "readers_inv ?d"
    using old(3) idle below by (auto simp: readers_inv_def fields st less_Suc_eq)
  ultimately show ?thesis by (simp add: cache_inv_def)
next
  case False
  then show ?thesis using inv cache_inv_retire by (auto simp: reserveLocked_def split: option.splits)
qed

lemma entry_charged: "lookup (entries c) h = Some r \<Longrightarrow> r \<in># charged c"
  using map_of_SomeD by (force simp: charged_def)

lemma entry_not_held:
  assumes "cache_inv c" and "lookup (entries c) h = Some r"
  shows "r < nextSite c" "r \<notin> set (removing c)" "r \<notin> set (staging c)"
proof -
  have "count (charged c) r \<le> 1" "r < nextSite c"
    using assms entry_charged by (auto simp: cache_inv_defs)
  moreover have "r \<in># image_mset snd (mset (entries c))" using assms(2) map_of_SomeD by force
  then have "count (image_mset snd (mset (entries c))) r \<ge> 1" by (metis count_greater_eq_one_iff)
  ultimately have "count (mset (removing c)) r = 0" "count (mset (staging c)) r = 0"
    unfolding charged_def count_union by linarith+
  then show "r < nextSite c" "r \<notin> set (removing c)" "r \<notin> set (staging c)"
    using \<open>r < nextSite c\<close> by (simp_all add: count_mset_0_iff)
qed

lemma cache_inv_readers:
  assumes inv: "cache_inv c" and "r < nextSite c" "r \<notin> set (removing c)" "r \<notin> set (staging c)"
    and "cs_host s = cs_host (site c r)" "cs_bytes s = cs_bytes (site c r)"
    and "cs_readers s = int (count (mset rd) r)"
    and "\<And>q. q \<noteq> r \<Longrightarrow> count (mset rd) q = count (mset (reading c)) q"
  shows "cache_inv (c\<lparr>sites := put r s (sites c), reading := rd\<rparr>)"
proof -
  let ?d = "c\<lparr>sites := put r s (sites c), reading := rd\<rparr>"
  have ch: "charged ?d = charged c" by (simp add: charged_def)
  have same: "cs_host (site ?d q) = cs_host (site c q)" "cs_bytes (site ?d q) = cs_bytes (site c q)" for q
    using assms(5,6) by (auto simp: site_def)
  have rd: "set rd \<subseteq> insert r (set (reading c))"
    using assms(8) by (metis count_mset_0_iff insert_iff subsetI)
  have old: "sites_inv c" "budget_inv c" "readers_inv c" using inv by (simp_all add: cache_inv_def)
  have "sites_inv ?d" using old(1) by (simp add: sites_inv_def ch same del: site_upd site_put)
  moreover have "budget_inv ?d" using old(2) by (simp add: budget_inv_def ch same del: site_upd site_put)
  moreover have "readers_inv ?d"
    using old(3) assms(2-4,7,8) rd by (fastforce simp: readers_inv_def site_def)
  ultimately show ?thesis by (simp add: cache_inv_def)
qed

lemma cache_inv_acquire [inv_intros]: "cache_inv c \<Longrightarrow> cache_inv (snd (acquire host now c))"
proof (cases "lookupLocked host now c")
  case (Some r)
  assume inv: "cache_inv c"
  from Some have "lookup (entries c) host = Some r"
    by (auto simp: lookupLocked_def split: option.splits if_splits)
  note r = entry_not_held [OF inv this]
  with inv have "cs_readers (site c r) = int (count (mset (reading c)) r)" by (simp add: cache_inv_defs)
  with r show ?thesis by (simp add: acquire_def Some) (intro cache_inv_readers [OF inv], simp_all)
qed (simp add: acquire_def)

lemma cache_inv_release [inv_intros]:
  assumes inv: "cache_inv c" and r: "r \<in> set (reading c)"
  shows "cache_inv (release_site r c)"
proof -
  have "r < nextSite c" "r \<notin> set (removing c)" "r \<notin> set (staging c)"
    and cnt: "cs_readers (site c r) = int (count (mset (reading c)) r)"
    using inv r by (auto simp: cache_inv_defs)
  moreover have "count (mset (reading c)) r \<ge> 1" using r by (simp add: Suc_le_eq)
  ultimately show ?thesis unfolding release_site_def
    by (intro cache_inv_readers [OF inv]) (simp_all add: of_nat_diff)
qed

lemma cache_inv_discard [inv_intros]: "cache_inv c \<Longrightarrow> cache_inv (discard r c)"
  by (simp add: discard_def cache_inv_retire)

lemma cache_inv_Delete [inv_intros]: "cache_inv c \<Longrightarrow> cache_inv (handleDelete host i gen now c)"
  by (auto simp: handleDelete_def cache_inv_retire split: option.splits)

lemma cache_inv_Probe [inv_intros]: "cache_inv c \<Longrightarrow> cache_inv (snd (handleProbe host i dg gen n1 n2 c))"
  by (auto simp: handleProbe_def cache_inv_retire split: option.splits)

lemma cache_inv_uploads [inv_intros]:
  "cache_inv c \<Longrightarrow> cache_inv (snd (uploadBegin owner c))" "cache_inv c \<Longrightarrow> cache_inv (uploadEnd owner c)"
  using length_del_le [of owner "uploads c"]
  by (auto simp: uploadBegin_def uploadEnd_def cache_inv_defs charged_def length_put)

lemma cache_inv_Abort [inv_intros]:
  assumes inv: "cache_inv c" and r: "r \<in> set (staging c)"
  shows "cache_inv (handleAbort r c)"
proof -
  have "mset (staging c) = add_mset r (mset (remove1 r (staging c)))" using r by simp
  then have "charged (handleAbort r c) = charged c" by (simp add: handleAbort_def charged_def)
  moreover have "q \<notin> set (reading c)" if "q \<in> set (removing (handleAbort r c)) \<union> set (staging (handleAbort r c))" for q
    using that inv set_remove1_subset [of r "staging c"] by (auto simp: cache_inv_defs handleAbort_def)
  ultimately show ?thesis using inv by (intro cache_inv_move [OF inv]) (simp_all add: handleAbort_def)
qed

lemma cache_inv_publish:
  assumes inv: "cache_inv c" and r: "r \<in> set (staging c)" and free: "\<not> has_key (entries c) (cs_host (site c r))"
  shows "cache_inv (c\<lparr>entries := put (cs_host (site c r)) r (entries c), staging := remove1 r (staging c)\<rparr>)"
proof -
  let ?d = "c\<lparr>entries := put (cs_host (site c r)) r (entries c), staging := remove1 r (staging c)\<rparr>"
  have old: "sites_inv c" "budget_inv c" "readers_inv c" using inv by (simp_all add: cache_inv_def)
  have wf: "wf_map (entries c)" using old(1) by (simp add: sites_inv_def)
  have "mset (staging c) = add_mset r (mset (remove1 r (staging c)))" using r by simp
  then have ch: "charged ?d = charged c" by (simp add: charged_def mset_put_fresh [OF wf free])
  have "sites_inv ?d" using old(1) by (auto simp: sites_inv_def ch set_put wf)
  moreover have "budget_inv ?d" using old(2) by (simp add: budget_inv_def ch)
  moreover have "readers_inv ?d"
    using old(3) set_remove1_subset [of r "staging c"] by (auto simp: readers_inv_def)
  ultimately show ?thesis by (simp add: cache_inv_def)
qed

lemma retire_frees_host:
  assumes "cache_inv c" and "lookup (entries c) host = Some p"
  shows "\<not> has_key (entries (retireLocked p c)) host"
proof -
  have "cs_host (site c p) = host" using assms map_of_SomeD by (force simp: cache_inv_defs)
  then show ?thesis using assms(2) by (simp add: retireLocked_def has_key_def)
qed

lemma cache_inv_Publish [inv_intros]:
  assumes inv: "cache_inv c" and r: "r \<in> set (staging c)"
  shows "cache_inv (snd (handlePublish r gen now c))"
proof -
  let ?host = "cs_host (site c r)"
  define d where "d = (case lookup (entries c) ?host of None \<Rightarrow> c | Some previous \<Rightarrow> retireLocked previous c)"
  have d: "cache_inv d" "\<not> has_key (entries d) ?host" "staging d = staging c" "site d = site c"
    using inv retire_frees_host [OF inv] by (auto simp: d_def cache_inv_retire has_key_def split: option.splits)
  let ?e = "\<lambda>t. set_expiry r t d"
  have "cache_inv (?e t\<lparr>entries := put ?host r (entries (?e t)), staging := remove1 r (staging (?e t))\<rparr>)" for t
  proof -
    have "cs_host (site (?e t) r) = ?host" by (simp add: set_expiry_def d(4))
    then show ?thesis
      using cache_inv_publish [OF cache_inv_set_expiry [OF d(1)], of r r t] d(2,3) r
      by (simp add: set_expiry_def)
  qed
  then show ?thesis using inv
    by (auto simp: handlePublish_def Let_def d_def [symmetric] split: option.splits)
qed

section \<open>Interleavings\<close>

text \<open>
  The critical sections that request handlers, the collector and the lease registry run in any
  order. A goroutine only removes, publishes, aborts or releases what it holds.
\<close>

datatype cache_op =
    CRegister Lease RegisterChallengeRequest
  | CRenew Lease go_time
  | CDetach Lease go_time
  | CDetachOwner ServiceIdentityKey
  | CCollect go_time
  | CRemoved nat bool
  | CReserve cachedSite
  | CAcquire string go_time
  | CRelease nat
  | CDiscard nat
  | CDelete string string "64 word" go_time
  | CUploadBegin ServiceIdentityKey
  | CUploadEnd ServiceIdentityKey
  | CProbe string string string "64 word" go_time go_time
  | CPublish nat "64 word" go_time
  | CAbort nat

text \<open>\<open>Handle\<close> builds a site with the total of an admitted manifest and no readers.\<close>

fun cache_step :: "cache_op \<Rightarrow> CacheManager \<Rightarrow> CacheManager" where
  "cache_step (CRegister l req) c = Register_Cache l req c"
| "cache_step (CRenew l now) c = Renew_Cache l now c"
| "cache_step (CDetach l now) c = Detach_Cache l now c"
| "cache_step (CDetachOwner k) c = DetachOwner k c"
| "cache_step (CCollect now) c = snd (collectLocked now c)"
| "cache_step (CRemoved r ok) c = (if r \<in> set (removing c) then collectRemoved r ok c else c)"
| "cache_step (CReserve s) c = (if 0 \<le> cs_bytes s \<and> cs_readers s = 0 then snd (reserveLocked s c) else c)"
| "cache_step (CAcquire h now) c = snd (acquire h now c)"
| "cache_step (CRelease r) c = (if r \<in> set (reading c) then release_site r c else c)"
| "cache_step (CDiscard r) c = discard r c"
| "cache_step (CDelete h i g now) c = handleDelete h i g now c"
| "cache_step (CUploadBegin k) c = snd (uploadBegin k c)"
| "cache_step (CUploadEnd k) c = uploadEnd k c"
| "cache_step (CProbe h i dg g n1 n2) c = snd (handleProbe h i dg g n1 n2 c)"
| "cache_step (CPublish r g now) c = (if r \<in> set (staging c) then snd (handlePublish r g now c) else c)"
| "cache_step (CAbort r) c = (if r \<in> set (staging c) then handleAbort r c else c)"

interpretation cache: op_system cache_step cache_inv
proof
  fix s e
  assume "cache_inv s"
  then show "cache_inv (cache_step e s)" by (cases e) (auto intro: inv_intros)
qed

lemma cache_inv_empty:
  "0 \<le> MaxBytes (cfg c) \<Longrightarrow> entries c = [] \<Longrightarrow> retired c = [] \<Longrightarrow> staging c = [] \<Longrightarrow> removing c = [] \<Longrightarrow> reading c = []
    \<Longrightarrow> used c = 0 \<Longrightarrow> snapshots c = 0 \<Longrightarrow> uploads c = [] \<Longrightarrow> nextSite c = 0 \<Longrightarrow> sites c = [] \<Longrightarrow> cache_inv c"
  by (simp add: cache_inv_defs charged_def maxSnapshots_def)

lemma New_Manager_empty:
  "New_Manager c dir p = Inr (Some m) \<Longrightarrow> 0 \<le> MaxBytes (cfg m) \<and> entries m = [] \<and> retired m = [] \<and> staging m = [] \<and> removing m = []
     \<and> reading m = [] \<and> used m = 0 \<and> snapshots m = 0 \<and> uploads m = [] \<and> nextSite m = 0 \<and> sites m = []"
proof -
  assume new: "New_Manager c dir p = Inr (Some m)"
  then have ok: "Enabled c" "Validate_Config c = None" and m: "\<exists>l. m = \<lparr>cfg = c, limits = l, leases = [], entries = [], retired = [], used = 0,
      snapshots = 0, uploads = [], generation = 0, sites = [], nextSite = 0, staging = [], removing = [], reading = []\<rparr>"
    unfolding New_Manager_def Let_def by (simp_all split: if_split_asm option.split_asm) blast
  have "0 \<le> MaxBytes c"
  proof (rule ccontr)
    assume "\<not> 0 \<le> MaxBytes c"
    then have "MaxBytes c \<le> 0" by simp
    then show False using ok unfolding Validate_Config_def by (simp only: if_False if_True not_True_eq_False option.distinct)
  qed
  with m show ?thesis by auto
qed

lemma cache_inv_new: "New_Manager c dir p = Inr (Some m) \<Longrightarrow> cache_inv m"
  using New_Manager_empty cache_inv_empty by blast

text \<open>No section other than a registration and \<open>DetachOwner\<close> changes generations.\<close>

definition gens_above :: "nat \<Rightarrow> string \<Rightarrow> CacheManager \<Rightarrow> bool" where
  "gens_above g i c \<longleftrightarrow> g < unat (generation c)
     \<and> (\<forall>l. (i, l) \<in> set (leases c) \<longrightarrow> g < unat (ls_generation l))"

lemma unat_Suc_word: "Suc (unat w) < 2 ^ 64 \<Longrightarrow> unat (w + 1) = Suc (unat (w :: 64 word))"
  by (simp add: unat_word_ariths)

lemma gens_same: "generation d = generation c \<Longrightarrow> leases d = leases c \<Longrightarrow> gens_above g i d = gens_above g i c"
  by (simp add: gens_above_def)

lemma retireWhere_gens [simp]: "leases (retireWhere P c) = leases c" "generation (retireWhere P c) = generation c"
proof -
  have "leases (fold (\<lambda>(h, r) c. if P (site c r) then retireLocked r c else c) es c) = leases c
    \<and> generation (fold (\<lambda>(h, r) c. if P (site c r) then retireLocked r c else c) es c) = generation c" for es :: "(string, nat) gomap"
    by (induction es arbitrary: c) auto
  then show "leases (retireWhere P c) = leases c" "generation (retireWhere P c) = generation c"
    by (simp_all add: retireWhere_def)
qed

lemma collect_gens:
  "generation (snd (collectLocked now c)) = generation c" "leases (snd (collectLocked now c)) = leases c"
  by (simp_all add: collectLocked_def Let_def)

lemma set_put_subset: "set (put k v m) \<subseteq> insert (k, v) (set m)"
  by (induction m) auto

lemma DetachOwner_leases:
  "Valid k \<Longrightarrow> leases (DetachOwner k c) =
     map (\<lambda>(i, l). (i, if LeaseOwner (ls_lease l) = k then l\<lparr>ls_generation := generation c + 1\<rparr> else l)) (leases c)"
  by (simp add: DetachOwner_def Let_def)

lemma DetachOwner_gens:
  assumes "cache_inv c" and "gens_above g i c" and "Suc (unat (generation c)) < 2 ^ 64"
  shows "gens_above g i (DetachOwner k c) \<and> unat (generation (DetachOwner k c)) \<le> Suc (unat (generation c))"
proof (cases "Valid k")
  case True
  then show ?thesis
    using DetachOwner_effect [OF assms(1) True] DetachOwner_leases [OF True, of c] assms(2,3)
      unat_Suc_word [OF assms(3)]
    by (auto simp: gens_above_def)
qed (use assms in \<open>simp add: DetachOwner_def\<close>)

lemma Register_leases:
  "generation (Register_Cache l req c) = generation c \<and> set (leases (Register_Cache l req c)) \<subseteq> set (leases c)
   \<or> generation (Register_Cache l req c) = generation c + 1
     \<and> (\<exists>n. ls_generation n = generation c + 1 \<and> set (leases (Register_Cache l req c)) \<subseteq> insert (ID l, n) (set (leases c)))"
proof -
  define d where "d = (case lookup (entries c) (CachedHostname l) of None \<Rightarrow> c | Some r \<Rightarrow> retireLocked r c)"
  have d: "generation d = generation c" "leases d = leases c" by (auto simp: d_def split: option.splits)
  let ?P = "\<lambda>i previous. LeaseOwner l = LeaseOwner (ls_lease previous) \<or> CachedHostname l = CachedHostname (ls_lease previous)"
  let ?L = "del_where ?P (leases c)"
  have sub: "set ?L \<subseteq> set (leases c)" by (auto simp: del_where_def)
  have "set (put (ID l) n ?L) \<subseteq> insert (ID l, n) (set (leases c))" for n
    using set_put_subset [of "ID l" n ?L] sub by blast
  then show ?thesis unfolding Register_Cache_def d_def [symmetric] Let_def
    using sub by (auto simp: d intro!: exI)
qed

lemma Register_gens:
  assumes "gens_above g i c" and "Suc (unat (generation c)) < 2 ^ 64"
  shows "gens_above g i (Register_Cache l req c) \<and> unat (generation (Register_Cache l req c)) \<le> Suc (unat (generation c))"
  using Register_leases [of l req c] assms(1) unat_Suc_word [OF assms(2)]
  by (auto simp: gens_above_def)

lemma cache_step_gens:
  assumes inv: "cache_inv c" and above: "gens_above g i c" and room: "Suc (unat (generation c)) < 2 ^ 64"
  shows "gens_above g i (cache_step e c) \<and> unat (generation (cache_step e c)) \<le> Suc (unat (generation c))"
proof (cases e)
  case (CRenew l now)
  define d where "d = (case lookup (leases c) (ID l) of None \<Rightarrow> c | Some st \<Rightarrow> c\<lparr>leases := put (ID l) (st\<lparr>ls_lease := l\<rparr>) (leases c)\<rparr>)"
  have "gens_above g i d"
    using above set_put_subset [of "ID l" _ "leases c"]
    by (fastforce simp: d_def gens_above_def dest: map_of_SomeD split: option.splits)
  moreover have "generation (Renew_Cache l now c) = generation d" "leases (Renew_Cache l now c) = leases d"
    "generation d = generation c"
    by (auto simp: d_def Renew_Cache_def Let_def set_expiry_def split: option.splits)
  ultimately show ?thesis using CRenew gens_same [of "Renew_Cache l now c" d g i] by simp
next
  case (CDetach l now)
  have "generation (Detach_Cache l now c) = generation c" "leases (Detach_Cache l now c) = del (ID l) (leases c)"
    by (auto simp: Detach_Cache_def Let_def set_expiry_def split: option.splits)
  then show ?thesis using CDetach above by (auto simp: gens_above_def set_del)
next
  case (CRegister l req)
  then show ?thesis using Register_gens [OF above room] by simp
next
  case (CDetachOwner k)
  then show ?thesis using DetachOwner_gens [OF inv above room] by simp
next
  case (CCollect now)
  then show ?thesis using collect_gens [of now c] above gens_same [of "snd (collectLocked now c)" c g i] by simp
next
  case (CPublish r gn now)
  have "generation (snd (handlePublish r gn now c)) = generation c" "leases (snd (handlePublish r gn now c)) = leases c"
    by (auto simp: handlePublish_def Let_def set_expiry_def split: option.splits)
  then show ?thesis using CPublish above gens_same [of "snd (handlePublish r gn now c)" c g i] by simp
qed (use above in \<open>auto simp: gens_above_def collectRemoved_def reserveLocked_def acquire_def release_site_def
       discard_def handleDelete_def uploadBegin_def uploadEnd_def handleProbe_def handleAbort_def split: option.splits\<close>)

lemma cache_run_gens:
  "cache_inv c \<Longrightarrow> gens_above g i c \<Longrightarrow> unat (generation c) + length es < 2 ^ 64 \<Longrightarrow> gens_above g i (fold cache_step es c)"
proof (induction es arbitrary: c)
  case (Cons e es)
  then have "Suc (unat (generation c)) < 2 ^ 64" by simp
  from cache_step_gens [OF Cons.prems(1,2) this, of e] Cons.prems
  show ?case by (simp add: Cons.IH [OF cache.step_inv])
qed simp

lemma sum_mset_nonneg_int: "(\<And>x. x \<in># M \<Longrightarrow> 0 \<le> f x) \<Longrightarrow> 0 \<le> (\<Sum>x \<in># M. f x :: int)"
  by (induction M) auto

subsection \<open>The reservation loop ends\<close>

lemma length_retire_le: "length (entries (retireLocked r c)) \<le> length (entries c)"
  by (simp add: retireLocked_def length_del_le)

lemma length_retireWhere_le: "length (entries (retireWhere P c)) \<le> length (entries c)"
proof -
  have "length (entries (fold (\<lambda>(h, r) c. if P (site c r) then retireLocked r c else c) es c)) \<le> length (entries c)"
    for es :: "(string, nat) gomap"
  proof (induction es arbitrary: c)
    case (Cons e es)
    show ?case
      using Cons.IH [of c] order_trans [OF Cons.IH length_retire_le, of "snd e" c] by (cases e) auto
  qed simp
  then show ?thesis by (simp add: retireWhere_def)
qed

lemma collect_rest:
  "cache_inv c \<Longrightarrow> set rs \<subseteq> set (removing c) \<Longrightarrow> distinct rs \<Longrightarrow>
     cache_inv (fold (\<lambda>r. collectRemoved r (rm r)) rs c) \<and> entries (fold (\<lambda>r. collectRemoved r (rm r)) rs c) = entries c"
proof (induction rs arbitrary: c)
  case (Cons r rs)
  have "set rs \<subseteq> set (removing (collectRemoved r (rm r) c))"
  proof
    fix x
    assume "x \<in> set rs"
    with Cons.prems have "x \<noteq> r" "x \<in> set (removing c)" by auto
    then show "x \<in> set (removing (collectRemoved r (rm r) c))" by (simp add: collectRemoved_def)
  qed
  with Cons show ?case by (auto simp: cache_inv_collectRemoved) (auto simp: collectRemoved_def)
qed simp

lemma retired_distinct: "cache_inv c \<Longrightarrow> distinct (retired c)"
proof -
  assume "cache_inv c"
  then have "count (charged c) r \<le> 1" for r by (simp add: cache_inv_defs)
  then have "count (mset (retired c)) r \<le> 1" for r
    unfolding charged_def count_union by (metis add_leD1 add_leD2)
  then show ?thesis by (metis count_mset_0_iff distinct_count_atmost_1 le_Suc_eq le_zero_eq One_nat_def)
qed

lemma collect_facts:
  assumes "cache_inv c"
  shows "cache_inv (collect now rm c) \<and> length (entries (collect now rm c)) \<le> length (entries c)"
proof -
  define d where "d = retireWhere (\<lambda>s. \<not> Before now (cs_expiresAt s)) c"
  have "cache_inv d" using retire_all [OF assms d_def] by blast
  then have "distinct (fst (collectLocked now c))" "set (fst (collectLocked now c)) \<subseteq> set (removing (snd (collectLocked now c)))"
    using retired_distinct by (auto simp: collectLocked_def Let_def d_def)
  moreover have "entries (snd (collectLocked now c)) = entries d" by (simp add: collectLocked_def Let_def d_def)
  ultimately show ?thesis
    using collect_rest [OF cache_inv_collectLocked [OF assms], of "fst (collectLocked now c)" now rm]
      length_retireWhere_le [of "\<lambda>s. \<not> Before now (cs_expiresAt s)" c]
    by (cases "collectLocked now c") (simp add: collect_def d_def)
qed

lemma oldestIdle_entry: "oldestIdle c = Some r \<Longrightarrow> \<exists>h. (h, r) \<in> set (entries c)"
proof -
  let ?f = "\<lambda>(h, r) oldest. if cs_readers (site c r) \<noteq> 0 then oldest
       else case oldest of None \<Rightarrow> Some r | Some b \<Rightarrow> if older (site c r) (site c b) then Some r else Some b"
  have "fold ?f es a = Some r \<Longrightarrow> (\<exists>h. (h, r) \<in> set es) \<or> a = Some r" for es :: "(string, nat) gomap" and a
    by (induction es arbitrary: a) (fastforce split: if_splits option.splits)+
  then show "oldestIdle c = Some r \<Longrightarrow> ?thesis" unfolding oldestIdle_def by blast
qed

lemma evict_shrinks:
  assumes "cache_inv c" and "oldestIdle c = Some r"
  shows "length (entries (retireLocked r c)) < length (entries c)"
proof -
  obtain h where h: "(h, r) \<in> set (entries c)" using oldestIdle_entry [OF assms(2)] by blast
  then have look: "lookup (entries c) h = Some r" "cs_host (site c r) = h" "wf_map (entries c)"
    using assms(1) by (auto simp: cache_inv_defs lookup_in_set)
  then have "mset (entries c) = add_mset (h, r) (mset (del h (entries c)))" by (simp add: mset_del)
  then have "length (entries c) = Suc (length (del h (entries c)))" by (metis size_add_mset size_mset)
  with look show ?thesis by (simp add: retireLocked_def)
qed

lemma reserve_loop_returns:
  assumes "cache_inv c" and "0 \<le> cs_bytes s" "cs_readers s = 0"
  shows "\<exists>res d. reserve_loop clock rm n s c = Some (res, d) \<and> cache_inv d
     \<and> (case res of Some r \<Rightarrow> r \<in> set (staging d) \<and> site d r = s
        | None \<Rightarrow> (cs_bytes s > MaxBytes (cfg d) - used d \<or> snapshots d \<ge> maxSnapshots) \<and> oldestIdle d = None)"
  using assms(1)
proof (induction "length (entries c)" arbitrary: c n rule: less_induct)
  case less
  have inv: "cache_inv (snd (reserveLocked s c))" using less.prems assms(2,3) by (rule cache_inv_reserveLocked)
  show ?case
  proof (cases "cs_bytes s \<le> MaxBytes (cfg c) - used c \<and> snapshots c < maxSnapshots")
    case True
    then show ?thesis using inv by (subst reserve_loop.simps) (simp add: reserveLocked_def site_def)
  next
    case full: False
    show ?thesis
    proof (cases "oldestIdle c")
      case None
      with full less.prems show ?thesis by (subst reserve_loop.simps) (auto simp: reserveLocked_def)
    next
      case (Some r)
      let ?d = "collect (clock n) rm (retireLocked r c)"
      have d: "cache_inv ?d" "length (entries ?d) < length (entries c)"
        using collect_facts [OF cache_inv_retire [OF less.prems], of "clock n" rm r] evict_shrinks [OF less.prems Some]
        by auto
      have "reserveLocked s c = (Evicted, retireLocked r c)" using full Some by (simp add: reserveLocked_def)
      with less.hyps [OF d(2,1), of "Suc n"] show ?thesis
        by (subst reserve_loop.simps) simp
    qed
  qed
qed

section \<open>Properties\<close>

text \<open>
  C25: from an empty cache, under every interleaving of uploads, probes, deletions, reads,
  retirements, failed and successful disk removals and lease events: the bytes charged are the
  sum over the snapshots that still have a directory, each of which is in exactly one place;
  they stay within the operator's budget; there are at most 128 snapshots and two uploads; and
  no snapshot is being removed while a response is reading it.
\<close>

theorem cache_stays_within_budget:
  assumes "New_Manager conf dir prep = Inr (Some m)" and "c = fold cache_step es m"
  shows "used c = (\<Sum>r \<in># charged c. cs_bytes (site c r)) \<and> 0 \<le> used c \<and> used c \<le> MaxBytes (cfg c)
     \<and> snapshots c = int (size (charged c)) \<and> snapshots c \<le> 128 \<and> length (uploads c) \<le> 2
     \<and> (\<forall>r. count (charged c) r \<le> 1)
     \<and> set (removing c) \<inter> set (reading c) = {}"
proof -
  have inv: "cache_inv c" unfolding assms(2) by (rule cache.run_inv [OF cache_inv_new [OF assms(1)]])
  have "0 \<le> (\<Sum>r \<in># charged c. cs_bytes (site c r))"
    using inv by (intro sum_mset_nonneg_int) (auto simp: cache_inv_defs)
  with inv show ?thesis by (auto simp: cache_inv_defs maxSnapshots_def)
qed

definition demo_config :: Config where
  "demo_config = \<lparr>Enabled = True, MaxBytes = 100, MaxTTL = 3600 * second\<rparr>"

definition demo_manager :: CacheManager where
  "demo_manager = (case New_Manager demo_config ''/c'' None of Inr (Some m) \<Rightarrow> m | _ \<Rightarrow> undefined)"

lemma demo_manager_new: "New_Manager demo_config ''/c'' None = Inr (Some demo_manager)"
proof -
  have "TrimSpace ''/c'' \<noteq> ''''" by code_simp
  then show ?thesis
    by (simp add: demo_manager_def New_Manager_def Validate_Config_def demo_config_def Let_def time_units)
qed

definition demo_owner :: ServiceIdentityKey where "demo_owner = ServiceIdentityKey ''blog'' ''0xabc''"

definition demo_lease :: Lease where
  "demo_lease = \<lparr>ID = ''lease_1'', CachedHostname = ''blog.example'', LeaseOwner = demo_owner,
     LeaseExpiresAt = 1000 * second, LeaseLastSeenAt = 900 * second\<rparr>"

definition demo_site :: cachedSite where
  "demo_site = \<lparr>cs_host = ''blog.example'', cs_leaseID = ''lease_1'', cs_owner = demo_owner, cs_digest = ''d'',
     cs_bytes = 60, cs_ttl = 3600 * second, cs_expiresAt = 2000 * second, cs_usedAt = 1, cs_readers = 0\<rparr>"

definition demo_request :: RegisterChallengeRequest where
  "demo_request = \<lparr>Cache = True, CacheTTL = 0, AllowCanonicalFallback = False,
     req_Identity = \<lparr>Name = ''blog'', Address = ''0xabc'', PublicKey = '''', PrivateKey = '''', Mnemonic = '''',
        DerivationPath = '''', TokenSecret = ''''\<rparr>,
     req_Metadata = \<lparr>Description = '''', Owner = '''', Thumbnail = '''', Tags = [], Hide = False\<rparr>,
     req_Overlay = False, req_TTL = 0, UDPEnabled = False, TCPEnabled = False\<rparr>"

text \<open>Two uploads of 60 bytes into a budget of 100: the second evicts the first, which is being read.\<close>

definition demo_run :: "cache_op list" where
  "demo_run = [CRegister demo_lease demo_request, CReserve demo_site, CPublish 0 1 (950 * second),
     CAcquire ''blog.example'' (951 * second), CProbe ''blog.example'' ''lease_1'' ''e'' 1 (952 * second) (952 * second),
     CCollect (953 * second), CReserve demo_site]"

theorem cache_stays_within_budget_witness:
  "let c = fold cache_step demo_run demo_manager
   in used c = 60 \<and> retired c = [0] \<and> reading c = [0] \<and> used c \<le> MaxBytes (cfg c) \<and> snapshots c \<le> 128"
proof -
  let ?c = "fold cache_step demo_run demo_manager"
  have "used ?c = 60" "retired ?c = [0]" "reading ?c = [0]" by code_simp+
  with cache_stays_within_budget [OF demo_manager_new refl, of demo_run] show ?thesis by (simp add: Let_def)
qed

text \<open>
  C26: revocation. After \<open>DetachOwner\<close> no entry of the owner is left, so nothing of it is served.
  An upload that was admitted before the revocation cannot publish afterwards, whatever runs in
  between (as long as the 64-bit generation counter does not wrap): the handler that captured
  the old generation of the lease gets no publication and changes nothing.
\<close>

theorem revoked_upload_cannot_publish:
  assumes "cache_inv c" and "Valid owner"
    and "lookup (leases c) i = Some l" and "LeaseOwner (ls_lease l) = owner"
    and "wf_map (leases c)" and "unat (ls_generation l) \<le> unat (generation c)"
    and "unat (generation c) + Suc (length es) < 2 ^ 64"
    and "d = fold cache_step es (DetachOwner owner c)" and "cs_leaseID (site d r) = i"
  shows "handlePublish r (ls_generation l) now d = (None, d)
     \<and> (\<forall>(h, q) \<in> set (entries (DetachOwner owner c)). cs_owner (site (DetachOwner owner c) q) \<noteq> owner)"
proof -
  let ?c = "DetachOwner owner c"
  note eff = DetachOwner_effect [OF assms(1,2)]
  have g: "unat (generation c + 1) = Suc (unat (generation c))" using assms(7) by (intro unat_Suc_word) simp
  have "gens_above (unat (generation c)) i ?c"
    using eff g assms(3-5) DetachOwner_leases [OF assms(2), of c]
    by (auto simp: gens_above_def lookup_in_set [symmetric])
  then have "gens_above (unat (generation c)) i d"
    unfolding assms(8) using eff g assms(7) by (intro cache_run_gens) auto
  then have "m = l' \<Longrightarrow> lookup (leases d) i = Some l' \<Longrightarrow> ls_generation m \<noteq> ls_generation l" for m l'
    using assms(6) by (auto simp: gens_above_def dest!: map_of_SomeD)
  then have "handlePublish r (ls_generation l) now d = (None, d)"
    by (auto simp: handlePublish_def assms(9) admitted_upload_def Generation_def Let_def split: option.splits)
  moreover have "\<forall>(h, q) \<in> set (entries ?c). cs_owner (site ?c q) \<noteq> owner"
    using eff site_frame [of ?c c] by auto
  ultimately show ?thesis by blast
qed

definition demo_uploading :: CacheManager where
  "demo_uploading = fold cache_step (take 2 demo_run) demo_manager"

theorem revoked_upload_cannot_publish_witness:
  "let d = fold cache_step [CRenew demo_lease (960 * second)] (DetachOwner demo_owner demo_uploading)
   in staging d = [0] \<and> eligibleLocked ''lease_1'' (961 * second) d \<and> handlePublish 0 1 (961 * second) d = (None, d)"
proof -
  let ?l = "\<lparr>ls_lease = demo_lease, ls_ttl = 3600 * second, ls_generation = 1\<rparr>"
  let ?d = "fold cache_step [CRenew demo_lease (960 * second)] (DetachOwner demo_owner demo_uploading)"
  have inv: "cache_inv demo_uploading"
    unfolding demo_uploading_def by (rule cache.run_inv [OF cache_inv_new [OF demo_manager_new]])
  have valid: "Valid demo_owner" by code_simp
  have l: "lookup (leases demo_uploading) ''lease_1'' = Some ?l"
    by code_simp
  have own: "LeaseOwner (ls_lease ?l) = demo_owner" by (simp add: demo_lease_def)
  have wf: "wf_map (leases demo_uploading)" by code_simp
  have gen: "unat (ls_generation ?l) \<le> unat (generation demo_uploading)" by code_simp
  have gen1: "generation demo_uploading = 1" by code_simp
  then have room: "unat (generation demo_uploading) + Suc (length [CRenew demo_lease (960 * second)]) < 2 ^ 64" by simp
  have r: "cs_leaseID (site ?d 0) = ''lease_1''" by code_simp
  have "staging ?d = [0]" "eligibleLocked ''lease_1'' (961 * second) ?d" by code_simp+
  with revoked_upload_cannot_publish [OF inv valid l own wf gen room refl r, of "961 * second"]
  show ?thesis by (simp add: Let_def)
qed

lemma manifest_loop_exact:
  "manifest_loop utf8 mo mb idx tot prev hi files = Inr (tot', hi') \<longleftrightarrow>
     (\<forall>f \<in> set files. safe_path utf8 (Path f) \<and> valid_sha256 (SHA256 f) \<and> 0 \<le> Size f \<and> Size f \<le> mo)
     \<and> sorted_wrt (<) (prev # map Path files)
     \<and> (files \<noteq> [] \<longrightarrow> tot + sum_list (map Size files) \<le> mb)
     \<and> tot' = tot + sum_list (map Size files)
     \<and> hi' = (hi \<or> idx \<in> Path ` set files)"
proof (induction files arbitrary: tot prev hi)
  case Nil
  then show ?case by auto
next
  case (Cons f fs)
  have nn: "(\<forall>g \<in> set fs. 0 \<le> Size g) \<Longrightarrow> 0 \<le> sum_list (map Size fs)" by (intro sum_list_nonneg) auto
  have tr: "prev < Path f \<and> sorted_wrt (<) (Path f # map Path fs) \<Longrightarrow> sorted_wrt (<) (prev # Path f # map Path fs)"
    by (auto intro: order.strict_trans)
  show ?case
  proof (cases "safe_path utf8 (Path f) \<and> prev < Path f \<and> valid_sha256 (SHA256 f) \<and> 0 \<le> Size f \<and> Size f \<le> mo \<and> Size f \<le> mb - tot")
    case True
    then have turn: "manifest_loop utf8 mo mb idx tot prev hi (f # fs) =
        manifest_loop utf8 mo mb idx (tot + Size f) (Path f) (hi \<or> Path f = idx) fs"
      by (auto simp: not_le)
    have "fs = [] \<Longrightarrow> tot + Size f \<le> mb" using True by simp
    then show ?thesis unfolding turn Cons.IH using True tr by (auto simp: add.assoc)
  next
    case False
    then have "\<exists>e. manifest_loop utf8 mo mb idx tot prev hi (f # fs) = Inl e" by (auto simp: not_le)
    then show ?thesis using False nn by fastforce
  qed
qed

text \<open>
  A manifest is admitted exactly when it has 1 to 2048 files, the paths are safe and
  strictly increasing (so no path occurs twice), every digest is a lower-case SHA-256, every
  size lies between 0 and the object limit, the sizes add up to at most the exposure limit, the
  entry file is one of the files and the encoding fits; the total returned is the exact sum, and
  never negative.
\<close>

theorem manifestDigest_exact:
  "manifestDigest utf8 marshal sha m maxObject maxBytes = Inr (digest, tot) \<longleftrightarrow>
     0 < length (Files m) \<and> length (Files m) \<le> 2048
     \<and> list_all (\<lambda>f. safe_path utf8 (Path f) \<and> valid_sha256 (SHA256 f) \<and> 0 \<le> Size f \<and> Size f \<le> maxObject) (Files m)
     \<and> sorted_wrt (<) (map Path (Files m)) \<and> '''' \<notin> Path ` set (Files m)
     \<and> tot = sum_list (map Size (Files m)) \<and> 0 \<le> tot \<and> tot \<le> maxBytes
     \<and> Index m \<in> Path ` set (Files m)
     \<and> (\<exists>raw. marshal m = Inr raw \<and> length raw \<le> 1048576 \<and> digest = sha raw)"
  (is "?L \<longleftrightarrow> ?R")
proof -
  have nn: "(\<forall>f \<in> set (Files m). 0 \<le> Size f) \<Longrightarrow> 0 \<le> sum_list (map Size (Files m))"
    by (intro sum_list_nonneg) auto
  have sw: "sorted_wrt (<) ('''' # map Path (Files m)) \<longleftrightarrow> sorted_wrt (<) (map Path (Files m)) \<and> '''' \<notin> Path ` set (Files m)"
  proof -
    have "'''' < p \<longleftrightarrow> p \<noteq> ''''" for p :: string by (cases p) simp_all
    then show ?thesis by (auto simp: image_iff)
  qed
  have "?L \<longleftrightarrow> 0 < length (Files m) \<and> length (Files m) \<le> StaticCacheMaxFiles
     \<and> manifest_loop utf8 maxObject maxBytes (Index m) 0 '''' False (Files m) = Inr (tot, True)
     \<and> (\<exists>raw. marshal m = Inr raw \<and> length raw \<le> StaticCacheManifestLimit \<and> digest = sha raw)"
    by (auto simp: manifestDigest_def split: sum.splits if_splits)
  also have "\<dots> \<longleftrightarrow> ?R"
    unfolding manifest_loop_exact sw StaticCacheMaxFiles_def StaticCacheManifestLimit_def list_all_iff
    using nn by auto
  finally show ?thesis .
qed

text \<open>
  C27: the reservation loop, which the code does not bound, ends in every well-formed state and
  whatever the file system answers: either the bytes of the upload are charged and the site is
  staged, or the cache is full and no snapshot without a reader is left to evict.
\<close>

theorem reserve_terminates:
  assumes "cache_inv c" and "0 \<le> cs_bytes s" and "cs_readers s = 0"
  shows "\<exists>res d. reserve clock rm s c = Some (res, d) \<and> cache_inv d
     \<and> (case res of Some r \<Rightarrow> r \<in> set (staging d) \<and> site d r = s
        | None \<Rightarrow> (cs_bytes s > MaxBytes (cfg d) - used d \<or> snapshots d \<ge> maxSnapshots) \<and> oldestIdle d = None)"
  unfolding reserve_def
  using collect_facts [OF assms(1)] by (intro reserve_loop_returns assms(2,3)) auto

theorem reserve_terminates_witness:
  "\<exists>res d. reserve (\<lambda>n. 955 * second) (\<lambda>r. True) demo_site (fold cache_step (take 3 demo_run) demo_manager) = Some (res, d)
     \<and> cache_inv d \<and> (case res of Some r \<Rightarrow> r \<in> set (staging d) \<and> site d r = demo_site
        | None \<Rightarrow> (cs_bytes demo_site > MaxBytes (cfg d) - used d \<or> snapshots d \<ge> maxSnapshots) \<and> oldestIdle d = None)"
proof -
  have "cache_inv (fold cache_step (take 3 demo_run) demo_manager)"
    by (rule cache.run_inv [OF cache_inv_new [OF demo_manager_new]])
  then show ?thesis by (rule reserve_terminates) (simp_all add: demo_site_def)
qed

end
