(* ===== verification/Client_Hello.thy ===== *)
theory Client_Hello
  imports Datagram_Codec
begin

text \<open>
  The capture of a TLS ClientHello from a byte stream, \<open>clientHelloAccumulator\<close> of
  \<open>src/portal/keyless/bindings.go\<close>. The code reassembles the first handshake message from TLS
  records that arrive in arbitrary pieces. The reference \<open>helloOf\<close> reads a whole stream at once;
  the main result is that the accumulator, fed any pieces, agrees with the reference on their
  concatenation.
\<close>

section \<open>The accumulator\<close>

datatype hello_error =
    NonHandshakeRecord
  | RecordInvalidLength
  | NotClientHello
  | HelloInvalidLength
  | RecordExceedsLimit

definition tlsRecordHeaderLen :: nat where "tlsRecordHeaderLen = 5"
definition tlsHandshakeContentType :: byte where "tlsHandshakeContentType = 22"
definition clientHelloType :: byte where "clientHelloType = 1"
definition maxTLSRecordPayload :: nat where "maxTLSRecordPayload = 16384"
definition maxClientHelloSize :: nat where "maxClientHelloSize = 131072"

record clientHelloAccumulator =
  pending :: bytes
  hello :: bytes
  expected :: nat

definition newAccumulator :: clientHelloAccumulator where
  "newAccumulator = \<lparr>pending = [], hello = [], expected = 0\<rparr>"

text \<open>\<open>(nil, false, nil)\<close>, \<open>(hello, true, nil)\<close> and \<open>(nil, false, err)\<close>.\<close>

datatype hello_result = More | Complete bytes | Failed hello_error

definition recordLen :: "bytes \<Rightarrow> nat" where
  "recordLen p = unat (p ! 3) * 256 + unat (p ! 4)"

definition messageLen :: "bytes \<Rightarrow> nat" where
  "messageLen h = unat (h ! 1) * 65536 + unat (h ! 2) * 256 + unat (h ! 3)"

text \<open>The two inner steps of the loop: the four header bytes of the message, then its body.\<close>

definition takeHeader :: "bytes \<Rightarrow> clientHelloAccumulator \<Rightarrow> hello_error option \<times> bytes \<times> clientHelloAccumulator" where
  "takeHeader body a =
     (if expected a = 0 \<and> length (hello a) < 4 then
        let need = min (4 - length (hello a)) (length body);
            a = a\<lparr>hello := hello a @ take need body\<rparr>;
            body = drop need body
        in if length (hello a) = 4 then
             if hello a ! 0 \<noteq> clientHelloType then (Some NotClientHello, body, a)
             else
               let n = messageLen (hello a); a = a\<lparr>expected := 4 + n\<rparr>
               in if n = 0 \<or> expected a > maxClientHelloSize then (Some HelloInvalidLength, body, a)
                  else (None, body, a)
           else (None, body, a)
      else (None, body, a))"

definition takeBody :: "bytes \<Rightarrow> clientHelloAccumulator \<Rightarrow> bool \<times> clientHelloAccumulator" where
  "takeBody body a =
     (if expected a > 0 then
        let need = min (expected a - length (hello a)) (length body);
            a = a\<lparr>hello := hello a @ take need body\<rparr>
        in (length (hello a) = expected a, a)
      else (False, a))"

lemma take_pending:
  "takeHeader body a = (e, body', a') \<Longrightarrow> pending a' = pending a" "takeBody body a = (b, a') \<Longrightarrow> pending a' = pending a"
  by (auto simp: takeHeader_def takeBody_def Let_def split: if_splits)

function add_loop :: "clientHelloAccumulator \<Rightarrow> hello_result \<times> clientHelloAccumulator" where
  "add_loop a =
     (if length (pending a) < tlsRecordHeaderLen then
        if length (pending a) > maxTLSRecordPayload + tlsRecordHeaderLen then (Failed RecordExceedsLimit, a) else (More, a)
      else if pending a ! 0 \<noteq> tlsHandshakeContentType then (Failed NonHandshakeRecord, a)
      else
        let n = recordLen (pending a) in
        if n = 0 \<or> n > maxTLSRecordPayload then (Failed RecordInvalidLength, a)
        else if length (pending a) < tlsRecordHeaderLen + n then (More, a)
        else
          let body = take n (drop tlsRecordHeaderLen (pending a));
              a = a\<lparr>pending := drop (tlsRecordHeaderLen + n) (pending a)\<rparr>
          in case takeHeader body a of
               (Some e, _, a) \<Rightarrow> (Failed e, a)
             | (None, body, a) \<Rightarrow>
                 (case takeBody body a of
                    (True, a) \<Rightarrow> (Complete (hello a), a)
                  | (False, a) \<Rightarrow> add_loop a))"
  by pat_completeness auto
termination
  by (relation "measure (\<lambda>a. length (pending a))")
    (auto simp: tlsRecordHeaderLen_def dest!: take_pending [OF sym] take_pending)

declare add_loop.simps [simp del]

definition add :: "bytes \<Rightarrow> clientHelloAccumulator \<Rightarrow> hello_result \<times> clientHelloAccumulator" where
  "add p a = add_loop (a\<lparr>pending := pending a @ p\<rparr>)"

section \<open>Reference\<close>

text \<open>What the handshake bytes of the stream so far say about the first message.\<close>

definition helloStatus :: "bytes \<Rightarrow> hello_result" where
  "helloStatus h =
     (if length h < 4 then More
      else if h ! 0 \<noteq> clientHelloType then Failed NotClientHello
      else if messageLen h = 0 \<or> 4 + messageLen h > maxClientHelloSize then Failed HelloInvalidLength
      else if length h < 4 + messageLen h then More
      else Complete (take (4 + messageLen h) h))"

text \<open>The stream is a sequence of records; \<open>h\<close> collects their bodies.\<close>

function helloFrom :: "bytes \<Rightarrow> bytes \<Rightarrow> hello_result" where
  "helloFrom h s =
     (if length s < 5 then More
      else if s ! 0 \<noteq> 22 then Failed NonHandshakeRecord
      else if recordLen s = 0 \<or> recordLen s > 16384 then Failed RecordInvalidLength
      else if length s < 5 + recordLen s then More
      else
        let h = h @ take (recordLen s) (drop 5 s) in
        case helloStatus h of More \<Rightarrow> helloFrom h (drop (5 + recordLen s) s) | res \<Rightarrow> res)"
  by pat_completeness auto
termination by (relation "measure (\<lambda>(h, s). length s)") auto

declare helloFrom.simps [simp del]

definition helloOf :: "bytes \<Rightarrow> hello_result" where
  "helloOf s = helloFrom [] s"

section \<open>The accumulator follows the reference\<close>

lemma messageLen_append: "4 \<le> length h \<Longrightarrow> messageLen (h @ x) = messageLen h"
  by (simp add: messageLen_def nth_append)

lemma first_append: "4 \<le> length h \<Longrightarrow> (h @ x) ! 0 = h ! 0"
  by (cases h) simp_all

lemma recordLen_append: "5 \<le> length s \<Longrightarrow> recordLen (s @ x) = recordLen s"
  by (simp add: recordLen_def nth_append)

text \<open>The state of an accumulator whose handshake bytes so far are \<open>h\<close> and decide nothing yet.\<close>

definition collecting :: "bytes \<Rightarrow> clientHelloAccumulator \<Rightarrow> bool" where
  "collecting h a \<longleftrightarrow> helloStatus h = More \<and> hello a = h \<and> expected a = (if length h < 4 then 0 else 4 + messageLen h)"

lemma collecting_new: "collecting [] newAccumulator"
  by (simp add: collecting_def newAccumulator_def helloStatus_def)

lemma takeBody_follows:
  assumes "4 \<le> length h" "h ! 0 = clientHelloType" "messageLen h \<noteq> 0" "4 + messageLen h \<le> maxClientHelloSize" "length h < 4 + messageLen h"
    and "hello a = h" "expected a = 4 + messageLen h"
  shows "case takeBody body a of
      (True, a') \<Rightarrow> helloStatus (h @ body) = Complete (hello a')
    | (False, a') \<Rightarrow> collecting (h @ body) a'"
proof (cases "length h + length body < 4 + messageLen h")
  case True
  then show ?thesis using assms messageLen_append [OF assms(1)] first_append [OF assms(1)]
    by (simp add: takeBody_def Let_def collecting_def helloStatus_def)
next
  case False
  then show ?thesis using assms messageLen_append [OF assms(1)] first_append [OF assms(1)]
    by (simp add: takeBody_def Let_def helloStatus_def)
qed

lemma takeBody_header_only: "expected a = 0 \<Longrightarrow> takeBody body a = (False, a)"
  by (simp add: takeBody_def)

lemma record_follows:
  assumes "collecting h a"
  shows "case takeHeader body a of
      (Some e, _, a') \<Rightarrow> helloStatus (h @ body) = Failed e
    | (None, body', a') \<Rightarrow>
        (case takeBody body' a' of
           (True, a'') \<Rightarrow> helloStatus (h @ body) = Complete (hello a'')
         | (False, a'') \<Rightarrow> collecting (h @ body) a'')"
proof (cases "length h < 4")
  case False
  with assms have "takeHeader body a = (None, body, a)" by (simp add: takeHeader_def collecting_def)
  then show ?thesis
    using takeBody_follows [of h a body] assms False by (auto simp: collecting_def helloStatus_def not_less not_le split: if_splits)
next
  case True
  with assms have a: "hello a = h" "expected a = 0" by (simp_all add: collecting_def)
  define need where "need = min (4 - length h) (length body)"
  let ?h = "h @ take need body"
  show ?thesis
  proof (cases "length ?h = 4")
    case False
    then have all: "need = length body" "length h + length body < 4" using True by (auto simp: need_def)
    then have "takeHeader body a = (None, [], a\<lparr>hello := h @ body\<rparr>)"
      using True a False by (simp add: takeHeader_def need_def Let_def)
    then show ?thesis using all a by (simp add: takeBody_header_only collecting_def helloStatus_def)
  next
    case four: True
    have split: "h @ body = ?h @ drop need body" by simp
    have le: "4 \<le> length ?h" using four by simp
    have m: "messageLen (h @ body) = messageLen ?h" "(h @ body) ! 0 = ?h ! 0"
      using messageLen_append [OF le] first_append [OF le] unfolding split by blast+
    have len: "4 \<le> length (h @ body)" using le unfolding split by simp
    let ?a = "a\<lparr>hello := ?h, expected := 4 + messageLen ?h\<rparr>"
    show ?thesis
    proof (cases "?h ! 0 = clientHelloType \<and> messageLen ?h \<noteq> 0 \<and> 4 + messageLen ?h \<le> maxClientHelloSize")
      case True
      then have "takeHeader body a = (None, drop need body, ?a)"
        using \<open>length h < 4\<close> a four by (simp add: takeHeader_def Let_def flip: need_def)
      moreover have "4 \<le> length ?h" "length ?h < 4 + messageLen ?h" using four True by simp_all
      ultimately show ?thesis using takeBody_follows [of ?h ?a "drop need body", folded split] True by simp
    next
      case False
      then obtain e where "takeHeader body a = (Some e, drop need body, if ?h ! 0 = clientHelloType then ?a else a\<lparr>hello := ?h\<rparr>)"
        and "e = (if ?h ! 0 = clientHelloType then HelloInvalidLength else NotClientHello)"
        using \<open>length h < 4\<close> a four by (auto simp: takeHeader_def Let_def simp flip: need_def)
      moreover have "helloStatus (h @ body) = Failed (if ?h ! 0 = clientHelloType then HelloInvalidLength else NotClientHello)"
        using False len unfolding helloStatus_def m by (simp add: not_le not_less)
      ultimately show ?thesis by simp
    qed
  qed
qed

text \<open>One whole record at the head of the stream, whatever follows it.\<close>

lemma helloFrom_whole:
  assumes len: "5 \<le> length s" and "s ! 0 = 22" "recordLen s \<noteq> 0" "recordLen s \<le> 16384" and "5 + recordLen s \<le> length s"
  shows "helloFrom h (s @ q) = (case helloStatus (h @ take (recordLen s) (drop 5 s)) of
      More \<Rightarrow> helloFrom (h @ take (recordLen s) (drop 5 s)) (drop (5 + recordLen s) s @ q) | res \<Rightarrow> res)"
proof -
  have "(s @ q) ! 0 = s ! 0" "recordLen (s @ q) = recordLen s" "\<not> length (s @ q) < 5 + recordLen s" "\<not> length (s @ q) < 5"
    "drop (5 + recordLen s) (s @ q) = drop (5 + recordLen s) s @ q" "take (recordLen s) (drop 5 (s @ q)) = take (recordLen s) (drop 5 s)"
    using assms recordLen_append [OF len] first_append [of s] by simp_all
  note same = this
  show ?thesis using assms(2-4) by (subst helloFrom.simps) (simp only: same Let_def if_False not_le if_True, simp)
qed

lemmas tls_consts = tlsRecordHeaderLen_def tlsHandshakeContentType_def maxTLSRecordPayload_def

lemma loop_follows:
  "collecting h a \<Longrightarrow> fst (add_loop a) = helloFrom h (pending a)
     \<and> (\<forall>a'. add_loop a = (More, a') \<longrightarrow> (\<exists>h'. collecting h' a' \<and> (\<forall>q. helloFrom h (pending a @ q) = helloFrom h' (pending a' @ q))))"
proof (induction a arbitrary: h rule: add_loop.induct)
  case (1 a)
  let ?p = "pending a"
  let ?n = "recordLen ?p"
  let ?body = "take ?n (drop 5 ?p)"
  let ?a = "a\<lparr>pending := drop (5 + ?n) ?p\<rparr>"
  have c: "collecting h ?a" using 1(2) by (simp add: collecting_def)
  consider "length ?p < 5" | "5 \<le> length ?p" "?p ! 0 \<noteq> 22 \<or> ?n = 0 \<or> ?n > 16384 \<or> length ?p < 5 + ?n"
    | (whole) "5 \<le> length ?p" "?p ! 0 = 22" "?n \<noteq> 0" "?n \<le> 16384" "5 + ?n \<le> length ?p" by linarith
  then show ?case
  proof cases
    case whole
    have ref: "helloFrom h (?p @ q) = (case helloStatus (h @ ?body) of More \<Rightarrow> helloFrom (h @ ?body) (drop (5 + ?n) ?p @ q) | res \<Rightarrow> res)" for q
      by (rule helloFrom_whole [OF whole])
    have code: "add_loop a = (case takeHeader ?body ?a of
               (Some e, _, a) \<Rightarrow> (Failed e, a)
             | (None, body, a) \<Rightarrow>
                 (case takeBody body a of (True, a) \<Rightarrow> (Complete (hello a), a) | (False, a) \<Rightarrow> add_loop a))"
      using whole by (subst add_loop.simps) (simp add: tls_consts Let_def)
    obtain e body' a1 where th: "takeHeader ?body ?a = (e, body', a1)" by (metis prod_cases3)
    show ?thesis
    proof (cases e)
      case (Some err)
      then show ?thesis using record_follows [OF c, of ?body] th code ref [of "[]"] by simp
    next
      case None
      obtain b a2 where tb: "takeBody body' a1 = (b, a2)" by force
      show ?thesis
      proof (cases b)
        case True
        then show ?thesis using record_follows [OF c, of ?body] th None tb code ref [of "[]"] by simp
      next
        case notb: False
        then have False: "b = False" by simp
        then have c2: "collecting (h @ ?body) a2" using record_follows [OF c, of ?body] th None tb by simp
        have p2: "pending a2 = drop (5 + ?n) ?p" using take_pending(1) [OF th] take_pending(2) [OF tb] by simp
        have loop: "add_loop a = add_loop a2" using code th None tb False by simp
        have ref2: "helloFrom h (?p @ q) = helloFrom (h @ ?body) (pending a2 @ q)" for q
          using ref [of q] c2 p2 by (simp add: collecting_def)
        have "fst (add_loop a2) = helloFrom (h @ ?body) (pending a2)
          \<and> (\<forall>a'. add_loop a2 = (More, a') \<longrightarrow> (\<exists>h'. collecting h' a' \<and> (\<forall>q. helloFrom (h @ ?body) (pending a2 @ q) = helloFrom h' (pending a' @ q))))"
          by (rule 1(1) [unfolded tls_consts, OF _ _ refl _ _ refl refl th [unfolded None, symmetric] refl refl tb [unfolded False, symmetric] refl c2])
            (use whole in simp_all)
        then show ?thesis unfolding loop using ref2 ref2 [of "[]"] by simp
      qed
    qed
  next
    case 1
    then have "add_loop a = (More, a)" by (subst add_loop.simps) (simp add: tlsRecordHeaderLen_def)
    with 1 \<open>collecting h a\<close> show ?thesis by (subst helloFrom.simps) auto
  next
    case 2
    then have "add_loop a = (if ?p ! 0 \<noteq> 22 then Failed NonHandshakeRecord else if ?n = 0 \<or> ?n > 16384 then Failed RecordInvalidLength else More, a)"
      by (subst add_loop.simps) (auto simp: tls_consts Let_def)
    moreover from 2 have "helloFrom h ?p = (if ?p ! 0 \<noteq> 22 then Failed NonHandshakeRecord else if ?n = 0 \<or> ?n > 16384 then Failed RecordInvalidLength else More)"
      by (subst helloFrom.simps) auto
    ultimately show ?thesis using \<open>collecting h a\<close> by (auto split: if_splits)
  qed
qed

text \<open>Once the reference has decided, further bytes do not change the answer.\<close>

lemma helloFrom_decided: "helloFrom h s \<noteq> More \<Longrightarrow> helloFrom h (s @ q) = helloFrom h s"
proof (induction h s rule: helloFrom.induct)
  case (1 h s)
  let ?n = "recordLen s"
  from "1.prems" have len: "5 \<le> length s" by (subst (asm) helloFrom.simps) (auto split: if_splits)
  have same: "(s @ q) ! 0 = s ! 0" "recordLen (s @ q) = ?n" "\<not> length (s @ q) < 5" "\<not> length s < 5"
    using len recordLen_append [OF len] first_append [of s] by simp_all
  show ?case
  proof (cases "s ! 0 \<noteq> 22 \<or> ?n = 0 \<or> ?n > 16384")
    case True
    with len show ?thesis by (simp add: helloFrom.simps [of h] same)
  next
    case False
    with "1.prems" same have whole: "5 + ?n \<le> length s" by (subst (asm) helloFrom.simps) (auto split: if_splits)
    note step = helloFrom_whole [OF len _ _ _ whole]
    show ?thesis
      using step [of h q] step [of h "[]"] 1(1) [OF _ _ _ _ refl] False same whole "1.prems"
      by (cases "helloStatus (h @ take ?n (drop 5 s))") auto
  qed
qed

section \<open>A stream fed in pieces\<close>

text \<open>A reader that hands each piece to the accumulator until it answers.\<close>

fun feed :: "bytes list \<Rightarrow> clientHelloAccumulator \<Rightarrow> hello_result" where
  "feed [] a = More"
| "feed (p # ps) a = (case add p a of (More, a') \<Rightarrow> feed ps a' | (res, _) \<Rightarrow> res)"

lemma feed_follows:
  "collecting h a \<Longrightarrow> helloFrom h (pending a) = More \<Longrightarrow> feed ps a = helloFrom h (pending a @ concat ps)"
proof (induction ps arbitrary: h a)
  case (Cons p ps)
  let ?a = "a\<lparr>pending := pending a @ p\<rparr>"
  have c: "collecting h ?a" using Cons.prems by (simp add: collecting_def)
  obtain res a' where r: "add_loop ?a = (res, a')" by force
  note l = loop_follows [OF c, unfolded r, simplified]
  show ?case
  proof (cases res)
    case More
    with l obtain h' where h': "collecting h' a'" "\<And>q. helloFrom h (pending a @ p @ q) = helloFrom h' (pending a' @ q)"
      by auto
    from h'(2) [of "[]"] l More have "helloFrom h' (pending a') = More" by simp
    from Cons.IH [OF h'(1) this] h'(2) [of "concat ps"] r More show ?thesis by (simp add: add_def)
  qed (use l r helloFrom_decided [of h "pending a @ p" "concat ps"] in \<open>simp_all add: add_def\<close>)
qed simp

text \<open>
  C31: the answer of the accumulator depends only on the bytes, not on how the transport cuts them:
  fed any pieces, it answers what the reference says of their concatenation. In particular it always
  answers, and the size check after the loop never fires.
\<close>

theorem hello_chunking: "feed ps newAccumulator = helloOf (concat ps)"
  using feed_follows [OF collecting_new, of ps] by (simp add: helloOf_def newAccumulator_def helloFrom.simps)

section \<open>Fragmented messages\<close>

text \<open>A handshake record with its two version bytes, and a ClientHello message the code accepts.\<close>

definition tlsRecord :: "byte \<Rightarrow> byte \<Rightarrow> bytes \<Rightarrow> bytes" where
  "tlsRecord v w b = [22, v, w, word_of_nat (length b div 256), word_of_nat (length b mod 256)] @ b"

definition isClientHello :: "bytes \<Rightarrow> bool" where
  "isClientHello m \<longleftrightarrow> 4 < length m \<and> length m \<le> maxClientHelloSize \<and> m ! 0 = clientHelloType \<and> length m = 4 + messageLen m"

lemma recordLen_tlsRecord: "length b \<le> 16384 \<Longrightarrow> recordLen (tlsRecord v w b @ q) = length b"
  by (simp add: recordLen_def tlsRecord_def unat_of_nat take_bit_eq_mod)

lemma status_prefix: "isClientHello (h @ x) \<Longrightarrow> helloStatus h = (if x = [] then Complete h else More)"
proof (cases "length h < 4")
  case True
  then show "isClientHello (h @ x) \<Longrightarrow> ?thesis" by (auto simp: helloStatus_def isClientHello_def)
next
  case False
  then have h: "4 \<le> length h" by simp
  assume "isClientHello (h @ x)"
  then show ?thesis using h messageLen_append [OF h, of x] first_append [OF h, of x]
    by (cases x) (auto simp: helloStatus_def isClientHello_def)
qed

lemma fragments_from:
  "isClientHello (h @ concat bs) \<Longrightarrow> \<forall>b \<in> set bs. b \<noteq> [] \<and> length b \<le> 16384 \<Longrightarrow> bs \<noteq> []
   \<Longrightarrow> helloFrom h (concat (map (tlsRecord v w) bs) @ q) = Complete (h @ concat bs)"
proof (induction bs arbitrary: h)
  case (Cons b bs)
  let ?r = "tlsRecord v w b"
  have b: "b \<noteq> []" "length b \<le> 16384" using Cons.prems by simp_all
  have n: "recordLen ?r = length b" using recordLen_tlsRecord [OF b(2), of v w "[]"] by simp
  have r: "5 \<le> length ?r" "?r ! 0 = 22" "5 + recordLen ?r \<le> length ?r" "take (length b) (drop 5 ?r) = b" "drop (5 + length b) ?r = []"
    unfolding n by (simp_all add: tlsRecord_def)
  have step: "helloFrom h (?r @ s) = (case helloStatus (h @ b) of More \<Rightarrow> helloFrom (h @ b) s | res \<Rightarrow> res)" for s
    using helloFrom_whole [OF r(1,2) _ _ r(3), of h s, unfolded n r(4,5) append_Nil] b by simp
  have status: "helloStatus (h @ b) = (if concat bs = [] then Complete (h @ b) else More)"
    using Cons.prems(1) by (intro status_prefix) simp
  show ?case
  proof (cases "bs = []")
    case True
    then show ?thesis using step [of q] status by simp
  next
    case False
    then have "concat bs \<noteq> []" using Cons.prems(2) by (cases bs) auto
    then show ?thesis using step [of "concat (map (tlsRecord v w) bs) @ q"] status Cons.IH [of "h @ b"] Cons.prems False by simp
  qed
qed simp

text \<open>
  A ClientHello cut into handshake records anyhow, sent in pieces anyhow and followed by
  anything, is captured exactly.
\<close>

theorem hello_fragments_roundtrip:
  assumes "isClientHello (concat bs)" and "\<forall>b \<in> set bs. b \<noteq> [] \<and> length b \<le> maxTLSRecordPayload"
    and "concat ps = concat (map (tlsRecord v w) bs) @ q"
  shows "feed ps newAccumulator = Complete (concat bs)"
proof -
  have "bs \<noteq> []" using assms(1) by (auto simp: isClientHello_def)
  then show ?thesis using fragments_from [of "[]" bs v w q] assms feed_follows [OF collecting_new, of ps]
    by (simp add: tls_consts newAccumulator_def helloFrom.simps [of "[]" "[]"])
qed

theorem hello_fragments_roundtrip_witness:
  "feed [[22, 3, 1, 0], [2, 1, 0, 22, 3, 1], [0, 4, 0, 2, 7, 9, 99]] newAccumulator = Complete [1, 0, 0, 2, 7, 9]"
  using hello_fragments_roundtrip [of "[[1, 0], [0, 2, 7, 9]]" "[[22, 3, 1, 0], [2, 1, 0, 22, 3, 1], [0, 4, 0, 2, 7, 9, 99]]" 3 1 "[99]"]
  by (simp add: isClientHello_def maxClientHelloSize_def maxTLSRecordPayload_def clientHelloType_def messageLen_def tlsRecord_def)

end
