(* ===== verification/Binding_Registry.thy ===== *)
theory Binding_Registry
  imports Client_Hello
begin

text \<open>
  The one-time bindings of keyless signing, \<open>BindingRegistry\<close> and \<open>helloFixingConn\<close> of
  \<open>src/portal/keyless/bindings.go\<close>. A binding permits one signature for one lease and one
  ClientHello before a deadline. Each method body runs under the mutex and is one step;
  \<open>time.Now()\<close>, the random binding and SHA-256 are arguments. The abstract specification is a
  table of permits that remembers the pinned ClientHello itself instead of its digest.
\<close>

section \<open>State\<close>

datatype binding_error =
    ClientHelloSpanRequired
  | BindingUnknown
  | BindingExpired
  | BindingHelloAlreadyFixed
  | BindingMustBe16Bytes
  | ClientHelloTranscriptRequired
  | BindingUnknownOrExpired
  | BindingForeignLease
  | BindingHelloNeverFixed
  | ClientHelloMismatch

record bindingEntry =
  leaseID :: string
  expiresAt :: go_time
  helloHash :: bytes

record BindingRegistry =
  entries :: "(bytes, bindingEntry) gomap"
  ttl :: duration

type_synonym digest = "bytes \<Rightarrow> bytes"

text \<open>\<open>[32]byte{}\<close>, the digest of a binding whose ClientHello is not known yet.\<close>

definition zeroHash :: bytes where "zeroHash = replicate 32 0"

section \<open>Operations\<close>

definition NewBindingRegistry :: "duration \<Rightarrow> BindingRegistry" where
  "NewBindingRegistry d = \<lparr>entries = [], ttl = d\<rparr>"

text \<open>\<open>rnd\<close> is what \<open>rand.Read\<close> fills in; its failure is a panic, the result \<open>None\<close>.\<close>

definition Issue :: "digest \<Rightarrow> go_time \<Rightarrow> bytes option \<Rightarrow> string \<Rightarrow> bytes \<Rightarrow> BindingRegistry \<Rightarrow> (bytes \<times> BindingRegistry) option" where
  "Issue sha now rnd lease ch b =
     (case rnd of
        None \<Rightarrow> None
      | Some binding \<Rightarrow>
          let hash = (if length ch > 0 then sha ch else zeroHash)
          in Some (binding, b\<lparr>entries := put binding \<lparr>leaseID = lease, expiresAt = now + ttl b, helloHash = hash\<rparr> (entries b)\<rparr>))"

definition FixHello :: "digest \<Rightarrow> go_time \<Rightarrow> bytes \<Rightarrow> bytes \<Rightarrow> BindingRegistry \<Rightarrow> binding_error option \<times> BindingRegistry" where
  "FixHello sha now binding ch b =
     (if length ch = 0 then (Some ClientHelloSpanRequired, b)
      else case lookup (entries b) binding of
          None \<Rightarrow> (Some BindingUnknown, b)
        | Some entry \<Rightarrow>
            if \<not> Before now (expiresAt entry) then (Some BindingExpired, b)
            else if helloHash entry \<noteq> zeroHash then (Some BindingHelloAlreadyFixed, b)
            else (None, b\<lparr>entries := put binding (entry\<lparr>helloHash := sha ch\<rparr>) (entries b)\<rparr>))"

definition ValidateAndConsume :: "digest \<Rightarrow> go_time \<Rightarrow> bytes \<Rightarrow> string \<Rightarrow> bytes \<Rightarrow> BindingRegistry \<Rightarrow> binding_error option \<times> BindingRegistry" where
  "ValidateAndConsume sha now binding lease ch b =
     (if length binding \<noteq> 16 then (Some BindingMustBe16Bytes, b)
      else if length ch = 0 then (Some ClientHelloTranscriptRequired, b)
      else case lookup (entries b) binding of
          None \<Rightarrow> (Some BindingUnknownOrExpired, b)
        | Some entry \<Rightarrow>
            if \<not> Before now (expiresAt entry) then (Some BindingUnknownOrExpired, b)
            else if leaseID entry \<noteq> lease then (Some BindingForeignLease, b)
            else if helloHash entry = zeroHash then (Some BindingHelloNeverFixed, b)
            else if helloHash entry \<noteq> sha ch then (Some ClientHelloMismatch, b)
            else (None, b\<lparr>entries := del binding (entries b)\<rparr>))"

definition Discard :: "bytes \<Rightarrow> BindingRegistry \<Rightarrow> BindingRegistry" where
  "Discard binding b = b\<lparr>entries := del binding (entries b)\<rparr>"

definition SweepExpired :: "go_time \<Rightarrow> BindingRegistry \<Rightarrow> BindingRegistry" where
  "SweepExpired now b = b\<lparr>entries := del_where (\<lambda>_ entry. \<not> Before now (expiresAt entry)) (entries b)\<rparr>"

section \<open>The system\<close>

datatype binding_op =
    IssueOp go_time "bytes option" string bytes
  | FixOp go_time bytes bytes
  | SpendOp go_time bytes string bytes
  | DiscardOp bytes
  | SweepOp go_time

text \<open>The answer of an operation; \<open>Issued\<close> and \<open>Panicked\<close> are the outcomes of \<open>Issue\<close>.\<close>

datatype binding_answer = Issued bytes | Panicked | Done | Refused binding_error

definition answer :: "binding_error option \<Rightarrow> binding_answer" where
  "answer r = (case r of None \<Rightarrow> Done | Some e \<Rightarrow> Refused e)"

fun binding_step :: "digest \<Rightarrow> binding_op \<Rightarrow> BindingRegistry \<Rightarrow> binding_answer \<times> BindingRegistry" where
  "binding_step sha (IssueOp now rnd lease ch) b =
     (case Issue sha now rnd lease ch b of None \<Rightarrow> (Panicked, b) | Some (k, b') \<Rightarrow> (Issued k, b'))"
| "binding_step sha (FixOp now k ch) b = (case FixHello sha now k ch b of (r, b') \<Rightarrow> (answer r, b'))"
| "binding_step sha (SpendOp now k lease ch) b = (case ValidateAndConsume sha now k lease ch b of (r, b') \<Rightarrow> (answer r, b'))"
| "binding_step sha (DiscardOp k) b = (Done, Discard k b)"
| "binding_step sha (SweepOp now) b = (Done, SweepExpired now b)"

fun binding_run :: "digest \<Rightarrow> binding_op list \<Rightarrow> BindingRegistry \<Rightarrow> binding_answer list \<times> BindingRegistry" where
  "binding_run sha [] b = ([], b)"
| "binding_run sha (e # es) b =
     (let (r, b) = binding_step sha e b; (rs, b) = binding_run sha es b in (r # rs, b))"

section \<open>Specification\<close>

text \<open>A permit names its lease, its deadline and, once known, the ClientHello it is for.\<close>

record permit =
  holderLease :: string
  deadline :: go_time
  pinned :: "bytes option"

type_synonym permits = "bytes \<rightharpoonup> permit"

fun permit_step :: "duration \<Rightarrow> binding_op \<Rightarrow> permits \<Rightarrow> binding_answer \<times> permits" where
  "permit_step d (IssueOp now None lease ch) s = (Panicked, s)"
| "permit_step d (IssueOp now (Some k) lease ch) s =
     (Issued k, s(k \<mapsto> \<lparr>holderLease = lease, deadline = now + d, pinned = (if ch = [] then None else Some ch)\<rparr>))"
| "permit_step d (FixOp now k ch) s =
     (if ch = [] then (Refused ClientHelloSpanRequired, s)
      else case s k of
          None \<Rightarrow> (Refused BindingUnknown, s)
        | Some p \<Rightarrow>
            if deadline p \<le> now then (Refused BindingExpired, s)
            else if pinned p \<noteq> None then (Refused BindingHelloAlreadyFixed, s)
            else (Done, s(k \<mapsto> p\<lparr>pinned := Some ch\<rparr>)))"
| "permit_step d (SpendOp now k lease ch) s =
     (if length k \<noteq> 16 then (Refused BindingMustBe16Bytes, s)
      else if ch = [] then (Refused ClientHelloTranscriptRequired, s)
      else case s k of
          None \<Rightarrow> (Refused BindingUnknownOrExpired, s)
        | Some p \<Rightarrow>
            if deadline p \<le> now then (Refused BindingUnknownOrExpired, s)
            else if holderLease p \<noteq> lease then (Refused BindingForeignLease, s)
            else (case pinned p of
                None \<Rightarrow> (Refused BindingHelloNeverFixed, s)
              | Some h \<Rightarrow> if h \<noteq> ch then (Refused ClientHelloMismatch, s) else (Done, s(k := None))))"
| "permit_step d (DiscardOp k) s = (Done, s(k := None))"
| "permit_step d (SweepOp now) s = (Done, \<lambda>k. case s k of None \<Rightarrow> None | Some p \<Rightarrow> if deadline p \<le> now then None else Some p)"

fun permit_run :: "duration \<Rightarrow> binding_op list \<Rightarrow> permits \<Rightarrow> binding_answer list \<times> permits" where
  "permit_run d [] s = ([], s)"
| "permit_run d (e # es) s = (let (r, s) = permit_step d e s; (rs, s) = permit_run d es s in (r # rs, s))"

section \<open>Simulation\<close>

text \<open>\<open>H\<close> is the set of ClientHellos presented; the digest tells them apart and is never zero.\<close>

definition distinguishes :: "digest \<Rightarrow> bytes set \<Rightarrow> bool" where
  "distinguishes sha H \<longleftrightarrow> inj_on sha H \<and> zeroHash \<notin> sha ` H"

fun op_hello :: "binding_op \<Rightarrow> bytes" where
  "op_hello (IssueOp _ _ _ ch) = ch"
| "op_hello (FixOp _ _ ch) = ch"
| "op_hello (SpendOp _ _ _ ch) = ch"
| "op_hello _ = []"

definition implements_entry :: "digest \<Rightarrow> bytes set \<Rightarrow> bindingEntry \<Rightarrow> permit \<Rightarrow> bool" where
  "implements_entry sha H e p \<longleftrightarrow> leaseID e = holderLease p \<and> expiresAt e = deadline p \<and>
     (case pinned p of None \<Rightarrow> helloHash e = zeroHash | Some h \<Rightarrow> h \<in> H \<and> helloHash e = sha h)"

definition implements :: "digest \<Rightarrow> bytes set \<Rightarrow> duration \<Rightarrow> BindingRegistry \<Rightarrow> permits \<Rightarrow> bool" where
  "implements sha H d b s \<longleftrightarrow> ttl b = d \<and> wf_map (entries b) \<and> (\<forall>k. rel_option (implements_entry sha H) (lookup (entries b) k) (s k))"

lemma implements_new: "implements sha H d (NewBindingRegistry d) Map.empty"
  by (simp add: implements_def NewBindingRegistry_def)

lemma implements_cases:
  assumes "implements sha H d b s"
  obtains (absent) "lookup (entries b) k = None" "s k = None"
  | (present) e p where "lookup (entries b) k = Some e" "s k = Some p" "implements_entry sha H e p"
proof -
  from assms have "rel_option (implements_entry sha H) (lookup (entries b) k) (s k)" by (simp add: implements_def)
  then show thesis by (cases rule: option.rel_cases) (auto intro: absent present)
qed

lemma implements_put:
  "implements sha H d b s \<Longrightarrow> implements_entry sha H e p \<Longrightarrow> implements sha H d (b\<lparr>entries := put k e (entries b)\<rparr>) (s(k \<mapsto> p))"
  by (simp add: implements_def)

lemma implements_del: "implements sha H d b s \<Longrightarrow> implements sha H d (b\<lparr>entries := del k (entries b)\<rparr>) (s(k := None))"
  by (simp add: implements_def)

lemma pinned_hash:
  assumes "distinguishes sha H" "implements_entry sha H e p"
  shows "helloHash e = zeroHash \<longleftrightarrow> pinned p = None"
    and "ch \<in> H \<Longrightarrow> pinned p = Some h \<Longrightarrow> helloHash e = sha ch \<longleftrightarrow> h = ch"
proof -
  show "helloHash e = zeroHash \<longleftrightarrow> pinned p = None"
    using assms by (cases "pinned p") (auto simp: distinguishes_def implements_entry_def image_iff)
  show "helloHash e = sha ch \<longleftrightarrow> h = ch" if "ch \<in> H" "pinned p = Some h"
    using assms that by (auto simp: distinguishes_def implements_entry_def inj_on_eq_iff)
qed

text \<open>Answers agree and the states stay related.\<close>

abbreviation simulates :: "digest \<Rightarrow> bytes set \<Rightarrow> duration \<Rightarrow> binding_answer \<times> BindingRegistry \<Rightarrow> binding_answer \<times> permits \<Rightarrow> bool" where
  "simulates sha H d x y \<equiv> fst x = fst y \<and> implements sha H d (snd x) (snd y)"

lemma simulates_Issue:
  assumes "implements sha H d b s" "ch \<in> insert [] H"
  shows "simulates sha H d (binding_step sha (IssueOp now rnd lease ch) b) (permit_step d (IssueOp now rnd lease ch) s)"
proof (cases rnd)
  case (Some k)
  let ?e = "\<lparr>leaseID = lease, expiresAt = now + d, helloHash = if ch = [] then zeroHash else sha ch\<rparr>"
  let ?p = "\<lparr>holderLease = lease, deadline = now + d, pinned = if ch = [] then None else Some ch\<rparr>"
  have "ttl b = d" "implements_entry sha H ?e ?p" using assms by (auto simp: implements_def implements_entry_def)
  with Some show ?thesis using implements_put [OF assms(1), of ?e ?p k] by (cases "ch = []") (simp_all add: Issue_def)
qed (use assms in \<open>simp add: Issue_def\<close>)

lemma simulates_Fix:
  assumes sha: "distinguishes sha H" and b: "implements sha H d b s" and ch: "ch \<in> insert [] H"
  shows "simulates sha H d (binding_step sha (FixOp now k ch) b) (permit_step d (FixOp now k ch) s)"
proof (cases rule: implements_cases [OF b, of k, case_names absent present])
  case (present e p)
  then show ?thesis using b ch pinned_hash(1) [OF sha present(3)] implements_put [OF b, of "e\<lparr>helloHash := sha ch\<rparr>" "p\<lparr>pinned := Some ch\<rparr>" k]
    by (auto simp: FixHello_def answer_def implements_entry_def)
qed (use b in \<open>simp add: FixHello_def answer_def\<close>)

lemma simulates_Spend:
  assumes sha: "distinguishes sha H" and b: "implements sha H d b s" and ch: "ch \<in> insert [] H"
  shows "simulates sha H d (binding_step sha (SpendOp now k lease ch) b) (permit_step d (SpendOp now k lease ch) s)"
proof (cases rule: implements_cases [OF b, of k, case_names absent present])
  case (present e p)
  have same: "expiresAt e = deadline p" "leaseID e = holderLease p" using present(3) by (simp_all add: implements_entry_def)
  show ?thesis
  proof (cases "pinned p")
    case None
    then show ?thesis using present(1,2) b pinned_hash(1) [OF sha present(3)] same
      by (simp add: ValidateAndConsume_def answer_def not_less)
  next
    case (Some h)
    then show ?thesis using present(1,2) b ch pinned_hash [OF sha present(3)] implements_del [OF b, of k] same
      by (auto simp: ValidateAndConsume_def answer_def)
  qed
qed (use b in \<open>simp add: ValidateAndConsume_def answer_def\<close>)

lemma simulates_Sweep:
  assumes b: "implements sha H d b s"
  shows "simulates sha H d (binding_step sha (SweepOp now) b) (permit_step d (SweepOp now) s)"
proof -
  let ?P = "\<lambda>(_ :: bytes) e. \<not> Before now (expiresAt e)"
  have wf: "wf_map (entries b)" using b by (simp add: implements_def)
  have "rel_option (implements_entry sha H) (lookup (del_where ?P (entries b)) k)
      (case s k of None \<Rightarrow> None | Some p \<Rightarrow> if deadline p \<le> now then None else Some p)" for k
  proof (cases rule: implements_cases [OF b, of k, case_names absent present])
    case (present e p)
    then have "expiresAt e = deadline p" by (simp add: implements_entry_def)
    with present show ?thesis by (simp add: lookup_del_where [OF wf])
  qed (simp add: lookup_del_where [OF wf])
  then show ?thesis using b wf by (simp add: implements_def SweepExpired_def)
qed

lemma step_simulates:
  assumes "distinguishes sha H" "implements sha H d b s" "op_hello e \<in> insert [] H"
  shows "simulates sha H d (binding_step sha e b) (permit_step d e s)"
proof (cases e)
  case (DiscardOp k)
  then show ?thesis using assms by (simp add: Discard_def implements_del)
qed (use assms simulates_Issue simulates_Fix simulates_Spend simulates_Sweep in force)+

lemma run_simulates:
  assumes "distinguishes sha H" "implements sha H d b s" "op_hello ` set es \<subseteq> insert [] H"
  shows "fst (binding_run sha es b) = fst (permit_run d es s)"
  using assms(2,3)
proof (induction es arbitrary: b s)
  case (Cons e es)
  have "simulates sha H d (binding_step sha e b) (permit_step d e s)"
    by (rule step_simulates [OF assms(1) Cons.prems(1)]) (use Cons.prems in auto)
  then show ?case using Cons.IH [of "snd (binding_step sha e b)" "snd (permit_step d e s)"] Cons.prems by (auto split: prod.splits)
qed simp

section \<open>Properties\<close>

text \<open>
  C6: as long as SHA-256 tells the presented ClientHellos apart and hashes none of them to zero,
  the registry gives in every history the answers of the table of permits: a signature is granted
  exactly for an issued, unspent, unexpired binding, its own lease and the very ClientHello that
  was pinned first.
\<close>

theorem bindings_refine_permits:
  assumes "distinguishes sha (op_hello ` set es - {[]})"
  shows "fst (binding_run sha es (NewBindingRegistry d)) = fst (permit_run d es Map.empty)"
  by (rule run_simulates [OF assms implements_new]) auto

theorem bindings_refine_permits_witness:
  "fst (binding_run (\<lambda>h. replicate 32 (hd h))
      [IssueOp 0 (Some (replicate 16 7)) ''lease'' [], FixOp 1 (replicate 16 7) [1, 2], SpendOp 2 (replicate 16 7) ''lease'' [3],
       SpendOp 2 (replicate 16 7) ''lease'' [1, 2], SpendOp 3 (replicate 16 7) ''lease'' [1, 2]] (NewBindingRegistry 10))
   = [Issued (replicate 16 7), Done, Refused ClientHelloMismatch, Done, Refused BindingUnknownOrExpired]"
proof -
  have "distinguishes (\<lambda>h. replicate 32 (hd h)) {[1, 2], [3 :: byte]}"
    by (auto simp: distinguishes_def inj_on_def zeroHash_def replicate_eq_replicate)
  then show ?thesis by (subst bindings_refine_permits) (simp_all add: insert_Diff_if insert_commute)
qed

text \<open>How often a history issued and spent a binding.\<close>

fun issues :: "bytes \<Rightarrow> binding_answer list \<Rightarrow> nat" where
  "issues k rs = count_list rs (Issued k)"

fun spends :: "bytes \<Rightarrow> binding_op list \<Rightarrow> binding_answer list \<Rightarrow> nat" where
  "spends k (SpendOp now k' lease h # es) (r # rs) = (if k' = k \<and> r = Done then 1 else 0) + spends k es rs"
| "spends k (_ # es) (_ # rs) = spends k es rs"
| "spends k _ _ = 0"

lemma step_budget:
  fixes k :: bytes
  defines "live b \<equiv> (if has_key (entries b) k then 1 else 0 :: nat)"
  shows "spends k [e] [fst (binding_step sha e b)] + live (snd (binding_step sha e b)) \<le> issues k [fst (binding_step sha e b)] + live b"
proof (cases e)
  case (IssueOp now rnd lease h)
  then show ?thesis by (cases rnd) (auto simp: Issue_def live_def)
next
  case (FixOp now k' h)
  then show ?thesis by (auto simp: FixHello_def live_def answer_def has_key_def split: option.splits if_splits)
next
  case (SpendOp now k' lease h)
  then show ?thesis by (auto simp: ValidateAndConsume_def live_def answer_def has_key_def split: option.splits if_splits)
next
  case (SweepOp now)
  then show ?thesis by (auto simp: SweepExpired_def live_def has_key_keys del_where_def)
qed (simp add: Discard_def live_def)

lemma spends_Cons: "spends k (e # es) (r # rs) = spends k [e] [r] + spends k es rs"
  by (cases e) simp_all

lemma run_budget:
  "spends k es (fst (binding_run sha es b)) \<le> issues k (fst (binding_run sha es b)) + (if has_key (entries b) k then 1 else 0)"
proof (induction es arbitrary: b)
  case (Cons e es)
  obtain r b' where st: "binding_step sha e b = (r, b')" by force
  obtain rs b'' where run: "binding_run sha es b' = (rs, b'')" by force
  have eq: "fst (binding_run sha (e # es) b) = r # rs" using st run by simp
  have "issues k (r # rs) = issues k [r] + issues k rs" by simp
  then show ?case
    using Cons.IH [of b'] step_budget [of k e sha b] unfolding eq st run spends_Cons [of k e es r rs] fst_conv snd_conv by linarith
qed simp

text \<open>
  Whatever the digest does, a binding is spent at most once per issue.
\<close>

theorem binding_spent_once:
  "spends k es (fst (binding_run sha es (NewBindingRegistry d))) \<le> issues k (fst (binding_run sha es (NewBindingRegistry d)))"
  using run_budget [of k es sha "NewBindingRegistry d"] by (simp add: NewBindingRegistry_def)

section \<open>Connections that pin the ClientHello they forward\<close>

record helloFixingConn =
  capture :: clientHelloAccumulator
  fixed :: bool
  binding :: bytes

datatype write_error = CaptureClientHello hello_error | FixBindingHello binding_error | ConnError string

definition FixHelloOnWrite :: "bytes \<Rightarrow> helloFixingConn" where
  "FixHelloOnWrite k = \<lparr>capture = newAccumulator, fixed = False, binding = k\<rparr>"

text \<open>
  \<open>Write\<close> with the answer \<open>(n, err)\<close> the wrapped connection would give; by the contract of
  \<open>io.Writer\<close> it takes the first \<open>n \<le> length p\<close> bytes. The result is the answer, the
  connection, the registry and the bytes the wrapped connection took. \<open>clone\<close> copies both
  slices, so the preview leaves the capture as it is.
\<close>

definition Write :: "digest \<Rightarrow> go_time \<Rightarrow> bytes \<Rightarrow> nat \<times> string option \<Rightarrow> helloFixingConn \<Rightarrow> BindingRegistry
    \<Rightarrow> (nat \<times> write_error option) \<times> helloFixingConn \<times> BindingRegistry \<times> bytes" where
  "Write sha now p inner c b =
     (let (n, err) = inner; err = map_option ConnError err in
      if fixed c then ((n, err), c, b, take n p)
      else case fst (add p (capture c)) of
          Failed e \<Rightarrow> ((0, Some (CaptureClientHello e)), c, b, [])
        | Complete h \<Rightarrow>
            (case FixHello sha now (binding c) h b of
               (Some e, b) \<Rightarrow> ((0, Some (FixBindingHello e)), c, b, [])
             | (None, b) \<Rightarrow> ((n, err), c\<lparr>fixed := True\<rparr>, b, take n p))
        | More \<Rightarrow>
            if n > 0 then
              (case add (take n p) (capture c) of
                 (Failed e, a) \<Rightarrow> ((n, Some (CaptureClientHello e)), c\<lparr>capture := a\<rparr>, b, take n p)
               | (_, a) \<Rightarrow> ((n, err), c\<lparr>capture := a\<rparr>, b, take n p))
            else ((n, err), c, b, []))"

text \<open>
  A connection at work: its writes interleave with any operation of other connections on the
  registry. The trace keeps what has been forwarded and the ClientHello the registry accepted
  for this connection; \<open>short\<close> says that a write was cut.
\<close>

record conn_trace =
  conn :: helloFixingConn
  registry :: BindingRegistry
  forwarded :: bytes
  accepted :: "bytes option"
  short :: bool

datatype conn_op = WriteOp go_time bytes "nat \<times> string option" | OtherOp binding_op

fun conn_step :: "digest \<Rightarrow> conn_op \<Rightarrow> conn_trace \<Rightarrow> conn_trace" where
  "conn_step sha (OtherOp e) t = t\<lparr>registry := snd (binding_step sha e (registry t))\<rparr>"
| "conn_step sha (WriteOp now p inner) t =
     (let (_, c, b, out) = Write sha now p inner (conn t) (registry t) in
      t\<lparr>conn := c, registry := b, forwarded := forwarded t @ out,
        accepted := (if fixed c \<and> \<not> fixed (conn t) then
            (case fst (add p (capture (conn t))) of Complete h \<Rightarrow> Some h | _ \<Rightarrow> None) else accepted t),
        short := (short t \<or> fst inner < length p)\<rparr>)"

definition conn_start :: "bytes \<Rightarrow> BindingRegistry \<Rightarrow> conn_trace" where
  "conn_start k b = \<lparr>conn = FixHelloOnWrite k, registry = b, forwarded = [], accepted = None, short = False\<rparr>"

text \<open>Until the registry has accepted a ClientHello, the capture is in step with what was forwarded.\<close>

definition in_step :: "clientHelloAccumulator \<Rightarrow> bytes \<Rightarrow> bool" where
  "in_step a out \<longleftrightarrow> helloOf out = More \<and> (\<exists>h. collecting h a \<and> (\<forall>q. helloOf (out @ q) = helloFrom h (pending a @ q)))"

definition conn_inv :: "conn_trace \<Rightarrow> bool" where
  "conn_inv t \<longleftrightarrow>
     (if fixed (conn t) then (\<exists>h. accepted t = Some h \<and> (\<not> short t \<longrightarrow> helloOf (forwarded t) = Complete h))
      else accepted t = None \<and> in_step (capture (conn t)) (forwarded t))"

lemma in_step_new: "in_step newAccumulator []"
  using collecting_new by (auto simp: in_step_def helloOf_def newAccumulator_def helloFrom.simps)

lemma in_step_add:
  assumes "in_step a out"
  shows "fst (add p a) = helloOf (out @ p)" and "add p a = (More, a') \<Longrightarrow> in_step a' (out @ p)"
proof -
  from assms obtain h where h: "collecting h a" "\<And>q. helloOf (out @ q) = helloFrom h (pending a @ q)"
    by (auto simp: in_step_def)
  then have c: "collecting h (a\<lparr>pending := pending a @ p\<rparr>)" by (simp add: collecting_def)
  from loop_follows [OF c] h(2) [of p] show first: "fst (add p a) = helloOf (out @ p)" by (simp add: add_def)
  assume "add p a = (More, a')"
  with loop_follows [OF c] first h(2) show "in_step a' (out @ p)" by (auto simp: add_def in_step_def)
qed

lemma helloOf_decided: "helloOf s \<noteq> More \<Longrightarrow> helloOf (s @ q) = helloOf s"
  by (simp add: helloOf_def helloFrom_decided)

text \<open>The outcomes of a write that keep the trace consistent.\<close>

lemma Write_fixed: "fixed c \<Longrightarrow> Write sha now p (n, err) c b = ((n, map_option ConnError err), c, b, take n p)"
  by (simp add: Write_def)

lemma Write_cases:
  assumes c: "\<not> fixed c" "in_step (capture c) out" and w: "Write sha now p (n, err) c b = (r, c', b', sent)"
  obtains (refused) "c' = c" "sent = []"
  | (pinned) h where "helloOf (out @ p) = Complete h" "FixHello sha now (binding c) h b = (None, b')" "c' = c\<lparr>fixed := True\<rparr>" "sent = take n p"
  | (passed) a where "c' = c\<lparr>capture := a\<rparr>" "in_step a (out @ sent)"
proof (cases "fst (add p (capture c))")
  case (Failed e)
  then show thesis using w c by (intro refused) (auto simp: Write_def)
next
  case (Complete h)
  obtain r1 b1 where f: "FixHello sha now (binding c) h b = (r1, b1)" by force
  have h: "helloOf (out @ p) = Complete h" using in_step_add(1) [OF c(2), of p] Complete by simp
  show thesis
  proof (cases r1)
    case None
    then show thesis using w c f Complete h by (intro pinned [of h]) (auto simp: Write_def)
  next
    case (Some e)
    then show thesis using w c f Complete by (intro refused) (auto simp: Write_def)
  qed
next
  case More
  have "helloOf ((out @ take n p) @ drop n p) = More" using in_step_add(1) [OF c(2), of p] More by simp
  then have more: "helloOf (out @ take n p) = More" by (metis helloOf_decided)
  obtain r1 a where a: "add (take n p) (capture c) = (r1, a)" by force
  have "r1 = More" using in_step_add(1) [OF c(2), of "take n p"] more a by simp
  with a have next_step: "in_step a (out @ take n p)" using in_step_add(2) [OF c(2)] by simp
  show thesis
  proof (cases "n > 0")
    case True
    then show thesis using w c More a next_step \<open>r1 = More\<close> by (intro passed [of a]) (auto simp: Write_def)
  next
    case False
    then show thesis using w c More by (intro refused) (auto simp: Write_def)
  qed
qed

lemma conn_inv_start: "conn_inv (conn_start k b)"
  by (simp add: conn_inv_def conn_start_def FixHelloOnWrite_def in_step_new)

lemma conn_inv_step: "conn_inv t \<Longrightarrow> conn_inv (conn_step sha e t)"
proof (cases e)
  case (WriteOp now p inner)
  obtain n err where i: "inner = (n, err)" by force
  obtain r c b out where w: "Write sha now p (n, err) (conn t) (registry t) = (r, c, b, out)" by (metis prod_cases4)
  assume inv: "conn_inv t"
  show ?thesis
  proof (cases "fixed (conn t)")
    case True
    then have "c = conn t" "out = take n p" using w by (simp_all add: Write_fixed)
    then show ?thesis using inv True w helloOf_decided [of "forwarded t" out]
      by (auto simp: WriteOp i conn_inv_def)
  next
    case False
    with inv have step: "in_step (capture (conn t)) (forwarded t)" "accepted t = None" by (simp_all add: conn_inv_def)
    from False step(1) w show ?thesis
    proof (cases rule: Write_cases [case_names refused pinned passed])
      case (pinned h)
      then show ?thesis using w False in_step_add(1) [OF step(1), of p] by (simp add: WriteOp i conn_inv_def)
    qed (use w False step in \<open>simp_all add: WriteOp i conn_inv_def\<close>)
  qed
qed (simp add: conn_inv_def)

interpretation pins: op_system "conn_step sha" conn_inv
  by unfold_locales (rule conn_inv_step)

lemma binding_kept: "binding (conn (conn_step sha e t)) = binding (conn t)"
  by (cases e) (auto simp: Write_def Let_def split: prod.splits hello_result.splits if_splits option.splits)

lemma bindings_kept: "binding (conn (fold (conn_step sha) es t)) = binding (conn t)"
  by (induction es arbitrary: t) (simp_all add: binding_kept)

lemma acceptance_step:
  assumes inv: "conn_inv t" and new: "accepted (conn_step sha e t) = Some h" "accepted t \<noteq> Some h"
  obtains now p inner where "e = WriteOp now p inner" "fst (FixHello sha now (binding (conn t)) h (registry t)) = None"
proof (cases e)
  case (WriteOp now p inner)
  obtain n err where i: "inner = (n, err)" by force
  obtain r c b out where w: "Write sha now p (n, err) (conn t) (registry t) = (r, c, b, out)" by (metis prod_cases4)
  have nf: "\<not> fixed (conn t)" "fixed c" using new w by (auto simp: WriteOp i split: if_splits)
  with inv have step: "in_step (capture (conn t)) (forwarded t)" by (simp add: conn_inv_def)
  from nf(1) step w show thesis
  proof (cases rule: Write_cases [case_names refused pinned passed])
    case (pinned h')
    then have "h' = h" using new w nf in_step_add(1) [OF step, of p] by (simp add: WriteOp i)
    with pinned(2) have "fst (FixHello sha now (binding (conn t)) h (registry t)) = None" by (simp only: fst_conv)
    with WriteOp show thesis by (rule that)
  qed (use nf in simp_all)
qed (use new in simp)

lemma acceptance_history:
  assumes "accepted (fold (conn_step sha) es (conn_start k b)) = Some h"
  shows "\<exists>es1 now p inner es2. es = es1 @ WriteOp now p inner # es2
    \<and> fst (FixHello sha now k h (registry (fold (conn_step sha) es1 (conn_start k b)))) = None"
  using assms
proof (induction es rule: rev_induct)
  case Nil
  then show ?case by (simp add: conn_start_def)
next
  case (snoc e es)
  let ?t = "fold (conn_step sha) es (conn_start k b)"
  show ?case
  proof (cases "accepted ?t = Some h")
    case True
    from snoc.IH [OF this] show ?thesis by force
  next
    case False
    have "conn_inv ?t" by (rule pins.run_inv [OF conn_inv_start])
    moreover have "accepted (conn_step sha e ?t) = Some h" using snoc.prems by simp
    moreover have "binding (conn ?t) = k" by (simp add: bindings_kept conn_start_def FixHelloOnWrite_def)
    ultimately obtain now p inner where "e = WriteOp now p inner" "fst (FixHello sha now k h (registry ?t)) = None"
      using False by (metis acceptance_step)
    then show ?thesis by (intro exI [of _ es]) blast
  qed
qed

text \<open>
  C7: a connection that pins the ClientHello it forwards. Until the registry has accepted one,
  nothing forwarded completes a ClientHello; while no write was cut, the stream carries a complete
  ClientHello exactly when that very message was accepted; and what counts as accepted was
  pinned by a successful \<open>FixHello\<close> on this connection's binding before it was forwarded.
\<close>

theorem forwarded_hello_is_pinned:
  fixes sha k b es
  defines "t \<equiv> fold (conn_step sha) es (conn_start k b)"
  shows "(accepted t = None \<longrightarrow> helloOf (forwarded t) = More)
    \<and> (\<not> short t \<longrightarrow> (helloOf (forwarded t) = Complete h \<longleftrightarrow> accepted t = Some h))
    \<and> (accepted t = Some h \<longrightarrow> (\<exists>es1 now p inner es2. es = es1 @ WriteOp now p inner # es2
         \<and> fst (FixHello sha now k h (registry (fold (conn_step sha) es1 (conn_start k b)))) = None))"
proof (intro conjI)
  have "conn_inv t" unfolding t_def by (rule pins.run_inv [OF conn_inv_start])
  then show "accepted t = None \<longrightarrow> helloOf (forwarded t) = More"
    and "\<not> short t \<longrightarrow> (helloOf (forwarded t) = Complete h \<longleftrightarrow> accepted t = Some h)"
    by (auto simp: conn_inv_def in_step_def split: if_splits)
  show "accepted t = Some h \<longrightarrow> (\<exists>es1 now p inner es2. es = es1 @ WriteOp now p inner # es2
         \<and> fst (FixHello sha now k h (registry (fold (conn_step sha) es1 (conn_start k b)))) = None)"
    unfolding t_def using acceptance_history by blast
qed

text \<open>A ClientHello that arrives in two writes, the second of which completes and pins it.\<close>

definition demo_writes :: "conn_op list" where
  "demo_writes = [OtherOp (IssueOp 0 (Some (replicate 16 7)) ''lease'' []), WriteOp 1 [22, 3, 1, 0, 5, 1, 0, 0] (8, None), WriteOp 2 [1, 9] (2, None)]"

definition demo_conn :: conn_trace where
  "demo_conn = fold (conn_step (\<lambda>_. replicate 32 1)) demo_writes (conn_start (replicate 16 7) (NewBindingRegistry 10))"

theorem forwarded_hello_is_pinned_witness:
  "\<not> short demo_conn \<and> accepted demo_conn = Some [1, 0, 0, 1, 9] \<and> helloOf (forwarded demo_conn) = Complete [1, 0, 0, 1, 9]"
proof -
  have run: "\<not> short demo_conn \<and> accepted demo_conn = Some [1, 0, 0, 1, 9]"
    by (simp add: demo_conn_def demo_writes_def conn_start_def FixHelloOnWrite_def NewBindingRegistry_def Issue_def Write_def add_def add_loop.simps
      takeHeader_def takeBody_def tls_consts recordLen_def messageLen_def newAccumulator_def clientHelloType_def maxClientHelloSize_def FixHello_def zeroHash_def Let_def)
  with forwarded_hello_is_pinned [where sha = "\<lambda>_. replicate 32 1" and es = demo_writes and k = "replicate 16 7" and b = "NewBindingRegistry 10" and h = "[1, 0, 0, 1, 9]", folded demo_conn_def]
  show ?thesis by blast
qed

end
