(* ===== verification/Register_Challenge.thy ===== *)
theory Register_Challenge
  imports Lease_Record
begin

text \<open>
  Registration challenges, \<open>src/portal/identity/register_challenge.go\<close> and the verification half of
  \<open>siwe.go\<close>: the relay stores the exact message it asked the wallet to sign, and accepts the
  registration if the same message comes back with a signature of the registered address before
  it expires. Arguments: \<open>normalizeIdentity\<close> (identity.go), \<open>formatSIWE\<close> (the message text),
  \<open>recoverSigner\<close> (public-key recovery), random ids and nonces.
\<close>

datatype challenge_error =
    ErrDomainOrURIExceeds
  | ErrChallengeMetadata metadata_error
  | ErrChallengeIdentity string
  | ErrChallengeSIWE string
  | ErrChallengeNotFound
  | ErrChallengeExpired
  | ErrSIWEMessageMismatch
  | ErrInvalidSignature

datatype siwe_error = SIWEExpired | SIWERecover string | SIWESignerMismatch

record RegisterRequest =
  rq_ChallengeID :: string
  rq_SIWEMessage :: string
  rq_SIWESignature :: string
  rq_ReportedIP :: string

text \<open>\<open>formatSIWE\<close> is given domain, address, URI, nonce, request id, issue and expiry time.\<close>

type_synonym siwe_format = "string \<Rightarrow> string \<Rightarrow> string \<Rightarrow> string \<Rightarrow> string \<Rightarrow> go_time \<Rightarrow> go_time \<Rightarrow> string + string"

definition NewRegisterChallenge ::
  "(Identity \<Rightarrow> string + Identity) \<Rightarrow> siwe_format \<Rightarrow> string \<Rightarrow> string \<Rightarrow> RegisterChallengeRequest \<Rightarrow> string \<Rightarrow> string \<Rightarrow> go_time \<Rightarrow> duration
     \<Rightarrow> challenge_error + RegisterChallenge" where
  "NewRegisterChallenge normalizeIdentity formatSIWE challengeID nonce req domain uri now ttl =
     (if length domain > 1024 \<or> length uri > 4096 then Inl ErrDomainOrURIExceeds
      else case Validate_LeaseMetadata (req_Metadata req) of
          Inl e \<Rightarrow> Inl (ErrChallengeMetadata e)
        | Inr _ \<Rightarrow>
            (case normalizeIdentity (req_Identity req) of
               Inl e \<Rightarrow> Inl (ErrChallengeIdentity e)
             | Inr normalized \<Rightarrow>
                 let expires = now + ttl in
                 case formatSIWE domain (Address normalized) uri nonce challengeID now expires of
                   Inl e \<Rightarrow> Inl (ErrChallengeSIWE e)
                 | Inr message \<Rightarrow>
                     Inr \<lparr>ChallengeID = challengeID, ch_ExpiresAt = expires,
                          ch_Request = req\<lparr>req_Identity := normalized, req_Metadata := Copy_LeaseMetadata (req_Metadata req)\<rparr>,
                          SIWEMessage = message\<rparr>))"

definition Expired :: "RegisterChallenge option \<Rightarrow> go_time \<Rightarrow> bool" where
  "Expired c now = (case c of None \<Rightarrow> True | Some c \<Rightarrow> After now (ch_ExpiresAt c))"

text \<open>\<open>strings.EqualFold\<close> on ASCII text.\<close>

definition VerifySIWEMessage ::
  "(string \<Rightarrow> string \<Rightarrow> string + string) \<Rightarrow> string \<Rightarrow> string \<Rightarrow> string \<Rightarrow> go_time \<Rightarrow> go_time \<Rightarrow> siwe_error option" where
  "VerifySIWEMessage recoverSigner message signature address expiry now =
     (if After now (truncate_second expiry) then Some SIWEExpired
      else case recoverSigner message signature of
          Inl e \<Rightarrow> Some (SIWERecover e)
        | Inr signer \<Rightarrow> if ToLower signer \<noteq> ToLower address then Some SIWESignerMismatch else None)"

definition Verify_Challenge ::
  "(string \<Rightarrow> string \<Rightarrow> string + string) \<Rightarrow> RegisterRequest \<Rightarrow> go_time \<Rightarrow> RegisterChallenge option \<Rightarrow> challenge_error option" where
  "Verify_Challenge recoverSigner req now c =
     (case c of
        None \<Rightarrow> Some ErrChallengeNotFound
      | Some c \<Rightarrow>
          if rq_SIWEMessage req \<noteq> SIWEMessage c then Some ErrSIWEMessageMismatch
          else case VerifySIWEMessage recoverSigner (SIWEMessage c) (rq_SIWESignature req)
                      (Address (req_Identity (ch_Request c))) (ch_ExpiresAt c) now of
              Some e \<Rightarrow> Some ErrInvalidSignature
            | None \<Rightarrow> None)"

text \<open>A verified challenge was signed, unexpired and unchanged, by the address it was issued for.\<close>

lemma Verify_Challenge_None:
  "Verify_Challenge recoverSigner req now (Some c) = None \<longleftrightarrow>
     rq_SIWEMessage req = SIWEMessage c \<and> now \<le> truncate_second (ch_ExpiresAt c)
     \<and> (\<exists>signer. recoverSigner (SIWEMessage c) (rq_SIWESignature req) = Inr signer
          \<and> ToLower signer = ToLower (Address (req_Identity (ch_Request c))))"
  by (auto simp: Verify_Challenge_def VerifySIWEMessage_def split: sum.splits)

end
