(* ===== verification/Lease_Token.thy ===== *)
theory Lease_Token
  imports Service_Types
begin

text \<open>
  Lease credentials, \<open>src/portal/identity/lease_token.go\<close>: access tokens that manage a lease and
  reverse capabilities that only open reverse streams. They are the same signed structure with
  a different audience. The JOSE library is an argument: \<open>serialize\<close> signs claims with the relay's
  authority, \<open>openSigned\<close> parses a token and checks its signature against a public key, and
  \<open>validate\<close> is \<open>ValidateWithLeeway\<close> with leeway 0. Claims hold times as \<open>NumericDate\<close>s, whole seconds.

  Shown: an issued access token verifies to the identity and lease it was issued for while it
  is valid, and a reverse capability is never accepted as an access token nor the other way
  round.
\<close>

record TokenClaims =
  tc_Issuer :: string
  tc_Subject :: string
  tc_Audience :: "string list"
  tc_ID :: string
  tc_IssuedAt :: go_time
  tc_NotBefore :: go_time
  tc_Expiry :: go_time
  tc_Identity :: Identity
  tc_LeaseID :: string

datatype token_error =
    ErrAuthorityRequired
  | ErrLeaseIDRequired
  | ErrExpiryNotInFuture
  | ErrSigning string
  | ErrParse string
  | ErrClaims

definition leaseAccessTokenAudience :: string where "leaseAccessTokenAudience = ''portal-sdk''"
definition reverseCapabilityAudience :: string where "reverseCapabilityAudience = ''portal-reverse''"

type_synonym token_signer = "TokenClaims \<Rightarrow> string + string"
type_synonym token_opener = "string \<Rightarrow> string \<Rightarrow> string + TokenClaims"
type_synonym token_validator = "TokenClaims \<Rightarrow> string \<Rightarrow> string \<Rightarrow> go_time \<Rightarrow> bool"

text \<open>A missing authority is \<open>None\<close>; \<open>tokenID\<close> is the random token id.\<close>

definition issueIdentityToken ::
  "token_signer option \<Rightarrow> string \<Rightarrow> string \<Rightarrow> Identity \<Rightarrow> string \<Rightarrow> string \<Rightarrow> go_time \<Rightarrow> go_time \<Rightarrow> token_error + string \<times> TokenClaims" where
  "issueIdentityToken authority tokenID issuer leaseIdentity audience leaseID expiresAt now =
     (case authority of
        None \<Rightarrow> Inl ErrAuthorityRequired
      | Some serialize \<Rightarrow>
          let leaseID = TrimSpace leaseID in
          if leaseID = '''' then Inl ErrLeaseIDRequired
          else if \<not> After expiresAt now then Inl ErrExpiryNotInFuture
          else
            let claims = \<lparr>tc_Issuer = TrimSpace issuer, tc_Subject = Key leaseIdentity, tc_Audience = [audience],
                  tc_ID = tokenID, tc_IssuedAt = truncate_second now, tc_NotBefore = truncate_second now,
                  tc_Expiry = truncate_second expiresAt, tc_Identity = leaseIdentity, tc_LeaseID = leaseID\<rparr>
            in case serialize claims of Inl e \<Rightarrow> Inl (ErrSigning e) | Inr token \<Rightarrow> Inr (token, claims))"

text \<open>The two readings of the clock: \<open>now1\<close> for the expiry, \<open>now2\<close> inside \<open>issueIdentityToken\<close>.\<close>

definition IssueLeaseAccessToken ::
  "token_signer option \<Rightarrow> string \<Rightarrow> string \<Rightarrow> Identity \<Rightarrow> string \<Rightarrow> duration \<Rightarrow> go_time \<Rightarrow> go_time \<Rightarrow> token_error + string \<times> TokenClaims" where
  "IssueLeaseAccessToken authority tokenID issuer leaseIdentity leaseID ttl now1 now2 =
     issueIdentityToken authority tokenID issuer leaseIdentity leaseAccessTokenAudience leaseID (now1 + ttl) now2"

definition IssueReverseCapability ::
  "token_signer option \<Rightarrow> string \<Rightarrow> string \<Rightarrow> Identity \<Rightarrow> string \<Rightarrow> go_time \<Rightarrow> go_time \<Rightarrow> token_error + string \<times> TokenClaims" where
  "IssueReverseCapability authority tokenID issuer leaseIdentity leaseID expiresAt now =
     issueIdentityToken authority tokenID issuer leaseIdentity reverseCapabilityAudience leaseID expiresAt now"

definition verifyIdentityToken ::
  "token_opener \<Rightarrow> token_validator \<Rightarrow> string \<Rightarrow> string \<Rightarrow> string \<Rightarrow> string \<Rightarrow> go_time \<Rightarrow> token_error + TokenClaims" where
  "verifyIdentityToken openSigned validate token publicKeyHex issuer audience now =
     (case openSigned (TrimSpace token) publicKeyHex of
        Inl e \<Rightarrow> Inl (ErrParse e)
      | Inr claims \<Rightarrow>
          let claims = claims\<lparr>tc_LeaseID := TrimSpace (tc_LeaseID claims)\<rparr> in
          if tc_LeaseID claims = '''' then Inl ErrLeaseIDRequired
          else if \<not> validate claims (TrimSpace issuer) audience now then Inl ErrClaims
          else Inr claims)"

definition VerifyLeaseAccessToken ::
  "token_opener \<Rightarrow> token_validator \<Rightarrow> string \<Rightarrow> string \<Rightarrow> string \<Rightarrow> go_time \<Rightarrow> token_error + TokenClaims" where
  "VerifyLeaseAccessToken openSigned validate token publicKeyHex issuer now =
     verifyIdentityToken openSigned validate token publicKeyHex issuer leaseAccessTokenAudience now"

definition VerifyReverseCapability ::
  "token_opener \<Rightarrow> token_validator \<Rightarrow> string \<Rightarrow> string \<Rightarrow> string \<Rightarrow> go_time \<Rightarrow> token_error + TokenClaims" where
  "VerifyReverseCapability openSigned validate token publicKeyHex issuer now =
     verifyIdentityToken openSigned validate token publicKeyHex issuer reverseCapabilityAudience now"

section \<open>What the code relies on of the JOSE library\<close>

text \<open>
  A signer and an opener that belong together: a serialised token has no surrounding white
  space and opens, under the public key of its signer, to the claims that were signed.
\<close>

definition token_keypair :: "token_signer \<Rightarrow> token_opener \<Rightarrow> string \<Rightarrow> bool" where
  "token_keypair serialize openSigned publicKey \<longleftrightarrow>
     (\<forall>c t. serialize c = Inr t \<longrightarrow> TrimSpace t = t \<and> openSigned t publicKey = Inr c)"

text \<open>
  Claim validation accepts the expected issuer and audience from the not-before second until
  the expiry second, and never another audience.
\<close>

definition jwt_validation :: "token_validator \<Rightarrow> bool" where
  "jwt_validation validate \<longleftrightarrow>
     (\<forall>c issuer audience now. validate c issuer audience now \<longleftrightarrow>
        tc_Issuer c = issuer \<and> audience \<in> set (tc_Audience c)
        \<and> tc_NotBefore c \<le> now \<and> tc_IssuedAt c \<le> now \<and> now \<le> tc_Expiry c)"

section \<open>Properties\<close>

lemma issueIdentityToken_claims:
  assumes "issueIdentityToken (Some serialize) tokID issuer ident audience leaseID expires now = Inr (token, claims)"
  shows "serialize claims = Inr token" "tc_Audience claims = [audience]" "tc_Issuer claims = TrimSpace issuer"
    "tc_Identity claims = ident" "tc_LeaseID claims = TrimSpace leaseID" "TrimSpace leaseID \<noteq> ''''"
    "tc_IssuedAt claims = truncate_second now" "tc_NotBefore claims = truncate_second now"
    "tc_Expiry claims = truncate_second expires" "now < expires"
  using assms by (auto simp: issueIdentityToken_def Let_def split: if_splits sum.splits)

lemma verify_issued:
  assumes "token_keypair serialize openSigned key" and "jwt_validation validate"
    and "issueIdentityToken (Some serialize) tokID issuer ident audience leaseID expires now = Inr (token, claims)"
  shows "verifyIdentityToken openSigned validate token key issuer audience' t =
     (if audience' = audience \<and> truncate_second now \<le> t \<and> t \<le> truncate_second expires then Inr claims else Inl ErrClaims)"
proof -
  note c = issueIdentityToken_claims [OF assms(3)]
  have "TrimSpace token = token" "openSigned token key = Inr claims"
    using assms(1) c(1) by (auto simp: token_keypair_def)
  moreover have "claims\<lparr>tc_LeaseID := TrimSpace (tc_LeaseID claims)\<rparr> = claims" using c(5) by simp
  ultimately show ?thesis using assms(2) c
    by (auto simp: verifyIdentityToken_def jwt_validation_def Let_def)
qed


text \<open>A keypair for the witness: tokens are numbers of a table that the opener knows.\<close>

definition demo_identity :: Identity where
  "demo_identity = \<lparr>Name = ''app'', Address = ''0xabc'', PublicKey = '''', PrivateKey = '''', Mnemonic = '''',
     DerivationPath = '''', TokenSecret = ''''\<rparr>"

definition demo_claims :: "string \<Rightarrow> TokenClaims" where
  "demo_claims audience = \<lparr>tc_Issuer = ''iss'', tc_Subject = Key demo_identity, tc_Audience = [audience], tc_ID = ''t'',
     tc_IssuedAt = 0, tc_NotBefore = 0, tc_Expiry = 120 * second, tc_Identity = demo_identity, tc_LeaseID = ''lease_1''\<rparr>"

definition demo_sign :: token_signer where
  "demo_sign c = (if c = demo_claims leaseAccessTokenAudience then Inr ''A''
     else if c = demo_claims reverseCapabilityAudience then Inr ''R'' else Inl ''refused'')"

definition demo_open :: token_opener where
  "demo_open t k = (if t = ''A'' then Inr (demo_claims leaseAccessTokenAudience)
     else if t = ''R'' then Inr (demo_claims reverseCapabilityAudience) else Inl ''bad'')"

definition demo_validate :: token_validator where
  "demo_validate c issuer audience now \<longleftrightarrow> tc_Issuer c = issuer \<and> audience \<in> set (tc_Audience c)
        \<and> tc_NotBefore c \<le> now \<and> tc_IssuedAt c \<le> now \<and> now \<le> tc_Expiry c"


end
