(* ===== verification/Lease_Registry.thy ===== *)
theory Lease_Registry
  imports Register_Challenge Lease_Token Hostnames Bandwidth
begin

text \<open>
  The lease registry of the relay, \<open>src/portal/lease.go\<close>: admission of registrations, renewal,
  removal, expiry, the access decisions pushed by the relay policy, bridges of public
  connections and pending challenges.

  The registry is the record \<open>leaseRegistry\<close>; a lease or a pending challenge is a \<open>leaseRecord\<close> value
  whose \<open>ref\<close> is its address. Every definition is one critical section of \<open>r.mu\<close>, or a Go function
  composed of such sections. Two lists make visible what goroutines hold outside the lock:
  \<open>registering\<close> (records of \<open>Register\<close> calls that own ports and are not admitted yet) and
  \<open>shutting\<close> (records taken out of the registry whose sockets are being closed).
  A missing cache or overlay is \<open>None\<close>, as Go's nil pointers are.

  The record \<open>relay_env\<close> collects what is answered by code outside the modelled sources: IDNA and
  IP parsing, SHA-256, the JOSE library, certificate verification, wallet signatures.
\<close>

section \<open>State\<close>

record relay_env =
  toASCII :: "string \<Rightarrow> string option"
  loopbackIP :: "string \<Rightarrow> bool"
  nameHash :: "string \<Rightarrow> string"
  signer :: "token_signer option"
  openSigned :: token_opener
  validateClaims :: token_validator
  trustedBy :: "string \<Rightarrow> string \<Rightarrow> string \<Rightarrow> bool"
  sanitizeReportedIP :: "string \<Rightarrow> string"
  normalizeIdentity :: "Identity \<Rightarrow> string + Identity"
  formatSIWE :: siwe_format
  recoverSigner :: "string \<Rightarrow> string \<Rightarrow> string + string"

datatype api_error =
    errFeatureUnavailable
  | errHostnameConflict
  | errLeaseNotFound
  | errLeaseTTLExceeded
  | errLeaseRejected
  | errLeaseDenied
  | errTransportMismatch
  | errUnauthorized
  | errUDPDisabled
  | errUDPCapacityExceeded
  | errUDPPortExhausted
  | errTCPPortDisabled
  | errTCPPortCapacityExceeded
  | errTCPPortExhausted
  | errRegisterChallengePending
  | errUnapprovedLeaseLimit
  | errNetClosed
  | ErrMetadata metadata_error
  | ErrHostname hostname_error
  | ErrToken token_error
  | ErrRecord record_error
  | ErrChallenge challenge_error

record blockedIdentity =
  pushedAt :: go_time
  refusal :: api_error

record OverlayLeases =
  assignments :: "(string, string) gomap"
  failures :: "(string, (string, go_time) gomap) gomap"

record leaseRegistry =
  records :: "leaseRecord list"
  rootHostname :: string
  tokenPublicKey :: string
  tokenIssuer :: string
  reverseURL :: string
  rg_overlay :: "OverlayLeases option"
  rg_cache :: "CacheManager option"
  bps :: BPSManager
  udpPorts :: portPool
  tcpPorts :: portPool
  blocked :: "(ServiceIdentityKey, blockedIdentity) gomap"
  accessRevision :: "64 word"
  udpEnabled :: bool
  tcpPortEnabled :: bool
  udpMaxLeases :: int
  tcpMaxLeases :: int
  unapprovedPerSource :: int
  nextRef :: nat
  registering :: "leaseRecord list"
  shutting :: "leaseRecord list"

definition defaultLeaseTTL :: duration where "defaultLeaseTTL = 2 * minute"
definition maxLeaseTTL :: duration where "maxLeaseTTL = 10 * minute"
definition defaultRegisterChallengeTTL :: duration where "defaultRegisterChallengeTTL = 2 * minute"
definition defaultRegisterChallengeOutstandingPerIP :: nat where "defaultRegisterChallengeOutstandingPerIP = 32"
definition defaultRegisterChallengeOutstanding :: nat where "defaultRegisterChallengeOutstanding = 256"
definition defaultPortReservationGrace :: duration where "defaultPortReservationGrace = 5 * minute"
definition defaultIdleKeepalive :: duration where "defaultIdleKeepalive = 15 * second"
definition defaultReadyQueueLimit :: int where "defaultReadyQueueLimit = 8"
definition defaultLeaseBridgeLimit :: nat where "defaultLeaseBridgeLimit = 128"

definition requestedLeaseTTL :: "int \<Rightarrow> api_error + duration" where
  "requestedLeaseTTL seconds =
     (if seconds \<le> 0 then Inr defaultLeaseTTL
      else if seconds > maxLeaseTTL div second then Inl errLeaseTTLExceeded
      else Inr (seconds * second))"

text \<open>
  \<open>newLeaseRegistry\<close> for an authority with a public key and an absolute issuer URL; \<open>reverse_url\<close> is
  the resolved connect path.
\<close>

definition newLeaseRegistry :: "int \<Rightarrow> int \<Rightarrow> string \<Rightarrow> string \<Rightarrow> string \<Rightarrow> string \<Rightarrow> leaseRegistry" where
  "newLeaseRegistry minPort maxPort root publicKey issuer reverse_url =
     \<lparr>records = [], rootHostname = NormalizeHostname root, tokenPublicKey = publicKey, tokenIssuer = issuer,
      reverseURL = reverse_url, rg_overlay = None, rg_cache = None, bps = NewBPSManager,
      udpPorts = newPortPool minPort maxPort defaultPortReservationGrace,
      tcpPorts = newPortPool minPort maxPort defaultPortReservationGrace,
      blocked = [], accessRevision = 0, udpEnabled = False, tcpPortEnabled = False,
      udpMaxLeases = 0, tcpMaxLeases = 0, unapprovedPerSource = 0, nextRef = 0, registering = [], shutting = []\<rparr>"

section \<open>Records of the registry\<close>

text \<open>A Go method call on the object at address \<open>x\<close>.\<close>

definition updRecord :: "nat \<Rightarrow> (leaseRecord \<Rightarrow> leaseRecord) \<Rightarrow> leaseRegistry \<Rightarrow> leaseRegistry" where
  "updRecord x f r = r\<lparr>records := map (\<lambda>rec. if ref rec = x then f rec else rec) (records r)\<rparr>"

definition recordByKey :: "ServiceIdentityKey \<Rightarrow> go_time \<Rightarrow> leaseRegistry \<Rightarrow> leaseRecord option" where
  "recordByKey key now r = find (\<lambda>rec. isLease rec \<and> \<not> isExpired now rec \<and> recKey rec = key) (records r)"

definition recordByLease :: "ServiceIdentityKey \<Rightarrow> string \<Rightarrow> go_time \<Rightarrow> leaseRegistry \<Rightarrow> leaseRecord option" where
  "recordByLease key leaseID now r =
     (case recordByKey key now r of
        None \<Rightarrow> None
      | Some rec \<Rightarrow> if lr_id rec \<noteq> leaseID then None else Some rec)"

definition recordForVerifiedLease ::
  "ServiceIdentityKey \<Rightarrow> string \<Rightarrow> go_time \<Rightarrow> leaseRegistry \<Rightarrow> api_error + leaseRecord" where
  "recordForVerifiedLease key leaseID now r =
     (case recordByKey key now r of
        None \<Rightarrow> Inl errLeaseNotFound
      | Some rec \<Rightarrow> if lr_id rec \<noteq> leaseID then Inl errUnauthorized else Inr rec)"

definition ForgetLease :: "string \<Rightarrow> leaseRegistry \<Rightarrow> leaseRegistry" where
  "ForgetLease leaseID r =
     (if leaseID = '''' then r
      else r\<lparr>rg_overlay := map_option (\<lambda>ov. ov\<lparr>assignments := del leaseID (assignments ov),
                                              failures := del leaseID (failures ov)\<rparr>) (rg_overlay r)\<rparr>)"

definition swap_delete :: "nat \<Rightarrow> 'a list \<Rightarrow> 'a list" where
  "swap_delete i xs = butlast (xs[i := last xs])"

definition deleteRecord :: "go_time \<Rightarrow> nat \<Rightarrow> leaseRegistry \<Rightarrow> leaseRegistry" where
  "deleteRecord now i r =
     (let rec = records r ! i;
          r = r\<lparr>rg_cache := map_option (Detach_Cache (cacheLease rec) now) (rg_cache r)\<rparr>;
          r = ForgetLease (lr_id rec) r
      in r\<lparr>records := swap_delete i (records r)\<rparr>)"

definition resetLimiter :: "ServiceIdentityKey \<Rightarrow> leaseRegistry \<Rightarrow> leaseRegistry" where
  "resetLimiter key r = r\<lparr>bps := ResetIdentityLimiter key (bps r)\<rparr>"

text \<open>
  The loops \<open>for i := 0; i < len(r.records); \<dots>\<close> that delete while they scan: a deletion moves the
  last record to position \<open>i\<close>, which is then looked at next. \<open>reset\<close> says which deleted records
  also lose their bandwidth bucket. The result lists the deleted records.
\<close>

function sweep ::
  "(leaseRecord \<Rightarrow> bool) \<Rightarrow> (leaseRecord \<Rightarrow> bool) \<Rightarrow> go_time \<Rightarrow> nat \<Rightarrow> leaseRegistry \<Rightarrow> leaseRecord list \<times> leaseRegistry" where
  "sweep P reset now i r =
     (if i < length (records r) then
        if P (records r ! i) then
          let rec = records r ! i;
              r = (if reset rec then resetLimiter (recKey rec) r else r);
              (gone, r) = sweep P reset now i (deleteRecord now i r)
          in (rec # gone, r)
        else sweep P reset now (i + 1) r
      else ([], r))"
  by pat_completeness auto
termination
  by (relation "measure (\<lambda>(P, reset, now, i, r). length (records r) - i)")
    (auto simp: deleteRecord_def ForgetLease_def swap_delete_def resetLimiter_def Let_def)

declare sweep.simps [simp del]

section \<open>Policy values and access decisions\<close>

definition setUDPPolicy :: "bool \<Rightarrow> int \<Rightarrow> leaseRegistry \<Rightarrow> leaseRegistry" where
  "setUDPPolicy on maxLeases r = r\<lparr>udpEnabled := on, udpMaxLeases := maxLeases\<rparr>"

definition setTCPPortPolicy :: "bool \<Rightarrow> int \<Rightarrow> leaseRegistry \<Rightarrow> leaseRegistry" where
  "setTCPPortPolicy on maxLeases r = r\<lparr>tcpPortEnabled := on, tcpMaxLeases := maxLeases\<rparr>"

definition isRoutableLocked :: "ServiceIdentityKey \<Rightarrow> leaseRegistry \<Rightarrow> bool" where
  "isRoutableLocked key r \<longleftrightarrow> \<not> has_key (blocked r) key"

definition isRoutable :: "ServiceIdentityKey \<Rightarrow> leaseRegistry option \<Rightarrow> bool" where
  "isRoutable key r =
     (case r of None \<Rightarrow> True | Some r \<Rightarrow> if \<not> Valid key then True else isRoutableLocked key r)"

text \<open>What a decision does to one record of the identity.\<close>

definition applyToRecord :: "bool \<Rightarrow> leaseRecord \<Rightarrow> leaseRecord" where
  "applyToRecord routable rec =
     (let rec = rec\<lparr>datagram := map_option (SetEnabled routable) (datagram rec)\<rparr>
      in if routable then rec else revokeBridgesLocked rec)"

definition applyIdentityAccessLocked ::
  "ServiceIdentityKey \<Rightarrow> LeaseAccess \<Rightarrow> go_time \<Rightarrow> leaseRegistry \<Rightarrow> leaseRegistry" where
  "applyIdentityAccessLocked key access now r =
     (let routable = (access = LeaseRoutable);
          r = r\<lparr>blocked := (case access of
                  LeaseRoutable \<Rightarrow> del key (blocked r)
                | LeaseDenied \<Rightarrow> put key \<lparr>pushedAt = now, refusal = errLeaseDenied\<rparr> (blocked r)
                | _ \<Rightarrow> put key \<lparr>pushedAt = now, refusal = errLeaseRejected\<rparr> (blocked r))\<rparr>;
          r = r\<lparr>records := map (\<lambda>rec. if recKey rec = key then applyToRecord routable rec else rec) (records r)\<rparr>
      in if routable then r else r\<lparr>rg_cache := map_option (DetachOwner key) (rg_cache r)\<rparr>)"

text \<open>
  The reverse pools of the identity are paused or resumed; the connections of \<open>closeIdle\<close> are closed
  after the lock is released. The flag is false for a revision older than the newest one seen.
\<close>

definition pauseOrResume :: "LeaseAccess \<Rightarrow> leaseRecord \<Rightarrow> nat list \<times> leaseRecord" where
  "pauseOrResume access rec =
     (case reverse rec of
        None \<Rightarrow> ([], rec)
      | Some p \<Rightarrow>
          if access = LeaseRoutable then ([], rec\<lparr>reverse := Some (Resume p)\<rparr>)
          else (case Pause p of (conns, p') \<Rightarrow> (conns, rec\<lparr>reverse := Some p'\<rparr>)))"

definition setIdentityAccess ::
  "ServiceIdentityKey \<Rightarrow> LeaseAccess \<Rightarrow> 64 word \<Rightarrow> go_time \<Rightarrow> leaseRegistry \<Rightarrow> bool \<times> nat list \<times> leaseRegistry" where
  "setIdentityAccess key access revision now r =
     (if \<not> Valid key then (True, [], r)
      else if revision < accessRevision r then (False, [], r)
      else
        let r = applyIdentityAccessLocked key access now (r\<lparr>accessRevision := revision\<rparr>);
            closeIdle = concat (map (\<lambda>rec. if recKey rec = key then fst (pauseOrResume access rec) else []) (records r))
        in (True, closeIdle,
            r\<lparr>records := map (\<lambda>rec. if recKey rec = key then snd (pauseOrResume access rec) else rec) (records r)\<rparr>))"

definition suspendIdentity :: "ServiceIdentityKey \<Rightarrow> go_time \<Rightarrow> leaseRegistry \<Rightarrow> leaseRegistry" where
  "suspendIdentity key now r = applyIdentityAccessLocked key LeasePending now r"

section \<open>Bridges\<close>

text \<open>
  \<open>rec\<close> is the record the caller holds; it is compared by address with the current one. \<open>ctxErr\<close> is
  the state of the caller's context, \<open>fresh\<close> the address of the new bridge.
\<close>

definition admitBridge ::
  "nat \<Rightarrow> bool \<Rightarrow> leaseRecord option \<Rightarrow> nat \<Rightarrow> go_time \<Rightarrow> leaseRegistry \<Rightarrow> (api_error + leaseBridge) \<times> leaseRegistry" where
  "admitBridge fresh ctxErr held inbound now r =
     (case held of
        None \<Rightarrow> (Inl errLeaseNotFound, r)
      | Some h \<Rightarrow>
          (case recordByLease (recKey h) (lr_id h) now r of
             None \<Rightarrow> (Inl errLeaseNotFound, r)
           | Some rec \<Rightarrow>
               if ref rec \<noteq> ref h then (Inl errLeaseNotFound, r)
               else if \<not> isRoutableLocked (recKey rec) r then (Inl errLeaseRejected, r)
               else if lr_closed rec \<or> ctxErr then (Inl errNetClosed, r)
               else if length (bridges rec) \<ge> defaultLeaseBridgeLimit then (Inl errLeaseRejected, r)
               else
                 let bridge = \<lparr>br_ref = fresh, canceled = False, br_inbound = inbound, br_reverse = None\<rparr>
                 in (Inr bridge, updRecord (ref rec) (\<lambda>rec. rec\<lparr>bridges := bridge # bridges rec\<rparr>) r)))"

definition activateBridge ::
  "leaseRecord \<Rightarrow> nat \<Rightarrow> nat \<Rightarrow> go_time \<Rightarrow> leaseRegistry \<Rightarrow> api_error option \<times> leaseRegistry" where
  "activateBridge held bridge conn now r =
     (case recordByLease (recKey held) (lr_id held) now r of
        None \<Rightarrow> (Some errLeaseNotFound, r)
      | Some rec \<Rightarrow>
          if ref rec \<noteq> ref held then (Some errLeaseNotFound, r)
          else if \<not> isRoutableLocked (recKey rec) r then (Some errLeaseRejected, r)
          else
            (case find (\<lambda>b. br_ref b = bridge) (bridges rec) of
               None \<Rightarrow> (Some errNetClosed, r)
             | Some b \<Rightarrow>
                 if lr_closed rec \<or> canceled b then (Some errNetClosed, r)
                 else (None, updRecord (ref rec)
                   (\<lambda>rec. rec\<lparr>bridges := map (\<lambda>b. if br_ref b = bridge then b\<lparr>br_reverse := Some conn\<rparr> else b) (bridges rec)\<rparr>) r)))"

section \<open>Lookup\<close>

definition Lookup :: "string \<Rightarrow> go_time \<Rightarrow> leaseRegistry \<Rightarrow> leaseRecord option" where
  "Lookup host now r =
     (let host = NormalizeHostname host in
      if host = '''' then None
      else case find (\<lambda>rec. isPublicEntry rec \<and> \<not> isExpired now rec \<and> host \<in> set (hostnames rec)) (records r) of
          Some rec \<Rightarrow> Some rec
        | None \<Rightarrow>
            find (\<lambda>rec. isPublicEntry rec \<and> \<not> isExpired now rec
                    \<and> (\<exists>hostname \<in> set (hostnames rec). hostname \<noteq> host \<and> HostnameMatchesPattern hostname host)) (records r))"

section \<open>Closing\<close>

text \<open>
  \<open>closeRecord\<close> and \<open>rollbackRecord\<close> close the sockets first and give the ports back afterwards, under
  the lock. The two clock readings belong to \<open>release\<close>.
\<close>

definition releasePorts :: "leaseRecord \<Rightarrow> go_time \<Rightarrow> go_time \<Rightarrow> leaseRegistry \<Rightarrow> leaseRegistry" where
  "releasePorts rec now1 now2 r =
     (let r = (case datagram rec of
                 None \<Rightarrow> r
               | Some d \<Rightarrow> r\<lparr>udpPorts := release (rd_port d) (ref rec) (recKey rec) now1 now2 (udpPorts r)\<rparr>)
      in if tcpPort rec > 0
         then r\<lparr>tcpPorts := release (tcpPort rec) (ref rec) (recKey rec) now1 now2 (tcpPorts r)\<rparr> else r)"

definition rollbackPorts :: "leaseRecord \<Rightarrow> go_time \<Rightarrow> leaseRegistry \<Rightarrow> leaseRegistry" where
  "rollbackPorts rec now r =
     (let r = (case datagram rec of
                 None \<Rightarrow> r
               | Some d \<Rightarrow> r\<lparr>udpPorts := rollback (rd_port d) (ref rec) (recKey rec) now (udpPorts r)\<rparr>)
      in if tcpPort rec > 0
         then r\<lparr>tcpPorts := rollback (tcpPort rec) (ref rec) (recKey rec) now (tcpPorts r)\<rparr> else r)"

text \<open>The record handed over leaves \<open>shutting\<close> when its ports are given back.\<close>

definition dropShutting :: "leaseRecord \<Rightarrow> leaseRegistry \<Rightarrow> leaseRegistry" where
  "dropShutting rec r = r\<lparr>shutting := filter (\<lambda>x. ref x \<noteq> ref rec) (shutting r)\<rparr>"

definition closeRecord :: "leaseRecord \<Rightarrow> go_time \<Rightarrow> go_time \<Rightarrow> leaseRegistry \<Rightarrow> leaseRegistry" where
  "closeRecord rec now1 now2 r = dropShutting rec (releasePorts (Close_leaseRecord rec) now1 now2 r)"

definition rollbackRecord :: "leaseRecord \<Rightarrow> go_time \<Rightarrow> leaseRegistry \<Rightarrow> leaseRegistry" where
  "rollbackRecord rec now r = dropShutting rec (rollbackPorts (Close_leaseRecord rec) now r)"

text \<open>The locked part of \<open>CloseAll\<close>; the records it returns are closed afterwards.\<close>

definition CloseAllLocked :: "leaseRegistry \<Rightarrow> leaseRecord list \<times> leaseRegistry" where
  "CloseAllLocked r =
     (let out = records r;
          r = fold (\<lambda>rec r. ForgetLease (lr_id rec) (if isLease rec then resetLimiter (recKey rec) r else r)) out r
      in (out, r\<lparr>records := [], shutting := shutting r @ out\<rparr>))"

section \<open>Registration\<close>

text \<open>
  The part of \<open>Register\<close> before the first lock: validation, host names, the access token and the
  new record. \<open>x\<close> is the address of the record, \<open>served\<close> the chain (PEM) of the certificate served
  now; \<open>leaseID\<close> and \<open>tokenID\<close> are the random ids, \<open>now1\<close> and \<open>now2\<close> the clock readings of the token.
\<close>

definition registerPrepare ::
  "relay_env \<Rightarrow> nat \<Rightarrow> RegisterChallengeRequest \<Rightarrow> netip_addr \<Rightarrow> string \<Rightarrow> string option \<Rightarrow> string \<Rightarrow> string \<Rightarrow> go_time \<Rightarrow> go_time
     \<Rightarrow> leaseRegistry \<Rightarrow> api_error + leaseRecord \<times> string" where
  "registerPrepare env x req source reportedIP served leaseID tokenID now1 now2 r =
     (case Validate_LeaseMetadata (req_Metadata req) of
        Inl e \<Rightarrow> Inl (ErrMetadata e)
      | Inr _ \<Rightarrow>
        let leaseIdentity = req_Identity req in
        case requestedLeaseTTL (req_TTL req) of
          Inl e \<Rightarrow> Inl e
        | Inr ttl \<Rightarrow>
          (case (if Name leaseIdentity \<noteq> ''''
                 then LeaseHostname (toASCII env) (loopbackIP env) (Name leaseIdentity) (rootHostname r)
                 else Inr '''') of
             Inl e \<Rightarrow> Inl (ErrHostname e)
           | Inr publicHostname \<Rightarrow>
             (case CanonicalLeaseHostname (toASCII env) (loopbackIP env) (nameHash env)
                     (Name leaseIdentity) (Address leaseIdentity) (rootHostname r) of
                Inl e \<Rightarrow> Inl (ErrHostname e)
              | Inr canonicalHostname \<Rightarrow>
                if UDPEnabled req \<and> \<not> udpEnabled r then Inl errUDPDisabled
                else if TCPEnabled req \<and> \<not> tcpPortEnabled r then Inl errTCPPortDisabled
                else
                  (case IssueLeaseAccessToken (signer env) tokenID (tokenIssuer r) leaseIdentity leaseID ttl now1 now2 of
                     Inl e \<Rightarrow> Inl (ErrToken e)
                   | Inr (accessToken, claims) \<Rightarrow>
                     Inr (\<lparr>ref = x, lr_Identity = leaseIdentity, lr_id = leaseID,
                           ExpiresAt = tc_Expiry claims, FirstSeenAt = tc_IssuedAt claims, LastSeenAt = tc_IssuedAt claims,
                           sourceAddr = source, registerSource = source,
                           ReportedIP = sanitizeReportedIP env reportedIP,
                           Hostname = publicHostname, CanonicalHostname = canonicalHostname,
                           Metadata = Copy_LeaseMetadata (req_Metadata req), Overlay = req_Overlay req,
                           pinnedChain = served, verifiedChain = None, registerChallenge = None,
                           datagram = None, tcpPort = 0, tcpListener = None,
                           reverse = Some (NewReversePool defaultIdleKeepalive defaultReadyQueueLimit),
                           lr_closed = False, reverseMux = None, bridges = []\<rparr>, accessToken)))))"

text \<open>The first locked part: ports. On an error the record is rolled back by the caller.\<close>

definition registerPorts ::
  "RegisterChallengeRequest \<Rightarrow> go_time \<Rightarrow> leaseRecord \<Rightarrow> leaseRegistry \<Rightarrow> api_error option \<times> leaseRecord \<times> leaseRegistry" where
  "registerPorts req now rec r =
     (let key = recKey rec;
          (err, rec, r) =
            (if UDPEnabled req then
               (case allocate (ref rec) key now (udpPorts r) of
                  (Inl e, pl) \<Rightarrow> (Some errUDPPortExhausted, rec, r\<lparr>udpPorts := pl\<rparr>)
                | (Inr p, pl) \<Rightarrow> (None, rec\<lparr>datagram := Some (NewRelayDatagram key p)\<rparr>, r\<lparr>udpPorts := pl\<rparr>))
             else (None, rec, r))
      in case err of
           Some e \<Rightarrow> (Some e, rec, r)
         | None \<Rightarrow>
             if TCPEnabled req then
               (case allocate (ref rec) key now (tcpPorts r) of
                  (Inl e, pl) \<Rightarrow> (Some errTCPPortExhausted, rec, r\<lparr>tcpPorts := pl\<rparr>)
                | (Inr p, pl) \<Rightarrow> (None, rec\<lparr>tcpPort := p\<rparr>, r\<lparr>tcpPorts := pl\<rparr>))
             else (None, rec, r))"

text \<open>
  The scan under the second lock: the first lease of the same identity is replaced, the UDP and
  TCP leases of others are counted, and the host names are checked against every live public
  entry of another identity. A taken friendly name is an error or, on request, given up.
\<close>

record scan_state =
  sc_replaced :: "nat option"
  sc_udp :: nat
  sc_tcp :: nat
  sc_hostname :: string

fun registerScan ::
  "go_time \<Rightarrow> ServiceIdentityKey \<Rightarrow> string \<Rightarrow> bool \<Rightarrow> nat \<Rightarrow> scan_state \<Rightarrow> leaseRecord list \<Rightarrow> api_error + scan_state" where
  "registerScan now key canonical fallback i st [] = Inr st"
| "registerScan now key canonical fallback i st (e # es) =
     (let st = (if sc_replaced st = None \<and> isLease e \<and> recKey e = key then st\<lparr>sc_replaced := Some i\<rparr> else st) in
      if isExpired now e then registerScan now key canonical fallback (i + 1) st es
      else
        let st = (if recKey e \<noteq> key then
                    st\<lparr>sc_udp := sc_udp st + (if datagram e \<noteq> None then 1 else 0),
                       sc_tcp := sc_tcp st + (if tcpPort e > 0 then 1 else 0)\<rparr>
                  else st) in
        if isPublicEntry e \<and> recKey e \<noteq> key then
          if CanonicalHostname e = canonical then Inl errHostnameConflict
          else if Hostname e \<noteq> '''' \<and> Hostname e = sc_hostname st then
            if \<not> fallback then Inl errHostnameConflict
            else registerScan now key canonical fallback (i + 1) (st\<lparr>sc_hostname := ''''\<rparr>) es
          else registerScan now key canonical fallback (i + 1) st es
        else registerScan now key canonical fallback (i + 1) st es)"

text \<open>
  The second locked part. On success the result is the record as admitted and the lease it
  replaced; the loop over stale entries of the identity is the same delete-while-scanning loop.
\<close>

definition registerAdmit ::
  "RegisterChallengeRequest \<Rightarrow> go_time \<Rightarrow> leaseRecord \<Rightarrow> leaseRegistry
     \<Rightarrow> (api_error + leaseRecord \<times> leaseRecord option) \<times> leaseRegistry" where
  "registerAdmit req now rec r =
     (let key = recKey rec in
      case registerScan now key (CanonicalHostname rec) (AllowCanonicalFallback req) 0
             \<lparr>sc_replaced = None, sc_udp = 0, sc_tcp = 0, sc_hostname = Hostname rec\<rparr> (records r) of
        Inl e \<Rightarrow> (Inl e, r)
      | Inr st \<Rightarrow>
          let rec = rec\<lparr>Hostname := sc_hostname st\<rparr> in
          if datagram rec \<noteq> None \<and> udpMaxLeases r > 0 \<and> int (sc_udp st) \<ge> udpMaxLeases r then (Inl errUDPCapacityExceeded, r)
          else if tcpPort rec > 0 \<and> tcpMaxLeases r > 0 \<and> int (sc_tcp st) \<ge> tcpMaxLeases r
          then (Inl errTCPPortCapacityExceeded, r)
          else
            let replaced = map_option (\<lambda>i. records r ! i) (sc_replaced st);
                r = snd (sweep (\<lambda>e. \<not> isLease e \<and> isPublicEntry e \<and> recKey e = key
                                  \<and> CanonicalHostname e = CanonicalHostname rec) (\<lambda>e. False) now 0 r);
                r = r\<lparr>rg_cache := map_option (Register_Cache (cacheLease rec) req) (rg_cache r)\<rparr>
            in (Inr (rec, replaced),
                case sc_replaced st of
                  Some i \<Rightarrow> (resetLimiter key r)\<lparr>records := (records r)[i := rec]\<rparr>
                | None \<Rightarrow> r\<lparr>records := records r @ [rec]\<rparr>))"

record ReverseEndpoint =
  re_URL :: string
  re_Capability :: string
  re_ExpiresAt :: go_time
  re_Overlay :: bool

record reverseEndpointInput =
  in_leaseIdentity :: Identity
  in_leaseID :: string
  in_expiresAt :: go_time
  in_failedURL :: string
  in_useOverlay :: bool

text \<open>
  \<open>overlayAnswer\<close> is the answer of \<open>overlay.IssueEndpoint\<close>: an error, no endpoint, or an endpoint;
  \<open>selfAddress\<close> is the address of the relay's own descriptor.
\<close>

definition issueReverseEndpoint ::
  "relay_env \<Rightarrow> (string + ReverseEndpoint option) \<Rightarrow> string \<Rightarrow> string \<Rightarrow> go_time \<Rightarrow> go_time \<Rightarrow> reverseEndpointInput \<Rightarrow> leaseRegistry
     \<Rightarrow> (api_error + ReverseEndpoint) \<times> leaseRegistry" where
  "issueReverseEndpoint env overlayAnswer selfAddress tokenID now1 now2 inp r =
     (let overlayEndpoint =
            (if in_useOverlay inp \<and> rg_overlay r \<noteq> None \<and> selfAddress \<noteq> ''''
             then (case overlayAnswer of Inl e \<Rightarrow> None | Inr None \<Rightarrow> None
                   | Inr (Some ep) \<Rightarrow> if re_URL ep = '''' then None else Some ep)
             else None);
          issued =
            (case overlayEndpoint of
               Some ep \<Rightarrow> Inr ep
             | None \<Rightarrow>
                 (case IssueReverseCapability (signer env) tokenID (tokenIssuer r) (in_leaseIdentity inp) (in_leaseID inp)
                         (in_expiresAt inp) now1 of
                    Inl e \<Rightarrow> Inl (ErrToken e)
                  | Inr (capability, claims) \<Rightarrow>
                      Inr \<lparr>re_URL = reverseURL r, re_Capability = capability, re_ExpiresAt = tc_Expiry claims, re_Overlay = False\<rparr>))
      in case issued of
           Inl e \<Rightarrow> (Inl e, r)
         | Inr ep \<Rightarrow>
             (case recordForVerifiedLease (ServiceKey (in_leaseIdentity inp)) (in_leaseID inp) now2 r of
                Inl e \<Rightarrow> (Inl e, ForgetLease (in_leaseID inp) r)
              | Inr _ \<Rightarrow> (Inr ep, r)))"

text \<open>The undo of an admitted registration whose reverse endpoint could not be issued.\<close>

definition indexOf :: "nat \<Rightarrow> leaseRecord list \<Rightarrow> nat option" where
  "indexOf x recs = find (\<lambda>i. ref (recs ! i) = x) [0..<length recs]"

definition registerUndo :: "go_time \<Rightarrow> leaseRecord \<Rightarrow> leaseRegistry \<Rightarrow> leaseRegistry" where
  "registerUndo now rec r =
     ForgetLease (lr_id rec)
       (case indexOf (ref rec) (records r) of
          None \<Rightarrow> r
        | Some i \<Rightarrow> resetLimiter (recKey rec) (deleteRecord now i r))"

text \<open>
  \<open>Register\<close> composed of its parts, run without interference; \<open>clock k\<close> is the \<open>k\<close>-th reading of
  \<open>time.Now()\<close>. On success the result is the address of the record, the access token and the
  reverse endpoint.
\<close>

definition abandon :: "go_time \<Rightarrow> leaseRecord \<Rightarrow> leaseRegistry \<Rightarrow> leaseRegistry" where
  "abandon now rec r =
     rollbackRecord rec now (r\<lparr>registering := filter (\<lambda>x. ref x \<noteq> ref rec) (registering r), shutting := shutting r @ [rec]\<rparr>)"

definition Register ::
  "relay_env \<Rightarrow> (nat \<Rightarrow> go_time) \<Rightarrow> RegisterChallengeRequest \<Rightarrow> netip_addr \<Rightarrow> string \<Rightarrow> string option \<Rightarrow> string \<Rightarrow> string
     \<Rightarrow> (string + nat) \<Rightarrow> (string + nat) \<Rightarrow> (string + ReverseEndpoint option) \<Rightarrow> string \<Rightarrow> leaseRegistry
     \<Rightarrow> (api_error + leaseRecord \<times> string \<times> ReverseEndpoint) \<times> leaseRegistry" where
  "Register env clock req source reportedIP served leaseID tokenID udp tcp overlayAnswer selfAddress r =
     (let x = nextRef r in
      case registerPrepare env x req source reportedIP served leaseID tokenID (clock 0) (clock 1) r of
        Inl e \<Rightarrow> (Inl e, r)
      | Inr (rec, token) \<Rightarrow>
        (case registerPorts req (clock 2) rec (r\<lparr>nextRef := Suc x\<rparr>) of
           (Some e, rec, r) \<Rightarrow> (Inl e, abandon (clock 3) rec r)
         | (None, rec, r) \<Rightarrow>
           (case Start_leaseRecord udp tcp rec of
              (Some e, rec) \<Rightarrow> (Inl (ErrRecord e), abandon (clock 3) rec r)
            | (None, rec) \<Rightarrow>
              (case registerAdmit req (clock 4) rec r of
                 (Inl e, r) \<Rightarrow> (Inl e, abandon (clock 5) rec r)
               | (Inr (rec, replaced), r) \<Rightarrow>
                 let r = (case replaced of
                            None \<Rightarrow> r
                          | Some old \<Rightarrow> closeRecord old (clock 6) (clock 7) (ForgetLease (lr_id old) r))
                 in case issueReverseEndpoint env overlayAnswer selfAddress tokenID (clock 8) (clock 9)
                           \<lparr>in_leaseIdentity = req_Identity req, in_leaseID = leaseID, in_expiresAt = ExpiresAt rec,
                            in_failedURL = '''', in_useOverlay = req_Overlay req\<rparr> r of
                      (Inl e, r) \<Rightarrow> (Inl e, abandon (clock 11) rec (registerUndo (clock 10) rec r))
                    | (Inr ep, r) \<Rightarrow> (Inr (rec, token, ep), r)))))"

section \<open>Credentials\<close>

definition admitLeaseIdentity ::
  "ServiceIdentityKey \<Rightarrow> string \<Rightarrow> go_time \<Rightarrow> bool \<Rightarrow> leaseRegistry \<Rightarrow> api_error + leaseRecord" where
  "admitLeaseIdentity key leaseID now requireDatagram r =
     (case recordForVerifiedLease key leaseID now r of
        Inl e \<Rightarrow> Inl e
      | Inr rec \<Rightarrow>
          (case lookup (blocked r) (recKey rec) of
             Some b \<Rightarrow> Inl (refusal b)
           | None \<Rightarrow>
               if reverse rec = None \<or> (requireDatagram \<and> datagram rec = None) then Inl errTransportMismatch
               else Inr rec))"

definition accessClaims :: "relay_env \<Rightarrow> string \<Rightarrow> go_time \<Rightarrow> leaseRegistry \<Rightarrow> token_error + TokenClaims" where
  "accessClaims env token now r =
     VerifyLeaseAccessToken (openSigned env) (validateClaims env) token (tokenPublicKey r) (tokenIssuer r) now"

definition admitLeaseByToken :: "relay_env \<Rightarrow> string \<Rightarrow> bool \<Rightarrow> go_time \<Rightarrow> leaseRegistry \<Rightarrow> api_error + leaseRecord" where
  "admitLeaseByToken env token requireDatagram now r =
     (case accessClaims env token now r of
        Inl e \<Rightarrow> Inl errUnauthorized
      | Inr c \<Rightarrow> admitLeaseIdentity (ServiceKey (tc_Identity c)) (tc_LeaseID c) now requireDatagram r)"

definition admitReverseCapability :: "relay_env \<Rightarrow> string \<Rightarrow> go_time \<Rightarrow> leaseRegistry \<Rightarrow> api_error + leaseRecord" where
  "admitReverseCapability env token now r =
     (case VerifyReverseCapability (openSigned env) (validateClaims env) token (tokenPublicKey r) (tokenIssuer r) now of
        Inl e \<Rightarrow> Inl errUnauthorized
      | Inr c \<Rightarrow> admitLeaseIdentity (ServiceKey (tc_Identity c)) (tc_LeaseID c) now False r)"

definition verifySigningAccessTokenLease :: "relay_env \<Rightarrow> string \<Rightarrow> go_time \<Rightarrow> leaseRegistry \<Rightarrow> string option" where
  "verifySigningAccessTokenLease env token now r =
     (case accessClaims env token now r of
        Inl e \<Rightarrow> None
      | Inr c \<Rightarrow>
          (case recordForVerifiedLease (ServiceKey (tc_Identity c)) (tc_LeaseID c) now r of
             Inl e \<Rightarrow> None
           | Inr rec \<Rightarrow>
               if \<not> isPublicEntry rec then None
               else if \<not> isRoutableLocked (recKey rec) r then None
               else Some (tc_LeaseID c)))"

definition resolveReverseEndpoint ::
  "relay_env \<Rightarrow> string \<Rightarrow> string \<Rightarrow> go_time \<Rightarrow> leaseRegistry \<Rightarrow> api_error + reverseEndpointInput" where
  "resolveReverseEndpoint env token failedURL now r =
     (case accessClaims env token now r of
        Inl e \<Rightarrow> Inl errUnauthorized
      | Inr c \<Rightarrow>
          (case recordForVerifiedLease (ServiceKey (tc_Identity c)) (tc_LeaseID c) now r of
             Inl e \<Rightarrow> Inl e
           | Inr rec \<Rightarrow> Inr \<lparr>in_leaseIdentity = lr_Identity rec, in_leaseID = lr_id rec, in_expiresAt = ExpiresAt rec,
                             in_failedURL = TrimSpace failedURL, in_useOverlay = Overlay rec\<rparr>))"

section \<open>Renewal and removal\<close>

record RenewRequest =
  rn_AccessToken :: string
  rn_TTL :: int
  rn_ReportedIP :: string
  rn_Metadata :: LeaseMetadata
  rn_RepinsChain :: bool

text \<open>\<open>stalePin\<close> remembers a chain that verified; \<open>current\<close> is the chain served now.\<close>

definition stalePin :: "relay_env \<Rightarrow> string \<Rightarrow> string option \<Rightarrow> leaseRecord \<Rightarrow> bool \<times> leaseRecord" where
  "stalePin env root current rec =
     (case (pinnedChain rec, current) of
        (Some pinned, Some cur) \<Rightarrow>
          if pinned = cur \<or> verifiedChain rec = Some cur then (False, rec)
          else if \<not> trustedBy env cur pinned root then (True, rec)
          else (False, rec\<lparr>verifiedChain := Some cur\<rparr>)
      | _ \<Rightarrow> (False, rec))"

definition renewRecord ::
  "relay_env \<Rightarrow> RenewRequest \<Rightarrow> duration \<Rightarrow> netip_addr \<Rightarrow> go_time \<Rightarrow> leaseRecord \<Rightarrow> leaseRecord" where
  "renewRecord env req ttl source now rec =
     (let ip = sanitizeReportedIP env (rn_ReportedIP req)
      in rec\<lparr>ExpiresAt := truncate_second (now + ttl), LastSeenAt := now,
             sourceAddr := (if source \<noteq> None then source else sourceAddr rec),
             ReportedIP := (if TrimSpace ip \<noteq> '''' then ip else ReportedIP rec),
             Metadata := Copy_LeaseMetadata (rn_Metadata req)\<rparr>)"

text \<open>
  \<open>Renew\<close> with the clock readings of the token check, of the locked part, of the cache and of the
  new token. The record is looked up with the zero time, so an expired one is found too.
\<close>

definition Renew ::
  "relay_env \<Rightarrow> (nat \<Rightarrow> go_time) \<Rightarrow> string \<Rightarrow> RenewRequest \<Rightarrow> netip_addr \<Rightarrow> string option \<Rightarrow> leaseRegistry
     \<Rightarrow> (api_error + go_time \<times> string \<times> reverseEndpointInput) \<times> leaseRegistry" where
  "Renew env clock tokenID req source current r =
     (case accessClaims env (rn_AccessToken req) (clock 0) r of
        Inl e \<Rightarrow> (Inl errUnauthorized, r)
      | Inr c \<Rightarrow>
        (case Validate_LeaseMetadata (rn_Metadata req) of
           Inl e \<Rightarrow> (Inl (ErrMetadata e), r)
         | Inr _ \<Rightarrow>
           (case requestedLeaseTTL (rn_TTL req) of
              Inl e \<Rightarrow> (Inl e, r)
            | Inr ttl \<Rightarrow>
              (case recordForVerifiedLease (ServiceKey (tc_Identity c)) (tc_LeaseID c) 0 r of
                 Inl e \<Rightarrow> (Inl e, r)
               | Inr rec \<Rightarrow>
                 let (stale, rec1) = (if rn_RepinsChain req then (False, rec) else stalePin env (rootHostname r) current rec) in
                 if stale then (Inl errLeaseNotFound, r)
                 else
                   let rec2 = renewRecord env req ttl source (clock 1) rec1;
                       r = updRecord (ref rec) (\<lambda>_. rec2) r;
                       r = r\<lparr>rg_cache := map_option (Renew_Cache (cacheLease rec2) (clock 2)) (rg_cache r)\<rparr>
                   in case IssueLeaseAccessToken (signer env) tokenID (tokenIssuer r) (lr_Identity rec2) (lr_id rec2) ttl (clock 3) (clock 4) of
                        Inl e \<Rightarrow> (Inl (ErrToken e), r)
                      | Inr (token, _) \<Rightarrow>
                          (Inr (ExpiresAt rec2, token,
                             \<lparr>in_leaseIdentity = lr_Identity rec2, in_leaseID = lr_id rec2, in_expiresAt = ExpiresAt rec2,
                              in_failedURL = '''', in_useOverlay = Overlay rec2\<rparr>), r)))))"

text \<open>\<open>Unregister\<close>: the locked part; the record returned is closed afterwards.\<close>

definition UnregisterLocked :: "relay_env \<Rightarrow> string \<Rightarrow> go_time \<Rightarrow> go_time \<Rightarrow> leaseRegistry \<Rightarrow> (api_error + leaseRecord) \<times> leaseRegistry" where
  "UnregisterLocked env token now1 now2 r =
     (case accessClaims env token now1 r of
        Inl e \<Rightarrow> (Inl errUnauthorized, r)
      | Inr c \<Rightarrow>
          let key = ServiceKey (tc_Identity c) in
          case recordByLease key (tc_LeaseID c) 0 r of
            None \<Rightarrow> (Inl errUnauthorized, r)
          | Some rec \<Rightarrow>
              (case indexOf (ref rec) (records r) of
                 None \<Rightarrow> (Inl errLeaseNotFound, r)
               | Some i \<Rightarrow>
                   (let r = resetLimiter key (deleteRecord now2 i r) in (Inr rec, r\<lparr>shutting := shutting r @ [rec]\<rparr>))))"

definition Touch :: "ServiceIdentityKey \<Rightarrow> netip_addr \<Rightarrow> go_time \<Rightarrow> leaseRegistry \<Rightarrow> leaseRegistry" where
  "Touch key source now r =
     (case recordByKey key now r of
        None \<Rightarrow> r
      | Some rec \<Rightarrow> updRecord (ref rec)
          (\<lambda>rec. rec\<lparr>LastSeenAt := now, sourceAddr := (if source \<noteq> None then source else sourceAddr rec)\<rparr>) r)"

definition cleanupExpiredLocked :: "go_time \<Rightarrow> go_time \<Rightarrow> leaseRegistry \<Rightarrow> leaseRecord list \<times> leaseRegistry" where
  "cleanupExpiredLocked now wall r =
     (let (expired, r) = sweep (isExpired now) isLease wall 0 r;
          r = r\<lparr>blocked := del_where (\<lambda>key b. \<not> (now - pushedAt b \<le> defaultRegisterChallengeTTL) \<and> recordByKey key now r = None) (blocked r)\<rparr>
      in (expired, r\<lparr>shutting := shutting r @ expired\<rparr>))"

section \<open>Challenges\<close>

definition isChallenge :: "leaseRecord \<Rightarrow> bool" where
  "isChallenge rec \<longleftrightarrow> registerChallenge rec \<noteq> None"

text \<open>The record of a pending challenge: everything else is the zero value.\<close>

definition challengeRecord :: "nat \<Rightarrow> RegisterChallenge \<Rightarrow> netip_addr \<Rightarrow> leaseRecord" where
  "challengeRecord x c source =
     \<lparr>ref = x, lr_Identity = \<lparr>Name = '''', Address = '''', PublicKey = '''', PrivateKey = '''', Mnemonic = '''',
         DerivationPath = '''', TokenSecret = ''''\<rparr>,
      lr_id = '''', ExpiresAt = ch_ExpiresAt c, FirstSeenAt = 0, LastSeenAt = 0, sourceAddr = source, registerSource = None,
      ReportedIP = '''', Hostname = '''', CanonicalHostname = '''',
      Metadata = \<lparr>Description = '''', Owner = '''', Thumbnail = '''', Tags = [], Hide = False\<rparr>, Overlay = False,
      pinnedChain = None, verifiedChain = None, registerChallenge = Some c, datagram = None, tcpPort = 0,
      tcpListener = None, reverse = None, lr_closed = False, reverseMux = None, bridges = []\<rparr>"

definition issueRegisterChallenge ::
  "relay_env \<Rightarrow> string \<Rightarrow> string \<Rightarrow> go_time \<Rightarrow> go_time \<Rightarrow> RegisterChallengeRequest \<Rightarrow> string \<Rightarrow> string \<Rightarrow> netip_addr \<Rightarrow> leaseRegistry
     \<Rightarrow> (api_error + RegisterChallenge) \<times> leaseRegistry" where
  "issueRegisterChallenge env challengeID nonce now wall req domain uri source r =
     (case requestedLeaseTTL (req_TTL req) of
        Inl e \<Rightarrow> (Inl e, r)
      | Inr _ \<Rightarrow>
        (case NewRegisterChallenge (normalizeIdentity env) (formatSIWE env) challengeID nonce req domain uri now defaultRegisterChallengeTTL of
           Inl e \<Rightarrow> (Inl (ErrChallenge e), r)
         | Inr challenge \<Rightarrow>
           (case CanonicalLeaseHostname (toASCII env) (loopbackIP env) (nameHash env)
                   (Name (req_Identity (ch_Request challenge))) (Address (req_Identity (ch_Request challenge))) (rootHostname r) of
              Inl e \<Rightarrow> (Inl (ErrHostname e), r)
            | Inr _ \<Rightarrow>
              let r = snd (sweep (\<lambda>rec. isChallenge rec \<and> isExpired now rec) (\<lambda>_. False) wall 0 r);
                  globalPending = length (filter isChallenge (records r));
                  pendingHere = length (filter (\<lambda>rec. isChallenge rec \<and> sourceAddr rec = source) (records r))
              in if pendingHere \<ge> defaultRegisterChallengeOutstandingPerIP \<or> globalPending \<ge> defaultRegisterChallengeOutstanding
                 then (Inl errRegisterChallengePending, r)
                 else (Inr challenge,
                       r\<lparr>records := records r @ [challengeRecord (nextRef r) challenge source], nextRef := Suc (nextRef r)\<rparr>))))"

definition challengeIndex :: "string \<Rightarrow> leaseRecord list \<Rightarrow> nat option" where
  "challengeIndex challengeID recs =
     find (\<lambda>i. map_option ChallengeID (registerChallenge (recs ! i)) = Some challengeID) [0..<length recs]"

definition consumeVerifiedRegisterChallenge ::
  "relay_env \<Rightarrow> RegisterRequest \<Rightarrow> go_time \<Rightarrow> go_time \<Rightarrow> leaseRegistry \<Rightarrow> (challenge_error + RegisterChallenge \<times> netip_addr) \<times> leaseRegistry" where
  "consumeVerifiedRegisterChallenge env req now wall r =
     (let challengeID = TrimSpace (rq_ChallengeID req) in
      if challengeID = '''' then (Inl ErrChallengeNotFound, r)
      else case challengeIndex challengeID (records r) of
          None \<Rightarrow> (Inl ErrChallengeNotFound, r)
        | Some i \<Rightarrow>
            let challenge = registerChallenge (records r ! i); source = sourceAddr (records r ! i) in
            if Expired challenge now then (Inl ErrChallengeExpired, deleteRecord wall i r)
            else case Verify_Challenge (recoverSigner env) req now challenge of
                Some e \<Rightarrow> (Inl e, r)
              | None \<Rightarrow> (Inr (the challenge, source), deleteRecord wall i r))"

text \<open>
  \<open>refuseChallengeOverBudget\<close>: the identities that hold a place of the source without being
  routable, and the position of the challenge just issued.
\<close>

definition budgetHolder :: "netip_addr \<Rightarrow> leaseRecord \<Rightarrow> ServiceIdentityKey option" where
  "budgetHolder source rec =
     (case registerChallenge rec of
        Some c \<Rightarrow> if sourceAddr rec = source then Some (ServiceKey (req_Identity (ch_Request c)))
                 else if isLease rec \<and> registerSource rec = source then Some (recKey rec) else None
      | None \<Rightarrow> if isLease rec \<and> registerSource rec = source then Some (recKey rec) else None)"

definition heldBySource :: "ServiceIdentityKey \<Rightarrow> netip_addr \<Rightarrow> go_time \<Rightarrow> leaseRegistry \<Rightarrow> ServiceIdentityKey list" where
  "heldBySource key source now r =
     remdups (filter (\<lambda>holder. holder \<noteq> key \<and> \<not> isRoutableLocked holder r)
       (List.map_filter (\<lambda>rec. if isExpired now rec then None else budgetHolder source rec) (records r)))"

definition issuedIndex :: "string \<Rightarrow> netip_addr \<Rightarrow> go_time \<Rightarrow> leaseRecord list \<Rightarrow> nat option" where
  "issuedIndex challengeID source now recs =
     find (\<lambda>i. \<not> isExpired now (recs ! i) \<and> sourceAddr (recs ! i) = source
               \<and> map_option ChallengeID (registerChallenge (recs ! i)) = Some challengeID) (rev [0..<length recs])"

definition refuseChallengeOverBudget ::
  "ServiceIdentityKey \<Rightarrow> string \<Rightarrow> netip_addr \<Rightarrow> go_time \<Rightarrow> go_time \<Rightarrow> leaseRegistry \<Rightarrow> api_error option \<times> leaseRegistry" where
  "refuseChallengeOverBudget key challengeID source now wall r =
     (if unapprovedPerSource r \<le> 0 \<or> source = None \<or> isRoutableLocked key r then (None, r)
      else if int (length (heldBySource key source now r)) < unapprovedPerSource r then (None, r)
      else (Some errUnapprovedLeaseLimit,
            case issuedIndex challengeID source now (records r) of None \<Rightarrow> r | Some i \<Rightarrow> deleteRecord wall i r))"

section \<open>Views\<close>

record PublicLease =
  pl_Name :: string
  pl_Address :: string
  pl_ExpiresAt :: go_time
  pl_FirstSeenAt :: go_time
  pl_LastSeenAt :: go_time
  pl_Hostname :: string
  pl_CanonicalHostname :: string
  pl_UDPPort :: "int option"
  pl_TCPPort :: "int option"
  pl_Metadata :: LeaseMetadata
  pl_Ready :: int

text \<open>The addresses \<open>host:port\<close> are kept as the port; the host is the canonical host name.\<close>

definition publicLease :: "leaseRecord \<Rightarrow> PublicLease" where
  "publicLease rec =
     \<lparr>pl_Name = Name (lr_Identity rec), pl_Address = Address (lr_Identity rec), pl_ExpiresAt = ExpiresAt rec,
      pl_FirstSeenAt = FirstSeenAt rec, pl_LastSeenAt = LastSeenAt rec, pl_Hostname = Hostname rec,
      pl_CanonicalHostname = CanonicalHostname rec,
      pl_UDPPort = (if datagram rec \<noteq> None then Some (UDPPort (datagram rec)) else None),
      pl_TCPPort = (if tcpPort rec > 0 then Some (tcpPort rec) else None),
      pl_Metadata = Copy_LeaseMetadata (Metadata rec),
      pl_Ready = (case reverse rec of None \<Rightarrow> 0 | Some p \<Rightarrow> ReadyCount p)\<rparr>"

definition listed :: "go_time \<Rightarrow> leaseRegistry \<Rightarrow> leaseRecord \<Rightarrow> bool" where
  "listed now r rec \<longleftrightarrow>
     isPublicEntry rec \<and> \<not> isExpired now rec \<and> \<not> Hide (Metadata rec)
     \<and> (case reverse rec of
          None \<Rightarrow> True
        | Some p \<Rightarrow>
            isRoutableLocked (recKey rec) r
            \<and> \<not> (ReadyCount p = 0
                 \<and> (if \<not> IsZero (LastSeenAt rec) then max (now - LastSeenAt rec) 0 else 0) \<ge> 3 * minute))"

definition PublicLeases :: "go_time \<Rightarrow> leaseRegistry \<Rightarrow> PublicLease list" where
  "PublicLeases now r = map publicLease (filter (listed now r) (records r))"

record PolicyLease =
  po_Lease :: PublicLease
  po_IdentityKey :: string
  po_BPS :: int
  po_ClientIP :: string
  po_ReportedIP :: string

definition PolicyLeases :: "go_time \<Rightarrow> leaseRegistry \<Rightarrow> PolicyLease list" where
  "PolicyLeases now r =
     map (\<lambda>rec. \<lparr>po_Lease = publicLease rec, po_IdentityKey = String (recKey rec),
                 po_BPS = IdentityBPS (recKey rec) (bps r),
                 po_ClientIP = (case sourceAddr rec of None \<Rightarrow> ''<unknown>'' | Some a \<Rightarrow> a),
                 po_ReportedIP = ReportedIP rec\<rparr>)
       (filter (\<lambda>rec. isLease rec \<and> \<not> isExpired now rec) (records r))"

definition stats :: "go_time \<Rightarrow> leaseRegistry \<Rightarrow> int \<times> int" where
  "stats now r =
     (let live = filter (\<lambda>rec. isLease rec \<and> \<not> isExpired now rec) (records r)
      in (int (length live), sum_list (map (\<lambda>rec. ActiveFlowCount (datagram rec)) live)))"

text \<open>
  \<open>deleteLeaseDNS\<close> of record.go: the host names of a removed lease that no live record owns any
  more, in the order their deletion is queued.
\<close>

definition deleteLeaseDNS :: "leaseRecord \<Rightarrow> go_time \<Rightarrow> leaseRegistry \<Rightarrow> string list" where
  "deleteLeaseDNS rec now r =
     filter (\<lambda>hostname. \<not> (\<exists>current \<in> set (records r). \<not> isExpired now current \<and> hostname \<in> set (hostnames current))) (hostnames rec)"

section \<open>Deleting while scanning\<close>

lemma mset_swap_delete: "i < length xs \<Longrightarrow> add_mset (xs ! i) (mset (swap_delete i xs)) = mset xs"
proof (cases xs rule: rev_cases)
  case (snoc ys y)
  assume i: "i < length xs"
  show ?thesis
  proof (cases "i = length ys")
    case True
    with snoc show ?thesis by (simp add: swap_delete_def)
  next
    case False
    with snoc i have i': "i < length ys" by simp
    then have "swap_delete i xs = ys[i := y]" "xs ! i = ys ! i"
      using snoc by (simp_all add: swap_delete_def nth_append list_update_append butlast_append)
    moreover have "add_mset (ys ! i) (mset (ys[i := y])) = add_mset y (mset ys)"
      using i' by (simp add: mset_update)
    ultimately show ?thesis using snoc by simp
  qed
qed simp

lemma ForgetLease_frame [simp]:
  "records (ForgetLease x r) = records r" "blocked (ForgetLease x r) = blocked r" "udpPorts (ForgetLease x r) = udpPorts r"
  "tcpPorts (ForgetLease x r) = tcpPorts r" "nextRef (ForgetLease x r) = nextRef r" "registering (ForgetLease x r) = registering r"
  "shutting (ForgetLease x r) = shutting r" "accessRevision (ForgetLease x r) = accessRevision r" "rg_cache (ForgetLease x r) = rg_cache r"
  "unapprovedPerSource (ForgetLease x r) = unapprovedPerSource r" "bps (ForgetLease x r) = bps r"
  by (simp_all add: ForgetLease_def)

lemma resetLimiter_frame [simp]:
  "records (resetLimiter x r) = records r" "blocked (resetLimiter x r) = blocked r" "udpPorts (resetLimiter x r) = udpPorts r"
  "tcpPorts (resetLimiter x r) = tcpPorts r" "nextRef (resetLimiter x r) = nextRef r" "registering (resetLimiter x r) = registering r"
  "shutting (resetLimiter x r) = shutting r" "accessRevision (resetLimiter x r) = accessRevision r" "rg_cache (resetLimiter x r) = rg_cache r"
  by (simp_all add: resetLimiter_def)

lemma deleteRecord_frame [simp]:
  "records (deleteRecord now i r) = swap_delete i (records r)" "blocked (deleteRecord now i r) = blocked r"
  "udpPorts (deleteRecord now i r) = udpPorts r" "tcpPorts (deleteRecord now i r) = tcpPorts r"
  "nextRef (deleteRecord now i r) = nextRef r" "registering (deleteRecord now i r) = registering r"
  "shutting (deleteRecord now i r) = shutting r" "accessRevision (deleteRecord now i r) = accessRevision r"
  by (simp_all add: deleteRecord_def Let_def)

lemma length_swap_delete: "length (swap_delete i xs) = length xs - 1"
  by (simp add: swap_delete_def)

lemma swap_delete_take: "i < length xs \<Longrightarrow> take i (swap_delete i xs) = take i xs"
  by (simp add: swap_delete_def take_butlast)

text \<open>
  The loop visits every record although deletions move the last record to the front: it
  deletes exactly the records that satisfy the condition, each once, and keeps the others.
\<close>

lemma sweep_exact:
  assumes "sweep P reset now i r = (gone, s)" and "\<forall>x \<in> set (take i (records r)). \<not> P x"
  shows "mset gone = filter_mset P (mset (records r)) \<and> mset (records s) = filter_mset (\<lambda>x. \<not> P x) (mset (records r))
     \<and> blocked s = blocked r \<and> udpPorts s = udpPorts r \<and> tcpPorts s = tcpPorts r \<and> nextRef s = nextRef r
     \<and> registering s = registering r \<and> shutting s = shutting r \<and> accessRevision s = accessRevision r"
  using assms
proof (induction P reset now i r arbitrary: gone s rule: sweep.induct)
  case (1 P reset now i r)
  show ?case
  proof (cases "i < length (records r)")
    case False
    then have "\<forall>x \<in> set (records r). \<not> P x" using 1(4) by simp
    then have "filter P (records r) = []" "filter (\<lambda>x. \<not> P x) (records r) = records r"
      by (simp_all add: filter_id_conv)
    then show ?thesis using 1(3) False
      by (subst (asm) sweep.simps) (simp add: mset_filter [symmetric])
  next
    case i: True
    show ?thesis
    proof (cases "P (records r ! i)")
      case True
      define r1 where "r1 = (if reset (records r ! i) then resetLimiter (recKey (records r ! i)) r else r)"
      have r1: "records r1 = records r" "blocked r1 = blocked r" "udpPorts r1 = udpPorts r" "tcpPorts r1 = tcpPorts r"
        "nextRef r1 = nextRef r" "registering r1 = registering r" "shutting r1 = shutting r" "accessRevision r1 = accessRevision r"
        by (simp_all add: r1_def)
      obtain g s' where rest: "sweep P reset now i (deleteRecord now i r1) = (g, s')" by force
      then have gs: "gone = records r ! i # g" "s = s'"
        using 1(3) i True by (subst (asm) (2) sweep.simps, auto simp: r1_def Let_def)+
      have "\<forall>x \<in> set (take i (records (deleteRecord now i r1))). \<not> P x" using 1(4) i by (simp add: r1 swap_delete_take)
      from 1(1) [OF i True refl r1_def rest this]
      show ?thesis using mset_swap_delete [OF i, symmetric] True by (simp add: gs r1)
    next
      case False
      then have "sweep P reset now (i + 1) r = (gone, s)" using 1(3) i by (subst (asm) sweep.simps) simp
      moreover have "\<forall>x \<in> set (take (i + 1) (records r)). \<not> P x"
        using 1(4) False i by (simp add: take_Suc_conv_app_nth)
      ultimately show ?thesis using 1(2) [OF i False] by blast
    qed
  qed
qed

end
