(* ===== verification/Lease_Invariants.thy ===== *)
theory Lease_Invariants
  imports Lease_Registry
begin

text \<open>
  The invariant of the lease registry and its preservation by every operation, for every
  interleaving of the critical sections that request handlers, the cleanup loop and the relay
  policy run. The port pools are used only through the contract \<open>port_allocator\<close>.
\<close>

section \<open>Invariant\<close>

text \<open>Pending challenges and leases are different kinds of records.\<close>

definition shape :: "leaseRecord \<Rightarrow> bool" where
  "shape rec \<longleftrightarrow> (isLease rec \<longleftrightarrow> \<not> isChallenge rec)
     \<and> (isChallenge rec \<longrightarrow> CanonicalHostname rec = '''' \<and> datagram rec = None \<and> tcpPort rec = 0 \<and> bridges rec = [])"

text \<open>No traffic flows for the record: its datagrams are gated and its bridges are canceled.\<close>

definition quiet :: "leaseRecord \<Rightarrow> bool" where
  "quiet rec \<longleftrightarrow> (\<forall>d. datagram rec = Some d \<longrightarrow> \<not> enabled d) \<and> (\<forall>b \<in> set (bridges rec). canceled b)"

definition owns :: "leaseRegistry \<Rightarrow> leaseRecord \<Rightarrow> bool" where
  "owns r rec \<longleftrightarrow> (\<forall>d. datagram rec = Some d \<longrightarrow> holder (udpPorts r) (rd_port d) = Some (ref rec))
     \<and> (tcpPort rec > 0 \<longrightarrow> holder (tcpPorts r) (tcpPort rec) = Some (ref rec))"

definition rec_ok :: "leaseRegistry \<Rightarrow> leaseRecord \<Rightarrow> bool" where
  "rec_ok r rec \<longleftrightarrow> shape rec \<and> length (bridges rec) \<le> defaultLeaseBridgeLimit
     \<and> (has_key (blocked r) (recKey rec) \<longrightarrow> quiet rec) \<and> owns r rec"

definition new_lease :: "leaseRegistry \<Rightarrow> leaseRecord \<Rightarrow> bool" where
  "new_lease r rec \<longleftrightarrow> isLease rec \<and> \<not> isChallenge rec \<and> quiet rec \<and> bridges rec = [] \<and> owns r rec"

definition allRecs :: "leaseRegistry \<Rightarrow> leaseRecord list" where
  "allRecs r = records r @ registering r @ shutting r"

definition challengesFrom :: "netip_addr \<Rightarrow> leaseRecord \<Rightarrow> bool" where
  "challengesFrom s rec \<longleftrightarrow> isChallenge rec \<and> sourceAddr rec = s"

definition refs_inv :: "leaseRegistry \<Rightarrow> bool" where
  "refs_inv r \<longleftrightarrow> distinct (map ref (allRecs r)) \<and> (\<forall>rec \<in> set (allRecs r). ref rec < nextRef r)"

definition keys_inv :: "leaseRegistry \<Rightarrow> bool" where
  "keys_inv r \<longleftrightarrow> distinct (map recKey (filter isLease (records r)))"

definition challenge_inv :: "leaseRegistry \<Rightarrow> bool" where
  "challenge_inv r \<longleftrightarrow> length (filter isChallenge (records r)) \<le> defaultRegisterChallengeOutstanding
     \<and> (\<forall>s. length (filter (challengesFrom s) (records r)) \<le> defaultRegisterChallengeOutstandingPerIP)"

definition reg_inv :: "leaseRegistry \<Rightarrow> bool" where
  "reg_inv r \<longleftrightarrow> refs_inv r \<and> keys_inv r \<and> challenge_inv r
     \<and> (\<forall>rec \<in> set (records r). rec_ok r rec) \<and> (\<forall>rec \<in> set (registering r). new_lease r rec)
     \<and> pool_wf (udpPorts r) \<and> pool_wf (tcpPorts r) \<and> wf_map (blocked r)"

subsection \<open>Multiset views\<close>

lemma distinct_mset_mono: "mset ys \<subseteq># mset xs \<Longrightarrow> distinct xs \<Longrightarrow> distinct ys"
proof -
  assume sub: "mset ys \<subseteq># mset xs" and dist: "distinct xs"
  have "count (mset ys) x \<le> 1" for x
    using mset_subset_eq_count [OF sub, of x] dist by (simp add: distinct_count_atmost_1 count_mset split: if_splits)
  then show ?thesis
    by (metis count_greater_eq_one_iff distinct_count_atmost_1 le_antisym not_in_iff set_mset_mset)
qed

lemma refs_inv_alt:
  "refs_inv r \<longleftrightarrow> distinct (map ref (allRecs r)) \<and> (\<forall>rec \<in># mset (allRecs r). ref rec < nextRef r)"
  by (simp add: refs_inv_def)

lemma length_filter_mono: "mset ys \<subseteq># mset xs \<Longrightarrow> length (filter P ys) \<le> length (filter P xs)"
proof -
  assume "mset ys \<subseteq># mset xs"
  then have "filter_mset P (mset ys) \<subseteq># filter_mset P (mset xs)" by (rule multiset_filter_mono)
  then show ?thesis by (metis mset_filter size_mset size_mset_mono)
qed

text \<open>(A) Records are taken out, possibly handed to \<open>shutting\<close>.\<close>

lemma reg_inv_remove:
  assumes inv: "reg_inv r" and recs: "mset (records s) \<subseteq># mset (records r)"
    and all: "mset (allRecs s) \<subseteq># mset (allRecs r)" and reg: "set (registering s) \<subseteq> set (registering r)"
    and ports: "udpPorts s = udpPorts r" "tcpPorts s = tcpPorts r" and n: "nextRef s = nextRef r"
    and bl: "wf_map (blocked s)" "\<And>k. has_key (blocked s) k \<Longrightarrow> has_key (blocked r) k"
  shows "reg_inv s"
proof -
  have "distinct (map ref (allRecs s))"
  proof (rule distinct_mset_mono [of _ "map ref (allRecs r)"])
    show "mset (map ref (allRecs s)) \<subseteq># mset (map ref (allRecs r))" using image_mset_subseteq_mono [OF all] by simp
    show "distinct (map ref (allRecs r))" using inv by (simp add: reg_inv_def refs_inv_def)
  qed
  moreover have "set (allRecs s) \<subseteq> set (allRecs r)" using set_mset_mono [OF all] by simp
  ultimately have "refs_inv s" using inv n by (auto simp: reg_inv_def refs_inv_def)
  moreover have "mset (filter isLease (records s)) \<subseteq># mset (filter isLease (records r))"
    using recs by (simp add: multiset_filter_mono)
  then have "mset (map recKey (filter isLease (records s))) \<subseteq># mset (map recKey (filter isLease (records r)))"
    unfolding mset_map by (rule image_mset_subseteq_mono)
  then have "keys_inv s"
    using inv distinct_mset_mono unfolding keys_inv_def reg_inv_def by blast
  moreover have "challenge_inv s"
    using inv length_filter_mono [OF recs] unfolding challenge_inv_def reg_inv_def by (meson order_trans)
  moreover have "set (records s) \<subseteq> set (records r)" using set_mset_mono [OF recs] by simp
  then have "\<forall>rec \<in> set (records s). rec_ok s rec"
    using inv ports bl(2) by (auto simp: reg_inv_def rec_ok_def owns_def)
  moreover have "\<forall>rec \<in> set (registering s). new_lease s rec"
    using inv ports reg by (auto simp: reg_inv_def new_lease_def owns_def)
  ultimately show ?thesis using inv ports bl(1) by (simp add: reg_inv_def)
qed

text \<open>(B) Records are changed in place.\<close>

lemma reg_inv_map:
  assumes inv: "reg_inv r" and recs: "records s = map f (records r)"
    and f: "\<And>rec. rec \<in> set (records r) \<Longrightarrow> ref (f rec) = ref rec \<and> recKey (f rec) = recKey rec
        \<and> (isLease (f rec) \<longleftrightarrow> isLease rec) \<and> (isChallenge (f rec) \<longleftrightarrow> isChallenge rec)
        \<and> (isChallenge rec \<longrightarrow> sourceAddr (f rec) = sourceAddr rec) \<and> rec_ok s (f rec)"
    and same: "registering s = registering r" "shutting s = shutting r" "udpPorts s = udpPorts r" "tcpPorts s = tcpPorts r"
      "nextRef s = nextRef r" and bl: "wf_map (blocked s)"
  shows "reg_inv s"
proof -
  have none: "reverse (f rec) = None \<longleftrightarrow> reverse rec = None" if "rec \<in> set (records r)" for rec using f [OF that] by blast
  have refs: "map ref (allRecs s) = map ref (allRecs r)" using f by (simp add: allRecs_def recs same)
  then have "set (map ref (allRecs s)) = set (map ref (allRecs r))" by simp
  then have "refs_inv s" using inv refs same(5) unfolding reg_inv_def refs_inv_def
    by (metis (no_types, lifting) imageE imageI list.set_map)
  moreover have "map recKey (filter isLease (map f xs)) = map recKey (filter isLease xs)"
    if "set xs \<subseteq> set (records r)" for xs
    using that by (induction xs) (simp_all add: f none del: not_None_eq)
  then have "keys_inv s" using inv by (simp add: reg_inv_def keys_inv_def recs)
  moreover have "length (filter isChallenge (map f xs)) = length (filter isChallenge xs)
      \<and> (\<forall>s. length (filter (challengesFrom s) (map f xs)) = length (filter (challengesFrom s) xs))"
    if "set xs \<subseteq> set (records r)" for xs
    using that by (induction xs) (auto simp: f challengesFrom_def)
  then have "challenge_inv s" using inv by (simp add: reg_inv_def challenge_inv_def recs)
  moreover have "\<forall>rec \<in> set (registering s). new_lease s rec"
    using inv by (simp add: reg_inv_def new_lease_def owns_def same)
  ultimately show ?thesis using inv f bl by (auto simp: reg_inv_def recs same)
qed

text \<open>(C) Ports of others move, the records stay.\<close>

lemma reg_inv_ports:
  assumes inv: "reg_inv r" and wf: "pool_wf (udpPorts s)" "pool_wf (tcpPorts s)"
    and u: "\<And>rec p. rec \<in> set (records r @ registering r) \<Longrightarrow> holder (udpPorts r) p = Some (ref rec) \<Longrightarrow> holder (udpPorts s) p = Some (ref rec)"
    and t: "\<And>rec p. rec \<in> set (records r @ registering r) \<Longrightarrow> holder (tcpPorts r) p = Some (ref rec) \<Longrightarrow> holder (tcpPorts s) p = Some (ref rec)"
    and same: "records s = records r" "registering s = registering r" "mset (shutting s) \<subseteq># mset (shutting r)"
      "nextRef r \<le> nextRef s" "blocked s = blocked r"
  shows "reg_inv s"
proof -
  have o: "owns s rec" if "rec \<in> set (records r @ registering r)" "owns r rec" for rec
    using that u [OF that(1)] t [OF that(1)] by (auto simp: owns_def)
  have all: "mset (allRecs s) \<subseteq># mset (allRecs r)" using same by (simp add: allRecs_def)
  have "distinct (map ref (allRecs s))"
  proof (rule distinct_mset_mono [of _ "map ref (allRecs r)"])
    show "mset (map ref (allRecs s)) \<subseteq># mset (map ref (allRecs r))" using image_mset_subseteq_mono [OF all] by simp
    show "distinct (map ref (allRecs r))" using inv by (simp add: reg_inv_def refs_inv_def)
  qed
  moreover have "set (allRecs s) \<subseteq> set (allRecs r)" using set_mset_mono [OF all] by simp
  ultimately have "refs_inv s" using inv same(4) by (fastforce simp: reg_inv_def refs_inv_def)
  moreover have "keys_inv s" "challenge_inv s" using inv same by (simp_all add: reg_inv_def keys_inv_def challenge_inv_def)
  moreover have "\<forall>rec \<in> set (records s). rec_ok s rec"
    using inv same o by (auto simp: reg_inv_def rec_ok_def)
  moreover have "\<forall>rec \<in> set (registering s). new_lease s rec"
    using inv same o by (auto simp: reg_inv_def new_lease_def)
  ultimately show ?thesis using inv wf same by (simp add: reg_inv_def)
qed

lemma refs_distinct:
  assumes "reg_inv r" and "x \<in> set (records r)" and "y \<in> set (records r)" and "ref x = ref y"
  shows "x = y"
  using assms by (auto simp: reg_inv_def refs_inv_def allRecs_def distinct_map dest: inj_onD)

lemma find_in_set: "find P xs = Some x \<Longrightarrow> x \<in> set xs \<and> P x"
  by (auto simp: find_Some_iff)

section \<open>Operations of the registry\<close>

subsection \<open>Deletion\<close>

lemma sweep_none: "(\<forall>x \<in> set (records r). \<not> P x) \<Longrightarrow> sweep P reset now i r = ([], r)"
proof (induction "length (records r) - i" arbitrary: i)
  case 0
  then show ?case by (subst sweep.simps) simp
next
  case (Suc n)
  from Suc(2) have i: "i < length (records r)" by simp
  have "sweep P reset now (i + 1) r = ([], r)"
    by (rule Suc.hyps(1)) (use Suc.hyps(2) Suc.prems in simp_all)
  with i Suc.prems show ?case by (subst sweep.simps) simp
qed

lemma swap_delete_subset: "i < length xs \<Longrightarrow> mset (swap_delete i xs) \<subseteq># mset xs"
  using mset_swap_delete [of i xs] by (metis subset_mset.order_refl mset_subset_eq_insertD subset_mset.less_imp_le)

lemma reg_inv_deleteRecord:
  assumes "reg_inv r" and "i < length (records r)"
  shows "reg_inv (deleteRecord now i r)"
proof -
  have "mset (swap_delete i (records r)) \<subseteq># mset (records r)"
    by (rule swap_delete_subset [OF assms(2)])
  then show ?thesis
    using assms(1) by (intro reg_inv_remove [OF assms(1)]) (auto simp: allRecs_def reg_inv_def)
qed

lemma reg_inv_take_out:
  assumes "reg_inv r" and "i < length (records r)"
  shows "reg_inv ((deleteRecord now i r)\<lparr>shutting := shutting r @ [records r ! i]\<rparr>)"
proof -
  note m = mset_swap_delete [OF assms(2)]
  have "mset (swap_delete i (records r)) \<subseteq># mset (records r)"
    by (rule swap_delete_subset [OF assms(2)])
  moreover have "mset (allRecs ((deleteRecord now i r)\<lparr>shutting := shutting r @ [records r ! i]\<rparr>)) = mset (allRecs r)"
    using m [symmetric] by (simp add: allRecs_def)
  ultimately show ?thesis
    using assms(1) by (intro reg_inv_remove [OF assms(1)]) (auto simp: reg_inv_def)
qed

lemma reg_inv_sweep:
  assumes "reg_inv r"
  shows "reg_inv (snd (sweep P reset now 0 r))"
    and "reg_inv ((snd (sweep P reset now 0 r))\<lparr>shutting := shutting r @ fst (sweep P reset now 0 r)\<rparr>)"
proof -
  obtain gone s where sw: "sweep P reset now 0 r = (gone, s)" by force
  note e = sweep_exact [OF this, simplified]
  have sub: "mset (records s) \<subseteq># mset (records r)" using e by (simp add: multiset_filter_subset)
  have split: "mset (records r) = mset gone + mset (records s)" using e by (simp add: multiset_partition [of _ P])
  show "reg_inv (snd (sweep P reset now 0 r))"
    using assms e sub unfolding sw by (intro reg_inv_remove [OF assms]) (auto simp: allRecs_def reg_inv_def)
  show "reg_inv ((snd (sweep P reset now 0 r))\<lparr>shutting := shutting r @ fst (sweep P reset now 0 r)\<rparr>)"
    using assms e sub split unfolding sw by (intro reg_inv_remove [OF assms]) (auto simp: allRecs_def reg_inv_def)
qed

lemma indexOf_Some: "indexOf x recs = Some i \<Longrightarrow> i < length recs \<and> ref (recs ! i) = x"
  by (auto simp: indexOf_def find_Some_iff)

lemma challengeIndex_Some: "challengeIndex c recs = Some i \<Longrightarrow> i < length recs \<and> map_option ChallengeID (registerChallenge (recs ! i)) = Some c"
  by (auto simp: challengeIndex_def find_Some_iff)

lemma issuedIndex_Some: "issuedIndex c source now recs = Some i \<Longrightarrow> i < length recs"
  unfolding issuedIndex_def by (drule find_in_set) simp

subsection \<open>Registration\<close>

text \<open>The ports of a new record are its own, and the ports of others stay where they are.\<close>

lemma registerPorts_ok:
  assumes wf: "pool_wf (udpPorts r)" "pool_wf (tcpPorts r)"
    and rp: "registerPorts req now rec r = (err, rec', s)" and new: "datagram rec = None" "tcpPort rec = 0"
  shows "pool_wf (udpPorts s) \<and> pool_wf (tcpPorts s) \<and> owns s rec'
     \<and> (\<forall>x p. x \<noteq> ref rec \<longrightarrow> holder (udpPorts r) p = Some x \<longrightarrow> holder (udpPorts s) p = Some x)
     \<and> (\<forall>x p. x \<noteq> ref rec \<longrightarrow> holder (tcpPorts r) p = Some x \<longrightarrow> holder (tcpPorts s) p = Some x)
     \<and> records s = records r \<and> registering s = registering r \<and> shutting s = shutting r
     \<and> nextRef s = nextRef r \<and> blocked s = blocked r
     \<and> ref rec' = ref rec \<and> reverse rec' = reverse rec \<and> registerChallenge rec' = registerChallenge rec
     \<and> bridges rec' = bridges rec \<and> (\<forall>x. datagram rec' = Some x \<longrightarrow> \<not> enabled x)"
proof -
  obtain e1 u where u: "allocate (ref rec) (recKey rec) now (udpPorts r) = (e1, u)" by force
  obtain e2 t where t: "allocate (ref rec) (recKey rec) now (tcpPorts r) = (e2, t)" by force
  note wfu = pp.wf_alloc [OF wf(1) u] and wft = pp.wf_alloc [OF wf(2) t]
  note ku = pp.alloc_keeps [OF wf(1) u] and kt = pp.alloc_keeps [OF wf(2) t]
  have ou: "e1 = Inr p \<Longrightarrow> holder u p = Some (ref rec)" for p using pp.alloc_ok [OF wf(1)] u by simp
  have ot: "e2 = Inr p \<Longrightarrow> holder t p = Some (ref rec)" for p using pp.alloc_ok [OF wf(2)] t by simp
  show ?thesis
  proof (cases "UDPEnabled req"; cases e1; cases "TCPEnabled req"; cases e2)
  qed (use rp wf new wfu wft ku kt ou ot in \<open>clarsimp simp: registerPorts_def owns_def u t NewRelayDatagram_def Let_def; fail\<close>)+
qed

lemma registerPrepare_new:
  "registerPrepare env x req source ip served leaseID tokenID now1 now2 r = Inr (rec, token) \<Longrightarrow>
     ref rec = x \<and> isLease rec \<and> \<not> isChallenge rec \<and> datagram rec = None \<and> tcpPort rec = 0 \<and> bridges rec = [] \<and> \<not> lr_closed rec"
  by (auto simp: registerPrepare_def isChallenge_def Let_def split: sum.splits if_splits)

lemma reg_inv_add:
  assumes inv: "reg_inv s" and "ref rec = x" and "x < nextRef s" and "x \<notin> ref ` set (allRecs s)"
  shows "new_lease s rec \<Longrightarrow> reg_inv (s\<lparr>registering := rec # registering s\<rparr>)"
    and "reg_inv (s\<lparr>shutting := rec # shutting s\<rparr>)"
proof -
  have refs: "refs_inv (s\<lparr>registering := rec # registering s\<rparr>)" "refs_inv (s\<lparr>shutting := rec # shutting s\<rparr>)"
    using assms by (auto simp: reg_inv_def refs_inv_def allRecs_def image_iff)
  have same: "new_lease (s\<lparr>registering := a\<rparr>) y = new_lease s y" "new_lease (s\<lparr>shutting := a\<rparr>) y = new_lease s y"
    "rec_ok (s\<lparr>registering := a\<rparr>) y = rec_ok s y" "rec_ok (s\<lparr>shutting := a\<rparr>) y = rec_ok s y"
    "keys_inv (s\<lparr>registering := a\<rparr>) = keys_inv s" "keys_inv (s\<lparr>shutting := a\<rparr>) = keys_inv s"
    "challenge_inv (s\<lparr>registering := a\<rparr>) = challenge_inv s" "challenge_inv (s\<lparr>shutting := a\<rparr>) = challenge_inv s" for a y
    by (simp_all add: new_lease_def rec_ok_def owns_def keys_inv_def challenge_inv_def)
  show "new_lease s rec \<Longrightarrow> reg_inv (s\<lparr>registering := rec # registering s\<rparr>)" "reg_inv (s\<lparr>shutting := rec # shutting s\<rparr>)"
    using refs inv unfolding reg_inv_def same by simp_all
qed

lemma reg_inv_begin:
  assumes inv: "reg_inv r" and new: "registerPrepare env (nextRef r) req source ip served leaseID tokenID now1 now2 r = Inr (rec, token)"
    and rp: "registerPorts req now rec (r\<lparr>nextRef := Suc (nextRef r)\<rparr>) = (err, rec', s)"
  shows "reg_inv (s\<lparr>registering := rec' # registering s\<rparr>)" and "reg_inv (s\<lparr>shutting := rec' # shutting s\<rparr>)"
proof -
  note n = registerPrepare_new [OF new]
  have wf: "pool_wf (udpPorts r)" "pool_wf (tcpPorts r)" using inv by (simp_all add: reg_inv_def)
  have wf': "pool_wf (udpPorts (r\<lparr>nextRef := Suc (nextRef r)\<rparr>))" "pool_wf (tcpPorts (r\<lparr>nextRef := Suc (nextRef r)\<rparr>))"
    using wf by simp_all
  have "datagram rec = None" "tcpPort rec = 0" using n by simp_all
  note q = registerPorts_ok [OF wf' rp this]
  have ports: "pool_wf (udpPorts s)" "pool_wf (tcpPorts s)"
    "\<And>x p. x \<noteq> ref rec \<Longrightarrow> holder (udpPorts r) p = Some x \<Longrightarrow> holder (udpPorts s) p = Some x"
    "\<And>x p. x \<noteq> ref rec \<Longrightarrow> holder (tcpPorts r) p = Some x \<Longrightarrow> holder (tcpPorts s) p = Some x"
    using q by simp_all
  have p: "records s = records r" "registering s = registering r" "shutting s = shutting r" "nextRef s = Suc (nextRef r)"
    "blocked s = blocked r" "ref rec' = nextRef r" using q n by simp_all
  have nl: "new_lease s rec'" using q n unfolding new_lease_def quiet_def isChallenge_def by simp
  have old: "ref x \<noteq> ref rec" if "x \<in> set (allRecs r)" for x
    using inv that n by (auto simp: reg_inv_def refs_inv_def)
  have s: "reg_inv s"
  proof (rule reg_inv_ports [OF inv ports(1,2)])
    fix x q
    assume "x \<in> set (records r @ registering r)"
    then have "ref x \<noteq> ref rec" using old by (auto simp: allRecs_def)
    then show "holder (udpPorts r) q = Some (ref x) \<Longrightarrow> holder (udpPorts s) q = Some (ref x)"
      "holder (tcpPorts r) q = Some (ref x) \<Longrightarrow> holder (tcpPorts s) q = Some (ref x)" using ports(3,4) by blast+
  qed (simp_all add: p)
  have "allRecs s = allRecs r" by (simp add: allRecs_def p)
  then have fresh: "nextRef r \<notin> ref ` set (allRecs s)" using old n by fastforce
  show "reg_inv (s\<lparr>registering := rec' # registering s\<rparr>)" "reg_inv (s\<lparr>shutting := rec' # shutting s\<rparr>)"
    using reg_inv_add [OF s _ _ fresh, of rec'] nl p by simp_all
qed

text \<open>What the scan has established when it returns.\<close>

definition usesUDP :: "go_time \<Rightarrow> ServiceIdentityKey \<Rightarrow> leaseRecord \<Rightarrow> bool" where
  "usesUDP now key e \<longleftrightarrow> \<not> isExpired now e \<and> recKey e \<noteq> key \<and> datagram e \<noteq> None"

definition usesTCP :: "go_time \<Rightarrow> ServiceIdentityKey \<Rightarrow> leaseRecord \<Rightarrow> bool" where
  "usesTCP now key e \<longleftrightarrow> \<not> isExpired now e \<and> recKey e \<noteq> key \<and> tcpPort e > 0"

definition rival :: "go_time \<Rightarrow> ServiceIdentityKey \<Rightarrow> leaseRecord \<Rightarrow> bool" where
  "rival now key e \<longleftrightarrow> \<not> isExpired now e \<and> isPublicEntry e \<and> recKey e \<noteq> key"

lemma registerScan_Cons:
  assumes "registerScan now key c fb i st (e # es) = Inr st'"
  shows "\<exists>st1. registerScan now key c fb (i + 1) st1 es = Inr st'
     \<and> sc_replaced st1 = (if sc_replaced st = None \<and> isLease e \<and> recKey e = key then Some i else sc_replaced st)
     \<and> (sc_hostname st1 = sc_hostname st \<or> sc_hostname st1 = '''')
     \<and> sc_udp st1 = sc_udp st + (if usesUDP now key e then 1 else 0)
     \<and> sc_tcp st1 = sc_tcp st + (if usesTCP now key e then 1 else 0)
     \<and> (rival now key e \<longrightarrow> CanonicalHostname e \<noteq> c \<and> (Hostname e = '''' \<or> Hostname e \<noteq> sc_hostname st1))"
proof -
  define st0 where "st0 = (if sc_replaced st = None \<and> isLease e \<and> recKey e = key then st\<lparr>sc_replaced := Some i\<rparr> else st)"
  define st2 where "st2 = (if recKey e \<noteq> key then
                    st0\<lparr>sc_udp := sc_udp st0 + (if datagram e \<noteq> None then 1 else 0),
                       sc_tcp := sc_tcp st0 + (if tcpPort e > 0 then 1 else 0)\<rparr> else st0)"
  have st0: "sc_replaced st0 = (if sc_replaced st = None \<and> isLease e \<and> recKey e = key then Some i else sc_replaced st)"
    "sc_hostname st0 = sc_hostname st" "sc_udp st0 = sc_udp st" "sc_tcp st0 = sc_tcp st" by (simp_all add: st0_def)
  have st2: "sc_replaced st2 = sc_replaced st0" "sc_hostname st2 = sc_hostname st"
    "\<not> isExpired now e \<Longrightarrow> sc_udp st2 = sc_udp st + (if usesUDP now key e then 1 else 0)"
    "\<not> isExpired now e \<Longrightarrow> sc_tcp st2 = sc_tcp st + (if usesTCP now key e then 1 else 0)"
    by (simp_all add: st2_def st0 usesUDP_def usesTCP_def)
  have eq: "registerScan now key c fb i st (e # es) =
      (if isExpired now e then registerScan now key c fb (i + 1) st0 es
       else if isPublicEntry e \<and> recKey e \<noteq> key then
          if CanonicalHostname e = c then Inl errHostnameConflict
          else if Hostname e \<noteq> '''' \<and> Hostname e = sc_hostname st2 then
            if \<not> fb then Inl errHostnameConflict
            else registerScan now key c fb (i + 1) (st2\<lparr>sc_hostname := ''''\<rparr>) es
          else registerScan now key c fb (i + 1) st2 es
        else registerScan now key c fb (i + 1) st2 es)"
    unfolding st2_def st0_def by (simp only: registerScan.simps Let_def)
  consider "isExpired now e" | "\<not> isExpired now e" "\<not> rival now key e" | "rival now key e" "Hostname e \<noteq> ''''" "Hostname e = sc_hostname st2"
    | "rival now key e" "Hostname e = '''' \<or> Hostname e \<noteq> sc_hostname st2" unfolding rival_def by blast
  then show ?thesis
  proof cases
    case 1
    with assms eq have "registerScan now key c fb (i + 1) st0 es = Inr st'" by simp
    with 1 show ?thesis by (intro exI [of _ st0]) (simp add: st0 rival_def usesUDP_def usesTCP_def)
  next
    case 2
    with assms eq have "registerScan now key c fb (i + 1) st2 es = Inr st'" by (simp add: rival_def split: if_splits)
    with 2 show ?thesis by (intro exI [of _ st2]) (simp add: st0 st2)
  next
    case 3
    with assms eq have "registerScan now key c fb (i + 1) (st2\<lparr>sc_hostname := ''''\<rparr>) es = Inr st'" "CanonicalHostname e \<noteq> c"
      by (auto simp: rival_def split: if_splits)
    with 3 show ?thesis by (intro exI [of _ "st2\<lparr>sc_hostname := ''''\<rparr>"]) (simp add: st0 st2 rival_def)
  next
    case 4
    with assms eq have "registerScan now key c fb (i + 1) st2 es = Inr st'" "CanonicalHostname e \<noteq> c"
      by (auto simp: rival_def split: if_splits)
    with 4 show ?thesis by (intro exI [of _ st2]) (simp add: st0 st2 rival_def)
  qed
qed

lemma registerScan_hostname: "registerScan now key c fb i st es = Inr st' \<Longrightarrow> sc_hostname st' = sc_hostname st \<or> sc_hostname st' = ''''"
proof (induction es arbitrary: i st)
  case (Cons e es)
  from registerScan_Cons [OF Cons.prems] show ?case by (metis Cons.IH)
qed simp

lemma registerScan_counts:
  "registerScan now key c fb i st es = Inr st' \<Longrightarrow>
     sc_udp st' = sc_udp st + length (filter (usesUDP now key) es) \<and> sc_tcp st' = sc_tcp st + length (filter (usesTCP now key) es)"
proof (induction es arbitrary: i st)
  case (Cons e es)
  from registerScan_Cons [OF Cons.prems] obtain st1 where "registerScan now key c fb (i + 1) st1 es = Inr st'"
    and "sc_udp st1 = sc_udp st + (if usesUDP now key e then 1 else 0)" "sc_tcp st1 = sc_tcp st + (if usesTCP now key e then 1 else 0)" by blast
  with Cons.IH show ?case by fastforce
qed simp

lemma registerScan_free:
  "registerScan now key c fb i st es = Inr st' \<Longrightarrow> e \<in> set es \<Longrightarrow> rival now key e \<Longrightarrow>
     CanonicalHostname e \<noteq> c \<and> (Hostname e = '''' \<or> Hostname e \<noteq> sc_hostname st')"
proof (induction es arbitrary: i st)
  case (Cons x es)
  from registerScan_Cons [OF Cons.prems(1)] obtain st1 where st1: "registerScan now key c fb (i + 1) st1 es = Inr st'"
    and x: "rival now key x \<longrightarrow> CanonicalHostname x \<noteq> c \<and> (Hostname x = '''' \<or> Hostname x \<noteq> sc_hostname st1)" by blast
  show ?case using Cons.IH [OF st1] Cons.prems(2,3) x registerScan_hostname [OF st1] by auto
qed simp

lemma registerScan_replaced:
  "registerScan now key c fb i st es = Inr st' \<Longrightarrow>
     (case sc_replaced st of
        Some j \<Rightarrow> sc_replaced st' = Some j
      | None \<Rightarrow> (case sc_replaced st' of
            None \<Rightarrow> \<forall>e \<in> set es. \<not> (isLease e \<and> recKey e = key)
          | Some j \<Rightarrow> i \<le> j \<and> j < i + length es \<and> isLease (es ! (j - i)) \<and> recKey (es ! (j - i)) = key))"
proof (induction es arbitrary: i st)
  case (Cons x es)
  from registerScan_Cons [OF Cons.prems(1)] obtain st1 where st1: "registerScan now key c fb (i + 1) st1 es = Inr st'"
    and x: "sc_replaced st1 = (if sc_replaced st = None \<and> isLease x \<and> recKey x = key then Some i else sc_replaced st)" by blast
  show ?case
  proof (cases "sc_replaced st1")
    case None
    then have n: "sc_replaced st = None" "\<not> (isLease x \<and> recKey x = key)" using x by (auto split: if_splits)
    with Cons.IH [OF st1] None show ?thesis
      by (cases "sc_replaced st'") (auto simp: nth_Cons' diff_diff_left)
  next
    case (Some j)
    with Cons.IH [OF st1] x show ?thesis by (auto split: if_splits option.splits)
  qed
qed (simp split: option.splits)

text \<open>The loop that drops stale entries of the identity finds none: a public entry is always a lease.\<close>

lemma registerAdmit_ok:
  assumes inv: "reg_inv r" and admit: "registerAdmit req now rec r = (Inr (rec', replaced), s)"
  obtains st where
    "registerScan now (recKey rec) (CanonicalHostname rec) (AllowCanonicalFallback req) 0
       \<lparr>sc_replaced = None, sc_udp = 0, sc_tcp = 0, sc_hostname = Hostname rec\<rparr> (records r) = Inr st"
    "rec' = rec\<lparr>Hostname := sc_hostname st\<rparr>" "replaced = map_option (\<lambda>i. records r ! i) (sc_replaced st)"
    "records s = (case sc_replaced st of Some i \<Rightarrow> (records r)[i := rec'] | None \<Rightarrow> records r @ [rec'])"
    "udpPorts s = udpPorts r" "tcpPorts s = tcpPorts r" "blocked s = blocked r" "nextRef s = nextRef r"
    "registering s = registering r" "shutting s = shutting r" "accessRevision s = accessRevision r"
    "datagram rec \<noteq> None \<and> udpMaxLeases r > 0 \<longrightarrow> int (sc_udp st) < udpMaxLeases r"
    "tcpPort rec > 0 \<and> tcpMaxLeases r > 0 \<longrightarrow> int (sc_tcp st) < tcpMaxLeases r"
proof -
  have none: "sweep (\<lambda>e. reverse e = None \<and> isPublicEntry e \<and> recKey e = k \<and> CanonicalHostname e = c) reset now 0 r = ([], r)" for k c reset
    by (rule sweep_none) (use inv in \<open>auto simp: reg_inv_def rec_ok_def shape_def isPublicEntry_def\<close>)
  from admit obtain st where st: "registerScan now (recKey rec) (CanonicalHostname rec) (AllowCanonicalFallback req) 0
       \<lparr>sc_replaced = None, sc_udp = 0, sc_tcp = 0, sc_hostname = Hostname rec\<rparr> (records r) = Inr st"
    by (auto simp: registerAdmit_def Let_def split: sum.splits)
  let ?rec = "rec\<lparr>Hostname := sc_hostname st\<rparr>"
  let ?r = "r\<lparr>rg_cache := map_option (Register_Cache (cacheLease ?rec) req) (rg_cache r)\<rparr>"
  have a: "\<not> (datagram rec \<noteq> None \<and> udpMaxLeases r > 0 \<and> int (sc_udp st) \<ge> udpMaxLeases r)"
    "\<not> (tcpPort rec > 0 \<and> tcpMaxLeases r > 0 \<and> int (sc_tcp st) \<ge> tcpMaxLeases r)"
    "rec' = ?rec" "replaced = map_option (\<lambda>i. records r ! i) (sc_replaced st)"
    "s = (case sc_replaced st of
            Some i \<Rightarrow> (resetLimiter (recKey rec) ?r)\<lparr>records := (records ?r)[i := ?rec]\<rparr>
          | None \<Rightarrow> ?r\<lparr>records := records ?r @ [?rec]\<rparr>)"
    using admit by (simp_all add: registerAdmit_def Let_def st none split: if_splits)
  show thesis
    by (rule that [OF st]) (use a(1,2) in \<open>auto simp add: a(3-5) not_le split: option.split\<close>)
qed

lemma filter_list_update: "i < length xs \<Longrightarrow> \<not> P (xs ! i) \<Longrightarrow> \<not> P y \<Longrightarrow> filter P (xs[i := y]) = filter P xs"
proof (induction xs arbitrary: i)
  case (Cons x xs)
  then show ?case by (cases i) auto
qed simp

lemma map_filter_list_update:
  "i < length xs \<Longrightarrow> P (xs ! i) \<Longrightarrow> P y \<Longrightarrow> f y = f (xs ! i) \<Longrightarrow> map f (filter P (xs[i := y])) = map f (filter P xs)"
proof (induction xs arbitrary: i)
  case (Cons x xs)
  then show ?case by (cases i) auto
qed simp

lemma new_lease_rec_ok: "new_lease r rec \<Longrightarrow> rec_ok r rec"
  by (simp add: new_lease_def rec_ok_def shape_def)

lemma refs_inv_cong:
  assumes eq: "mset (map ref (allRecs s)) = mset (map ref (allRecs r))" and "nextRef s = nextRef r" and "refs_inv r"
  shows "refs_inv s"
proof -
  have alt: "refs_inv q \<longleftrightarrow> distinct (map ref (allRecs q)) \<and> (\<forall>x \<in> set (map ref (allRecs q)). x < nextRef q)" for q
    by (simp add: refs_inv_def)
  show ?thesis using assms mset_eq_setD [OF eq] mset_eq_imp_distinct_iff [OF eq] unfolding alt by simp
qed

lemma reg_inv_admit:
  assumes inv: "reg_inv r" and rec: "rec \<in> set (registering r)"
    and admit: "registerAdmit req now rec r = (Inr (rec', replaced), s)"
  shows "reg_inv (s\<lparr>registering := remove1 rec (registering r), shutting := shutting r @ (case replaced of None \<Rightarrow> [] | Some old \<Rightarrow> [old])\<rparr>)"
    (is "reg_inv ?s")
proof (rule registerAdmit_ok [OF inv admit])
  fix st
  assume st: "registerScan now (recKey rec) (CanonicalHostname rec) (AllowCanonicalFallback req) 0
       \<lparr>sc_replaced = None, sc_udp = 0, sc_tcp = 0, sc_hostname = Hostname rec\<rparr> (records r) = Inr st"
    and rec': "rec' = rec\<lparr>Hostname := sc_hostname st\<rparr>" and replaced: "replaced = map_option (\<lambda>i. records r ! i) (sc_replaced st)"
    and recs: "records s = (case sc_replaced st of Some i \<Rightarrow> (records r)[i := rec'] | None \<Rightarrow> records r @ [rec'])"
    and frame: "udpPorts s = udpPorts r" "tcpPorts s = tcpPorts r" "blocked s = blocked r" "nextRef s = nextRef r"
      "registering s = registering r" "shutting s = shutting r"
  have nl: "new_lease r rec" using inv rec by (simp add: reg_inv_def)
  then have nl': "new_lease r rec'" by (simp add: rec' new_lease_def quiet_def owns_def isChallenge_def)
  have hit: "i < length (records r) \<and> isLease (records r ! i) \<and> recKey (records r ! i) = recKey rec" if "sc_replaced st = Some i" for i
    using registerScan_replaced [OF st] that by simp
  have miss: "\<forall>e \<in> set (records r). \<not> (isLease e \<and> recKey e = recKey rec)" if "sc_replaced st = None"
    using registerScan_replaced [OF st] that by simp
  have bal: "mset (records s) + mset (case replaced of None \<Rightarrow> [] | Some old \<Rightarrow> [old]) = add_mset rec' (mset (records r))"
    using hit by (cases "sc_replaced st") (auto simp: recs replaced mset_update)
  have "mset (map ref (allRecs ?s)) = mset (map ref (allRecs r))"
  proof -
    have "mset (allRecs ?s) = add_mset rec' (mset (records r) + mset (remove1 rec (registering r)) + mset (shutting r))"
      using bal by (simp add: allRecs_def frame ac_simps)
    moreover have "mset (allRecs r) = add_mset rec (mset (records r) + mset (remove1 rec (registering r)) + mset (shutting r))"
      using rec by (simp add: allRecs_def)
    ultimately show ?thesis by (simp add: rec')
  qed
  then have refs: "refs_inv ?s"
    by (rule refs_inv_cong) (use inv frame in \<open>simp_all add: reg_inv_def\<close>)
  have isl: "isLease rec'" "recKey rec' = recKey rec" "\<not> isChallenge rec'" using nl by (simp_all add: rec' new_lease_def isChallenge_def)
  have keys: "keys_inv ?s"
  proof (cases "sc_replaced st")
    case None
    then have "recKey rec \<notin> recKey ` set (filter isLease (records r))" using miss by auto
    with None inv isl show ?thesis by (simp add: keys_inv_def recs reg_inv_def)
  next
    case (Some i)
    with hit [OF Some] inv isl show ?thesis
      using map_filter_list_update [of i "records r" isLease rec' recKey] by (simp add: keys_inv_def recs reg_inv_def)
  qed
  have ch: "filter P (records s) = filter P (records r)" if "\<And>x. P x \<Longrightarrow> isChallenge x" for P
  proof (cases "sc_replaced st")
    case None
    with that isl show ?thesis by (auto simp: recs)
  next
    case (Some i)
    have "\<not> isChallenge (records r ! i)" using hit [OF Some] inv by (auto simp: reg_inv_def rec_ok_def shape_def)
    then show ?thesis using that isl hit [OF Some] filter_list_update [of i "records r" P rec'] Some by (auto simp: recs)
  qed
  have "challenge_inv ?s"
    using inv ch [of isChallenge] ch [of "challengesFrom x" for x] by (simp add: reg_inv_def challenge_inv_def challengesFrom_def)
  moreover have "set (records s) \<subseteq> insert rec' (set (records r))"
    by (auto simp: recs split: option.splits dest: set_update_subset_insert [THEN subsetD])
  then have "\<forall>x \<in> set (records ?s). rec_ok ?s x"
    using inv new_lease_rec_ok [OF nl'] by (auto simp: reg_inv_def rec_ok_def owns_def frame)
  moreover have "\<forall>x \<in> set (registering ?s). new_lease ?s x"
    using inv notin_set_remove1 by (fastforce simp: reg_inv_def new_lease_def owns_def frame)
  ultimately show ?thesis using inv refs keys by (simp add: reg_inv_def frame)
qed

end
