(* ===== verification/Lease_System.thy ===== *)
theory Lease_System
  imports Lease_Invariants
begin

text \<open>
  The lease registry as a system: \<open>reg_op\<close> lists every critical section that changes the registry
  or one of its records, \<open>reg_step\<close> is its effect, and a run is any sequence of them. Registrations
  appear as their four sections (ports, start, admission, undo), so runs interleave them with
  renewals, removals, expiry and access decisions in any order.
\<close>

section \<open>Sections and their effect\<close>

datatype pool_section =
    SecReserve "nat option" | SecCommit offerReservation | SecCancel offerReservation | SecAcquire | SecIdleFailed nat

fun pool_section_step :: "pool_section \<Rightarrow> ReversePool \<Rightarrow> ReversePool" where
  "pool_section_step (SecReserve c) p = snd (ReserveOffer c p)"
| "pool_section_step (SecCommit v) p = snd (snd (CommitOffer v p))"
| "pool_section_step (SecCancel v) p = snd (CancelOffer v p)"
| "pool_section_step SecAcquire p = snd (AcquireSection p)"
| "pool_section_step (SecIdleFailed c) p = keepIdleFailed c p"

datatype reg_op =
    RegBegin relay_env RegisterChallengeRequest netip_addr string "string option" string string go_time go_time go_time
  | RegStart nat "string + nat" "string + nat"
  | RegAdmit nat RegisterChallengeRequest go_time
  | RegEndpoint relay_env "string + ReverseEndpoint option" string string go_time go_time reverseEndpointInput
  | RegUndo nat go_time
  | CloseRec leaseRecord go_time go_time
  | RollbackRec leaseRecord go_time
  | RenewLease relay_env "nat \<Rightarrow> go_time" string RenewRequest netip_addr "string option"
  | UnregisterLease relay_env string go_time go_time
  | TouchLease ServiceIdentityKey netip_addr go_time
  | CleanupLeases go_time go_time
  | IssueChallenge relay_env string string go_time go_time RegisterChallengeRequest string string netip_addr
  | ConsumeChallenge relay_env RegisterRequest go_time go_time
  | RefuseChallenge ServiceIdentityKey string netip_addr go_time go_time
  | PushAccess ServiceIdentityKey LeaseAccess "64 word" go_time
  | SuspendIdentity ServiceIdentityKey go_time
  | AdmitBridge nat bool "leaseRecord option" nat go_time
  | ActivateBridge leaseRecord nat nat go_time
  | ReleaseBridge nat leaseBridge
  | AttachMux nat nat
  | DetachMux nat nat
  | PoolSection nat pool_section
  | DatagramOp nat relay_op
  | CloseEverything
  | SetUDPPolicy bool int
  | SetTCPPolicy bool int

definition heldRecord :: "nat \<Rightarrow> leaseRecord list \<Rightarrow> leaseRecord option" where
  "heldRecord x recs = find (\<lambda>rec. ref rec = x) recs"

definition isLive :: "leaseRecord \<Rightarrow> leaseRegistry \<Rightarrow> bool" where
  "isLive rec r \<longleftrightarrow> ref rec \<in> ref ` set (records r @ registering r)"

fun reg_step :: "reg_op \<Rightarrow> leaseRegistry \<Rightarrow> leaseRegistry" where
  "reg_step (RegBegin env req source ip served leaseID tokenID t1 t2 t3) r =
     (case registerPrepare env (nextRef r) req source ip served leaseID tokenID t1 t2 r of
        Inl e \<Rightarrow> r
      | Inr (rec, token) \<Rightarrow>
          (case registerPorts req t3 rec (r\<lparr>nextRef := Suc (nextRef r)\<rparr>) of
             (Some e, rec', s) \<Rightarrow> s\<lparr>shutting := rec' # shutting s\<rparr>
           | (None, rec', s) \<Rightarrow> s\<lparr>registering := rec' # registering s\<rparr>))"
| "reg_step (RegStart x udp tcp) r =
     (case heldRecord x (registering r) of
        None \<Rightarrow> r
      | Some rec \<Rightarrow>
          (case Start_leaseRecord udp tcp rec of
             (Some e, rec') \<Rightarrow> r\<lparr>registering := remove1 rec (registering r), shutting := rec' # shutting r\<rparr>
           | (None, rec') \<Rightarrow> r\<lparr>registering := rec' # remove1 rec (registering r)\<rparr>))"
| "reg_step (RegAdmit x req now) r =
     (case heldRecord x (registering r) of
        None \<Rightarrow> r
      | Some rec \<Rightarrow>
          (case registerAdmit req now rec r of
             (Inl e, s) \<Rightarrow> s\<lparr>registering := remove1 rec (registering s), shutting := rec # shutting s\<rparr>
           | (Inr (rec', replaced), s) \<Rightarrow>
               (case replaced of
                  None \<Rightarrow> s\<lparr>registering := remove1 rec (registering s)\<rparr>
                | Some old \<Rightarrow> ForgetLease (lr_id old)
                    (s\<lparr>registering := remove1 rec (registering s), shutting := shutting s @ [old]\<rparr>))))"
| "reg_step (RegEndpoint env answer self tokenID t1 t2 inp) r = snd (issueReverseEndpoint env answer self tokenID t1 t2 inp r)"
| "reg_step (RegUndo x now) r =
     (case heldRecord x (records r) of
        None \<Rightarrow> r
      | Some rec \<Rightarrow> (let s = registerUndo now rec r in s\<lparr>shutting := shutting s @ [rec]\<rparr>))"
| "reg_step (CloseRec rec t1 t2) r = (if isLive rec r then r else closeRecord rec t1 t2 r)"
| "reg_step (RollbackRec rec now) r = (if isLive rec r then r else rollbackRecord rec now r)"
| "reg_step (RenewLease env clock tokenID req source current) r = snd (Renew env clock tokenID req source current r)"
| "reg_step (UnregisterLease env token t1 t2) r = snd (UnregisterLocked env token t1 t2 r)"
| "reg_step (TouchLease key source now) r = Touch key source now r"
| "reg_step (CleanupLeases now wall) r = snd (cleanupExpiredLocked now wall r)"
| "reg_step (IssueChallenge env cid nonce now wall req domain uri source) r =
     snd (issueRegisterChallenge env cid nonce now wall req domain uri source r)"
| "reg_step (ConsumeChallenge env req now wall) r = snd (consumeVerifiedRegisterChallenge env req now wall r)"
| "reg_step (RefuseChallenge key cid source now wall) r = snd (refuseChallengeOverBudget key cid source now wall r)"
| "reg_step (PushAccess key access revn now) r = snd (snd (setIdentityAccess key access revn now r))"
| "reg_step (SuspendIdentity key now) r = suspendIdentity key now r"
| "reg_step (AdmitBridge fresh ctxErr held inbound now) r = snd (admitBridge fresh ctxErr held inbound now r)"
| "reg_step (ActivateBridge held b conn now) r = snd (activateBridge held b conn now r)"
| "reg_step (ReleaseBridge x b) r = updRecord x (\<lambda>rec. snd (releaseBridge b rec)) r"
| "reg_step (AttachMux x m) r = updRecord x (\<lambda>rec. snd (attachReverseMux m rec)) r"
| "reg_step (DetachMux x m) r = updRecord x (detachReverseMux m) r"
| "reg_step (PoolSection x sec) r = updRecord x (\<lambda>rec. rec\<lparr>reverse := map_option (pool_section_step sec) (reverse rec)\<rparr>) r"
| "reg_step (DatagramOp x op) r =
     (case op of
        OpSetEnabled b \<Rightarrow> r
      | _ \<Rightarrow> updRecord x (\<lambda>rec. rec\<lparr>datagram := map_option (relay_step op) (datagram rec)\<rparr>) r)"
| "reg_step CloseEverything r = snd (CloseAllLocked r)"
| "reg_step (SetUDPPolicy on m) r = setUDPPolicy on m r"
| "reg_step (SetTCPPolicy on m) r = setTCPPortPolicy on m r"

section \<open>Every section keeps the invariant\<close>

subsection \<open>Changes in place\<close>

text \<open>Two versions of a record that the invariant does not tell apart.\<close>

definition sameCore :: "leaseRecord \<Rightarrow> leaseRecord \<Rightarrow> bool" where
  "sameCore a b \<longleftrightarrow> ref a = ref b \<and> lr_Identity a = lr_Identity b \<and> (reverse a = None \<longleftrightarrow> reverse b = None)
     \<and> registerChallenge a = registerChallenge b \<and> CanonicalHostname a = CanonicalHostname b
     \<and> map_option enabled (datagram a) = map_option enabled (datagram b)
     \<and> map_option rd_port (datagram a) = map_option rd_port (datagram b) \<and> tcpPort a = tcpPort b
     \<and> (isChallenge a \<longrightarrow> sourceAddr a = sourceAddr b)"

lemma sameCore_refl [simp]: "sameCore a a"
  by (simp add: sameCore_def)

lemma sameCore_rec_ok:
  assumes "sameCore a b" and "rec_ok r b" and "length (bridges a) \<le> defaultLeaseBridgeLimit"
    and "isChallenge b \<Longrightarrow> bridges a = []" and "has_key (blocked r) (recKey b) \<Longrightarrow> \<forall>x \<in> set (bridges a). canceled x"
  shows "rec_ok r a"
proof -
  have d: "(\<forall>d. datagram a = Some d \<longrightarrow> Q (enabled d) (rd_port d)) \<longleftrightarrow> (\<forall>d. datagram b = Some d \<longrightarrow> Q (enabled d) (rd_port d))" for Q
    using assms(1) by (cases "datagram a"; cases "datagram b") (auto simp: sameCore_def)
  have "datagram a = None \<longleftrightarrow> datagram b = None" using assms(1) by (cases "datagram a"; cases "datagram b") (auto simp: sameCore_def)
  then show ?thesis
    using assms d [of "\<lambda>e p. \<not> e"] d [of "\<lambda>e p. holder (udpPorts r) p = Some (ref b)"]
    unfolding rec_ok_def shape_def quiet_def owns_def sameCore_def isChallenge_def by auto
qed

lemma reg_inv_upd:
  assumes inv: "reg_inv r"
    and f: "\<And>rec. rec \<in> set (records r) \<Longrightarrow> ref rec = x \<Longrightarrow> sameCore (f rec) rec \<and> rec_ok r (f rec)"
  shows "reg_inv (updRecord x f r)"
proof (rule reg_inv_map [OF inv, of _ "\<lambda>rec. if ref rec = x then f rec else rec"])
  fix rec
  assume rec: "rec \<in> set (records r)"
  then have "rec_ok r rec" using inv by (simp add: reg_inv_def)
  then show "ref (if ref rec = x then f rec else rec) = ref rec
      \<and> recKey (if ref rec = x then f rec else rec) = recKey rec
      \<and> (isLease (if ref rec = x then f rec else rec) \<longleftrightarrow> isLease rec)
      \<and> (isChallenge (if ref rec = x then f rec else rec) \<longleftrightarrow> isChallenge rec)
      \<and> (isChallenge rec \<longrightarrow> sourceAddr (if ref rec = x then f rec else rec) = sourceAddr rec)
      \<and> rec_ok (updRecord x f r) (if ref rec = x then f rec else rec)"
    using f [OF rec] by (auto simp: sameCore_def isChallenge_def rec_ok_def owns_def updRecord_def)
qed (use inv in \<open>simp_all add: updRecord_def reg_inv_def\<close>)

text \<open>The frequent case: the bridges stay too.\<close>

lemma reg_inv_upd_same:
  assumes inv: "reg_inv r" and f: "\<And>rec. rec \<in> set (records r) \<Longrightarrow> ref rec = x \<Longrightarrow> sameCore (f rec) rec \<and> bridges (f rec) = bridges rec"
  shows "reg_inv (updRecord x f r)"
proof (rule reg_inv_upd [OF inv])
  fix rec
  assume rec: "rec \<in> set (records r)" "ref rec = x"
  then have ok: "rec_ok r rec" using inv by (simp add: reg_inv_def)
  have "rec_ok r (f rec)"
    by (rule sameCore_rec_ok [OF _ ok]) (use f [OF rec] ok in \<open>auto simp: rec_ok_def shape_def quiet_def\<close>)
  then show "sameCore (f rec) rec \<and> rec_ok r (f rec)" using f [OF rec] by simp
qed

lemma reg_inv_frame:
  assumes "reg_inv r" and "records s = records r" "registering s = registering r" "shutting s = shutting r"
    "nextRef s = nextRef r" "blocked s = blocked r" "udpPorts s = udpPorts r" "tcpPorts s = tcpPorts r"
  shows "reg_inv s"
  by (rule reg_inv_ports [OF assms(1)]) (use assms in \<open>simp_all add: reg_inv_def\<close>)

lemma relay_section_keeps:
  "enabled (snd (Start_RelayDatagram l d)) = enabled d \<and> rd_port (snd (Start_RelayDatagram l d)) = rd_port d"
  "enabled (snd (Close_RelayDatagram d)) = enabled d \<and> rd_port (snd (Close_RelayDatagram d)) = rd_port d"
  "enabled (snd (BindBackhaul c supports d)) = enabled d \<and> rd_port (snd (BindBackhaul c supports d)) = rd_port d"
  "enabled (forgetFlow i d) = enabled d \<and> rd_port (forgetFlow i d) = rd_port d"
  "enabled (snd (dispatchSelect now f d)) = enabled d \<and> rd_port (snd (dispatchSelect now f d)) = rd_port d"
  "touchFlow a now allow d = Some (x, d') \<Longrightarrow> enabled d' = enabled d \<and> rd_port d' = rd_port d"
  "takeIncoming d = Some (y, d') \<Longrightarrow> enabled d' = enabled d \<and> rd_port d' = rd_port d"
        apply (simp add: Start_RelayDatagram_def split: sum.split)
       apply (simp add: Close_RelayDatagram_def split: prod.split)
      apply (simp add: BindBackhaul_def split: sum.split prod.split)
     apply (simp add: forgetFlow_def split: option.split)
    apply (simp add: dispatchSelect_def Let_def split: option.split)
   apply (auto simp: touchFlow_def Let_def split: option.splits if_splits)[1]
  apply (auto simp: takeIncoming_def split: list.splits)
  done

lemma expireIdle_keeps: "enabled (expireIdleFlows now d) = enabled d \<and> rd_port (expireIdleFlows now d) = rd_port d"
proof -
  have "enabled (fold (expireFlow now) es d) = enabled d \<and> rd_port (fold (expireFlow now) es d) = rd_port d" for es
    by (induction es arbitrary: d) (simp_all add: expireFlow_def)
  then show ?thesis by (simp add: expireIdleFlows_def)
qed

lemma relay_step_keeps:
  "(\<And>b. op \<noteq> OpSetEnabled b) \<Longrightarrow> enabled (relay_step op d) = enabled d \<and> rd_port (relay_step op d) = rd_port d"
proof (cases op)
  case (OpSetEnabled b)
  assume "\<And>b. op \<noteq> OpSetEnabled b"
  with OpSetEnabled show ?thesis by blast
qed (simp_all add: relay_section_keeps expireIdle_keeps split: option.split)

lemma heldRecord_in: "heldRecord x recs = Some rec \<Longrightarrow> rec \<in> set recs \<and> ref rec = x"
  unfolding heldRecord_def by (rule find_in_set)

subsection \<open>Registration\<close>

lemma Start_keeps:
  assumes "Start_leaseRecord udp tcp rec = (e, rec')"
  shows "sameCore rec' rec" and "bridges rec' = bridges rec"
proof -
  have "sameCore rec' rec \<and> bridges rec' = bridges rec"
  proof (cases "datagram rec")
    case None
    with assms show ?thesis
      by (auto simp: Start_leaseRecord_def sameCore_def isChallenge_def split: sum.splits if_splits)
  next
    case (Some d)
    obtain e1 d1 where st: "Start_RelayDatagram udp d = (e1, d1)" by force
    then have "enabled d1 = enabled d" "rd_port d1 = rd_port d" using relay_section_keeps(1) [of udp d] by simp_all
    with assms Some st show ?thesis
      by (auto simp: Start_leaseRecord_def sameCore_def isChallenge_def split: sum.splits if_splits option.splits)
  qed
  then show "sameCore rec' rec" "bridges rec' = bridges rec" by simp_all
qed

lemma sameCore_new_lease:
  assumes "sameCore a b" and "bridges a = []" and "new_lease r b"
  shows "new_lease r a"
proof -
  have d: "(\<forall>d. datagram a = Some d \<longrightarrow> Q (enabled d) (rd_port d)) \<longleftrightarrow> (\<forall>d. datagram b = Some d \<longrightarrow> Q (enabled d) (rd_port d))" for Q
    using assms(1) by (cases "datagram a"; cases "datagram b") (auto simp: sameCore_def)
  show ?thesis
    using assms d [of "\<lambda>e p. \<not> e"] d [of "\<lambda>e p. holder (udpPorts r) p = Some (ref b)"]
    unfolding new_lease_def quiet_def owns_def sameCore_def isChallenge_def by auto
qed

lemma reg_inv_take_registering:
  assumes inv: "reg_inv r" and rec: "rec \<in> set (registering r)" and same: "ref rec' = ref rec"
  shows "reg_inv (r\<lparr>registering := remove1 rec (registering r), shutting := rec' # shutting r\<rparr>)"
    and "new_lease r rec' \<Longrightarrow> reg_inv (r\<lparr>registering := rec' # remove1 rec (registering r)\<rparr>)"
proof -
  let ?r = "r\<lparr>registering := remove1 rec (registering r)\<rparr>"
  have all: "mset (allRecs r) = add_mset rec (mset (allRecs ?r))" using rec by (simp add: allRecs_def)
  have r: "reg_inv ?r"
    by (rule reg_inv_remove [OF inv]) (use inv all set_remove1_subset [of rec "registering r"] in \<open>auto simp: reg_inv_def\<close>)
  have "mset (map ref (allRecs r)) = add_mset (ref rec) (mset (map ref (allRecs ?r)))" using all by simp
  then have "ref rec \<notin> ref ` set (allRecs ?r)"
    using inv mset_eq_imp_distinct_iff [of "map ref (allRecs r)" "ref rec # map ref (allRecs ?r)"]
    by (simp add: reg_inv_def refs_inv_def)
  moreover have "ref rec < nextRef ?r" using inv rec by (auto simp: reg_inv_def refs_inv_def allRecs_def)
  ultimately have "new_lease ?r rec' \<Longrightarrow> reg_inv (?r\<lparr>registering := rec' # registering ?r\<rparr>)" "reg_inv (?r\<lparr>shutting := rec' # shutting ?r\<rparr>)"
    using reg_inv_add [OF r same] by blast+
  then show "reg_inv (r\<lparr>registering := remove1 rec (registering r), shutting := rec' # shutting r\<rparr>)"
    "new_lease r rec' \<Longrightarrow> reg_inv (r\<lparr>registering := rec' # remove1 rec (registering r)\<rparr>)"
    by (simp_all add: new_lease_def owns_def)
qed

lemma step_begin [inv_intros]: "reg_inv r \<Longrightarrow> reg_inv (reg_step (RegBegin env req source ip served leaseID tokenID t1 t2 t3) r)"
  by (auto split: sum.splits prod.splits option.splits intro: reg_inv_begin)

lemma step_start [inv_intros]:
  assumes inv: "reg_inv r"
  shows "reg_inv (reg_step (RegStart x udp tcp) r)"
proof (cases "heldRecord x (registering r)")
  case (Some rec)
  obtain e rec' where st: "Start_leaseRecord udp tcp rec = (e, rec')" by force
  have rec: "rec \<in> set (registering r)" using heldRecord_in [OF Some] by simp
  then have nl: "new_lease r rec" using inv by (simp add: reg_inv_def)
  have "ref rec' = ref rec" using Start_keeps(1) [OF st] by (simp add: sameCore_def)
  moreover have "new_lease r rec'" using sameCore_new_lease [OF Start_keeps(1) [OF st] _ nl] Start_keeps(2) [OF st] nl by (simp add: new_lease_def)
  ultimately show ?thesis using reg_inv_take_registering [OF inv rec] Some st by (cases e) simp_all
qed (use inv in simp)

lemma registerAdmit_err: "registerAdmit req now rec r = (Inl e, s) \<Longrightarrow> s = r"
  by (auto simp: registerAdmit_def Let_def split: sum.splits if_splits)

lemma step_admit [inv_intros]:
  assumes inv: "reg_inv r"
  shows "reg_inv (reg_step (RegAdmit x req now) r)"
proof (cases "heldRecord x (registering r)")
  case (Some rec)
  then have rec: "rec \<in> set (registering r)" using heldRecord_in by blast
  obtain res s where ad: "registerAdmit req now rec r = (res, s)" by force
  show ?thesis
  proof (cases res)
    case (Inl e)
    then show ?thesis using Some ad registerAdmit_err reg_inv_take_registering(1) [OF inv rec refl] by fastforce
  next
    case (Inr p)
    obtain rec' replaced where p: "p = (rec', replaced)" by force
    note a = reg_inv_admit [OF inv rec ad [unfolded Inr p]]
    from ad have same: "registering s = registering r" "shutting s = shutting r"
      using registerAdmit_ok [OF inv, of req now rec rec' replaced s] Inr p by (metis ad)+
    show ?thesis
    proof (cases replaced)
      case None
      have "reg_inv (s\<lparr>registering := remove1 rec (registering s)\<rparr>)"
        by (rule reg_inv_frame [OF a]) (simp_all add: same None)
      then show ?thesis using None Some ad Inr p by simp
    next
      case (Some old)
      have "reg_inv (ForgetLease (lr_id old) (s\<lparr>registering := remove1 rec (registering s), shutting := shutting s @ [old]\<rparr>))"
        by (rule reg_inv_frame [OF a]) (simp_all add: same Some)
      then show ?thesis using \<open>heldRecord x (registering r) = Some rec\<close> ad Inr p Some by simp
    qed
  qed
qed (use inv in simp)

lemma step_endpoint [inv_intros]: "reg_inv r \<Longrightarrow> reg_inv (reg_step (RegEndpoint env answer self tokenID t1 t2 inp) r)"
  by (rule reg_inv_frame [of r]) (auto simp: issueReverseEndpoint_def Let_def split: sum.splits)

lemma indexOf_held:
  assumes "reg_inv r" and "rec \<in> set (records r)"
  obtains i where "indexOf (ref rec) (records r) = Some i" "i < length (records r)" "records r ! i = rec"
proof -
  obtain j where "j < length (records r)" "records r ! j = rec" using assms(2) by (auto simp: in_set_conv_nth)
  then have "indexOf (ref rec) (records r) \<noteq> None" by (auto simp: indexOf_def find_None_iff)
  then obtain i where i: "indexOf (ref rec) (records r) = Some i" by auto
  with indexOf_Some [OF i] refs_distinct [OF assms(1) _ assms(2)] show thesis using that by (metis nth_mem)
qed

lemma step_undo [inv_intros]:
  assumes inv: "reg_inv r"
  shows "reg_inv (reg_step (RegUndo x now) r)"
proof (cases "heldRecord x (records r)")
  case (Some rec)
  then have "rec \<in> set (records r)" using heldRecord_in by blast
  from indexOf_held [OF inv this] obtain i where i: "indexOf (ref rec) (records r) = Some i" "i < length (records r)" "records r ! i = rec" .
  have "reg_inv ((deleteRecord now i r)\<lparr>shutting := shutting r @ [rec]\<rparr>)" using reg_inv_take_out [OF inv i(2), of now] i(3) by simp
  then show ?thesis
    by (rule reg_inv_frame) (use Some i in \<open>simp_all add: registerUndo_def Let_def\<close>)
qed (use inv in simp)

subsection \<open>Closing\<close>

lemma Close_ref [simp]: "ref (Close_leaseRecord rec) = ref rec"
  by (cases "lr_closed rec") (simp_all add: Close_leaseRecord_open, simp add: Close_leaseRecord_def)

lemma releasePorts_keeps:
  assumes "pool_wf (udpPorts r)" "pool_wf (tcpPorts r)"
  shows "pool_wf (udpPorts (releasePorts rec t1 t2 r)) \<and> pool_wf (tcpPorts (releasePorts rec t1 t2 r))
     \<and> (\<forall>x p. x \<noteq> ref rec \<longrightarrow> holder (udpPorts r) p = Some x \<longrightarrow> holder (udpPorts (releasePorts rec t1 t2 r)) p = Some x)
     \<and> (\<forall>x p. x \<noteq> ref rec \<longrightarrow> holder (tcpPorts r) p = Some x \<longrightarrow> holder (tcpPorts (releasePorts rec t1 t2 r)) p = Some x)"
  using assms by (auto simp: releasePorts_def Let_def pp.wf_retire pp.retire_keeps split: option.splits)

lemma rollbackPorts_keeps:
  assumes "pool_wf (udpPorts r)" "pool_wf (tcpPorts r)"
  shows "pool_wf (udpPorts (rollbackPorts rec t r)) \<and> pool_wf (tcpPorts (rollbackPorts rec t r))
     \<and> (\<forall>x p. x \<noteq> ref rec \<longrightarrow> holder (udpPorts r) p = Some x \<longrightarrow> holder (udpPorts (rollbackPorts rec t r)) p = Some x)
     \<and> (\<forall>x p. x \<noteq> ref rec \<longrightarrow> holder (tcpPorts r) p = Some x \<longrightarrow> holder (tcpPorts (rollbackPorts rec t r)) p = Some x)"
  using assms by (auto simp: rollbackPorts_def Let_def pp.wf_give_back pp.give_back_keeps split: option.splits)

lemma closing_frame [simp]:
  "records (releasePorts rec t1 t2 r) = records r" "registering (releasePorts rec t1 t2 r) = registering r"
  "shutting (releasePorts rec t1 t2 r) = shutting r" "nextRef (releasePorts rec t1 t2 r) = nextRef r" "blocked (releasePorts rec t1 t2 r) = blocked r"
  "records (rollbackPorts rec t r) = records r" "registering (rollbackPorts rec t r) = registering r"
  "shutting (rollbackPorts rec t r) = shutting r" "nextRef (rollbackPorts rec t r) = nextRef r" "blocked (rollbackPorts rec t r) = blocked r"
  "accessRevision (releasePorts rec t1 t2 r) = accessRevision r" "accessRevision (rollbackPorts rec t r) = accessRevision r"
  by (simp_all add: releasePorts_def rollbackPorts_def Let_def split: option.split)

lemma reg_inv_give_ports:
  assumes inv: "reg_inv r" and gone: "\<not> isLive rec r" and wf: "pool_wf (udpPorts s)" "pool_wf (tcpPorts s)"
    and k: "\<And>x p. x \<noteq> ref rec \<Longrightarrow> holder (udpPorts r) p = Some x \<Longrightarrow> holder (udpPorts s) p = Some x"
      "\<And>x p. x \<noteq> ref rec \<Longrightarrow> holder (tcpPorts r) p = Some x \<Longrightarrow> holder (tcpPorts s) p = Some x"
    and same: "records s = records r" "registering s = registering r" "shutting s = shutting r" "nextRef s = nextRef r" "blocked s = blocked r"
  shows "reg_inv (dropShutting rec s)"
proof (rule reg_inv_ports [OF inv])
  fix y p
  assume "y \<in> set (records r @ registering r)"
  then have y: "ref y \<noteq> ref rec" using gone unfolding isLive_def by (metis image_eqI)
  show "holder (udpPorts r) p = Some (ref y) \<Longrightarrow> holder (udpPorts (dropShutting rec s)) p = Some (ref y)"
    "holder (tcpPorts r) p = Some (ref y) \<Longrightarrow> holder (tcpPorts (dropShutting rec s)) p = Some (ref y)"
    using k [OF y] by (simp_all add: dropShutting_def)
qed (use wf same in \<open>simp_all add: dropShutting_def multiset_filter_subset\<close>)

lemma step_close [inv_intros]: "reg_inv r \<Longrightarrow> reg_inv (reg_step (CloseRec rec t1 t2) r)"
  using releasePorts_keeps [of r "Close_leaseRecord rec" t1 t2] reg_inv_give_ports [of r rec "releasePorts (Close_leaseRecord rec) t1 t2 r"]
  by (simp add: closeRecord_def reg_inv_def)

lemma step_rollback [inv_intros]: "reg_inv r \<Longrightarrow> reg_inv (reg_step (RollbackRec rec t) r)"
  using rollbackPorts_keeps [of r "Close_leaseRecord rec" t] reg_inv_give_ports [of r rec "rollbackPorts (Close_leaseRecord rec) t r"]
  by (simp add: rollbackRecord_def reg_inv_def)

subsection \<open>Renewal, removal and expiry\<close>

lemma recordByKey_in: "recordByKey key now r = Some rec \<Longrightarrow> rec \<in> set (records r) \<and> isLease rec \<and> \<not> isExpired now rec \<and> recKey rec = key"
  unfolding recordByKey_def by (drule find_in_set) simp

lemma recordForVerifiedLease_in:
  "recordForVerifiedLease key leaseID now r = Inr rec \<Longrightarrow>
     rec \<in> set (records r) \<and> isLease rec \<and> \<not> isExpired now rec \<and> recKey rec = key \<and> lr_id rec = leaseID"
  by (auto simp: recordForVerifiedLease_def split: option.splits if_splits dest: recordByKey_in)

lemma recordByLease_in:
  "recordByLease key leaseID now r = Some rec \<Longrightarrow>
     rec \<in> set (records r) \<and> isLease rec \<and> \<not> isExpired now rec \<and> recKey rec = key \<and> lr_id rec = leaseID"
  by (auto simp: recordByLease_def split: option.splits if_splits dest: recordByKey_in)

lemma lease_not_challenge: "reg_inv r \<Longrightarrow> rec \<in> set (records r) \<Longrightarrow> isLease rec \<Longrightarrow> \<not> isChallenge rec"
  by (auto simp: reg_inv_def rec_ok_def shape_def)

lemma renewed_same:
  assumes "stalePin env root current rec = (st, rec1) \<or> rec1 = rec" and "\<not> isChallenge rec"
  shows "sameCore (renewRecord env req ttl source now rec1) rec \<and> bridges (renewRecord env req ttl source now rec1) = bridges rec"
  using assms
  by (auto simp: renewRecord_def stalePin_def sameCore_def isChallenge_def Let_def split: option.splits if_splits)

text \<open>What \<open>Renew\<close> may leave behind: nothing, or the one record renewed.\<close>

lemma Renew_cases:
  assumes rn: "Renew env clock tokenID req source current r = (res, s)"
  obtains (unchanged) e where "s = r" "res = Inl e"
    | (renewed) c rec rec1 ttl st where "accessClaims env (rn_AccessToken req) (clock 0) r = Inr c"
      "recordForVerifiedLease (ServiceKey (tc_Identity c)) (tc_LeaseID c) 0 r = Inr rec"
      "stalePin env (rootHostname r) current rec = (st, rec1) \<or> rec1 = rec" "requestedLeaseTTL (rn_TTL req) = Inr ttl"
      "s = (updRecord (ref rec) (\<lambda>_. renewRecord env req ttl source (clock 1) rec1) r)
              \<lparr>rg_cache := map_option (Renew_Cache (cacheLease (renewRecord env req ttl source (clock 1) rec1)) (clock 2)) (rg_cache r)\<rparr>"
      "\<And>expires out. res = Inr (expires, out) \<Longrightarrow> expires = truncate_second (clock 1 + ttl)"
proof (cases "\<exists>c ttl rec. accessClaims env (rn_AccessToken req) (clock 0) r = Inr c \<and> requestedLeaseTTL (rn_TTL req) = Inr ttl
    \<and> recordForVerifiedLease (ServiceKey (tc_Identity c)) (tc_LeaseID c) 0 r = Inr rec \<and> Validate_LeaseMetadata (rn_Metadata req) = Inr ()")
  case False
  with rn have "s = r" "\<exists>e. res = Inl e" by (auto simp: Renew_def split: sum.splits)
  then show ?thesis using unchanged by blast
next
  case True
  then obtain c ttl rec where c: "accessClaims env (rn_AccessToken req) (clock 0) r = Inr c" "requestedLeaseTTL (rn_TTL req) = Inr ttl"
    "recordForVerifiedLease (ServiceKey (tc_Identity c)) (tc_LeaseID c) 0 r = Inr rec" "Validate_LeaseMetadata (rn_Metadata req) = Inr ()" by blast
  obtain st rec1 where p: "(if rn_RepinsChain req then (False, rec) else stalePin env (rootHostname r) current rec) = (st, rec1)" by force
  then have q: "stalePin env (rootHostname r) current rec = (st, rec1) \<or> rec1 = rec" by (auto split: if_splits)
  have "s = r \<and> (\<exists>e. res = Inl e) \<or> s = (updRecord (ref rec) (\<lambda>_. renewRecord env req ttl source (clock 1) rec1) r)
              \<lparr>rg_cache := map_option (Renew_Cache (cacheLease (renewRecord env req ttl source (clock 1) rec1)) (clock 2)) (rg_cache r)\<rparr>
        \<and> (\<forall>expires out. res = Inr (expires, out) \<longrightarrow> expires = truncate_second (clock 1 + ttl))"
    using rn by (auto simp: Renew_def c p Let_def updRecord_def renewRecord_def split: sum.splits if_splits)
  then show ?thesis using unchanged renewed [OF c(1) c(3) q c(2)] by blast
qed

lemma step_renew [inv_intros]:
  assumes inv: "reg_inv r"
  shows "reg_inv (reg_step (RenewLease env clock tokenID req source current) r)"
proof -
  obtain res s where rn: "Renew env clock tokenID req source current r = (res, s)" by force
  from rn have "reg_inv s"
  proof (cases rule: Renew_cases)
    case (renewed c rec rec1 ttl st)
    let ?rec = "renewRecord env req ttl source (clock 1) rec1"
    have r: "rec \<in> set (records r)" "\<not> isChallenge rec"
      using recordForVerifiedLease_in [OF renewed(2)] lease_not_challenge [OF inv] by blast+
    have "reg_inv (updRecord (ref rec) (\<lambda>_. ?rec) r)"
    proof (rule reg_inv_upd_same [OF inv])
      fix x
      assume "x \<in> set (records r)" "ref x = ref rec"
      then have "x = rec" using refs_distinct [OF inv] r(1) by blast
      then show "sameCore ?rec x \<and> bridges ?rec = bridges x" using renewed_same [OF renewed(3) r(2)] by simp
    qed
    then show ?thesis by (rule reg_inv_frame) (simp_all add: renewed(5))
  qed (use inv in simp)
  then show ?thesis using rn by simp
qed

lemma step_unregister [inv_intros]:
  assumes inv: "reg_inv r"
  shows "reg_inv (reg_step (UnregisterLease env token t1 t2) r)"
proof (cases "\<exists>c rec. accessClaims env token t1 r = Inr c \<and> recordByLease (ServiceKey (tc_Identity c)) (tc_LeaseID c) 0 r = Some rec")
  case True
  then obtain c rec where c: "accessClaims env token t1 r = Inr c" "recordByLease (ServiceKey (tc_Identity c)) (tc_LeaseID c) 0 r = Some rec" by blast
  then have "rec \<in> set (records r)" using recordByLease_in by blast
  from indexOf_held [OF inv this] obtain i where i: "indexOf (ref rec) (records r) = Some i" "i < length (records r)" "records r ! i = rec" .
  have "reg_inv ((deleteRecord t2 i r)\<lparr>shutting := shutting r @ [rec]\<rparr>)" using reg_inv_take_out [OF inv i(2), of t2] i(3) by simp
  then show ?thesis by (rule reg_inv_frame) (simp_all add: UnregisterLocked_def c i Let_def)
qed (use inv in \<open>auto simp: UnregisterLocked_def Let_def split: sum.splits option.splits\<close>)

lemma step_touch [inv_intros]:
  assumes inv: "reg_inv r"
  shows "reg_inv (reg_step (TouchLease key source now) r)"
proof (cases "recordByKey key now r")
  case (Some rec)
  note r = recordByKey_in [OF Some]
  have "reg_inv (updRecord (ref rec) (\<lambda>rec. rec\<lparr>LastSeenAt := now, sourceAddr := (if source \<noteq> None then source else sourceAddr rec)\<rparr>) r)"
  proof (rule reg_inv_upd_same [OF inv])
    fix x
    assume "x \<in> set (records r)" "ref x = ref rec"
    then have "x = rec" using refs_distinct [OF inv] r by blast
    moreover have "\<not> isChallenge rec" using lease_not_challenge [OF inv] r by blast
    ultimately show "sameCore (x\<lparr>LastSeenAt := now, sourceAddr := (if source \<noteq> None then source else sourceAddr x)\<rparr>) x
        \<and> bridges (x\<lparr>LastSeenAt := now, sourceAddr := (if source \<noteq> None then source else sourceAddr x)\<rparr>) = bridges x"
      by (simp add: sameCore_def isChallenge_def)
  qed
  with Some show ?thesis by (simp add: Touch_def)
qed (use inv in \<open>simp add: Touch_def\<close>)

lemma reg_inv_unblock:
  assumes inv: "reg_inv r" and "wf_map b" and "\<And>k. has_key b k \<Longrightarrow> has_key (blocked r) k"
  shows "reg_inv (r\<lparr>blocked := b\<rparr>)"
  by (rule reg_inv_remove [OF inv]) (use assms in \<open>simp_all add: allRecs_def\<close>)

lemma has_key_del_where: "wf_map m \<Longrightarrow> has_key (del_where P m) k \<Longrightarrow> has_key m k"
  by (auto simp: has_key_def lookup_del_where split: option.splits)

lemma step_cleanup [inv_intros]:
  assumes inv: "reg_inv r"
  shows "reg_inv (reg_step (CleanupLeases now wall) r)"
proof -
  obtain gone s where sw: "sweep (isExpired now) isLease wall 0 r = (gone, s)" by force
  have s: "reg_inv (s\<lparr>shutting := shutting r @ gone\<rparr>)" using reg_inv_sweep(2) [OF inv, of "isExpired now" isLease wall] sw by simp
  have sh: "shutting s = shutting r" using sweep_exact [OF sw] by simp
  let ?b = "del_where (\<lambda>key b. \<not> (now - pushedAt b \<le> defaultRegisterChallengeTTL) \<and> recordByKey key now s = None) (blocked s)"
  have "wf_map (blocked s)" using s by (simp add: reg_inv_def)
  then have "reg_inv (s\<lparr>shutting := shutting r @ gone, blocked := ?b\<rparr>)"
    using reg_inv_unblock [OF s, of ?b] has_key_del_where [of "blocked s"] by simp
  then show ?thesis by (rule reg_inv_frame) (simp_all add: cleanupExpiredLocked_def sw sh del: not_None_eq)
qed

subsection \<open>Challenges\<close>

lemma reg_inv_add_challenge:
  assumes inv: "reg_inv r"
    and room: "length (filter isChallenge (records r)) < defaultRegisterChallengeOutstanding"
      "length (filter (challengesFrom source) (records r)) < defaultRegisterChallengeOutstandingPerIP"
  shows "reg_inv (r\<lparr>records := records r @ [challengeRecord (nextRef r) c source], nextRef := Suc (nextRef r)\<rparr>)" (is "reg_inv ?s")
proof -
  let ?rec = "challengeRecord (nextRef r) c source"
  have new: "ref ?rec = nextRef r" "isChallenge ?rec" "reverse ?rec = None" "challengesFrom x ?rec \<longleftrightarrow> x = source" for x
    by (auto simp: challengeRecord_def isChallenge_def challengesFrom_def)
  have "mset (map ref (allRecs ?s)) = add_mset (nextRef r) (mset (map ref (allRecs r)))" by (simp add: allRecs_def new)
  moreover have "nextRef r \<notin> set (map ref (allRecs r))" using inv by (auto simp: reg_inv_def refs_inv_def)
  ultimately have "distinct (map ref (allRecs ?s))"
    using inv mset_eq_imp_distinct_iff [of "map ref (allRecs ?s)" "nextRef r # map ref (allRecs r)"]
    by (simp add: reg_inv_def refs_inv_def)
  moreover have "\<forall>x \<in> set (allRecs ?s). ref x < nextRef ?s"
    using inv by (auto simp: reg_inv_def refs_inv_def allRecs_def new less_SucI)
  ultimately have "refs_inv ?s" by (simp add: refs_inv_def)
  moreover have "keys_inv ?s" using inv by (simp add: reg_inv_def keys_inv_def new)
  moreover have "challenge_inv ?s" using inv room by (auto simp: reg_inv_def challenge_inv_def new)
  moreover have "rec_ok ?s ?rec" by (simp add: rec_ok_def shape_def quiet_def owns_def challengeRecord_def isChallenge_def)
  then have "\<forall>x \<in> set (records ?s). rec_ok ?s x" using inv by (auto simp: reg_inv_def rec_ok_def owns_def)
  moreover have "\<forall>x \<in> set (registering ?s). new_lease ?s x" using inv by (auto simp: reg_inv_def new_lease_def owns_def)
  ultimately show ?thesis using inv by (simp add: reg_inv_def)
qed

lemma step_issue [inv_intros]:
  assumes inv: "reg_inv r"
  shows "reg_inv (reg_step (IssueChallenge env cid nonce now wall req domain uri source) r)"
proof -
  let ?s = "snd (sweep (\<lambda>rec. isChallenge rec \<and> isExpired now rec) (\<lambda>_. False) wall 0 r)"
  have s: "reg_inv ?s" by (rule reg_inv_sweep(1) [OF inv])
  have here: "(\<lambda>rec. isChallenge rec \<and> sourceAddr rec = source) = challengesFrom source" by (auto simp: challengesFrom_def)
  show ?thesis
    using inv s reg_inv_add_challenge [OF s]
    by (auto simp: issueRegisterChallenge_def Let_def here not_le split: sum.splits)
qed

lemma step_consume [inv_intros]: "reg_inv r \<Longrightarrow> reg_inv (reg_step (ConsumeChallenge env req now wall) r)"
  by (auto simp: consumeVerifiedRegisterChallenge_def Let_def split: option.splits if_splits
      dest: challengeIndex_Some intro: reg_inv_deleteRecord)

lemma step_refuse [inv_intros]: "reg_inv r \<Longrightarrow> reg_inv (reg_step (RefuseChallenge key cid source now wall) r)"
  by (auto simp: refuseChallengeOverBudget_def split: option.splits dest: issuedIndex_Some intro: reg_inv_deleteRecord)

subsection \<open>Access decisions and bridges\<close>

lemma applyToRecord_frame [simp]:
  "ref (applyToRecord b rec) = ref rec" "lr_Identity (applyToRecord b rec) = lr_Identity rec" "reverse (applyToRecord b rec) = reverse rec"
  "registerChallenge (applyToRecord b rec) = registerChallenge rec" "sourceAddr (applyToRecord b rec) = sourceAddr rec"
  "isChallenge (applyToRecord b rec) = isChallenge rec" "CanonicalHostname (applyToRecord b rec) = CanonicalHostname rec"
  "tcpPort (applyToRecord b rec) = tcpPort rec" "ExpiresAt (applyToRecord b rec) = ExpiresAt rec"
  by (simp_all add: applyToRecord_def revokeBridgesLocked_def Let_def isChallenge_def)

lemma applyToRecord_ok:
  assumes "rec_ok r rec" and "udpPorts s = udpPorts r" "tcpPorts s = tcpPorts r" and "has_key (blocked s) (recKey rec) \<longrightarrow> \<not> b"
  shows "rec_ok s (applyToRecord b rec)"
  using assms by (auto simp: rec_ok_def shape_def quiet_def owns_def applyToRecord_def revokeBridgesLocked_def SetEnabled_def isChallenge_def Let_def)

lemma apply_frame [simp]:
  "records (applyIdentityAccessLocked key access now r) = map (\<lambda>rec. if recKey rec = key then applyToRecord (access = LeaseRoutable) rec else rec) (records r)"
  "udpPorts (applyIdentityAccessLocked key access now r) = udpPorts r" "tcpPorts (applyIdentityAccessLocked key access now r) = tcpPorts r"
  "registering (applyIdentityAccessLocked key access now r) = registering r" "shutting (applyIdentityAccessLocked key access now r) = shutting r"
  "nextRef (applyIdentityAccessLocked key access now r) = nextRef r" "accessRevision (applyIdentityAccessLocked key access now r) = accessRevision r"
  "has_key (blocked (applyIdentityAccessLocked key access now r)) k \<longleftrightarrow> (if k = key then access \<noteq> LeaseRoutable else has_key (blocked r) k)"
  "wf_map (blocked r) \<Longrightarrow> wf_map (blocked (applyIdentityAccessLocked key access now r))"
  by (auto simp: applyIdentityAccessLocked_def Let_def split: LeaseAccess.splits)

lemma reg_inv_apply: "reg_inv r \<Longrightarrow> reg_inv (applyIdentityAccessLocked key access now r)" (is "_ \<Longrightarrow> reg_inv ?s")
proof -
  assume inv: "reg_inv r"
  show ?thesis
  proof (rule reg_inv_map [OF inv, of ?s "\<lambda>rec. if recKey rec = key then applyToRecord (access = LeaseRoutable) rec else rec"])
    fix rec
    assume "rec \<in> set (records r)"
    then have ok: "rec_ok r rec" using inv by (simp add: reg_inv_def)
    then have "recKey rec = key \<Longrightarrow> rec_ok ?s (applyToRecord (access = LeaseRoutable) rec)" by (rule applyToRecord_ok) auto
    moreover from ok have "recKey rec \<noteq> key \<Longrightarrow> rec_ok ?s rec" by (simp add: rec_ok_def owns_def)
    ultimately show "ref (if recKey rec = key then applyToRecord (access = LeaseRoutable) rec else rec) = ref rec
      \<and> recKey (if recKey rec = key then applyToRecord (access = LeaseRoutable) rec else rec) = recKey rec
      \<and> (isLease (if recKey rec = key then applyToRecord (access = LeaseRoutable) rec else rec) \<longleftrightarrow> isLease rec)
      \<and> (isChallenge (if recKey rec = key then applyToRecord (access = LeaseRoutable) rec else rec) \<longleftrightarrow> isChallenge rec)
      \<and> (isChallenge rec \<longrightarrow> sourceAddr (if recKey rec = key then applyToRecord (access = LeaseRoutable) rec else rec) = sourceAddr rec)
      \<and> rec_ok ?s (if recKey rec = key then applyToRecord (access = LeaseRoutable) rec else rec)"
      by simp
  qed (use inv in \<open>simp_all add: reg_inv_def\<close>)
qed

lemma pause_frame [simp]:
  "ref (snd (pauseOrResume access rec)) = ref rec" "lr_Identity (snd (pauseOrResume access rec)) = lr_Identity rec"
  "sameCore (snd (pauseOrResume access rec)) rec" "bridges (snd (pauseOrResume access rec)) = bridges rec"
  "datagram (snd (pauseOrResume access rec)) = datagram rec"
  by (simp_all add: pauseOrResume_def sameCore_def isChallenge_def split: option.split prod.split)

lemma sameCore_same_bridges: "sameCore a b \<Longrightarrow> bridges a = bridges b \<Longrightarrow> rec_ok r b \<Longrightarrow> rec_ok r a"
  by (rule sameCore_rec_ok) (auto simp: rec_ok_def shape_def quiet_def)

lemma step_access [inv_intros]:
  assumes inv: "reg_inv r"
  shows "reg_inv (reg_step (PushAccess key access revn now) r)"
proof (cases "Valid key \<and> \<not> revn < accessRevision r")
  case True
  have "reg_inv (r\<lparr>accessRevision := revn\<rparr>)" by (rule reg_inv_frame [OF inv]) simp_all
  then have s: "reg_inv (applyIdentityAccessLocked key access now (r\<lparr>accessRevision := revn\<rparr>))" (is "reg_inv ?s") by (rule reg_inv_apply)
  have "reg_inv (?s\<lparr>records := map (\<lambda>rec. if recKey rec = key then snd (pauseOrResume access rec) else rec) (records ?s)\<rparr>)" (is "reg_inv ?t")
  proof (rule reg_inv_map [OF s, of _ "\<lambda>rec. if recKey rec = key then snd (pauseOrResume access rec) else rec"])
    fix rec
    assume "rec \<in> set (records ?s)"
    then have "rec_ok ?s rec" using s by (simp add: reg_inv_def)
    then have "rec_ok ?s (if recKey rec = key then snd (pauseOrResume access rec) else rec)"
      using sameCore_same_bridges [OF pause_frame(3,4)] by simp
    then show "ref (if recKey rec = key then snd (pauseOrResume access rec) else rec) = ref rec
      \<and> recKey (if recKey rec = key then snd (pauseOrResume access rec) else rec) = recKey rec
      \<and> (isLease (if recKey rec = key then snd (pauseOrResume access rec) else rec) \<longleftrightarrow> isLease rec)
      \<and> (isChallenge (if recKey rec = key then snd (pauseOrResume access rec) else rec) \<longleftrightarrow> isChallenge rec)
      \<and> (isChallenge rec \<longrightarrow> sourceAddr (if recKey rec = key then snd (pauseOrResume access rec) else rec) = sourceAddr rec)
      \<and> rec_ok ?t (if recKey rec = key then snd (pauseOrResume access rec) else rec)"
      using pause_frame(3) [of access rec] by (auto simp: sameCore_def isChallenge_def rec_ok_def owns_def)
  qed (use s in \<open>simp_all add: reg_inv_def\<close>)
  with True show ?thesis by (simp add: setIdentityAccess_def Let_def)
qed (use inv in \<open>auto simp: setIdentityAccess_def\<close>)

lemma step_suspend [inv_intros]: "reg_inv r \<Longrightarrow> reg_inv (reg_step (SuspendIdentity key now) r)"
  by (simp add: suspendIdentity_def reg_inv_apply)

text \<open>A bridge is admitted only below the limit and only for a routable identity.\<close>

lemma admitBridge_cases:
  assumes "admitBridge fresh ctxErr held inbound now r = (res, s)"
  obtains (refused) e where "res = Inl e" "s = r"
    | (admitted) h rec where "held = Some h" "recordByLease (recKey h) (lr_id h) now r = Some rec" "ref rec = ref h"
        "isRoutableLocked (recKey rec) r" "\<not> lr_closed rec" "length (bridges rec) < defaultLeaseBridgeLimit"
        "res = Inr \<lparr>br_ref = fresh, canceled = False, br_inbound = inbound, br_reverse = None\<rparr>"
        "s = updRecord (ref rec) (\<lambda>rec. rec\<lparr>bridges := \<lparr>br_ref = fresh, canceled = False, br_inbound = inbound, br_reverse = None\<rparr> # bridges rec\<rparr>) r"
proof (cases "\<exists>h rec. held = Some h \<and> recordByLease (recKey h) (lr_id h) now r = Some rec \<and> ref rec = ref h
    \<and> isRoutableLocked (recKey rec) r \<and> \<not> lr_closed rec \<and> \<not> ctxErr \<and> length (bridges rec) < defaultLeaseBridgeLimit")
  case True
  then obtain h rec where c: "held = Some h" "recordByLease (recKey h) (lr_id h) now r = Some rec" "ref rec = ref h"
    "isRoutableLocked (recKey rec) r" "\<not> lr_closed rec" "\<not> ctxErr" "length (bridges rec) < defaultLeaseBridgeLimit" by blast
  show ?thesis using assms by (intro admitted [OF c(1-5) c(7)]) (use c(7) in \<open>simp_all add: admitBridge_def c(1-6) Let_def split: if_splits\<close>)
next
  case False
  then have "\<exists>e. admitBridge fresh ctxErr held inbound now r = (Inl e, r)"
    by (auto simp: admitBridge_def not_le split: option.split)
  then show ?thesis using assms refused by auto
qed

lemma step_admitBridge [inv_intros]:
  assumes inv: "reg_inv r"
  shows "reg_inv (reg_step (AdmitBridge fresh ctxErr held inbound now) r)"
proof -
  obtain res s where ab: "admitBridge fresh ctxErr held inbound now r = (res, s)" by force
  then have "reg_inv s"
  proof (cases rule: admitBridge_cases)
    case (admitted h rec)
    note r = recordByLease_in [OF admitted(2)]
    show ?thesis unfolding admitted(8)
    proof (rule reg_inv_upd [OF inv])
      fix x
      assume x: "x \<in> set (records r)" "ref x = ref rec"
      then have "x = rec" using refs_distinct [OF inv] r by blast
      moreover have "rec_ok r x" using x inv by (simp add: reg_inv_def)
      moreover have "\<not> isChallenge rec" using lease_not_challenge [OF inv] r by blast
      ultimately show "sameCore (x\<lparr>bridges := \<lparr>br_ref = fresh, canceled = False, br_inbound = inbound, br_reverse = None\<rparr> # bridges x\<rparr>) x
          \<and> rec_ok r (x\<lparr>bridges := \<lparr>br_ref = fresh, canceled = False, br_inbound = inbound, br_reverse = None\<rparr> # bridges x\<rparr>)"
        using admitted(4,6) by (auto simp: rec_ok_def shape_def owns_def isChallenge_def sameCore_def isRoutableLocked_def)
    qed
  qed (use inv in simp)
  then show ?thesis using ab by simp
qed

lemma step_bridges [inv_intros]:
  assumes inv: "reg_inv r" and f: "\<And>rec. \<exists>bs. f rec = rec\<lparr>bridges := bs\<rparr> \<and> length bs \<le> length (bridges rec) \<and> canceled ` set bs \<subseteq> canceled ` set (bridges rec)"
  shows "reg_inv (updRecord x f r)"
proof (rule reg_inv_upd [OF inv])
  fix rec
  assume "rec \<in> set (records r)" "ref rec = x"
  then have ok: "rec_ok r rec" using inv by (simp add: reg_inv_def)
  from f [of rec] obtain bs where bs: "f rec = rec\<lparr>bridges := bs\<rparr>" "length bs \<le> length (bridges rec)" "canceled ` set bs \<subseteq> canceled ` set (bridges rec)" by blast
  have c: "\<forall>b \<in> set (bridges rec). canceled b \<Longrightarrow> \<forall>b \<in> set bs. canceled b" using bs(3) by (auto simp: subset_iff image_iff)
  show "sameCore (f rec) rec \<and> rec_ok r (f rec)"
    using ok bs(2) c by (auto simp: bs(1) sameCore_def rec_ok_def shape_def quiet_def owns_def isChallenge_def)
qed

lemma step_activate [inv_intros]: "reg_inv r \<Longrightarrow> reg_inv (reg_step (ActivateBridge held b conn now) r)"
  by (auto simp: activateBridge_def image_image split: option.splits if_splits intro!: step_bridges exI)

lemma step_release [inv_intros]: "reg_inv r \<Longrightarrow> reg_inv (reg_step (ReleaseBridge x b) r)"
  by (auto simp: releaseBridge_state intro!: step_bridges exI)

lemma step_mux [inv_intros]:
  assumes inv: "reg_inv r"
  shows "reg_inv (reg_step (AttachMux x m) r)" and "reg_inv (reg_step (DetachMux x m) r)" and "reg_inv (reg_step (PoolSection x sec) r)"
  unfolding reg_step.simps
  by (rule reg_inv_upd_same [OF inv]; simp add: attachReverseMux_def detachReverseMux_def sameCore_def isChallenge_def)+

lemma step_datagram [inv_intros]:
  assumes inv: "reg_inv r"
  shows "reg_inv (reg_step (DatagramOp x op) r)"
proof (cases "\<exists>b. op = OpSetEnabled b")
  case False
  then have k: "enabled (relay_step op d) = enabled d" "rd_port (relay_step op d) = rd_port d" for d using relay_step_keeps by blast+
  have "reg_inv (updRecord x (\<lambda>rec. rec\<lparr>datagram := map_option (relay_step op) (datagram rec)\<rparr>) r)"
    by (rule reg_inv_upd_same [OF inv]) (simp add: sameCore_def isChallenge_def option.map_comp comp_def k)
  with False show ?thesis by (cases op) simp_all
qed (use inv in auto)

lemma CloseAll_fold:
  "registering (fold (\<lambda>rec r. ForgetLease (lr_id rec) (if isLease rec then resetLimiter (recKey rec) r else r)) out r) = registering r"
  "shutting (fold (\<lambda>rec r. ForgetLease (lr_id rec) (if isLease rec then resetLimiter (recKey rec) r else r)) out r) = shutting r"
  "nextRef (fold (\<lambda>rec r. ForgetLease (lr_id rec) (if isLease rec then resetLimiter (recKey rec) r else r)) out r) = nextRef r"
  "blocked (fold (\<lambda>rec r. ForgetLease (lr_id rec) (if isLease rec then resetLimiter (recKey rec) r else r)) out r) = blocked r"
  "udpPorts (fold (\<lambda>rec r. ForgetLease (lr_id rec) (if isLease rec then resetLimiter (recKey rec) r else r)) out r) = udpPorts r"
  "tcpPorts (fold (\<lambda>rec r. ForgetLease (lr_id rec) (if isLease rec then resetLimiter (recKey rec) r else r)) out r) = tcpPorts r"
  "accessRevision (fold (\<lambda>rec r. ForgetLease (lr_id rec) (if isLease rec then resetLimiter (recKey rec) r else r)) out r) = accessRevision r"
  by (induction out arbitrary: r; simp)+

lemma step_closeAll [inv_intros]:
  assumes inv: "reg_inv r"
  shows "reg_inv (reg_step CloseEverything r)"
  by (rule reg_inv_remove [OF inv])
    (use inv in \<open>simp_all add: CloseAllLocked_def Let_def allRecs_def reg_inv_def CloseAll_fold del: not_None_eq\<close>)

lemma step_policy [inv_intros]: "reg_inv r \<Longrightarrow> reg_inv (reg_step (SetUDPPolicy on m) r)" "reg_inv r \<Longrightarrow> reg_inv (reg_step (SetTCPPolicy on m) r)"
  by (auto simp: setUDPPolicy_def setTCPPortPolicy_def intro: reg_inv_frame)

end
