(* ===== verification/Lease_Safety.thy ===== *)
theory Lease_Safety
  imports Lease_System
begin

text \<open>
  What the lease registry guarantees after any run of its sections from the empty registry:
  one lease per identity, exclusive ports, bounded bridges and challenges, identities that are
  refused are cut off, decisions are fenced by their revision, expiry removes exactly the
  expired records, and an admitted lease owns its host names.
\<close>

section \<open>The registry as a monotone system\<close>

lemma reg_inv_new: "reg_inv (newLeaseRegistry minPort maxPort root key issuer url)"
  by (simp add: reg_inv_def newLeaseRegistry_def refs_inv_def allRecs_def keys_inv_def challenge_inv_def
      pool_inv_wf [OF pool_inv_new])

lemma registerPorts_revision: "registerPorts req now rec r = (err, rec', s) \<Longrightarrow> accessRevision s = accessRevision r \<and> rootHostname s = rootHostname r"
  by (auto simp: registerPorts_def Let_def split: if_splits sum.splits prod.splits)

lemma sweep_revision: "accessRevision (snd (sweep P reset now 0 r)) = accessRevision r"
  using sweep_exact [of P reset now 0 r] by (cases "sweep P reset now 0 r") simp

lemma registerAdmit_revision: "registerAdmit req now rec r = (res, s) \<Longrightarrow> accessRevision s = accessRevision r"
  by (auto simp: registerAdmit_def Let_def sweep_revision resetLimiter_frame split: sum.splits if_splits option.splits)

lemma registerPorts_blocked: "registerPorts req now rec r = (err, rec', s) \<Longrightarrow> blocked s = blocked r"
  by (auto simp: registerPorts_def Let_def split: if_splits sum.splits prod.splits)

lemma sweep_blocked: "blocked (snd (sweep P reset now 0 r)) = blocked r"
  using sweep_exact [of P reset now 0 r] by (cases "sweep P reset now 0 r") simp

lemma registerAdmit_blocked: "registerAdmit req now rec r = (res, s) \<Longrightarrow> blocked s = blocked r"
  by (auto simp: registerAdmit_def Let_def sweep_blocked resetLimiter_frame split: sum.splits if_splits option.splits)

lemma updRecord_revision [simp]: "accessRevision (updRecord x f r) = accessRevision r" "blocked (updRecord x f r) = blocked r"
  by (simp_all add: updRecord_def)

lemma Renew_frame: "accessRevision (snd (Renew env clock tokenID req source current r)) = accessRevision r"
  "blocked (snd (Renew env clock tokenID req source current r)) = blocked r"
proof -
  obtain res s where rn: "Renew env clock tokenID req source current r = (res, s)" by force
  then have "accessRevision s = accessRevision r \<and> blocked s = blocked r" by (cases rule: Renew_cases) simp_all
  with rn show "accessRevision (snd (Renew env clock tokenID req source current r)) = accessRevision r"
    "blocked (snd (Renew env clock tokenID req source current r)) = blocked r" by simp_all
qed

lemma bridge_frame:
  "accessRevision (snd (admitBridge fresh ctxErr held inbound now r)) = accessRevision r" "blocked (snd (admitBridge fresh ctxErr held inbound now r)) = blocked r"
  "accessRevision (snd (activateBridge h b conn now r)) = accessRevision r" "blocked (snd (activateBridge h b conn now r)) = blocked r"
  by (simp_all add: admitBridge_def activateBridge_def Let_def split: option.split)

lemma step_revision: "accessRevision r \<le> accessRevision (reg_step e r)"
proof (cases e)
  case (RegBegin env req source ip served leaseID tokenID t1 t2 t3)
  then show ?thesis by (auto split: sum.splits prod.splits option.splits dest: registerPorts_revision)
next
  case (RegAdmit x req now)
  then show ?thesis by (auto split: sum.splits prod.splits option.splits dest: registerAdmit_revision)
next
  case (RegStart x udp tcp)
  then show ?thesis by (auto split: prod.splits option.splits)
next
  case (RegEndpoint env answer self tokenID t1 t2 inp)
  then show ?thesis by (auto simp: issueReverseEndpoint_def Let_def split: sum.splits)
next
  case (RegUndo x now)
  then show ?thesis by (auto simp: registerUndo_def Let_def split: option.splits)
next
  case (UnregisterLease env token t1 t2)
  then show ?thesis by (auto simp: UnregisterLocked_def Let_def split: sum.splits option.splits)
next
  case (CleanupLeases now wall)
  then show ?thesis using sweep_revision [of "isExpired now" isLease wall r] by (auto simp: cleanupExpiredLocked_def split: prod.splits)
next
  case (IssueChallenge env cid nonce now wall req domain uri source)
  then show ?thesis by (auto simp: issueRegisterChallenge_def Let_def sweep_revision split: sum.splits)
next
  case (ConsumeChallenge env req now wall)
  then show ?thesis by (auto simp: consumeVerifiedRegisterChallenge_def Let_def split: option.splits)
next
  case (RefuseChallenge key cid source now wall)
  then show ?thesis by (auto simp: refuseChallengeOverBudget_def split: option.splits)
next
  case (PushAccess key access revn now)
  then show ?thesis by (auto simp: setIdentityAccess_def Let_def)
next
  case CloseEverything
  then show ?thesis by (simp add: CloseAllLocked_def Let_def CloseAll_fold del: not_None_eq)
next
  case (DatagramOp x op)
  then show ?thesis by (cases op) simp_all
qed (simp_all add: closeRecord_def rollbackRecord_def dropShutting_def Renew_frame Touch_def suspendIdentity_def bridge_frame
    setUDPPolicy_def setTCPPortPolicy_def split: option.split)

interpretation leases: mono_system reg_step reg_inv accessRevision
proof
  fix r e
  assume "reg_inv r"
  then show "reg_inv (reg_step e r)" by (cases e) (auto intro: inv_intros simp del: reg_step.simps)
  show "accessRevision r \<le> accessRevision (reg_step e r)" by (rule step_revision)
qed

text \<open>The registries that occur: any run from an empty one.\<close>

definition reachableRegistry :: "leaseRegistry \<Rightarrow> bool" where
  "reachableRegistry r \<longleftrightarrow>
     (\<exists>ops minPort maxPort root pubkey issuer url. r = fold reg_step ops (newLeaseRegistry minPort maxPort root pubkey issuer url))"

lemma reachable_inv: "reachableRegistry r \<Longrightarrow> reg_inv r"
  unfolding reachableRegistry_def using leases.run_inv [OF reg_inv_new] by blast

lemma reachable_new: "reachableRegistry (fold reg_step ops (newLeaseRegistry minPort maxPort root pubkey issuer url))"
  unfolding reachableRegistry_def by blast

section \<open>Blocked identities\<close>

text \<open>
  What can make a blocked identity routable again: a decision that says so, or a cleanup that
  finds the block older than the challenge lifetime and no live lease of the identity.
\<close>

fun lifts_block :: "ServiceIdentityKey \<Rightarrow> reg_op \<Rightarrow> leaseRegistry \<Rightarrow> bool" where
  "lifts_block key (PushAccess k access revn now) r \<longleftrightarrow> k = key \<and> access = LeaseRoutable"
| "lifts_block key (CleanupLeases now wall) r \<longleftrightarrow>
     recordByKey key now r = None \<and> (\<forall>b. lookup (blocked r) key = Some b \<longrightarrow> now - pushedAt b > defaultRegisterChallengeTTL)"
| "lifts_block key _ r \<longleftrightarrow> False"

fun stays_blocked :: "ServiceIdentityKey \<Rightarrow> reg_op list \<Rightarrow> leaseRegistry \<Rightarrow> bool" where
  "stays_blocked key [] r \<longleftrightarrow> True"
| "stays_blocked key (e # es) r \<longleftrightarrow> \<not> lifts_block key e r \<and> stays_blocked key es (reg_step e r)"

lemma find_None_mset: "mset xs = filter_mset Q (mset ys) \<Longrightarrow> (\<And>x. P x \<Longrightarrow> Q x) \<Longrightarrow> find P xs = None \<longleftrightarrow> find P ys = None"
  by (metis (mono_tags, lifting) find_None_iff mem_Collect_eq mset_filter mset_eq_setD set_filter set_mset_mset)

lemma cleanup_keeps_block:
  assumes inv: "reg_inv r" and b: "has_key (blocked r) key" and live: "\<not> lifts_block key (CleanupLeases now wall) r"
  shows "has_key (blocked (reg_step (CleanupLeases now wall) r)) key"
proof -
  obtain gone s where sw: "sweep (isExpired now) isLease wall 0 r = (gone, s)" by force
  note e = sweep_exact [OF sw, simplified]
  have "recordByKey key now s = None \<longleftrightarrow> recordByKey key now r = None"
    unfolding recordByKey_def using e by (intro find_None_mset [of _ "\<lambda>x. \<not> isExpired now x"]) auto
  moreover have "wf_map (blocked s)" using inv e by (simp add: reg_inv_def)
  ultimately show ?thesis
    using b live e by (auto simp: cleanupExpiredLocked_def sw has_key_def lookup_del_where not_less simp del: not_None_eq split: option.splits)
qed

lemma step_keeps_block:
  assumes inv: "reg_inv r" and b: "has_key (blocked r) key" and "\<not> lifts_block key e r"
  shows "has_key (blocked (reg_step e r)) key"
proof (cases e)
  case (CleanupLeases now wall)
  then show ?thesis using assms cleanup_keeps_block by blast
next
  case (RegBegin env req source ip served leaseID tokenID t1 t2 t3)
  then show ?thesis using b registerPorts_blocked by (auto split: sum.splits prod.splits option.splits)
next
  case (RegAdmit x req now)
  then show ?thesis using b registerAdmit_blocked by (auto split: sum.splits prod.splits option.splits)
next
  case (RegStart x udp tcp)
  then show ?thesis using b by (auto split: prod.splits option.splits)
next
  case (RegEndpoint env answer self tokenID t1 t2 inp)
  then show ?thesis using b by (auto simp: issueReverseEndpoint_def Let_def split: sum.splits)
next
  case (RegUndo x now)
  then show ?thesis using b by (auto simp: registerUndo_def Let_def split: option.splits)
next
  case (UnregisterLease env token t1 t2)
  then show ?thesis using b by (auto simp: UnregisterLocked_def Let_def split: sum.splits option.splits)
next
  case (IssueChallenge env cid nonce now wall req domain uri source)
  then show ?thesis using b by (auto simp: issueRegisterChallenge_def Let_def sweep_blocked split: sum.splits)
next
  case (ConsumeChallenge env req now wall)
  then show ?thesis using b by (auto simp: consumeVerifiedRegisterChallenge_def Let_def split: option.splits)
next
  case (RefuseChallenge key cid source now wall)
  then show ?thesis using b by (auto simp: refuseChallengeOverBudget_def split: option.splits)
next
  case (PushAccess key access revn now)
  then show ?thesis using assms by (auto simp: setIdentityAccess_def Let_def)
next
  case CloseEverything
  then show ?thesis using b by (simp add: CloseAllLocked_def Let_def CloseAll_fold del: not_None_eq)
next
  case (DatagramOp x op)
  then show ?thesis using b by (cases op) simp_all
qed (use b in \<open>simp_all add: closeRecord_def rollbackRecord_def dropShutting_def Renew_frame Touch_def suspendIdentity_def bridge_frame
    setUDPPolicy_def setTCPPortPolicy_def split: option.split\<close>)

lemma run_keeps_block:
  "reg_inv r \<Longrightarrow> has_key (blocked r) key \<Longrightarrow> stays_blocked key es r \<Longrightarrow> has_key (blocked (fold reg_step es r)) key"
  by (induction es arbitrary: r) (auto intro: step_keeps_block leases.step_inv)

text \<open>While an identity is blocked nothing of it carries traffic and every credential of it is refused.\<close>

lemma blocked_cut_off:
  assumes inv: "reg_inv r" and b: "has_key (blocked r) key"
  shows "\<forall>rec \<in> set (records r). recKey rec = key \<longrightarrow> quiet rec \<and> \<not> listed now r rec"
    and "recKey h = key \<Longrightarrow> fst (admitBridge fresh ctxErr (Some h) inbound now r) \<in> {Inl errLeaseNotFound, Inl errLeaseRejected}"
    and "recKey h = key \<Longrightarrow> fst (activateBridge h bridge conn now r) \<in> {Some errLeaseNotFound, Some errLeaseRejected}"
    and "\<nexists>rec. admitLeaseIdentity key leaseID now requireDatagram r = Inr rec"
proof -
  have q: "quiet rec" "isLease rec \<or> \<not> isPublicEntry rec" if "rec \<in> set (records r)" "recKey rec = key" for rec
    using inv that b by (auto simp: reg_inv_def rec_ok_def shape_def isPublicEntry_def)
  show "\<forall>rec \<in> set (records r). recKey rec = key \<longrightarrow> quiet rec \<and> \<not> listed now r rec"
    using q b by (fastforce simp: listed_def isRoutableLocked_def split: option.splits)
  show "recKey h = key \<Longrightarrow> fst (admitBridge fresh ctxErr (Some h) inbound now r) \<in> {Inl errLeaseNotFound, Inl errLeaseRejected}"
    using b by (auto simp: admitBridge_def isRoutableLocked_def split: option.split dest: recordByLease_in)
  show "recKey h = key \<Longrightarrow> fst (activateBridge h bridge conn now r) \<in> {Some errLeaseNotFound, Some errLeaseRejected}"
    using b by (auto simp: activateBridge_def isRoutableLocked_def split: option.split dest: recordByLease_in)
  show "\<nexists>rec. admitLeaseIdentity key leaseID now requireDatagram r = Inr rec"
    using b by (auto simp: admitLeaseIdentity_def has_key_lookup split: sum.splits option.splits dest: recordForVerifiedLease_in)
qed

section \<open>A concrete registry\<close>

text \<open>Two tenants register the name \<open>blog\<close>; the token scheme knows the first tenant's token.\<close>

definition demo_person :: "string \<Rightarrow> Identity" where
  "demo_person a = \<lparr>Name = ''blog'', Address = a, PublicKey = '''', PrivateKey = '''', Mnemonic = '''',
     DerivationPath = '''', TokenSecret = ''''\<rparr>"

definition alice :: Identity where "alice = demo_person (''0x'' @ replicate 40 (CHR ''a''))"
definition bob :: Identity where "bob = demo_person (''0x'' @ replicate 40 (CHR ''b''))"

definition demo_metadata :: LeaseMetadata where
  "demo_metadata = \<lparr>Description = '''', Owner = '''', Thumbnail = '''', Tags = [], Hide = False\<rparr>"

definition alice_claims :: TokenClaims where
  "alice_claims = \<lparr>tc_Issuer = ''iss'', tc_Subject = Key alice, tc_Audience = [leaseAccessTokenAudience], tc_ID = ''A1'',
     tc_IssuedAt = 1000 * second, tc_NotBefore = 1000 * second, tc_Expiry = 1600 * second, tc_Identity = alice, tc_LeaseID = ''lease_a''\<rparr>"

definition demo_env :: relay_env where
  "demo_env = \<lparr>toASCII = (\<lambda>_. None), loopbackIP = (\<lambda>_. False), nameHash = demo_hash, signer = Some (\<lambda>c. Inr (tc_ID c)),
     openSigned = (\<lambda>t k. if t = ''A1'' then Inr alice_claims else Inl ''bad''), validateClaims = demo_validate,
     trustedBy = (\<lambda>_ _ _. True), sanitizeReportedIP = id, normalizeIdentity = Inr,
     formatSIWE = (\<lambda>domain address uri nonce cid issued expires. Inr (address @ nonce)),
     recoverSigner = (\<lambda>message signature. Inr signature)\<rparr>"

definition demo_lease_request :: "Identity \<Rightarrow> int \<Rightarrow> RegisterChallengeRequest" where
  "demo_lease_request i ttl = \<lparr>Cache = False, CacheTTL = 0, AllowCanonicalFallback = False, req_Identity = i,
     req_Metadata = demo_metadata, req_Overlay = False, req_TTL = ttl, UDPEnabled = True, TCPEnabled = False\<rparr>"

definition demo_new :: leaseRegistry where
  "demo_new = newLeaseRegistry 4000 4009 ''example.com'' ''pk'' ''iss'' ''https://r''"

definition demo_register :: "Identity \<Rightarrow> int \<Rightarrow> string \<Rightarrow> string \<Rightarrow> nat \<Rightarrow> go_time \<Rightarrow> reg_op list" where
  "demo_register i ttl leaseID tokenID x t =
     [RegBegin demo_env (demo_lease_request i ttl) None '''' None leaseID tokenID t t t, RegStart x (Inr 7) (Inr 8),
      RegAdmit x (demo_lease_request i ttl) t]"

definition demo_renewal :: "int \<Rightarrow> RenewRequest" where
  "demo_renewal ttl = \<lparr>rn_AccessToken = ''A1'', rn_TTL = ttl, rn_ReportedIP = '''', rn_Metadata = demo_metadata, rn_RepinsChain = False\<rparr>"

definition alice_ops :: "reg_op list" where
  "alice_ops = SetUDPPolicy True 0 # demo_register alice 600 ''lease_a'' ''A1'' 0 (1000 * second)"

definition demo_registry :: leaseRegistry where
  "demo_registry = fold reg_step alice_ops demo_new"

lemma demo_reachable: "reachableRegistry demo_registry"
  unfolding demo_registry_def demo_new_def by (rule reachable_new)

text \<open>The registry after the first tenant's registration, written out.\<close>

definition alice_lease :: leaseRecord where
  "alice_lease = \<lparr>ref = 0, lr_Identity = alice, lr_id = ''lease_a'', ExpiresAt = 1600 * second,
     FirstSeenAt = 1000 * second, LastSeenAt = 1000 * second, sourceAddr = None, registerSource = None, ReportedIP = '''',
     Hostname = ''blog.example.com'', CanonicalHostname = ''blog-aaaaaaaaaaaaaaaaaaaaaaaaaaaaaaaaaaaaaaaa.example.com'',
     Metadata = demo_metadata, Overlay = False, pinnedChain = None, verifiedChain = None, registerChallenge = None,
     datagram = Some ((NewRelayDatagram (ServiceKey alice) 4000)\<lparr>rd_conn := Some 7, started := True\<rparr>), tcpPort = 0, tcpListener = None,
     reverse = Some (NewReversePool defaultIdleKeepalive defaultReadyQueueLimit), lr_closed = False, reverseMux = None, bridges = []\<rparr>"

definition demo_state :: leaseRegistry where
  "demo_state = demo_new\<lparr>records := [alice_lease], udpEnabled := True, nextRef := 1,
     udpPorts := snd (allocate 0 (ServiceKey alice) (1000 * second) (udpPorts demo_new))\<rparr>"

lemma demo_registry_state: "demo_registry = demo_state"
  by code_simp

lemma demo_state_reachable: "reachableRegistry demo_state"
  using demo_reachable by (simp add: demo_registry_state)

lemma alice_valid: "Valid (ServiceKey alice)"
  by code_simp

lemma demo_state_fields:
  "records demo_state = [alice_lease]" "accessRevision demo_state = 0" "blocked demo_state = []" "tokenPublicKey demo_state = ''pk''"
  "tokenIssuer demo_state = ''iss''" "rg_cache demo_state = None" "rootHostname demo_state = NormalizeHostname ''example.com''"
  by (simp_all add: demo_state_def demo_new_def newLeaseRegistry_def)

lemma alice_fields:
  "recKey alice_lease = ServiceKey alice" "lr_id alice_lease = ''lease_a''" "ref alice_lease = 0" "isLease alice_lease"
  "isExpired now alice_lease \<longleftrightarrow> now \<noteq> 0 \<and> 1600 * second \<le> now"
  by (auto simp: alice_lease_def isExpired_def)

section \<open>Properties\<close>

lemma distinct_by_holder:
  assumes "distinct (map ref recs)" and "\<And>rec. rec \<in> set recs \<Longrightarrow> P rec \<Longrightarrow> owner (f rec) = Some (ref rec)"
  shows "distinct (map f (filter P recs))"
proof -
  have "inj_on f (set (filter P recs))"
  proof (rule inj_onI)
    fix x y
    assume "x \<in> set (filter P recs)" "y \<in> set (filter P recs)" "f x = f y"
    then have "x \<in> set recs" "y \<in> set recs" "ref x = ref y" using assms(2) [of x] assms(2) [of y] by auto
    then show "x = y" using assms(1) by (auto simp: distinct_map dest: inj_onD)
  qed
  moreover have "distinct (filter P recs)" using assms(1) by (simp add: distinct_map)
  ultimately show ?thesis by (simp add: distinct_map)
qed

text \<open>
  C1: the registry stays consistent. Whatever registrations, renewals, removals, expiries,
  challenges, bridges, access decisions and shutdowns interleave, starting from the empty
  registry: an identity has at most one lease; no two leases share a UDP port or a TCP port;
  no lease carries more than 128 bridges; at most 256 challenges are pending, at most 32 of
  them from one source address.
\<close>

theorem registry_stays_consistent:
  "let r = fold reg_step ops (newLeaseRegistry minPort maxPort root key issuer url) in
     distinct (map recKey (filter isLease (records r)))
     \<and> distinct (map (\<lambda>rec. rd_port (the (datagram rec))) (filter (\<lambda>rec. datagram rec \<noteq> None) (records r)))
     \<and> distinct (map tcpPort (filter (\<lambda>rec. tcpPort rec > 0) (records r)))
     \<and> list_all (\<lambda>rec. length (bridges rec) \<le> 128) (records r)
     \<and> length (filter isChallenge (records r)) \<le> 256
     \<and> length (filter (challengesFrom source) (records r)) \<le> 32"
proof -
  let ?r = "fold reg_step ops (newLeaseRegistry minPort maxPort root key issuer url)"
  have inv: "reg_inv ?r" by (rule leases.run_inv [OF reg_inv_new])
  then have refs: "distinct (map ref (records ?r))" and ok: "\<And>rec. rec \<in> set (records ?r) \<Longrightarrow> rec_ok ?r rec"
    by (simp_all add: reg_inv_def refs_inv_def allRecs_def)
  have "distinct (map (\<lambda>rec. rd_port (the (datagram rec))) (filter (\<lambda>rec. datagram rec \<noteq> None) (records ?r)))"
    by (rule distinct_by_holder [OF refs, of _ "holder (udpPorts ?r)"]) (use ok in \<open>auto simp: rec_ok_def owns_def\<close>)
  moreover have "distinct (map tcpPort (filter (\<lambda>rec. tcpPort rec > 0) (records ?r)))"
    by (rule distinct_by_holder [OF refs, of _ "holder (tcpPorts ?r)"]) (use ok in \<open>auto simp: rec_ok_def owns_def\<close>)
  moreover have "list_all (\<lambda>rec. length (bridges rec) \<le> 128) (records ?r)"
    using ok by (auto simp: list_all_iff rec_ok_def defaultLeaseBridgeLimit_def)
  moreover have "distinct (map recKey (filter isLease (records ?r)))" "length (filter isChallenge (records ?r)) \<le> 256"
    "length (filter (challengesFrom source) (records ?r)) \<le> 32"
    using inv by (simp_all add: reg_inv_def keys_inv_def challenge_inv_def defaultRegisterChallengeOutstanding_def
        defaultRegisterChallengeOutstandingPerIP_def del: not_None_eq)
  ultimately show ?thesis by (simp add: Let_def del: not_None_eq)
qed

text \<open>
  C2: a refused identity is cut off. After the policy pushes a decision that does not admit an
  identity (with a revision that is not stale), and as long as no decision admits it again and
  no cleanup forgets the block, in every later state: no datagram endpoint of the identity is
  open, all its bridges are canceled, it is not publicly listed, and neither a new bridge, nor
  the activation of a bridge, nor a credential of it is accepted.
\<close>

theorem refused_identity_is_cut_off:
  assumes "reachableRegistry r0" and r1: "setIdentityAccess key access revn now0 r0 = (True, conns, r1)"
    and "Valid key" and "access \<noteq> LeaseRoutable" and "stays_blocked key after r1"
  shows "let r = fold reg_step after r1 in
     (\<forall>rec \<in> set (records r). recKey rec = key \<longrightarrow> quiet rec \<and> \<not> listed now r rec)
     \<and> (recKey h = key \<longrightarrow> fst (admitBridge fresh ctxErr (Some h) inbound now r) \<in> {Inl errLeaseNotFound, Inl errLeaseRejected}
          \<and> fst (activateBridge h bridge conn now r) \<in> {Some errLeaseNotFound, Some errLeaseRejected})
     \<and> (\<nexists>rec. admitLeaseIdentity key leaseID now requireDatagram r = Inr rec)"
proof -
  have "r1 = reg_step (PushAccess key access revn now0) r0" using r1 by simp
  then have i1: "reg_inv r1" using leases.step_inv [OF reachable_inv [OF assms(1)]] by (simp only:)
  have "has_key (blocked r1) key" using r1 assms(3,4) by (auto simp: setIdentityAccess_def Let_def split: if_splits)
  then have "has_key (blocked (fold reg_step after r1)) key" using run_keeps_block [OF i1] assms(5) by blast
  from blocked_cut_off [OF leases.run_inv [OF i1] this] show ?thesis by (simp add: Let_def)
qed

theorem refused_identity_is_cut_off_witness:
  "let r = fold reg_step [TouchLease (ServiceKey alice) None (1002 * second), CleanupLeases (1500 * second) (1500 * second)]
             (snd (snd (setIdentityAccess (ServiceKey alice) LeaseDenied 5 (1001 * second) demo_state))) in
     (\<forall>rec \<in> set (records r). recKey rec = ServiceKey alice \<longrightarrow> quiet rec \<and> \<not> listed (1500 * second) r rec)
     \<and> (\<nexists>rec. admitLeaseIdentity (ServiceKey alice) ''lease_a'' (1500 * second) False r = Inr rec)"
proof -
  obtain b conns r1 where r1: "setIdentityAccess (ServiceKey alice) LeaseDenied 5 (1001 * second) demo_state = (b, conns, r1)" by (metis prod_cases3)
  then have b: "b = True" by (simp add: setIdentityAccess_def alice_valid demo_state_fields Let_def)
  have "records r1 = [snd (pauseOrResume LeaseDenied (applyToRecord False alice_lease))]"
    using r1 by (auto simp: setIdentityAccess_def alice_valid demo_state_fields alice_fields Let_def)
  moreover have "lr_Identity (snd (pauseOrResume LeaseDenied (applyToRecord False alice_lease))) = alice"
    "isLease (snd (pauseOrResume LeaseDenied (applyToRecord False alice_lease)))"
    "ExpiresAt (snd (pauseOrResume LeaseDenied (applyToRecord False alice_lease))) = 1600 * second"
    by (simp_all add: pauseOrResume_def alice_lease_def applyToRecord_def revokeBridgesLocked_def Let_def split: prod.split)
  ultimately have s: "stays_blocked (ServiceKey alice) [TouchLease (ServiceKey alice) None (1002 * second), CleanupLeases (1500 * second) (1500 * second)] r1"
    by (simp add: Touch_def recordByKey_def isExpired_def updRecord_def time_units)
  from refused_identity_is_cut_off [OF demo_state_reachable r1 [unfolded b] alice_valid _ s]
  show ?thesis unfolding Let_def r1 snd_conv by blast
qed

text \<open>
  Decisions are fenced by their revision. Once a decision of revision \<open>v\<close> is applied, a
  decision with a smaller revision is refused for every identity and changes nothing, whatever
  happened in between.
\<close>

theorem stale_decision_is_refused:
  assumes "reachableRegistry r0" and "Valid key" and "setIdentityAccess key access v now r0 = (True, conns, r1)" and "w < v" and "Valid key'"
  shows "setIdentityAccess key' access' w now' (fold reg_step after r1) = (False, [], fold reg_step after r1)"
proof -
  have i0: "reg_inv r0" by (rule reachable_inv [OF assms(1)])
  have r1: "r1 = reg_step (PushAccess key access v now) r0" using assms(3) by simp
  then have "reg_inv r1" using leases.step_inv [OF i0] by (simp only:)
  from leases.run_mono [OF this, of after] have "accessRevision r1 \<le> accessRevision (fold reg_step after r1)" .
  moreover have "accessRevision r1 = v" using assms(2,3) by (auto simp: setIdentityAccess_def Let_def split: if_splits)
  ultimately show ?thesis using assms(4,5) by (simp add: setIdentityAccess_def)
qed

theorem stale_decision_is_refused_witness:
  "let r1 = snd (snd (setIdentityAccess (ServiceKey alice) LeaseRoutable 5 (1001 * second) demo_state));
       r = fold reg_step [SuspendIdentity (ServiceKey bob) (1002 * second), TouchLease (ServiceKey alice) None (1003 * second)] r1
   in setIdentityAccess (ServiceKey alice) LeaseDenied 4 (1004 * second) r = (False, [], r)"
proof -
  obtain b conns r1 where r1: "setIdentityAccess (ServiceKey alice) LeaseRoutable 5 (1001 * second) demo_state = (b, conns, r1)" by (metis prod_cases3)
  then have b: "b = True" by (simp add: setIdentityAccess_def alice_valid demo_state_fields Let_def)
  have "(4 :: 64 word) < 5" by simp
  from stale_decision_is_refused [OF demo_state_reachable alice_valid r1 [unfolded b] this alice_valid]
  show ?thesis unfolding Let_def r1 snd_conv .
qed

text \<open>
  C22: the expiry loop, which deletes while it scans, is equivalent to a filter. It closes every
  expired record exactly once, keeps every other record, moves no port and no other state than
  blocks that have run out, and the answer of a public listing at that time does not change.
\<close>

theorem cleanup_removes_exactly_expired:
  assumes "reachableRegistry r" and "cleanupExpiredLocked now wall r = (expired, s)"
  shows "mset expired = filter_mset (isExpired now) (mset (records r))
     \<and> mset (records s) = filter_mset (\<lambda>rec. \<not> isExpired now rec) (mset (records r))
     \<and> shutting s = shutting r @ expired \<and> udpPorts s = udpPorts r \<and> tcpPorts s = tcpPorts r
     \<and> set (blocked s) \<subseteq> set (blocked r)
     \<and> mset (PublicLeases now s) = mset (PublicLeases now r)"
proof -
  obtain gone q where sw: "sweep (isExpired now) isLease wall 0 r = (gone, q)" by force
  note e = sweep_exact [OF sw, simplified]
  have s: "expired = gone" "s = q\<lparr>blocked := del_where (\<lambda>key b. \<not> (now - pushedAt b \<le> defaultRegisterChallengeTTL) \<and> recordByKey key now q = None) (blocked q),
      shutting := shutting q @ gone\<rparr>"
    using assms(2) unfolding cleanupExpiredLocked_def sw by (simp_all del: not_None_eq) blast
  have "listed now s rec \<longleftrightarrow> listed now r rec" if "rec \<in> set (records s)" for rec
  proof (cases "isLease rec \<and> \<not> isExpired now rec")
    case True
    then have "recordByKey (recKey rec) now q \<noteq> None" using that by (auto simp: recordByKey_def s find_None_iff)
    then have "isRoutableLocked (recKey rec) s = isRoutableLocked (recKey rec) r"
      using e reachable_inv [OF assms(1)]
      by (auto simp: isRoutableLocked_def s has_key_def lookup_del_where reg_inv_def simp del: not_None_eq split: option.split)
    then show ?thesis by (simp add: listed_def split: option.split)
  next
    case False
    then show ?thesis by (auto simp: listed_def split: option.split)
  qed
  then have "filter (listed now s) (records s) = filter (listed now r) (records s)" by (simp cong: filter_cong)
  moreover have "filter_mset (listed now r) (mset (records s)) = filter_mset (listed now r) (mset (records r))"
  proof -
    have "filter_mset (listed now r) (mset (records s)) = filter_mset (\<lambda>x. \<not> isExpired now x \<and> listed now r x) (mset (records r))"
      using e by (simp add: s filter_filter_mset)
    also have "\<dots> = filter_mset (listed now r) (mset (records r))" by (rule filter_mset_cong) (auto simp: listed_def)
    finally show ?thesis .
  qed
  ultimately have "mset (PublicLeases now s) = mset (PublicLeases now r)" by (simp add: PublicLeases_def)
  then show ?thesis using e by (auto simp: s del_where_def)
qed

theorem cleanup_removes_exactly_expired_witness:
  "fst (cleanupExpiredLocked (1600 * second) (1600 * second) demo_state) = [alice_lease]
   \<and> records (snd (cleanupExpiredLocked (1600 * second) (1600 * second) demo_state)) = []"
proof -
  obtain expired s where c: "cleanupExpiredLocked (1600 * second) (1600 * second) demo_state = (expired, s)" by force
  from cleanup_removes_exactly_expired [OF demo_state_reachable c]
  have "mset expired = {#alice_lease#}" "mset (records s) = {#}" by (simp_all add: demo_state_fields alice_fields time_units)
  then show ?thesis using c by (simp add: mset_single_iff_right)
qed

definition carriesID :: "string \<Rightarrow> leaseRecord \<Rightarrow> bool" where
  "carriesID cid rec \<longleftrightarrow> map_option ChallengeID (registerChallenge rec) = Some cid"

lemma challengeIndex_None: "challengeIndex cid recs = None \<longleftrightarrow> filter (carriesID cid) recs = []"
proof -
  have "challengeIndex cid recs = None \<longleftrightarrow> (\<forall>i < length recs. \<not> carriesID cid (recs ! i))"
    unfolding challengeIndex_def find_None_iff carriesID_def by simp
  then show ?thesis by (simp add: filter_empty_conv all_set_conv_all_nth)
qed

text \<open>
  C23: a challenge is good for one registration. If at most one pending record carries the id of
  a request, then a successful verification returns the challenge of that record, which was
  not expired, whose message and id the request repeats and whose signature recovers to the
  address of the identity; the record is gone and the same request is refused afterwards.
\<close>

theorem challenge_is_used_once:
  assumes "length (filter (carriesID (TrimSpace (rq_ChallengeID req))) (records r)) \<le> 1"
    and "consumeVerifiedRegisterChallenge env req now wall r = (Inr (c, source), s)"
  shows "(\<exists>rec \<in> set (records r). registerChallenge rec = Some c \<and> source = sourceAddr rec
       \<and> add_mset rec (mset (records s)) = mset (records r))
     \<and> now \<le> ch_ExpiresAt c \<and> rq_SIWEMessage req = SIWEMessage c
     \<and> (\<exists>wallet. recoverSigner env (SIWEMessage c) (rq_SIWESignature req) = Inr wallet
          \<and> ToLower wallet = ToLower (Address (req_Identity (ch_Request c))))
     \<and> consumeVerifiedRegisterChallenge env req now' wall' s = (Inl ErrChallengeNotFound, s)"
proof -
  let ?id = "TrimSpace (rq_ChallengeID req)"
  from assms(2) obtain i where i: "challengeIndex ?id (records r) = Some i" and ne: "?id \<noteq> ''''"
    and live: "\<not> Expired (registerChallenge (records r ! i)) now"
    and ver: "Verify_Challenge (recoverSigner env) req now (registerChallenge (records r ! i)) = None"
    and c: "c = the (registerChallenge (records r ! i))" "source = sourceAddr (records r ! i)" and s: "s = deleteRecord wall i r"
    by (auto simp: consumeVerifiedRegisterChallenge_def Let_def split: option.splits if_splits)
  note i' = challengeIndex_Some [OF i]
  then have some: "registerChallenge (records r ! i) = Some c" using c by auto
  have m: "add_mset (records r ! i) (mset (records s)) = mset (records r)" using mset_swap_delete [of i "records r"] i' by (simp add: s)
  then have "\<exists>rec \<in> set (records r). registerChallenge rec = Some c \<and> source = sourceAddr rec \<and> add_mset rec (mset (records s)) = mset (records r)"
    using i' some c(2) by (intro bexI [of _ "records r ! i"]) auto
  moreover have "now \<le> ch_ExpiresAt c" using live by (simp add: some Expired_def)
  moreover have "length (filter (carriesID ?id) (records r)) = Suc (length (filter (carriesID ?id) (records s)))"
    using arg_cong [OF m, of "\<lambda>x. size (filter_mset (carriesID ?id) x)"] i'
    by (simp add: carriesID_def mset_filter [symmetric] del: mset_filter)
  then have "challengeIndex ?id (records s) = None" using assms(1) by (simp add: challengeIndex_None)
  then have "consumeVerifiedRegisterChallenge env req now' wall' s = (Inl ErrChallengeNotFound, s)"
    using ne by (simp add: consumeVerifiedRegisterChallenge_def Let_def)
  ultimately show ?thesis using ver by (auto simp: some Verify_Challenge_None)
qed

definition demo_challenge :: RegisterChallenge where
  "demo_challenge = \<lparr>ChallengeID = ''c1'', ch_ExpiresAt = 1120 * second, ch_Request = demo_lease_request bob 60, SIWEMessage = ''sign in''\<rparr>"

definition demo_challenged :: leaseRegistry where
  "demo_challenged = demo_state\<lparr>records := [alice_lease, challengeRecord 1 demo_challenge (Some ''10.0.0.1'')], nextRef := 2\<rparr>"

definition demo_answer :: RegisterRequest where
  "demo_answer = \<lparr>rq_ChallengeID = ''c1'', rq_SIWEMessage = ''sign in'', rq_SIWESignature = Address bob, rq_ReportedIP = ''''\<rparr>"

theorem challenge_is_used_once_witness:
  "\<exists>s. consumeVerifiedRegisterChallenge demo_env demo_answer (1010 * second) (1010 * second) demo_challenged = (Inr (demo_challenge, Some ''10.0.0.1''), s)
     \<and> consumeVerifiedRegisterChallenge demo_env demo_answer (1011 * second) (1011 * second) s = (Inl ErrChallengeNotFound, s)"
proof -
  have trim: "TrimSpace ''c1'' = ''c1''" by code_simp
  have i: "challengeIndex ''c1'' (records demo_challenged) = Some 1"
    by (simp add: challengeIndex_def demo_challenged_def alice_lease_def challengeRecord_def demo_challenge_def)
  have "Verify_Challenge (recoverSigner demo_env) demo_answer (1010 * second) (Some demo_challenge) = None"
    by (simp add: Verify_Challenge_None demo_answer_def demo_challenge_def demo_env_def demo_lease_request_def truncate_second_def time_units)
  moreover have "registerChallenge (records demo_challenged ! 1) = Some demo_challenge" "sourceAddr (records demo_challenged ! 1) = Some ''10.0.0.1''"
    by (simp_all add: demo_challenged_def challengeRecord_def)
  moreover have "\<not> Expired (Some demo_challenge) (1010 * second)" "rq_ChallengeID demo_answer = ''c1''"
    by (simp_all add: Expired_def demo_challenge_def demo_answer_def time_units)
  ultimately obtain s where ok: "consumeVerifiedRegisterChallenge demo_env demo_answer (1010 * second) (1010 * second) demo_challenged = (Inr (demo_challenge, Some ''10.0.0.1''), s)"
    using i trim by (simp add: consumeVerifiedRegisterChallenge_def)
  have "length (filter (carriesID (TrimSpace (rq_ChallengeID demo_answer))) (records demo_challenged)) \<le> 1"
    by (simp add: demo_challenged_def carriesID_def alice_lease_def)
  from challenge_is_used_once [OF this ok, of "1011 * second" "1011 * second"] ok show ?thesis by blast
qed

text \<open>
  A renewal extends the one lease its token names and nothing else. On success the new expiry
  is the renewal time plus the requested lifetime, at most ten minutes, on a whole second; the
  lease keeps its identity, id, host names, ports, challenge state and bridges; all other
  records, the ports, the blocks and the pending registrations are as before.
\<close>

theorem renewal_is_local:
  assumes "reachableRegistry r" and "Renew env clock tokenID req source current r = (Inr (expires, token, inp), s)"
  shows "\<exists>c rec rec' xs ys. accessClaims env (rn_AccessToken req) (clock 0) r = Inr c
     \<and> recKey rec = ServiceKey (tc_Identity c) \<and> lr_id rec = tc_LeaseID c \<and> isLease rec
     \<and> records r = xs @ rec # ys \<and> records s = xs @ rec' # ys
     \<and> ExpiresAt rec' = expires \<and> clock 1 - second < expires \<and> expires \<le> clock 1 + 10 * minute
     \<and> sameCore rec' rec \<and> bridges rec' = bridges rec \<and> Hostname rec' = Hostname rec \<and> lr_id rec' = lr_id rec \<and> reverse rec' = reverse rec
     \<and> udpPorts s = udpPorts r \<and> tcpPorts s = tcpPorts r \<and> blocked s = blocked r \<and> registering s = registering r \<and> shutting s = shutting r"
proof -
  have inv: "reg_inv r" by (rule reachable_inv [OF assms(1)])
  from assms(2) show ?thesis
  proof (cases rule: Renew_cases)
    case (unchanged e)
    then show ?thesis by simp
  next
    case (renewed c rec rec1 ttl st)
    let ?rec = "renewRecord env req ttl source (clock 1) rec1"
    note f = recordForVerifiedLease_in [OF renewed(2)]
    then obtain xs ys where xs: "records r = xs @ rec # ys" by (auto simp: in_set_conv_decomp)
    have "ref rec \<notin> ref ` set (xs @ ys)" using inv xs by (auto simp: reg_inv_def refs_inv_def allRecs_def)
    then have "\<forall>x \<in> set (xs @ ys). ref x \<noteq> ref rec" by (metis image_eqI)
    then have upd: "records s = xs @ ?rec # ys" unfolding renewed(5) by (auto simp: updRecord_def xs intro!: map_idI)
    have ttl: "0 < ttl" "ttl \<le> 10 * minute" using renewed(4) by (auto simp: requestedLeaseTTL_def defaultLeaseTTL_def maxLeaseTTL_def time_units split: if_splits)
    have ex: "expires = truncate_second (clock 1 + ttl)" by (rule renewed(6)) (rule refl)
    moreover have "ExpiresAt ?rec = truncate_second (clock 1 + ttl)" by (simp add: renewRecord_def Let_def)
    moreover have "second \<le> ttl" using renewed(4) by (auto simp: requestedLeaseTTL_def defaultLeaseTTL_def time_units split: if_splits)
    then have "clock 1 - second < expires \<and> expires \<le> clock 1 + 10 * minute"
      using truncate_second_le [of "clock 1 + ttl"] truncate_second_gt [of "clock 1 + ttl"] ttl ex by simp
    moreover have "sameCore ?rec rec \<and> bridges ?rec = bridges rec" using renewed_same [OF renewed(3)] f lease_not_challenge [OF inv] by blast
    moreover have "Hostname ?rec = Hostname rec \<and> lr_id ?rec = lr_id rec \<and> reverse ?rec = reverse rec"
      using renewed(3) by (auto simp: renewRecord_def stalePin_def Let_def split: option.splits if_splits)
    moreover have "udpPorts s = udpPorts r \<and> tcpPorts s = tcpPorts r \<and> blocked s = blocked r \<and> registering s = registering r \<and> shutting s = shutting r"
      by (simp add: renewed(5) updRecord_def)
    ultimately show ?thesis using xs upd f renewed(1)
      by (intro exI [of _ c] exI [of _ rec] exI [of _ ?rec] exI [of _ xs] exI [of _ ys]) simp
  qed
qed

theorem renewal_is_local_witness:
  "\<exists>expires token inp s rec'. Renew demo_env (\<lambda>_. 1300 * second) ''A2'' (demo_renewal 60) None None demo_state = (Inr (expires, token, inp), s)
     \<and> records s = [rec'] \<and> ExpiresAt rec' = expires \<and> 1299 * second < expires \<and> expires \<le> 1300 * second + 10 * minute"
proof -
  let ?rn = "Renew demo_env (\<lambda>_. 1300 * second) ''A2'' (demo_renewal 60) None None demo_state"
  have "\<not> isl (fst ?rn)" by code_simp
  then obtain expires token inp s where ok: "?rn = (Inr (expires, token, inp), s)"
    by (metis isl_def obj_sumE prod.exhaust_sel surj_pair)
  from renewal_is_local [OF demo_state_reachable ok] obtain rec rec' xs ys where r:
    "records demo_state = xs @ rec # ys" "records s = xs @ rec' # ys" "ExpiresAt rec' = expires"
    "1300 * second - second < expires" "expires \<le> 1300 * second + 10 * minute" by blast
  then have "xs = []" "ys = []" by (cases xs; simp add: demo_state_fields)+
  with r ok show ?thesis by auto
qed

end
