(* ===== verification/Lease_Routing.thy ===== *)
theory Lease_Routing
  imports Lease_Safety
begin

text \<open>
  Host names and routing. Every record the registry holds has a canonical host name of canonical
  shape and a friendly host name that is not of that shape, so an admitted lease owns its names
  against every live lease of another identity, and a lookup of one of its names finds it.
\<close>

section \<open>Names of records\<close>

definition names_ok :: "leaseRecord \<Rightarrow> bool" where
  "names_ok rec \<longleftrightarrow> (isPublicEntry rec \<longrightarrow> hasCanonicalShape (firstLabel (CanonicalHostname rec))
     \<and> (Hostname rec = '''' \<or> \<not> hasCanonicalShape (firstLabel (Hostname rec))))"

definition names_inv :: "leaseRegistry \<Rightarrow> bool" where
  "names_inv r \<longleftrightarrow> list_all names_ok (records r) \<and> list_all names_ok (registering r)"

text \<open>Registrations hash names as the code does.\<close>

fun hashes_names :: "reg_op \<Rightarrow> bool" where
  "hashes_names (RegBegin env req source ip served leaseID tokenID t1 t2 t3) \<longleftrightarrow> base32_hash (nameHash env)"
| "hashes_names _ \<longleftrightarrow> True"

definition sameNames :: "leaseRecord \<Rightarrow> leaseRecord \<Rightarrow> bool" where
  "sameNames a b \<longleftrightarrow> CanonicalHostname a = CanonicalHostname b \<and> Hostname a = Hostname b"

lemma sameNames_ok: "sameNames a b \<Longrightarrow> names_ok b \<Longrightarrow> names_ok a"
  by (simp add: sameNames_def names_ok_def isPublicEntry_def)

lemma registerPrepare_names:
  assumes "registerPrepare env x req source ip served leaseID tokenID t1 t2 r = Inr (rec, token)" and "base32_hash (nameHash env)"
  shows "names_ok rec"
proof -
  from assms(1) obtain h where
      c: "CanonicalLeaseHostname (toASCII env) (loopbackIP env) (nameHash env) (Name (req_Identity req)) (Address (req_Identity req)) (rootHostname r) = Inr (CanonicalHostname rec)"
    and h: "(if Name (req_Identity req) \<noteq> '''' then LeaseHostname (toASCII env) (loopbackIP env) (Name (req_Identity req)) (rootHostname r) else Inr '''') = Inr (Hostname rec)"
    by (auto simp: registerPrepare_def Let_def split: sum.splits if_splits)
  show ?thesis
    using canonical_label [OF assms(2) c] friendly_label(1) [OF assms(2) c] h by (auto simp: names_ok_def split: if_splits)
qed

lemma registerPorts_names:
  "registerPorts req now rec r = (err, rec', s) \<Longrightarrow> sameNames rec' rec \<and> records s = records r \<and> registering s = registering r"
  by (auto simp: registerPorts_def sameNames_def Let_def split: if_splits sum.splits prod.splits)

lemma Start_names: "Start_leaseRecord udp tcp rec = (e, rec') \<Longrightarrow> sameNames rec' rec"
  by (auto simp: Start_leaseRecord_def sameNames_def Let_def split: if_splits sum.splits prod.splits option.splits)

lemma names_subset: "names_inv r \<Longrightarrow> set (records s) \<subseteq> set (records r) \<Longrightarrow> set (registering s) \<subseteq> set (registering r) \<Longrightarrow> names_inv s"
  by (auto simp: names_inv_def list_all_iff)

lemma names_upd: "names_inv r \<Longrightarrow> (\<And>rec. rec \<in> set (records r) \<Longrightarrow> ref rec = x \<Longrightarrow> sameNames (f rec) rec) \<Longrightarrow> names_inv (updRecord x f r)"
  by (auto simp: names_inv_def list_all_iff updRecord_def intro: sameNames_ok)

lemma set_swap_delete: "i < length xs \<Longrightarrow> set (swap_delete i xs) \<subseteq> set xs"
  using set_mset_mono [OF swap_delete_subset] by force

lemma set_sweep: "set (records (snd (sweep P reset now 0 r))) \<subseteq> set (records r) \<and> registering (snd (sweep P reset now 0 r)) = registering r"
proof -
  obtain gone s where sw: "sweep P reset now 0 r = (gone, s)" by force
  note e = sweep_exact [OF sw, simplified]
  then have "mset (records s) \<subseteq># mset (records r)" by (simp add: multiset_filter_subset)
  then have "set (records s) \<subseteq> set (records r)" using set_mset_mono by force
  with e sw show ?thesis by simp
qed

lemma names_admit:
  assumes inv: "reg_inv r" and names: "names_inv r"
  shows "names_inv (reg_step (RegAdmit x req now) r)"
proof (cases "heldRecord x (registering r)")
  case (Some rec)
  then have rec: "names_ok rec" using names heldRecord_in by (fastforce simp: names_inv_def list_all_iff)
  have rm: "list_all names_ok (remove1 rec (registering r))"
    using names set_remove1_subset [of rec "registering r"] by (auto simp: names_inv_def list_all_iff)
  obtain res s where ad: "registerAdmit req now rec r = (res, s)" by force
  show ?thesis
  proof (cases res)
    case (Inl err)
    then show ?thesis using names rm Some ad registerAdmit_err by (fastforce simp: names_inv_def)
  next
    case (Inr p)
    obtain rec' replaced where p: "p = (rec', replaced)" by force
    have "names_inv (s\<lparr>registering := remove1 rec (registering s)\<rparr>)"
    proof (rule registerAdmit_ok [OF inv ad [unfolded Inr p]])
      fix st
      assume st: "registerScan now (recKey rec) (CanonicalHostname rec) (AllowCanonicalFallback req) 0
          \<lparr>sc_replaced = None, sc_udp = 0, sc_tcp = 0, sc_hostname = Hostname rec\<rparr> (records r) = Inr st"
        and rec': "rec' = rec\<lparr>Hostname := sc_hostname st\<rparr>"
        and recs: "records s = (case sc_replaced st of Some i \<Rightarrow> (records r)[i := rec'] | None \<Rightarrow> records r @ [rec'])"
        and rg: "registering s = registering r"
      have "names_ok rec'" using rec registerScan_hostname [OF st] by (auto simp: rec' names_ok_def isPublicEntry_def)
      moreover have "set (records s) \<subseteq> insert rec' (set (records r))"
        by (auto simp: recs split: option.splits dest: set_update_subset_insert [THEN subsetD])
      ultimately show ?thesis using names rm rg by (auto simp: names_inv_def list_all_iff)
    qed
    then show ?thesis using Some ad Inr p by (cases replaced) (simp_all add: names_inv_def)
  qed
qed (use names in simp)

lemma names_renew:
  assumes names: "names_inv r"
  shows "names_inv (reg_step (RenewLease env clock tokenID req source current) r)"
proof -
  obtain res s where rn: "Renew env clock tokenID req source current r = (res, s)" by force
  then have "names_inv s"
  proof (cases rule: Renew_cases)
    case (renewed c rec rec1 ttl st)
    have "names_ok rec" using recordForVerifiedLease_in [OF renewed(2)] names by (auto simp: names_inv_def list_all_iff)
    then have "names_ok (renewRecord env req ttl source (clock 1) rec1)"
      using renewed(3) by (auto simp: renewRecord_def stalePin_def names_ok_def isPublicEntry_def Let_def split: option.splits if_splits)
    then show ?thesis using names by (auto simp: renewed(5) names_inv_def updRecord_def list_all_iff)
  qed (use names in simp)
  with rn show ?thesis by simp
qed

lemma names_access [simp]:
  "names_ok (applyToRecord b rec) = names_ok rec" "names_ok (snd (pauseOrResume access rec)) = names_ok rec"
  by (simp_all add: names_ok_def isPublicEntry_def applyToRecord_def revokeBridgesLocked_def pauseOrResume_def Let_def split: option.split prod.split)

lemma names_step:
  assumes inv: "reg_inv r" and names: "names_inv r" and ok: "hashes_names e"
  shows "names_inv (reg_step e r)"
proof (cases e)
  case (RegBegin env req source ip served leaseID tokenID t1 t2 t3)
  then show ?thesis
    using names ok registerPrepare_names sameNames_ok
    by (auto simp: names_inv_def split: sum.splits prod.splits option.splits dest!: registerPorts_names)
next
  case (RegStart x udp tcp)
  show ?thesis
  proof (cases "heldRecord x (registering r)")
    case (Some rec)
    then have "names_ok rec" using names heldRecord_in by (fastforce simp: names_inv_def list_all_iff)
    moreover have "list_all names_ok (remove1 rec (registering r))"
      using names set_remove1_subset [of rec "registering r"] by (auto simp: names_inv_def list_all_iff)
    ultimately show ?thesis using names Some RegStart
      by (auto simp: names_inv_def split: prod.splits option.splits intro: sameNames_ok [OF Start_names])
  qed (use names RegStart in simp)
next
  case (RegAdmit x req now)
  then show ?thesis using names_admit [OF inv names] by simp
next
  case (RegEndpoint env answer self tokenID t1 t2 inp)
  then show ?thesis using names by (auto simp: names_inv_def issueReverseEndpoint_def Let_def split: sum.splits)
next
  case (RegUndo x now)
  then show ?thesis using names
    by (auto dest: set_swap_delete [THEN subsetD] simp: registerUndo_def Let_def split: option.splits dest!: indexOf_Some intro!: names_subset [OF names])
next
  case (UnregisterLease env token t1 t2)
  then show ?thesis using names
    by (auto dest: set_swap_delete [THEN subsetD] simp: UnregisterLocked_def Let_def split: sum.splits option.splits dest!: indexOf_Some intro!: names_subset [OF names])
next
  case (CleanupLeases now wall)
  then show ?thesis using names set_sweep [of "isExpired now" isLease wall r]
    by (auto simp: cleanupExpiredLocked_def simp del: not_None_eq split: prod.splits intro!: names_subset [OF names])
next
  case (IssueChallenge env cid nonce now wall req domain uri source)
  have "names_inv (snd (sweep (\<lambda>rec. isChallenge rec \<and> isExpired now rec) (\<lambda>_. False) wall 0 r))"
    using set_sweep [of "\<lambda>rec. isChallenge rec \<and> isExpired now rec" "\<lambda>_. False" wall r] by (auto intro!: names_subset [OF names])
  then show ?thesis using names IssueChallenge
    by (auto simp: issueRegisterChallenge_def Let_def names_inv_def names_ok_def isPublicEntry_def challengeRecord_def split: sum.splits)
next
  case (ConsumeChallenge env req now wall)
  then show ?thesis using names
    by (auto dest: set_swap_delete [THEN subsetD] simp: consumeVerifiedRegisterChallenge_def Let_def split: option.splits dest!: challengeIndex_Some intro!: names_subset [OF names])
next
  case (RefuseChallenge key cid source now wall)
  then show ?thesis using names
    by (auto dest: set_swap_delete [THEN subsetD] simp: refuseChallengeOverBudget_def split: option.splits dest!: issuedIndex_Some intro!: names_subset [OF names])
next
  case (RenewLease env clock tokenID req source current)
  then show ?thesis using names_renew [OF names] by simp
next
  case (PushAccess key access revn now)
  then show ?thesis using names by (auto simp: setIdentityAccess_def Let_def names_inv_def list_all_iff)
next
  case (SuspendIdentity key now)
  then show ?thesis using names by (auto simp: suspendIdentity_def names_inv_def list_all_iff)
next
  case (AdmitBridge fresh ctxErr held inbound now)
  then show ?thesis using names by (auto simp: admitBridge_def Let_def sameNames_def split: option.split intro!: names_upd)
next
  case (ActivateBridge held b conn now)
  then show ?thesis using names by (auto simp: activateBridge_def sameNames_def split: option.split intro!: names_upd)
next
  case CloseEverything
  then show ?thesis using names by (simp add: CloseAllLocked_def Let_def names_inv_def CloseAll_fold del: not_None_eq)
next
  case (DatagramOp x op)
  then show ?thesis using names by (cases op) (auto simp: sameNames_def intro!: names_upd)
next
  case (CloseRec rec t1 t2)
  then show ?thesis using names by (simp add: closeRecord_def dropShutting_def names_inv_def)
next
  case (RollbackRec rec t)
  then show ?thesis using names by (simp add: rollbackRecord_def dropShutting_def names_inv_def)
next
  case (TouchLease key source now)
  then show ?thesis using names by (auto simp: Touch_def sameNames_def split: option.split intro!: names_upd)
next
  case (SetUDPPolicy on m)
  then show ?thesis using names by (simp add: setUDPPolicy_def names_inv_def)
next
  case (SetTCPPolicy on m)
  then show ?thesis using names by (simp add: setTCPPortPolicy_def names_inv_def)
qed (use names in \<open>auto simp: sameNames_def releaseBridge_state attachReverseMux_def detachReverseMux_def intro!: names_upd\<close>)

lemma names_run: "reg_inv r \<Longrightarrow> names_inv r \<Longrightarrow> list_all hashes_names ops \<Longrightarrow> names_inv (fold reg_step ops r)"
  by (induction ops arbitrary: r) (auto intro: names_step leases.step_inv)

section \<open>Ownership of host names\<close>

lemma set_hostnames: "h \<in> set (hostnames rec) \<longleftrightarrow> isPublicEntry rec \<and> (h = CanonicalHostname rec \<or> Hostname rec \<noteq> '''' \<and> h = Hostname rec)"
  by (auto simp: hostnames_def)

lemma admitted_names:
  assumes inv: "reg_inv r" and names: "names_inv r" and rec: "rec \<in> set (registering r)"
    and admit: "registerAdmit req now rec r = (Inr (rec', replaced), s)"
    and e: "e \<in> set (records r)" "\<not> isExpired now e" "recKey e \<noteq> recKey rec"
  shows "set (hostnames e) \<inter> set (hostnames rec') = {}"
proof (rule registerAdmit_ok [OF inv admit])
  fix st
  assume st: "registerScan now (recKey rec) (CanonicalHostname rec) (AllowCanonicalFallback req) 0
       \<lparr>sc_replaced = None, sc_udp = 0, sc_tcp = 0, sc_hostname = Hostname rec\<rparr> (records r) = Inr st"
    and rec': "rec' = rec\<lparr>Hostname := sc_hostname st\<rparr>"
  have n: "names_ok e" "names_ok rec" using names rec e by (auto simp: names_inv_def list_all_iff)
  have "names_ok rec'" using n(2) registerScan_hostname [OF st] by (auto simp: rec' names_ok_def isPublicEntry_def)
  moreover have "rival now (recKey rec) e \<Longrightarrow> CanonicalHostname e \<noteq> CanonicalHostname rec \<and> (Hostname e = '''' \<or> Hostname e \<noteq> sc_hostname st)"
    using registerScan_free [OF st e(1)] by blast
  ultimately show ?thesis
    using n(1) e by (auto simp: set_hostnames rec' rival_def names_ok_def isPublicEntry_def)
qed

text \<open>The records after an admission: the new one, and the others, none of them a lease of the same identity.\<close>

lemma admitted_records:
  assumes inv: "reg_inv r" and rec: "rec \<in> set (registering r)" and admit: "registerAdmit req now rec r = (Inr (rec', replaced), s)"
  shows "rec' \<in> set (records s)" and "recKey rec' = recKey rec"
    and "e \<in> set (records s) \<Longrightarrow> e = rec' \<or> e \<in> set (records r) \<and> (isPublicEntry e \<longrightarrow> recKey e \<noteq> recKey rec)"
proof -
  obtain st where st: "registerScan now (recKey rec) (CanonicalHostname rec) (AllowCanonicalFallback req) 0
       \<lparr>sc_replaced = None, sc_udp = 0, sc_tcp = 0, sc_hostname = Hostname rec\<rparr> (records r) = Inr st"
    and rec': "rec' = rec\<lparr>Hostname := sc_hostname st\<rparr>"
    and recs: "records s = (case sc_replaced st of Some i \<Rightarrow> (records r)[i := rec'] | None \<Rightarrow> records r @ [rec'])"
    by (rule registerAdmit_ok [OF inv admit])
  note hit = registerScan_replaced [OF st, simplified]
  show "rec' \<in> set (records s)" using hit by (auto simp: recs set_update_memI split: option.splits)
  show k: "recKey rec' = recKey rec" by (simp add: rec')
  let ?s = "s\<lparr>registering := remove1 rec (registering r), shutting := shutting r @ (case replaced of None \<Rightarrow> [] | Some old \<Rightarrow> [old])\<rparr>"
  have after: "reg_inv ?s" by (rule reg_inv_admit [OF inv rec admit])
  have "isLease rec" using inv rec by (auto simp: reg_inv_def new_lease_def)
  then have "isLease rec'" by (simp add: rec')
  assume e: "e \<in> set (records s)"
  have "e = rec'" if "isPublicEntry e" "recKey e = recKey rec"
  proof -
    have "isLease e" using after e that by (auto simp: reg_inv_def rec_ok_def shape_def isPublicEntry_def)
    moreover have "inj_on recKey (set (filter isLease (records s)))"
      using after by (simp add: reg_inv_def keys_inv_def distinct_map)
    ultimately show ?thesis
      using inj_onD [of recKey "set (filter isLease (records s))" e rec'] e \<open>isLease rec'\<close> \<open>rec' \<in> set (records s)\<close> k that(2) by simp
  qed
  moreover have "e = rec' \<or> e \<in> set (records r)"
    using e by (auto simp: recs split: option.splits dest: set_update_subset_insert [THEN subsetD])
  ultimately show "e = rec' \<or> e \<in> set (records r) \<and> (isPublicEntry e \<longrightarrow> recKey e \<noteq> recKey rec)" by blast
qed

lemma find_unique:
  assumes "x \<in> set xs" and "P x" and "\<And>y. y \<in> set xs \<Longrightarrow> P y \<Longrightarrow> y = x"
  shows "find P xs = Some x"
proof -
  obtain y where "find P xs = Some y" using assms(1,2) by (metis find_None_iff not_Some_eq)
  then show ?thesis using find_in_set assms(3) by fastforce
qed

text \<open>
  C3: an admitted lease owns its names. When a registration is admitted, no live record of
  another identity shares any host name with it, neither a friendly nor a canonical one, in
  any combination; and a lookup of one of its host names at that moment finds exactly it.
\<close>

theorem admission_owns_hostnames:
  assumes "list_all hashes_names ops"
    and "r = fold reg_step ops (newLeaseRegistry minPort maxPort root pubkey issuer url)"
    and "rec \<in> set (registering r)" and "registerAdmit req now rec r = (Inr (rec', replaced), s)"
  shows "(\<forall>e \<in> set (records r). \<not> isExpired now e \<and> recKey e \<noteq> recKey rec \<longrightarrow> set (hostnames e) \<inter> set (hostnames rec') = {})
     \<and> (NormalizeHostname host \<in> set (hostnames rec') \<and> NormalizeHostname host \<noteq> '''' \<and> \<not> isExpired now rec' \<longrightarrow> Lookup host now s = Some rec')"
proof -
  have inv: "reg_inv r" unfolding assms(2) by (rule leases.run_inv [OF reg_inv_new])
  have names: "names_inv r" unfolding assms(2)
    by (rule names_run [OF reg_inv_new _ assms(1)]) (simp add: names_inv_def newLeaseRegistry_def)
  note dis = admitted_names [OF inv names assms(3,4)]
  note recs = admitted_records [OF inv assms(3,4)]
  have "Lookup host now s = Some rec'" if h: "NormalizeHostname host \<in> set (hostnames rec')" "NormalizeHostname host \<noteq> ''''" "\<not> isExpired now rec'"
  proof -
    have "find (\<lambda>e. isPublicEntry e \<and> \<not> isExpired now e \<and> NormalizeHostname host \<in> set (hostnames e)) (records s) = Some rec'"
    proof (rule find_unique [OF recs(1)])
      show "isPublicEntry rec' \<and> \<not> isExpired now rec' \<and> NormalizeHostname host \<in> set (hostnames rec')"
        using h by (auto simp: hostnames_def split: if_splits)
      fix y
      assume "y \<in> set (records s)" and y: "isPublicEntry y \<and> \<not> isExpired now y \<and> NormalizeHostname host \<in> set (hostnames y)"
      then show "y = rec'" using recs(3) [of y] dis [of y] h(1) by blast
    qed
    then show ?thesis using h(2) by (simp add: Lookup_def Let_def)
  qed
  with dis show ?thesis by blast
qed

definition bob_ops :: "reg_op list" where
  "bob_ops = alice_ops @ take 2 (demo_register bob 600 ''lease_b'' ''B1'' 1 (1010 * second))"

definition bob_lease :: leaseRecord where
  "bob_lease = alice_lease\<lparr>ref := 1, lr_Identity := bob, lr_id := ''lease_b'', ExpiresAt := 1610 * second,
     FirstSeenAt := 1010 * second, LastSeenAt := 1010 * second,
     CanonicalHostname := ''blog-bbbbbbbbbbbbbbbbbbbbbbbbbbbbbbbbbbbbbbbb.example.com'',
     datagram := Some ((NewRelayDatagram (ServiceKey bob) 4001)\<lparr>rd_conn := Some 7, started := True\<rparr>)\<rparr>"

definition demo_scene :: leaseRegistry where
  "demo_scene = demo_state\<lparr>registering := [bob_lease], nextRef := 2,
     udpPorts := snd (allocate 1 (ServiceKey bob) (1010 * second) (udpPorts demo_state))\<rparr>"

lemma demo_scene_run: "fold reg_step bob_ops demo_new = demo_scene"
  by code_simp

theorem admission_owns_hostnames_witness:
  "\<exists>rec' s. registerAdmit (demo_lease_request bob 600\<lparr>AllowCanonicalFallback := True\<rparr>) (1010 * second) bob_lease demo_scene = (Inr (rec', None), s)
     \<and> hostnames rec' = [''blog-bbbbbbbbbbbbbbbbbbbbbbbbbbbbbbbbbbbbbbbb.example.com'']
     \<and> Lookup ''blog-bbbbbbbbbbbbbbbbbbbbbbbbbbbbbbbbbbbbbbbb.example.com'' (1010 * second) s = Some rec'"
proof -
  let ?req = "demo_lease_request bob 600\<lparr>AllowCanonicalFallback := True\<rparr>"
  let ?host = "''blog-bbbbbbbbbbbbbbbbbbbbbbbbbbbbbbbbbbbbbbbb.example.com''"
  have hashed: "list_all hashes_names bob_ops"
    using demo_hash_ok by (simp add: bob_ops_def alice_ops_def demo_register_def demo_env_def)
  have scene: "demo_scene = fold reg_step bob_ops (newLeaseRegistry 4000 4009 ''example.com'' ''pk'' ''iss'' ''https://r'')"
    using demo_scene_run by (simp add: demo_new_def)
  have rec: "bob_lease \<in> set (registering demo_scene)" by (simp add: demo_scene_def)
  have "case fst (registerAdmit ?req (1010 * second) bob_lease demo_scene) of Inl e \<Rightarrow> False
      | Inr (rec', replaced) \<Rightarrow> replaced = None \<and> hostnames rec' = [?host] \<and> \<not> isExpired (1010 * second) rec'" by code_simp
  then obtain rec' s where ok: "registerAdmit ?req (1010 * second) bob_lease demo_scene = (Inr (rec', None), s)"
    and h: "hostnames rec' = [?host]" "\<not> isExpired (1010 * second) rec'"
    by (cases "registerAdmit ?req (1010 * second) bob_lease demo_scene") (auto split: sum.splits)
  have norm: "NormalizeHostname ?host = ?host" by code_simp
  have "Lookup ?host (1010 * second) s = Some rec'"
    using admission_owns_hostnames [OF hashed scene rec ok, of ?host] h norm by simp
  then show ?thesis using ok h by blast
qed

section \<open>Where ownership ends\<close>

definition demo_revival :: "reg_op list" where
  "demo_revival = alice_ops
     @ [RenewLease demo_env (\<lambda>_. 1001 * second) ''A2'' (demo_renewal 1) None None]
     @ demo_register bob 600 ''lease_b'' ''B1'' 1 (1010 * second)
     @ [RenewLease demo_env (\<lambda>_. 1011 * second) ''A3'' (demo_renewal 60) None None]"


end
