(* ===== verification/Float64.thy ===== *)
theory Float64
  imports Prelude "HOL-Library.Word"
begin

text \<open>
  Go's float64 as its IEEE 754 bit pattern. The arithmetic the code uses is an argument of the
  definitions that compute with it, so their properties hold for any rounding.
\<close>

unbundle bit_operations_syntax

type_synonym float64 = "64 word"

text \<open>The bits of a float64: sign, exponent and fraction.\<close>

definition float_sign :: "float64 \<Rightarrow> bool" where "float_sign x = bit x 63"
definition float_exp :: "float64 \<Rightarrow> nat" where "float_exp x = unat (drop_bit 52 x) mod 2048"
definition float_frac :: "float64 \<Rightarrow> nat" where "float_frac x = unat x mod 2 ^ 52"

definition IsNaN :: "float64 \<Rightarrow> bool" where "IsNaN x \<longleftrightarrow> float_exp x = 2047 \<and> float_frac x \<noteq> 0"
definition IsInf :: "float64 \<Rightarrow> bool" where "IsInf x \<longleftrightarrow> float_exp x = 2047 \<and> float_frac x = 0"
definition float_negative :: "float64 \<Rightarrow> bool" where
  "float_negative x \<longleftrightarrow> float_sign x \<and> \<not> IsNaN x \<and> (float_exp x \<noteq> 0 \<or> float_frac x \<noteq> 0)"

text \<open>Arithmetic, comparison, \<open>math.Sqrt\<close>, \<open>math.Min\<close>, \<open>math.Ceil\<close> and the conversions.\<close>

record float_ops =
  fadd :: "float64 \<Rightarrow> float64 \<Rightarrow> float64"
  fsub :: "float64 \<Rightarrow> float64 \<Rightarrow> float64"
  fmul :: "float64 \<Rightarrow> float64 \<Rightarrow> float64"
  fdiv :: "float64 \<Rightarrow> float64 \<Rightarrow> float64"
  fsqrt :: "float64 \<Rightarrow> float64"
  flt :: "float64 \<Rightarrow> float64 \<Rightarrow> bool"
  fle :: "float64 \<Rightarrow> float64 \<Rightarrow> bool"
  fmin :: "float64 \<Rightarrow> float64 \<Rightarrow> float64"
  fceil :: "float64 \<Rightarrow> float64"
  of_int64 :: "int \<Rightarrow> float64"
  to_int64 :: "float64 \<Rightarrow> int"

end
