(* ===== verification/Relay_Descriptor.thy ===== *)
theory Relay_Descriptor
  imports Hostnames Datagram_Codec Float64
begin

text \<open>
  Relay descriptors of the discovery protocol: \<open>src/portal/discovery/relay_descriptor.go\<close>, the
  freshness rules of \<open>relayset.go\<close>, and the normalisation of addresses
  (\<open>src/portal/identity/secp256k1.go\<close>) and relay URLs (\<open>src/utils/utils.go\<close>) they rest on.
  \<open>net/url\<close>, \<open>encoding/json\<close>, base64, Keccak-256 and the recovery of a signer from a compact
  secp256k1 signature are fields of the environment.
\<close>

section \<open>Descriptors\<close>

record RelayDescriptor =
  Address :: string
  Version :: string
  IssuedAt :: go_time
  ExpiresAt :: go_time
  APIHTTPSAddr :: string
  IVNPDestination :: string
  SupportsUDP :: bool
  SupportsTCP :: bool
  ActiveConnections :: int
  TCPBPS :: float64
  Signature :: string

definition MaxRelayDescriptorURLBytes :: nat where "MaxRelayDescriptorURLBytes = 2048"
definition MaxRelayDescriptorDestinationBytes :: nat where "MaxRelayDescriptorDestinationBytes = 60"
definition MaxRelayDescriptorSignatureBytes :: nat where "MaxRelayDescriptorSignatureBytes = 88"

datatype address_error = AddressIsRequired | AddressMustStartWith0x | AddressMustBe20Bytes | AddressMustBeHexEncoded | AddressChecksumIsInvalid

datatype relay_url_error =
    RelayURLIsEmpty
  | RelayURLIsInvalid
  | RelayURLHostIsEmpty
  | RelayURLMustNotIncludeCredentials
  | RelayURLHasInvalidPort
  | RelayURLPortMustBetween1
  | RelayURLMustUseHTTPS

datatype descriptor_error =
    APIHTTPSAddrTooLong
  | IVNPDestinationTooLong
  | SignatureTooLong
  | ActiveConnectionsInvalid
  | TCPBPSInvalid
  | DescriptorAddressRequired
  | UnsupportedVersion string
  | APIHTTPSAddrRequired
  | ExpiresAtRequired
  | IssuedAtAfterExpiresAt
  | RelayURLInvalid relay_url_error
  | AddressInvalid address_error
  | NotSigned
  | SignatureNotBase64
  | CanonicalizeFailed
  | SignatureInvalid
  | AddressNotSigner
  | SigningAuthorityRequired
  | AddressNotAuthority
  | SigningFailed
  | MissingIssuedAt
  | AlreadyExpired
  | TooFarFuture
  | ValidityWindowTooLong

section \<open>Environment\<close>

text \<open>What \<open>url.Parse\<close> says of a URL, with the accessors \<open>Hostname\<close> and \<open>Port\<close>.\<close>

record parsedURL =
  Scheme :: string
  Host :: string
  HasUser :: bool
  Path :: string
  RawQuery :: string
  Fragment :: string

text \<open>The contents a descriptor signs, in the order they are marshalled.\<close>

record canonicalDescriptor =
  cAddress :: string
  cVersion :: string
  cIssuedAt :: int
  cExpiresAt :: int
  cAPIHTTPSAddr :: string
  cSupportsUDP :: bool
  cSupportsTCP :: bool
  cActiveConnections :: int
  cTCPBPS :: float64
  cIVNPDestination :: string

record relay_env =
  url_Parse :: "string \<Rightarrow> parsedURL option"
  url_String :: "parsedURL \<Rightarrow> string"
  url_Hostname :: "parsedURL \<Rightarrow> string"
  url_Port :: "parsedURL \<Rightarrow> string"
  Atoi :: "string \<Rightarrow> int option"
  ParseIP_loopback :: "string \<Rightarrow> bool option"
  ParseAddr_public :: "string \<Rightarrow> bool option"
  keccak :: "bytes \<Rightarrow> bytes"
  json_Marshal :: "canonicalDescriptor \<Rightarrow> bytes option"
  base64_Decode :: "string \<Rightarrow> bytes option"
  base64_Encode :: "bytes \<Rightarrow> string"
  recover_address :: "bytes \<Rightarrow> bytes \<Rightarrow> string option"
  DiscoveryVersion :: string

section \<open>Addresses\<close>

definition string_bytes :: "string \<Rightarrow> bytes" where "string_bytes s = map of_char s"

definition upper_char :: "char \<Rightarrow> char" where
  "upper_char c = (let n = (of_char c :: nat) in if 97 \<le> n \<and> n \<le> 122 then char_of (n - 32) else c)"

text \<open>One character of the checksummed address: a letter becomes upper case when its nibble of the hash exceeds 7.\<close>

definition checksum_char :: "bytes \<Rightarrow> nat \<Rightarrow> char \<Rightarrow> char" where
  "checksum_char hash idx ch =
     (let n = (of_char ch :: nat) in
      if 48 \<le> n \<and> n \<le> 57 then ch
      else
        let b = unat (hash ! (idx div 2)); nibble = (if idx mod 2 = 0 then b div 16 else b mod 16)
        in if nibble > 7 then char_of (n - 32) else ch)"

definition NormalizeEVMAddress :: "(bytes \<Rightarrow> bytes) \<Rightarrow> string \<Rightarrow> address_error + string" where
  "NormalizeEVMAddress keccak256 raw =
     (let trimmed = TrimSpace raw; hexPart = TrimHexPrefix trimmed in
      if trimmed = [] then Inl AddressIsRequired
      else if hexPart = trimmed then Inl AddressMustStartWith0x
      else if length hexPart \<noteq> 40 then Inl AddressMustBe20Bytes
      else if \<not> list_all is_hex_digit hexPart then Inl AddressMustBeHexEncoded
      else
        let lowerHex = ToLower hexPart; hash = keccak256 (string_bytes lowerHex);
            checksummed = map (\<lambda>(i, c). checksum_char hash i c) (enumerate 0 lowerHex)
        in if hexPart \<noteq> lowerHex \<and> hexPart \<noteq> map upper_char hexPart \<and> hexPart \<noteq> checksummed then Inl AddressChecksumIsInvalid
           else Inr (''0x'' @ checksummed))"

section \<open>Relay URLs\<close>

definition has_suffix :: "string \<Rightarrow> string \<Rightarrow> bool" where
  "has_suffix s x \<longleftrightarrow> length x \<le> length s \<and> drop (length s - length x) s = x"

definition TrimSuffixString :: "string \<Rightarrow> string \<Rightarrow> string" where
  "TrimSuffixString s x = (if has_suffix s x then take (length s - length x) s else s)"

definition TrimPrefixString :: "string \<Rightarrow> string \<Rightarrow> string" where
  "TrimPrefixString s x = (if take (length x) s = x then drop (length x) s else s)"

fun contains :: "string \<Rightarrow> string \<Rightarrow> bool" where
  "contains [] x \<longleftrightarrow> x = []"
| "contains (c # s) x \<longleftrightarrow> take (length x) (c # s) = x \<or> contains s x"

definition EqualFold :: "string \<Rightarrow> string \<Rightarrow> bool" where
  "EqualFold a b \<longleftrightarrow> ToLower a = ToLower b"

definition IsLocalRelayHost :: "relay_env \<Rightarrow> string \<Rightarrow> bool" where
  "IsLocalRelayHost env host =
     (let host = NormalizeHostname host in
      if host = '''' \<or> host = ''localhost'' then True
      else case ParseIP_loopback env host of Some loopback \<Rightarrow> loopback | None \<Rightarrow> has_suffix host ''.localhost'')"

definition IsLocalOnlyRelayHost :: "relay_env \<Rightarrow> string \<Rightarrow> bool" where
  "IsLocalOnlyRelayHost env host =
     (let host = NormalizeHostname host in
      IsLocalRelayHost env host \<or> contains host ''%'' \<or> has_suffix host ''.local'')"

text \<open>\<open>url.Parse\<close> again when the text was a bare name that became a path.\<close>

definition parse_relay_url :: "relay_env \<Rightarrow> string \<Rightarrow> parsedURL option" where
  "parse_relay_url env text =
     (case url_Parse env text of
        None \<Rightarrow> None
      | Some parsed \<Rightarrow>
          if Host parsed = '''' \<and> Path parsed \<noteq> '''' \<and> \<not> contains (Path parsed) ''/''
          then url_Parse env (''https://'' @ TrimSpace (Path parsed)) else Some parsed)"

definition relay_port_ok :: "relay_env \<Rightarrow> parsedURL \<Rightarrow> bool" where
  "relay_port_ok env parsed \<longleftrightarrow>
     url_Port env parsed = '''' \<or> (case Atoi env (url_Port env parsed) of None \<Rightarrow> False | Some n \<Rightarrow> 1 \<le> n \<and> n \<le> 65535)"

definition NormalizeRelayURL :: "relay_env \<Rightarrow> string \<Rightarrow> relay_url_error + string" where
  "NormalizeRelayURL env raw =
     (let trimmed = TrimSpace raw in
      if trimmed = '''' then Inl RelayURLIsEmpty
      else
        let trimmed = (if contains trimmed ''://'' then trimmed else ''https://'' @ TrimPrefixString trimmed ''//'') in
        case parse_relay_url env trimmed of
          None \<Rightarrow> Inl RelayURLIsInvalid
        | Some parsed \<Rightarrow>
            if Host parsed = '''' then Inl RelayURLHostIsEmpty
            else if HasUser parsed then Inl RelayURLMustNotIncludeCredentials
            else if has_suffix (Host parsed) '':'' then Inl RelayURLHasInvalidPort
            else if \<not> relay_port_ok env parsed then Inl RelayURLPortMustBetween1
            else
              let parsed = (if EqualFold (Scheme parsed) ''http'' \<and> IsLocalRelayHost env (url_Hostname env parsed)
                            then parsed\<lparr>Scheme := ''https''\<rparr> else parsed) in
              if \<not> EqualFold (Scheme parsed) ''https'' then Inl RelayURLMustUseHTTPS
              else
                let path = rev (dropWhile ((=) CHR ''/'') (rev (Path parsed)));
                    path = (if has_suffix (ToLower path) ''/relay'' then TrimSuffixString path ''/relay'' else path)
                in Inr (url_String env (parsed\<lparr>RawQuery := '''', Fragment := '''', Path := path\<rparr>)))"

definition requirePublicRelayURL :: "relay_env \<Rightarrow> string \<Rightarrow> bool" where
  "requirePublicRelayURL env raw \<longleftrightarrow>
     (case url_Parse env raw of
        None \<Rightarrow> False
      | Some u \<Rightarrow>
          Scheme u = ''https'' \<and> url_Hostname env u \<noteq> '''' \<and> \<not> HasUser u \<and>
          (let host = ToLower (TrimSuffix (url_Hostname env u) dot) in
           \<not> IsLocalOnlyRelayHost env host \<and> (case ParseAddr_public env host of None \<Rightarrow> True | Some public \<Rightarrow> public)))"

section \<open>Normalisation and signatures\<close>

definition NormalizeRelayDescriptor :: "relay_env \<Rightarrow> RelayDescriptor \<Rightarrow> descriptor_error + RelayDescriptor" where
  "NormalizeRelayDescriptor env desc =
     (if length (APIHTTPSAddr desc) > MaxRelayDescriptorURLBytes then Inl APIHTTPSAddrTooLong
      else if length (IVNPDestination desc) > MaxRelayDescriptorDestinationBytes then Inl IVNPDestinationTooLong
      else if length (Signature desc) > MaxRelayDescriptorSignatureBytes then Inl SignatureTooLong
      else
        let desc = desc\<lparr>Address := TrimSpace (Address desc), Version := TrimSpace (Version desc), APIHTTPSAddr := TrimSpace (APIHTTPSAddr desc)\<rparr>;
            desc = (if Version desc = '''' then desc\<lparr>Version := DiscoveryVersion env\<rparr> else desc)
        in case (if APIHTTPSAddr desc = '''' then Inr '''' else NormalizeRelayURL env (APIHTTPSAddr desc)) of
            Inl e \<Rightarrow> Inl (RelayURLInvalid e)
          | Inr url \<Rightarrow>
              if length url > MaxRelayDescriptorURLBytes then Inl APIHTTPSAddrTooLong
              else case (if Address desc = '''' then Inr '''' else NormalizeEVMAddress (keccak env) (Address desc)) of
                  Inl e \<Rightarrow> Inl (AddressInvalid e)
                | Inr address \<Rightarrow>
                    let desc = desc\<lparr>APIHTTPSAddr := url, Address := address\<rparr> in
                    if ActiveConnections desc < 0 then Inl ActiveConnectionsInvalid
                    else if float_negative (TCPBPS desc) \<or> IsNaN (TCPBPS desc) \<or> IsInf (TCPBPS desc) then Inl TCPBPSInvalid
                    else if Address desc = '''' then Inl DescriptorAddressRequired
                    else if Version desc \<noteq> DiscoveryVersion env then Inl (UnsupportedVersion (Version desc))
                    else if APIHTTPSAddr desc = '''' then Inl APIHTTPSAddrRequired
                    else if IsZero (ExpiresAt desc) then Inl ExpiresAtRequired
                    else if After (IssuedAt desc) (ExpiresAt desc) then Inl IssuedAtAfterExpiresAt
                    else Inr desc)"

text \<open>\<open>UnixNano\<close> counts from 1970; instants of the model count from Go's zero time.\<close>

definition UnixNano :: "go_time \<Rightarrow> int" where "UnixNano t = t - 62135596800 * second"

definition canonicalContents :: "RelayDescriptor \<Rightarrow> canonicalDescriptor" where
  "canonicalContents desc =
     \<lparr>cAddress = Address desc, cVersion = Version desc, cIssuedAt = UnixNano (IssuedAt desc), cExpiresAt = UnixNano (ExpiresAt desc),
      cAPIHTTPSAddr = APIHTTPSAddr desc, cSupportsUDP = SupportsUDP desc, cSupportsTCP = SupportsTCP desc,
      cActiveConnections = ActiveConnections desc, cTCPBPS = TCPBPS desc, cIVNPDestination = IVNPDestination desc\<rparr>"

definition canonicalRelayDescriptorBytes :: "relay_env \<Rightarrow> RelayDescriptor \<Rightarrow> bytes option" where
  "canonicalRelayDescriptorBytes env desc = json_Marshal env (canonicalContents desc)"

definition VerifyRelayDescriptor :: "relay_env \<Rightarrow> RelayDescriptor \<Rightarrow> descriptor_error + RelayDescriptor" where
  "VerifyRelayDescriptor env desc =
     (let rawSignature = TrimSpace (Signature desc) in
      if rawSignature = '''' then Inl NotSigned
      else case NormalizeRelayDescriptor env desc of
          Inl e \<Rightarrow> Inl e
        | Inr normalized \<Rightarrow>
            (case base64_Decode env rawSignature of
               None \<Rightarrow> Inl SignatureNotBase64
             | Some signature \<Rightarrow>
                 (case canonicalRelayDescriptorBytes env normalized of
                    None \<Rightarrow> Inl CanonicalizeFailed
                  | Some canonical \<Rightarrow>
                      (case recover_address env canonical signature of
                         None \<Rightarrow> Inl SignatureInvalid
                       | Some derivedAddress \<Rightarrow>
                           if \<not> EqualFold (TrimSpace derivedAddress) (TrimSpace (Address normalized)) then Inl AddressNotSigner
                           else Inr (normalized\<lparr>Signature := rawSignature\<rparr>)))))"

text \<open>A signing authority: its address and its signature of a digest, in compact form.\<close>

record authority =
  authorityAddress :: string
  signCompact :: "bytes \<Rightarrow> bytes option"

definition SignRelayDescriptor :: "relay_env \<Rightarrow> RelayDescriptor \<Rightarrow> authority option \<Rightarrow> descriptor_error + RelayDescriptor" where
  "SignRelayDescriptor env desc auth =
     (case auth of
        None \<Rightarrow> Inl SigningAuthorityRequired
      | Some a \<Rightarrow>
          let desc = (if Address desc = '''' then desc\<lparr>Address := authorityAddress a\<rparr> else desc) in
          case NormalizeRelayDescriptor env (desc\<lparr>Signature := ''''\<rparr>) of
            Inl e \<Rightarrow> Inl e
          | Inr normalized \<Rightarrow>
              if authorityAddress a \<noteq> '''' \<and> \<not> EqualFold (TrimSpace (authorityAddress a)) (TrimSpace (Address normalized))
              then Inl AddressNotAuthority
              else case canonicalRelayDescriptorBytes env normalized of
                  None \<Rightarrow> Inl CanonicalizeFailed
                | Some canonical \<Rightarrow>
                    (case signCompact a canonical of
                       None \<Rightarrow> Inl SigningFailed
                     | Some signature \<Rightarrow> Inr (normalized\<lparr>Signature := base64_Encode env signature\<rparr>)))"

section \<open>Freshness\<close>

definition AnnounceClockSkewTolerance :: duration where "AnnounceClockSkewTolerance = 5 * minute"
definition AnnounceMaxValidity :: duration where "AnnounceMaxValidity = 24 * hour"

definition validateRelayDescriptorFreshness :: "RelayDescriptor \<Rightarrow> go_time \<Rightarrow> descriptor_error option" where
  "validateRelayDescriptorFreshness desc now =
     (if IsZero (IssuedAt desc) then Some MissingIssuedAt
      else if \<not> After (ExpiresAt desc) now then Some AlreadyExpired
      else if After (IssuedAt desc) (now + AnnounceClockSkewTolerance) then Some TooFarFuture
      else if ExpiresAt desc - IssuedAt desc > AnnounceMaxValidity then Some ValidityWindowTooLong
      else None)"

definition verifyFreshRelayDescriptor :: "relay_env \<Rightarrow> RelayDescriptor \<Rightarrow> go_time \<Rightarrow> descriptor_error + RelayDescriptor" where
  "verifyFreshRelayDescriptor env desc now =
     (case VerifyRelayDescriptor env desc of
        Inl e \<Rightarrow> Inl e
      | Inr verified \<Rightarrow> (case validateRelayDescriptorFreshness verified now of Some e \<Rightarrow> Inl e | None \<Rightarrow> Inr verified))"

end
