(* ===== verification/Relay_Set.thy ===== *)
theory Relay_Set
  imports Relay_Descriptor
begin

text \<open>
  The discovery view of a relay or client: \<open>src/portal/discovery/relaystate.go\<close> and
  \<open>relayset.go\<close>. Every exported method holds the lock of the set for its whole body, so each is
  one step; \<open>time.Now()\<close> is an argument, and methods that take a time which may be zero take
  the wall clock as well. Iteration over a Go map is iteration over its association list.
  Conversions between durations and float64 are arguments.
\<close>

text \<open>Byte order of Go strings.\<close>

fun string_less :: "string \<Rightarrow> string \<Rightarrow> bool" where
  "string_less _ [] \<longleftrightarrow> False"
| "string_less [] _ \<longleftrightarrow> True"
| "string_less (a # s) (b # t) \<longleftrightarrow> (of_char a :: nat) < of_char b \<or> (a = b \<and> string_less s t)"

text \<open>\<open>sort.Slice\<close> and \<open>slices.SortFunc\<close> with the order of the code.\<close>

fun insert_by :: "('a \<Rightarrow> 'a \<Rightarrow> bool) \<Rightarrow> 'a \<Rightarrow> 'a list \<Rightarrow> 'a list" where
  "insert_by lt x [] = [x]"
| "insert_by lt x (y # ys) = (if lt y x then y # insert_by lt x ys else x # y # ys)"

definition sort_by :: "('a \<Rightarrow> 'a \<Rightarrow> bool) \<Rightarrow> 'a list \<Rightarrow> 'a list" where
  "sort_by lt xs = foldr (insert_by lt) xs []"

lemma mset_insert_by: "mset (insert_by lt x xs) = add_mset x (mset xs)"
  by (induction xs) simp_all

lemma mset_sort_by [simp]: "mset (sort_by lt xs) = mset xs"
  by (induction xs) (simp_all add: sort_by_def mset_insert_by)

lemma set_sort_by [simp]: "set (sort_by lt xs) = set xs"
  by (rule mset_eq_setD) simp

lemma length_sort_by [simp]: "length (sort_by lt xs) = length xs"
  by (rule mset_eq_length) simp

section \<open>Relay states\<close>

definition DiscoveryDescriptorTTL :: duration where "DiscoveryDescriptorTTL = 5 * minute"
definition defaultDirectRecoveryBackoff :: duration where "defaultDirectRecoveryBackoff = minute"
definition maxDirectRecoveryBackoff :: duration where "maxDirectRecoveryBackoff = 5 * minute"
definition relayPoolBanTTL :: duration where "relayPoolBanTTL = 72 * hour"
definition MaxDiscoveryEntries :: nat where "MaxDiscoveryEntries = 1024"
definition MaxAnnouncedRelays :: nat where "MaxAnnouncedRelays = MaxDiscoveryEntries"
definition MaxAnnouncedRelaysPerIdentity :: nat where "MaxAnnouncedRelaysPerIdentity = 4"
definition MaxDiscoveryVersionBytes :: nat where "MaxDiscoveryVersionBytes = 128"

datatype RelayTrust = RelayCandidate | RelayVerified

record RelayState =
  Descriptor :: RelayDescriptor
  Bootstrap :: bool
  Trust :: RelayTrust
  Banned :: bool
  Dead :: bool
  LastSeenAt :: go_time
  DiscoveryRTT :: duration
  DiscoveryRTTAt :: go_time
  samples :: "float64 list"
  discoveryFailures :: nat
  activeFailures :: nat
  unhealthySince :: go_time
  nextDiscoveryRefreshAt :: go_time
  suppressActiveUntil :: go_time

text \<open>\<open>PercentileTracker.Add\<close> keeps the last hundred samples.\<close>

definition Add_sample :: "float64 \<Rightarrow> float64 list \<Rightarrow> float64 list" where
  "Add_sample x xs = (let xs = xs @ [x] in if length xs > 100 then tl xs else xs)"

definition emptyDescriptor :: RelayDescriptor where
  "emptyDescriptor = \<lparr>Address = '''', Version = '''', IssuedAt = 0, ExpiresAt = 0, APIHTTPSAddr = '''', IVNPDestination = '''',
     SupportsUDP = False, SupportsTCP = False, ActiveConnections = 0, TCPBPS = 0, Signature = ''''\<rparr>"

text \<open>\<open>RelayState{Descriptor: d, LastSeenAt: t}\<close>\<close>

definition relayStateOf :: "RelayDescriptor \<Rightarrow> go_time \<Rightarrow> RelayState" where
  "relayStateOf d t = \<lparr>Descriptor = d, Bootstrap = False, Trust = RelayCandidate, Banned = False, Dead = False, LastSeenAt = t,
     DiscoveryRTT = 0, DiscoveryRTTAt = 0, samples = [], discoveryFailures = 0, activeFailures = 0, unhealthySince = 0,
     nextDiscoveryRefreshAt = 0, suppressActiveUntil = 0\<rparr>"

definition newRelayState :: "string \<Rightarrow> RelayState" where
  "newRelayState relayURL = relayStateOf (emptyDescriptor\<lparr>APIHTTPSAddr := relayURL\<rparr>) 0"

definition hasObservedDescriptor :: "RelayState \<Rightarrow> bool" where
  "hasObservedDescriptor state \<longleftrightarrow> \<not> IsZero (LastSeenAt state)"

definition suppressed :: "RelayState \<Rightarrow> go_time \<Rightarrow> bool" where
  "suppressed state now \<longleftrightarrow> \<not> IsZero (suppressActiveUntil state) \<and> After (suppressActiveUntil state) now"

section \<open>The set\<close>

record keyIndexEntry =
  anchorIssuedAt :: go_time
  TombstoneUntil :: go_time

record IncompatibleRelayEntry =
  incompatibleURL :: string
  ProtocolVersion :: string
  incompatibleSeenAt :: go_time

record relayReleaseObservation =
  releaseVersion :: string
  observedAt :: go_time

record RelaySet =
  relays :: "(string, RelayState) gomap"
  keyIndex :: "(string, keyIndexEntry) gomap"
  incompatible :: "(string, IncompatibleRelayEntry) gomap"
  releaseVersions :: "(string, relayReleaseObservation) gomap"

datatype upsertResult = upsertRejected | upsertAccepted | upsertIgnored | upsertConflicting

definition NewRelaySet :: "string list \<Rightarrow> RelaySet" where
  "NewRelaySet bootstrapRelayURLs =
     \<lparr>relays = fold (\<lambda>u. put u ((newRelayState u)\<lparr>Bootstrap := True\<rparr>)) bootstrapRelayURLs [],
      keyIndex = [], incompatible = [], releaseVersions = []\<rparr>"

definition clearExpiredBan :: "go_time \<Rightarrow> string \<times> RelayState \<Rightarrow> (string \<times> RelayState) option" where
  "clearExpiredBan now e =
     (case e of (relayURL, state) \<Rightarrow>
        if \<not> Banned state \<or> IsZero (suppressActiveUntil state) \<or> After (suppressActiveUntil state) now then Some (relayURL, state)
        else if \<not> Bootstrap state then None
        else Some (relayURL, state\<lparr>Banned := False, suppressActiveUntil := 0, unhealthySince := 0\<rparr>))"

definition clearExpiredPoolBansLocked :: "go_time \<Rightarrow> RelaySet \<Rightarrow> RelaySet" where
  "clearExpiredPoolBansLocked now s = s\<lparr>relays := List.map_filter (clearExpiredBan now) (relays s)\<rparr>"

text \<open>A zero time means the wall clock.\<close>

definition orNow :: "go_time \<Rightarrow> go_time \<Rightarrow> go_time" where
  "orNow wall now = (if IsZero now then wall else now)"

definition currentRelayStates :: "go_time \<Rightarrow> go_time \<Rightarrow> RelaySet \<Rightarrow> RelayState list \<times> RelaySet" where
  "currentRelayStates wall now s =
     (let s = clearExpiredPoolBansLocked (orNow wall now) s in (map snd (relays s), s))"

definition refreshable :: "go_time \<Rightarrow> RelayState \<Rightarrow> bool" where
  "refreshable now state \<longleftrightarrow>
     \<not> Banned state \<and>
     (if \<not> hasObservedDescriptor state then Bootstrap state
      else Bootstrap state \<or> \<not> (\<not> IsZero (nextDiscoveryRefreshAt state) \<and> After (nextDiscoveryRefreshAt state) now)) \<and>
     APIHTTPSAddr (Descriptor state) \<noteq> ''''"

definition refreshCandidates :: "go_time \<Rightarrow> go_time \<Rightarrow> RelaySet \<Rightarrow> RelayState list \<times> RelaySet" where
  "refreshCandidates wall now s =
     (let now = orNow wall now; (states, s) = currentRelayStates wall now s in (filter (refreshable now) states, s))"

definition banFromPoolLocked :: "string \<Rightarrow> go_time \<Rightarrow> RelaySet \<Rightarrow> RelaySet" where
  "banFromPoolLocked relayURL now s =
     (if relayURL = '''' then s
      else
        let bootstrap = (case lookup (relays s) relayURL of None \<Rightarrow> False | Some state \<Rightarrow> Bootstrap state);
            state = (newRelayState relayURL)\<lparr>Bootstrap := bootstrap, Banned := True, suppressActiveUntil := now + relayPoolBanTTL\<rparr>
        in s\<lparr>relays := put relayURL state (relays s), incompatible := del relayURL (incompatible s),
             releaseVersions := del relayURL (releaseVersions s)\<rparr>)"

definition sameIdentity :: "RelayState \<Rightarrow> RelayState \<Rightarrow> bool" where
  "sameIdentity record existing \<longleftrightarrow> EqualFold (TrimSpace (Address (Descriptor record))) (TrimSpace (Address (Descriptor existing)))"

definition mergeLocalRelayState :: "RelayState \<Rightarrow> RelayState \<Rightarrow> RelayState" where
  "mergeLocalRelayState record existing =
     (let keepOwnRTT = \<not> (IsZero (DiscoveryRTTAt record) \<or>
            (\<not> IsZero (DiscoveryRTTAt existing) \<and> After (DiscoveryRTTAt existing) (DiscoveryRTTAt record)))
      in record\<lparr>
           Bootstrap := Bootstrap record \<or> Bootstrap existing,
           Banned := Banned record \<or> Banned existing,
           Dead := Dead record \<or> Dead existing,
           Trust := (if sameIdentity record existing \<and> Trust existing = RelayVerified then RelayVerified else Trust record),
           discoveryFailures := max (discoveryFailures record) (discoveryFailures existing),
           activeFailures := max (activeFailures record) (activeFailures existing),
           unhealthySince := unhealthySince existing,
           nextDiscoveryRefreshAt := nextDiscoveryRefreshAt existing,
           suppressActiveUntil := suppressActiveUntil existing,
           DiscoveryRTT := (if keepOwnRTT then DiscoveryRTT record else DiscoveryRTT existing),
           DiscoveryRTTAt := (if keepOwnRTT then DiscoveryRTTAt record else DiscoveryRTTAt existing),
           samples := samples record @ samples existing\<rparr>)"

definition markDiscoveryVerified :: "RelayState \<Rightarrow> RelayState" where
  "markDiscoveryVerified state =
     state\<lparr>Trust := RelayVerified, Dead := False, discoveryFailures := 0, nextDiscoveryRefreshAt := 0, unhealthySince := 0\<rparr>"

text \<open>The identity a state belongs to, as the key index spells it.\<close>

definition identityOf :: "RelayState \<Rightarrow> string" where
  "identityOf state = ToLower (TrimSpace (Address (Descriptor state)))"

definition descriptorRollbackResultLocked :: "RelayState \<Rightarrow> string \<Rightarrow> string \<Rightarrow> go_time \<Rightarrow> RelaySet \<Rightarrow> upsertResult option \<times> RelaySet" where
  "descriptorRollbackResultLocked record relayURL address now s =
     (case lookup (keyIndex s) address of
        None \<Rightarrow> (None, s)
      | Some prev \<Rightarrow>
          if \<not> IsZero (TombstoneUntil prev) \<and> After now (TombstoneUntil prev) then (None, s\<lparr>keyIndex := del address (keyIndex s)\<rparr>)
          else if \<not> Before (IssuedAt (Descriptor record)) (anchorIssuedAt prev) then (None, s)
          else case lookup (relays s) relayURL of
              None \<Rightarrow> (Some upsertRejected, s)
            | Some existing \<Rightarrow>
                if identityOf existing = address \<and> After (ExpiresAt (Descriptor existing)) now
                   \<and> \<not> Before (IssuedAt (Descriptor existing)) (IssuedAt (Descriptor record))
                then (Some upsertIgnored, s) else (Some upsertRejected, s))"

definition crossIdentityTakeoverBlockedLocked :: "string \<Rightarrow> string \<Rightarrow> go_time \<Rightarrow> RelaySet \<Rightarrow> bool" where
  "crossIdentityTakeoverBlockedLocked relayURL address now s =
     (case lookup (relays s) relayURL of
        None \<Rightarrow> False
      | Some existing \<Rightarrow>
          (identityOf existing \<noteq> '''' \<and> address \<noteq> '''' \<and> identityOf existing \<noteq> address) \<and>
          (\<not> IsZero (ExpiresAt (Descriptor existing)) \<and> After (ExpiresAt (Descriptor existing)) now))"

text \<open>Candidates of one identity, and the eviction of its oldest ones over the cap.\<close>

definition candidateOf :: "string \<Rightarrow> RelayState \<Rightarrow> bool" where
  "candidateOf address state \<longleftrightarrow>
     \<not> (Bootstrap state \<or> Banned state \<or> Trust state = RelayVerified) \<and> identityOf state = address"

definition enforceIdentityCapLocked :: "string \<Rightarrow> RelaySet \<Rightarrow> RelaySet" where
  "enforceIdentityCapLocked address s =
     (let address = ToLower (TrimSpace address) in
      if address = '''' then s
      else
        let owned = map (\<lambda>(url, state). (url, LastSeenAt state)) (filter (\<lambda>(_, state). candidateOf address state) (relays s))
        in if length owned \<le> MaxAnnouncedRelaysPerIdentity then s
           else s\<lparr>relays := fold (\<lambda>(url, _). del url) (take (length owned - MaxAnnouncedRelaysPerIdentity) (sort_key snd owned)) (relays s)\<rparr>)"

definition sameContents :: "relay_env \<Rightarrow> RelayDescriptor \<Rightarrow> RelayDescriptor \<Rightarrow> bool" where
  "sameContents env a b \<longleftrightarrow>
     canonicalRelayDescriptorBytes env a \<noteq> None \<and> canonicalRelayDescriptorBytes env b \<noteq> None
     \<and> canonicalRelayDescriptorBytes env a = canonicalRelayDescriptorBytes env b"

definition storeRecord :: "RelayState \<Rightarrow> RelaySet \<Rightarrow> RelaySet" where
  "storeRecord record s =
     (let address = identityOf record; s = s\<lparr>relays := put (APIHTTPSAddr (Descriptor record)) record (relays s)\<rparr> in
      if address = '''' then s
      else
        let issuedAt = IssuedAt (Descriptor record); tombstoneUntil = issuedAt + AnnounceMaxValidity;
            entry = (case lookup (keyIndex s) address of
                None \<Rightarrow> \<lparr>anchorIssuedAt = issuedAt, TombstoneUntil = tombstoneUntil\<rparr>
              | Some prev \<Rightarrow>
                  \<lparr>anchorIssuedAt = (if After (anchorIssuedAt prev) issuedAt then anchorIssuedAt prev else issuedAt),
                   TombstoneUntil = (if After (TombstoneUntil prev) tombstoneUntil then TombstoneUntil prev else tombstoneUntil)\<rparr>)
        in s\<lparr>keyIndex := put address entry (keyIndex s)\<rparr>)"

definition upsertConflict :: "relay_env \<Rightarrow> RelayState \<Rightarrow> RelaySet \<Rightarrow> upsertResult option" where
  "upsertConflict env record s =
     (case lookup (relays s) (APIHTTPSAddr (Descriptor record)) of
        None \<Rightarrow> None
      | Some existing \<Rightarrow>
          if Banned existing then Some upsertRejected
          else if EqualFold (Address (Descriptor existing)) (Address (Descriptor record))
              \<and> IssuedAt (Descriptor existing) = IssuedAt (Descriptor record)
              \<and> \<not> sameContents env (Descriptor existing) (Descriptor record)
          then Some upsertConflicting else None)"

definition upsertDescriptorLocked :: "relay_env \<Rightarrow> RelayState \<Rightarrow> go_time \<Rightarrow> bool \<Rightarrow> RelaySet \<Rightarrow> upsertResult \<times> RelaySet" where
  "upsertDescriptorLocked env record now allowCrossIdentityTakeover s =
     (let relayURL = APIHTTPSAddr (Descriptor record) in
      if relayURL = '''' then (upsertRejected, s)
      else case upsertConflict env record s of
          Some r \<Rightarrow> (r, s)
        | None \<Rightarrow>
            let address = identityOf record;
                (rollback, s) = (if address = '''' then (None, s) else descriptorRollbackResultLocked record relayURL address now s)
            in case rollback of
                Some r \<Rightarrow> (r, s)
              | None \<Rightarrow>
                  if \<not> allowCrossIdentityTakeover \<and> crossIdentityTakeoverBlockedLocked relayURL address now s then (upsertRejected, s)
                  else (upsertAccepted, enforceIdentityCapLocked address (storeRecord record s)))"

text \<open>The global cap: pinned entries stay, candidates go before verified entries, oldest first.\<close>

definition evictionOrder :: "(string, RelayState) gomap \<Rightarrow> string list" where
  "evictionOrder rs =
     (let aged = sort_key (\<lambda>(_, state). LastSeenAt state) (filter (\<lambda>(_, state). \<not> (Bootstrap state \<or> Banned state)) rs)
      in map fst (filter (\<lambda>(_, state). Trust state \<noteq> RelayVerified) aged @ filter (\<lambda>(_, state). Trust state = RelayVerified) aged))"

definition evictOne :: "string \<Rightarrow> (string, RelayState) gomap \<Rightarrow> (string, RelayState) gomap" where
  "evictOne url rs = (if length rs \<le> MaxAnnouncedRelays then rs else del url rs)"

definition enforceCapLocked :: "go_time \<Rightarrow> RelaySet \<Rightarrow> RelaySet" where
  "enforceCapLocked wall s =
     (let s = clearExpiredPoolBansLocked wall s;
          s = s\<lparr>keyIndex := del_where (\<lambda>_ entry. \<not> IsZero (TombstoneUntil entry) \<and> After wall (TombstoneUntil entry)) (keyIndex s)\<rparr>
      in s\<lparr>relays := fold evictOne (evictionOrder (relays s)) (relays s)\<rparr>)"

section \<open>Operations\<close>

datatype relayset_error =
    BadDescriptor descriptor_error
  | NotPublicRelayURL
  | RelayBannedFromPool
  | RejectedRollbackOrTakeover
  | ConflictsRetained
  | CollectionLimits
  | ProtocolMismatch
  | TargetMissing
  | TargetConflicts

definition InsertCandidate :: "relay_env \<Rightarrow> go_time \<Rightarrow> RelayDescriptor \<Rightarrow> go_time \<Rightarrow> RelaySet \<Rightarrow> relayset_error option \<times> RelaySet" where
  "InsertCandidate env wall desc now s =
     (let now = orNow wall now in
      case verifyFreshRelayDescriptor env desc now of
        Inl e \<Rightarrow> (Some (BadDescriptor e), s)
      | Inr normalized \<Rightarrow>
          if \<not> requirePublicRelayURL env (APIHTTPSAddr normalized) then (Some NotPublicRelayURL, s)
          else
            let record = relayStateOf normalized now; s = clearExpiredPoolBansLocked now s;
                existing = lookup (relays s) (APIHTTPSAddr (Descriptor record))
            in if (case existing of None \<Rightarrow> False | Some e \<Rightarrow> Banned e) then (Some RelayBannedFromPool, s)
               else
                 let record = (case existing of None \<Rightarrow> record | Some e \<Rightarrow> mergeLocalRelayState record e) in
                 case upsertDescriptorLocked env record now False s of
                   (upsertAccepted, s) \<Rightarrow> (None, enforceCapLocked wall s)
                 | (upsertIgnored, s) \<Rightarrow> (None, s)
                 | (upsertRejected, s) \<Rightarrow> (Some RejectedRollbackOrTakeover, s)
                 | (upsertConflicting, s) \<Rightarrow> (Some ConflictsRetained, s))"

definition olderObservation :: "string \<Rightarrow> go_time \<Rightarrow> string \<Rightarrow> go_time \<Rightarrow> bool" where
  "olderObservation url seen oldestURL oldestAt \<longleftrightarrow>
     oldestURL = '''' \<or> Before seen oldestAt \<or> (seen = oldestAt \<and> string_less url oldestURL)"

definition oldestOf :: "('v \<Rightarrow> go_time) \<Rightarrow> (string, 'v) gomap \<Rightarrow> string" where
  "oldestOf seen m =
     fst (fold (\<lambda>(url, v) (oldestURL, oldestAt).
       if olderObservation url (seen v) oldestURL oldestAt then (url, seen v) else (oldestURL, oldestAt)) m ('''', 0))"

definition pruneIncompatibleLocked :: "go_time \<Rightarrow> RelaySet \<Rightarrow> RelaySet" where
  "pruneIncompatibleLocked now s =
     s\<lparr>incompatible := del_where (\<lambda>_ entry. now - incompatibleSeenAt entry > AnnounceMaxValidity) (incompatible s)\<rparr>"

definition recordIncompatibleRelayLocked :: "string \<Rightarrow> string \<Rightarrow> go_time \<Rightarrow> RelaySet \<Rightarrow> RelaySet" where
  "recordIncompatibleRelayLocked relayURL protocolVersion now s =
     (if relayURL = '''' then s
      else if (case lookup (relays s) relayURL of None \<Rightarrow> False | Some state \<Rightarrow> Banned state)
      then s\<lparr>incompatible := del relayURL (incompatible s)\<rparr>
      else
        let s = pruneIncompatibleLocked now s;
            protocolVersion = (if length protocolVersion > MaxDiscoveryVersionBytes then '''' else protocolVersion);
            m = put relayURL \<lparr>incompatibleURL = relayURL, ProtocolVersion = protocolVersion, incompatibleSeenAt = now\<rparr> (incompatible s)
        in s\<lparr>incompatible := (if length m > MaxAnnouncedRelays then del (oldestOf incompatibleSeenAt m) m else m)\<rparr>)"

definition pruneReleaseVersionsLocked :: "go_time \<Rightarrow> RelaySet \<Rightarrow> RelaySet" where
  "pruneReleaseVersionsLocked now s =
     s\<lparr>releaseVersions := del_where (\<lambda>_ observation. now - observedAt observation > AnnounceMaxValidity) (releaseVersions s)\<rparr>"

definition recordReleaseObservationLocked :: "string \<Rightarrow> string \<Rightarrow> go_time \<Rightarrow> RelaySet \<Rightarrow> RelaySet" where
  "recordReleaseObservationLocked relayURL version now s =
     (if relayURL = '''' then s
      else
        let s = pruneReleaseVersionsLocked now s; version = TrimSpace version in
        if version = '''' \<or> length version > MaxDiscoveryVersionBytes then s\<lparr>releaseVersions := del relayURL (releaseVersions s)\<rparr>
        else
          let m = put relayURL \<lparr>releaseVersion = version, observedAt = now\<rparr> (releaseVersions s)
          in s\<lparr>releaseVersions := (if length m > MaxAnnouncedRelays then del (oldestOf observedAt m) m else m)\<rparr>)"

record DiscoveryResponse =
  respProtocolVersion :: string
  respRelays :: "RelayDescriptor list"
  respIncompatibleRelays :: "IncompatibleRelayEntry list"
  respReleaseVersion :: string
  respRelayReleaseVersions :: "(string, string) gomap"

definition discoveryRelayStateLocked :: "relay_env \<Rightarrow> RelayDescriptor \<Rightarrow> go_time \<Rightarrow> string \<Rightarrow> RelaySet \<Rightarrow> RelayState option" where
  "discoveryRelayStateLocked env descriptor now targetURL s =
     (case verifyFreshRelayDescriptor env descriptor now of
        Inl _ \<Rightarrow> None
      | Inr verified \<Rightarrow>
          let relayURL = APIHTTPSAddr verified; existing = lookup (relays s) relayURL in
          if \<not> requirePublicRelayURL env relayURL
             \<and> (relayURL \<noteq> targetURL \<or> \<not> (case existing of None \<Rightarrow> False | Some e \<Rightarrow> Bootstrap e)) then None
          else if (case existing of None \<Rightarrow> False | Some e \<Rightarrow> Banned e) then None
          else Some (relayStateOf verified now))"

text \<open>The valid descriptors of a response by URL: a later one for the same URL takes the place of the earlier.\<close>

definition discoverLocked :: "relay_env \<Rightarrow> RelayDescriptor list \<Rightarrow> go_time \<Rightarrow> string \<Rightarrow> RelaySet \<Rightarrow> (string, RelayState) gomap" where
  "discoverLocked env ds now targetURL s =
     fold (\<lambda>d m. case discoveryRelayStateLocked env d now targetURL s of
         None \<Rightarrow> m | Some state \<Rightarrow> put (APIHTTPSAddr (Descriptor state)) state m) ds []"

text \<open>One iteration of the second loop: the set, whether it changed, whether the target conflicts.\<close>

definition applyDiscovered :: "relay_env \<Rightarrow> go_time \<Rightarrow> (string \<Rightarrow> bool) \<Rightarrow> string \<times> RelayState \<Rightarrow> RelaySet \<times> bool \<times> bool \<Rightarrow> RelaySet \<times> bool \<times> bool" where
  "applyDiscovered env now isTarget e acc =
     (case e of (relayURL, found) \<Rightarrow> case acc of (s, changed, conflicting) \<Rightarrow>
      let existing = lookup (relays s) relayURL;
          record = mergeLocalRelayState found (case existing of None \<Rightarrow> relayStateOf emptyDescriptor 0 | Some e \<Rightarrow> e);
          record = (if isTarget relayURL then markDiscoveryVerified record else record)
      in case upsertDescriptorLocked env record now (isTarget relayURL) s of
          (upsertAccepted, s) \<Rightarrow> (s, changed \<or> existing \<noteq> Some record, conflicting)
        | (upsertConflicting, s) \<Rightarrow> (s, changed, conflicting \<or> isTarget relayURL)
        | (_, s) \<Rightarrow>
            (case existing of
               None \<Rightarrow> (s, changed, conflicting)
             | Some old \<Rightarrow>
                 if isTarget relayURL \<and> (discoveryFailures old \<noteq> 0 \<or> \<not> IsZero (nextDiscoveryRefreshAt old) \<or> \<not> IsZero (unhealthySince old))
                 then (s\<lparr>relays := put relayURL (markDiscoveryVerified old) (relays s)\<rparr>, True, conflicting)
                 else (s, changed, conflicting)))"

definition ApplyRelayDiscoveryResponse ::
  "relay_env \<Rightarrow> go_time \<Rightarrow> string \<Rightarrow> DiscoveryResponse \<Rightarrow> go_time \<Rightarrow> RelaySet \<Rightarrow> (bool \<times> relayset_error option) \<times> RelaySet" where
  "ApplyRelayDiscoveryResponse env wall targetURL resp now s =
     (if length (respRelays resp) > MaxAnnouncedRelays + 1 \<or> length (respIncompatibleRelays resp) > MaxAnnouncedRelays
         \<or> length (respRelayReleaseVersions resp) > MaxAnnouncedRelays then ((False, Some CollectionLimits), s)
      else
        let now = orNow wall now;
            protocolMismatch = (respProtocolVersion resp \<noteq> DiscoveryVersion env);
            authoritative = (targetURL \<noteq> '''');
            s = clearExpiredPoolBansLocked now s;
            discovered = discoverLocked env (respRelays resp) now targetURL s;
            missingTarget = (authoritative \<and> \<not> has_key discovered targetURL);
            s = (if authoritative then recordReleaseObservationLocked targetURL (respReleaseVersion resp) now s else s);
            s = (if authoritative \<and> protocolMismatch then recordIncompatibleRelayLocked targetURL (respProtocolVersion resp) now s else s);
            isTarget = (\<lambda>u. \<not> protocolMismatch \<and> \<not> missingTarget \<and> authoritative \<and> u = targetURL);
            (s, changed, conflictingTarget) = fold (applyDiscovered env now isTarget) discovered (s, False, False);
            s = enforceCapLocked wall s
        in if protocolMismatch \<and> authoritative then ((changed, Some ProtocolMismatch), s)
           else if missingTarget then ((changed, Some TargetMissing), s)
           else if conflictingTarget then ((changed, Some TargetConflicts), s)
           else ((changed, None), if authoritative then s\<lparr>incompatible := del targetURL (incompatible s)\<rparr> else s))"

text \<open>Runtime observations and operator decisions.\<close>

definition RecordDiscoveryRTT :: "(duration \<Rightarrow> float64) \<Rightarrow> string \<Rightarrow> duration \<Rightarrow> go_time \<Rightarrow> RelaySet \<Rightarrow> RelaySet" where
  "RecordDiscoveryRTT float relayURL rtt measuredAt s =
     (case lookup (relays s) relayURL of
        None \<Rightarrow> s
      | Some state \<Rightarrow>
          s\<lparr>relays := put relayURL (state\<lparr>samples := Add_sample (float rtt) (samples state), DiscoveryRTT := rtt, DiscoveryRTTAt := measuredAt\<rparr>) (relays s)\<rparr>)"

definition recoveryBackoff :: "nat \<Rightarrow> duration" where
  "recoveryBackoff failuresOverBudget = min (defaultDirectRecoveryBackoff * 2 ^ min failuresOverBudget 3) maxDirectRecoveryBackoff"

type_synonym backoff_report = "bool \<times> string \<times> nat"

definition RecordDiscoveryFailure :: "go_time \<Rightarrow> string \<Rightarrow> int \<Rightarrow> RelaySet \<Rightarrow> backoff_report \<times> RelaySet" where
  "RecordDiscoveryFailure now relayURL recoveryFailures s =
     (let s = clearExpiredPoolBansLocked now s in
      case lookup (relays s) relayURL of
        None \<Rightarrow> ((False, '''', 0), s)
      | Some state \<Rightarrow>
          if Banned state then ((False, '''', 0), s)
          else
            let n = discoveryFailures state + 1;
                state = state\<lparr>discoveryFailures := n, unhealthySince := (if IsZero (unhealthySince state) then now else unhealthySince state)\<rparr>
            in if \<not> After (unhealthySince state + AnnounceMaxValidity) now then ((True, ''unhealthy'', n), banFromPoolLocked relayURL now s)
               else if recoveryFailures \<le> 0 \<or> int n < recoveryFailures
               then ((False, ''retry'', n), s\<lparr>relays := put relayURL state (relays s)\<rparr>)
               else
                 let state = state\<lparr>Dead := True, nextDiscoveryRefreshAt := now + recoveryBackoff (n - nat recoveryFailures)\<rparr>
                 in ((True, ''discovery'', n), s\<lparr>relays := put relayURL state (relays s)\<rparr>))"

definition RecordActiveFailure :: "go_time \<Rightarrow> string \<Rightarrow> int \<Rightarrow> RelaySet \<Rightarrow> backoff_report \<times> RelaySet" where
  "RecordActiveFailure now relayURL recoveryFailures s =
     (let s = clearExpiredPoolBansLocked now s in
      case lookup (relays s) relayURL of
        None \<Rightarrow> ((False, '''', 0), s)
      | Some state \<Rightarrow>
          if Banned state then ((False, '''', 0), s)
          else
            let n = activeFailures state + 1; state = state\<lparr>activeFailures := n\<rparr> in
            if recoveryFailures \<le> 0 \<or> int n < recoveryFailures
            then ((False, ''retry'', n), s\<lparr>relays := put relayURL state (relays s)\<rparr>)
            else
              let state = state\<lparr>suppressActiveUntil := now + recoveryBackoff (n - nat recoveryFailures)\<rparr>
              in ((True, ''active'', n), s\<lparr>relays := put relayURL state (relays s)\<rparr>))"

definition IsSuppressed :: "string \<Rightarrow> go_time \<Rightarrow> RelaySet \<Rightarrow> bool" where
  "IsSuppressed relayURL now s = (case lookup (relays s) relayURL of None \<Rightarrow> False | Some state \<Rightarrow> suppressed state now)"

definition stateAt :: "string \<Rightarrow> RelaySet \<Rightarrow> RelayState" where
  "stateAt relayURL s = (case lookup (relays s) relayURL of None \<Rightarrow> newRelayState relayURL | Some state \<Rightarrow> state)"

definition BanRelayURL :: "string \<Rightarrow> RelaySet \<Rightarrow> RelaySet" where
  "BanRelayURL relayURL s =
     s\<lparr>relays := put relayURL ((stateAt relayURL s)\<lparr>suppressActiveUntil := 0, Banned := True\<rparr>) (relays s),
       incompatible := del relayURL (incompatible s), releaseVersions := del relayURL (releaseVersions s)\<rparr>"

definition AllowRelayURL :: "string \<Rightarrow> RelaySet \<Rightarrow> RelaySet" where
  "AllowRelayURL relayURL s =
     s\<lparr>relays := put relayURL ((stateAt relayURL s)\<lparr>Banned := False, suppressActiveUntil := 0, unhealthySince := 0\<rparr>) (relays s)\<rparr>"

definition DeactivateRelayURL :: "go_time \<Rightarrow> string \<Rightarrow> RelaySet \<Rightarrow> RelaySet" where
  "DeactivateRelayURL now relayURL s =
     (case lookup (relays s) relayURL of
        None \<Rightarrow> s
      | Some state \<Rightarrow> s\<lparr>relays := put relayURL (state\<lparr>suppressActiveUntil := now + defaultDirectRecoveryBackoff\<rparr>) (relays s)\<rparr>)"

definition EnsureRelayURL :: "string \<Rightarrow> RelaySet \<Rightarrow> RelaySet" where
  "EnsureRelayURL relayURL s =
     (if has_key (relays s) relayURL then s else s\<lparr>relays := put relayURL (newRelayState relayURL) (relays s)\<rparr>)"

section \<open>Views\<close>

definition BootstrapRelayURLs :: "go_time \<Rightarrow> RelaySet \<Rightarrow> string list \<times> RelaySet" where
  "BootstrapRelayURLs now s =
     (let (states, s) = currentRelayStates now now s in
      (filter (\<lambda>u. u \<noteq> '''') (map (\<lambda>state. TrimSpace (APIHTTPSAddr (Descriptor state))) (filter (\<lambda>state. \<not> Banned state \<and> Bootstrap state) states)), s))"

text \<open>The closure \<open>add\<close> of \<open>Descriptors\<close>: one unexpired descriptor per URL.\<close>

definition addDescriptor :: "go_time \<Rightarrow> RelayDescriptor \<Rightarrow> RelayDescriptor list \<Rightarrow> RelayDescriptor list" where
  "addDescriptor now desc out =
     (if APIHTTPSAddr desc = '''' \<or> APIHTTPSAddr desc \<in> APIHTTPSAddr ` set out \<or> \<not> After (ExpiresAt desc) now then out else out @ [desc])"

definition discoverable :: "RelayState \<Rightarrow> bool" where
  "discoverable state \<longleftrightarrow> \<not> (Banned state \<or> Dead state \<or> \<not> hasObservedDescriptor state) \<and> Trust state = RelayVerified"

definition Descriptors :: "go_time \<Rightarrow> RelayDescriptor \<Rightarrow> RelaySet \<Rightarrow> RelayDescriptor list \<times> RelaySet" where
  "Descriptors now self s =
     (let out = (if APIHTTPSAddr self \<noteq> '''' \<and> After (ExpiresAt self) now then addDescriptor now self [] else []);
          (states, s) = currentRelayStates now now s
      in (fold (\<lambda>state. addDescriptor now (Descriptor state)) (filter discoverable states) out, s))"

definition knownIncompatibleRelaysAt :: "go_time \<Rightarrow> RelaySet \<Rightarrow> IncompatibleRelayEntry list" where
  "knownIncompatibleRelaysAt now s =
     sort_by (\<lambda>a b. string_less (incompatibleURL a) (incompatibleURL b)) (map snd (filter (\<lambda>(url, entry). \<not> now - incompatibleSeenAt entry > AnnounceMaxValidity
         \<and> \<not> (case lookup (relays s) url of None \<Rightarrow> False | Some state \<Rightarrow> Banned state)) (incompatible s)))"

definition knownRelayReleaseVersionsAt :: "go_time \<Rightarrow> RelaySet \<Rightarrow> (string, string) gomap" where
  "knownRelayReleaseVersionsAt now s =
     map (\<lambda>(url, observation). (url, releaseVersion observation))
       (filter (\<lambda>(_, observation). \<not> now - observedAt observation > AnnounceMaxValidity) (releaseVersions s))"

end
