(* ===== verification/Relay_Demo.thy ===== *)
theory Relay_Demo
  imports Relay_Set
begin

text \<open>
  A small network on which the properties of relay discovery are exercised.
\<close>

text \<open>
  An environment in which a signature is the address of its signer and URLs have no path, two
  relays, and the response that a relay gives when it is polled.
\<close>

definition demo_env :: relay_env where
  "demo_env =
     \<lparr>url_Parse = (\<lambda>t. Some \<lparr>Scheme = take 5 t, Host = drop 8 t, HasUser = False, Path = '''', RawQuery = '''', Fragment = ''''\<rparr>),
      url_String = (\<lambda>u. Scheme u @ ''://'' @ Host u), url_Hostname = Host, url_Port = (\<lambda>_. ''''), Atoi = (\<lambda>_. None),
      ParseIP_loopback = (\<lambda>_. None), ParseAddr_public = (\<lambda>_. None), keccak = (\<lambda>_. replicate 32 0),
      json_Marshal = (\<lambda>c. Some (map of_char (cAPIHTTPSAddr c))), base64_Decode = (\<lambda>s. Some (map of_char s)), base64_Encode = map (\<lambda>b. char_of (unat b)),
      recover_address = (\<lambda>_ sig. Some (map (\<lambda>b. char_of (unat b)) sig)), DiscoveryVersion = ''1''\<rparr>"

definition demo_address :: "char \<Rightarrow> string" where
  "demo_address c = ''0x'' @ replicate 40 c"

definition demo_descriptor :: "char \<Rightarrow> string \<Rightarrow> go_time \<Rightarrow> RelayDescriptor" where
  "demo_descriptor c url issued = emptyDescriptor\<lparr>Address := demo_address c, Version := ''1'', IssuedAt := issued, ExpiresAt := issued + hour,
     APIHTTPSAddr := url, Signature := demo_address c\<rparr>"

lemma demo_address_normal:
  "NormalizeEVMAddress (\<lambda>_. replicate 32 0) (demo_address CHR ''1'') = Inr (demo_address CHR ''1'')"
  "NormalizeEVMAddress (\<lambda>_. replicate 32 0) (demo_address CHR ''2'') = Inr (demo_address CHR ''2'')"
  by code_simp+

end
