(* ===== verification/Relay_Set_Safety.thy ===== *)
theory Relay_Set_Safety
  imports Relay_Demo
begin

text \<open>
  What the discovery view promises: no rollback of a signing identity, no relay trusted that was
  not polled, one identity cannot crowd out others, bans hold. The operations that other
  goroutines may call in any order are the values of \<open>relay_op\<close>; the views only clear expired
  pool bans.
\<close>

section \<open>The system\<close>

datatype relay_op =
    InsertOp go_time RelayDescriptor go_time
  | ApplyOp go_time string DiscoveryResponse go_time
  | RTTOp string duration go_time
  | DiscoveryFailureOp go_time string int
  | ActiveFailureOp go_time string int
  | BanOp string
  | AllowOp string
  | DeactivateOp go_time string
  | EnsureOp string
  | ViewOp go_time

fun relay_set_step :: "relay_env \<Rightarrow> (duration \<Rightarrow> float64) \<Rightarrow> relay_op \<Rightarrow> RelaySet \<Rightarrow> RelaySet" where
  "relay_set_step env fl (InsertOp wall d now) s = snd (InsertCandidate env wall d now s)"
| "relay_set_step env fl (ApplyOp wall target resp now) s = snd (ApplyRelayDiscoveryResponse env wall target resp now s)"
| "relay_set_step env fl (RTTOp url rtt t) s = RecordDiscoveryRTT fl url rtt t s"
| "relay_set_step env fl (DiscoveryFailureOp now url n) s = snd (RecordDiscoveryFailure now url n s)"
| "relay_set_step env fl (ActiveFailureOp now url n) s = snd (RecordActiveFailure now url n s)"
| "relay_set_step env fl (BanOp url) s = BanRelayURL url s"
| "relay_set_step env fl (AllowOp url) s = AllowRelayURL url s"
| "relay_set_step env fl (DeactivateOp now url) s = DeactivateRelayURL now url s"
| "relay_set_step env fl (EnsureOp url) s = EnsureRelayURL url s"
| "relay_set_step env fl (ViewOp now) s = snd (currentRelayStates now now s)"

abbreviation relay_set_run :: "relay_env \<Rightarrow> (duration \<Rightarrow> float64) \<Rightarrow> relay_op list \<Rightarrow> RelaySet \<Rightarrow> RelaySet" where
  "relay_set_run env fl es s \<equiv> fold (relay_set_step env fl) es s"

section \<open>Well-formed sets\<close>

definition rs_wf :: "RelaySet \<Rightarrow> bool" where
  "rs_wf s \<longleftrightarrow> wf_map (relays s) \<and> wf_map (keyIndex s) \<and>
     (\<forall>u st. (u, st) \<in> set (relays s) \<longrightarrow> u = APIHTTPSAddr (Descriptor st) \<and> length (samples st) \<le> 100)
     \<and> (\<forall>a k. lookup (keyIndex s) a = Some k \<longrightarrow> TombstoneUntil k = anchorIssuedAt k + AnnounceMaxValidity)"

definition entry_ok :: "string \<Rightarrow> RelayState \<Rightarrow> bool" where
  "entry_ok u st \<longleftrightarrow> u = APIHTTPSAddr (Descriptor st) \<and> length (samples st) \<le> 100"

lemma entry_ok_new: "entry_ok u (newRelayState u)" "APIHTTPSAddr d = u \<Longrightarrow> entry_ok u (relayStateOf d t)"
  by (simp_all add: entry_ok_def newRelayState_def relayStateOf_def emptyDescriptor_def)

lemma rs_wf_entry: "rs_wf s \<Longrightarrow> lookup (relays s) u = Some st \<Longrightarrow> entry_ok u st"
  by (auto simp: rs_wf_def entry_ok_def dest: map_of_SomeD)

lemma rs_wf_put: "rs_wf s \<Longrightarrow> entry_ok u st \<Longrightarrow> rs_wf (s\<lparr>relays := put u st (relays s)\<rparr>)"
  by (auto simp: rs_wf_def entry_ok_def set_put)

lemma rs_wf_sub: "rs_wf s \<Longrightarrow> wf_map m \<Longrightarrow> set m \<subseteq> set (relays s) \<Longrightarrow> rs_wf (s\<lparr>relays := m\<rparr>)"
  by (auto simp: rs_wf_def)

lemma rs_wf_other [simp]:
  "rs_wf (s\<lparr>incompatible := m\<rparr>) = rs_wf s" "rs_wf (s\<lparr>releaseVersions := r\<rparr>) = rs_wf s"
  by (simp_all add: rs_wf_def)

lemma wf_map_del_many: "wf_map m \<Longrightarrow> wf_map (fold (\<lambda>(u, _). del u) us m)"
  by (induction us arbitrary: m) (auto split: prod.splits)

lemma set_del_many: "set (fold (\<lambda>(u, _). del u) us m) = {e \<in> set m. fst e \<notin> fst ` set us}"
  by (induction us arbitrary: m) (auto simp: set_del split: prod.splits)

lemma map_filter_set: "set (List.map_filter f m) = {y. \<exists>x \<in> set m. f x = Some y}"
  by (induction m) (auto simp: map_filter_simps split: option.splits)

lemma map_filter_fst:
  assumes keep: "\<And>e e'. f e = Some e' \<Longrightarrow> fst e' = fst e" and "wf_map m"
  shows "wf_map (List.map_filter f m)"
  using assms(2)
proof (induction m)
  case (Cons e m)
  then have IH: "distinct (map fst (List.map_filter f m))" and e: "fst e \<notin> fst ` set m" by (auto simp: wf_map_def)
  show ?case
  proof (cases "f e")
    case None
    with IH show ?thesis by (simp add: wf_map_def map_filter_simps)
  next
    case (Some e')
    have "fst e' \<notin> fst ` set (List.map_filter f m)"
    proof
      assume "fst e' \<in> fst ` set (List.map_filter f m)"
      then obtain x y where "x \<in> set m" "f x = Some y" "fst y = fst e'" by (auto simp: map_filter_set)
      with keep [of x y] keep [OF Some] e show False by force
    qed
    with IH Some show ?thesis by (simp add: wf_map_def map_filter_simps)
  qed
qed (simp add: map_filter_simps)

lemma clear_frame [simp]:
  "keyIndex (clearExpiredPoolBansLocked now s) = keyIndex s"
  "incompatible (clearExpiredPoolBansLocked now s) = incompatible s"
  "releaseVersions (clearExpiredPoolBansLocked now s) = releaseVersions s"
  by (simp_all add: clearExpiredPoolBansLocked_def)

lemma clearExpiredBan_same:
  "clearExpiredBan now (u, old) = Some (u', st) \<Longrightarrow> u' = u \<and> Descriptor st = Descriptor old \<and> Trust st = Trust old \<and> samples st = samples old
     \<and> Bootstrap st = Bootstrap old \<and> LastSeenAt st = LastSeenAt old"
  by (auto simp: clearExpiredBan_def split: if_splits)

lemma clear_entries:
  assumes "(u, st) \<in> set (relays (clearExpiredPoolBansLocked now s))"
  obtains old where "(u, old) \<in> set (relays s)" "clearExpiredBan now (u, old) = Some (u, st)"
proof -
  from assms obtain u' old where "(u', old) \<in> set (relays s)" "clearExpiredBan now (u', old) = Some (u, st)"
    by (auto simp: clearExpiredPoolBansLocked_def map_filter_set)
  moreover from this(2) have "u' = u" by (auto dest: clearExpiredBan_same)
  ultimately show thesis by (simp add: that)
qed

lemma wf_map_clear: "wf_map (relays s) \<Longrightarrow> wf_map (relays (clearExpiredPoolBansLocked now s))"
  unfolding clearExpiredPoolBansLocked_def
  by (simp, rule map_filter_fst) (auto dest: clearExpiredBan_same)

lemma rs_wf_clear: "rs_wf s \<Longrightarrow> rs_wf (clearExpiredPoolBansLocked now s)"
  unfolding rs_wf_def clear_frame by (metis clear_entries clearExpiredBan_same wf_map_clear)

lemma rs_wf_identityCap: "rs_wf s \<Longrightarrow> rs_wf (enforceIdentityCapLocked a s)"
proof -
  assume wf: "rs_wf s"
  then have "wf_map (relays s)" by (simp add: rs_wf_def)
  from rs_wf_sub [OF wf wf_map_del_many [OF this]] wf show ?thesis
    by (auto simp: enforceIdentityCapLocked_def Let_def set_del_many)
qed

lemma evictOne_sub: "set (evictOne u m) \<subseteq> set m"
  by (auto simp: evictOne_def set_del)

lemma evict_sub: "set (fold evictOne us m) \<subseteq> set m"
proof (induction us arbitrary: m)
  case (Cons u us)
  from Cons.IH [of "evictOne u m"] evictOne_sub [of u m] show ?case by auto
qed simp

lemma wf_map_evict: "wf_map m \<Longrightarrow> wf_map (fold evictOne us m)"
  by (induction us arbitrary: m) (auto simp: evictOne_def)

lemma rs_wf_cap: "rs_wf s \<Longrightarrow> rs_wf (enforceCapLocked wall s)"
proof -
  assume "rs_wf s"
  then have wf: "rs_wf (clearExpiredPoolBansLocked wall s)" by (rule rs_wf_clear)
  then have "wf_map (relays (clearExpiredPoolBansLocked wall s))" by (simp add: rs_wf_def)
  from wf_map_evict [OF this] evict_sub wf show ?thesis
    unfolding enforceCapLocked_def Let_def by (simp add: rs_wf_def lookup_del_where split: option.splits) blast
qed

section \<open>The common insertion\<close>

text \<open>A stale anchor of identity \<open>a\<close> may be dropped on the way; the relays do not change.\<close>

definition dropsStale :: "go_time \<Rightarrow> string \<Rightarrow> RelaySet \<Rightarrow> RelaySet \<Rightarrow> bool" where
  "dropsStale now a s s1 \<longleftrightarrow> s1 = s \<or>
     (\<exists>prev. lookup (keyIndex s) a = Some prev \<and> After now (TombstoneUntil prev) \<and> s1 = s\<lparr>keyIndex := del a (keyIndex s)\<rparr>)"

lemma rollback_cases:
  assumes "descriptorRollbackResultLocked rec u a now s = (r, s1)"
  shows "dropsStale now a s s1 \<and> r \<noteq> Some upsertAccepted
     \<and> (r = None \<longrightarrow> (\<forall>k. lookup (keyIndex s1) a = Some k \<longrightarrow> anchorIssuedAt k \<le> IssuedAt (Descriptor rec)))"
proof (cases "lookup (keyIndex s) a")
  case None
  then show ?thesis using assms by (simp add: descriptorRollbackResultLocked_def dropsStale_def)
next
  case (Some prev)
  show ?thesis
  proof (cases "TombstoneUntil prev \<noteq> 0 \<and> After now (TombstoneUntil prev)")
    case True
    then show ?thesis using assms Some by (auto simp: descriptorRollbackResultLocked_def dropsStale_def)
  next
    case False
    then show ?thesis using assms Some by (auto simp: descriptorRollbackResultLocked_def dropsStale_def split: if_splits option.splits)
  qed
qed

lemma upsert_cases:
  assumes "upsertDescriptorLocked env rec now allow s = (r, s')"
  obtains s1 where "dropsStale now (identityOf rec) s s1" "r \<noteq> upsertAccepted" "s' = s1"
  | s1 where "dropsStale now (identityOf rec) s s1" "r = upsertAccepted" "APIHTTPSAddr (Descriptor rec) \<noteq> ''''"
      "s' = enforceIdentityCapLocked (identityOf rec) (storeRecord rec s1)"
      "upsertConflict env rec s = None"
      "identityOf rec \<noteq> '''' \<longrightarrow> (\<forall>k. lookup (keyIndex s1) (identityOf rec) = Some k \<longrightarrow> anchorIssuedAt k \<le> IssuedAt (Descriptor rec))"
proof -
  let ?a = "identityOf rec" and ?u = "APIHTTPSAddr (Descriptor rec)"
  obtain rb s1 where rb: "(if ?a = '''' then (None, s) else descriptorRollbackResultLocked rec ?u ?a now s) = (rb, s1)" by force
  have conflict: "upsertConflict env rec s \<noteq> Some upsertAccepted"
    by (auto simp: upsertConflict_def split: option.splits)
  have rb': "dropsStale now ?a s s1" "rb \<noteq> Some upsertAccepted"
    "rb = None \<longrightarrow> ?a \<noteq> '''' \<longrightarrow> (\<forall>k. lookup (keyIndex s1) ?a = Some k \<longrightarrow> anchorIssuedAt k \<le> IssuedAt (Descriptor rec))"
    using rb rollback_cases [of rec ?u ?a now s rb s1] by (auto simp: dropsStale_def split: if_splits)
  have refl: "dropsStale now ?a s s" by (simp add: dropsStale_def)
  show thesis
  proof (cases "?u = '''' \<or> upsertConflict env rec s \<noteq> None")
    case True
    then show thesis using assms conflict refl that(1) [of s] by (auto simp: upsertDescriptorLocked_def Let_def split: option.splits if_splits)
  next
    case False
    then have eq: "(r, s') = (case rb of Some r \<Rightarrow> (r, s1) | None \<Rightarrow>
        if \<not> allow \<and> crossIdentityTakeoverBlockedLocked ?u ?a now s1 then (upsertRejected, s1)
        else (upsertAccepted, enforceIdentityCapLocked ?a (storeRecord rec s1)))"
      using assms rb by (simp add: upsertDescriptorLocked_def Let_def)
    show thesis
    proof (cases rb)
      case None
      show thesis
      proof (cases "\<not> allow \<and> crossIdentityTakeoverBlockedLocked ?u ?a now s1")
        case True
        with eq None rb'(1) show thesis by (intro that(1) [of s1]) auto
      next
        case no: False
        from eq None no have "r = upsertAccepted" "s' = enforceIdentityCapLocked ?a (storeRecord rec s1)" by auto
        with None rb' False show thesis by (intro that(2) [of s1]) auto
      qed
    next
      case (Some r')
      with eq rb' show thesis by (intro that(1) [of s1]) auto
    qed
  qed
qed

lemma dropsStale_frame:
  "dropsStale now a s s1 \<Longrightarrow> relays s1 = relays s" "dropsStale now a s s1 \<Longrightarrow> rs_wf s \<Longrightarrow> rs_wf s1"
  by (auto simp: dropsStale_def rs_wf_def split: if_splits)

lemma store_relays: "relays (storeRecord rec s) = put (APIHTTPSAddr (Descriptor rec)) rec (relays s)"
  by (simp add: storeRecord_def Let_def)

lemma identityCap_keyIndex [simp]: "keyIndex (enforceIdentityCapLocked a s) = keyIndex s"
  by (simp add: enforceIdentityCapLocked_def Let_def)

lemma identityCap_sub: "set (relays (enforceIdentityCapLocked a s)) \<subseteq> set (relays s)"
  by (auto simp: enforceIdentityCapLocked_def Let_def set_del_many)

lemma rs_wf_store:
  assumes "rs_wf s" "length (samples rec) \<le> 100"
  shows "rs_wf (storeRecord rec s)"
proof -
  have s: "rs_wf (s\<lparr>relays := put (APIHTTPSAddr (Descriptor rec)) rec (relays s)\<rparr>)"
    using assms by (intro rs_wf_put) (auto simp: entry_ok_def)
  then show ?thesis by (auto simp: storeRecord_def Let_def rs_wf_def split: option.splits)
qed

lemma rs_wf_upsert:
  assumes "rs_wf s" "length (samples rec) \<le> 100" "upsertDescriptorLocked env rec now allow s = (r, s')"
  shows "rs_wf s'"
  using assms(3) by (cases rule: upsert_cases)
    (use assms(1,2) in \<open>auto intro: rs_wf_identityCap rs_wf_store dest: dropsStale_frame(2)\<close>)

lemma merge_samples: "length (samples found) = 0 \<Longrightarrow> length (samples old) \<le> 100 \<Longrightarrow> length (samples (mergeLocalRelayState found old)) \<le> 100"
  by (simp add: mergeLocalRelayState_def Let_def)

lemma merge_Descriptor [simp]: "Descriptor (mergeLocalRelayState found old) = Descriptor found"
  by (simp add: mergeLocalRelayState_def Let_def)

lemma mark_simps [simp]:
  "Descriptor (markDiscoveryVerified st) = Descriptor st" "samples (markDiscoveryVerified st) = samples st"
  "Banned (markDiscoveryVerified st) = Banned st"
  by (simp_all add: markDiscoveryVerified_def)

lemma relayStateOf_simps [simp]:
  "Descriptor (relayStateOf d t) = d" "samples (relayStateOf d t) = []" "Trust (relayStateOf d t) = RelayCandidate"
  "Banned (relayStateOf d t) = False" "LastSeenAt (relayStateOf d t) = t" "Bootstrap (relayStateOf d t) = False"
  by (simp_all add: relayStateOf_def)

text \<open>What both ingestion paths hand to the insertion: the found state merged with the one at its URL.\<close>

definition mergedInto :: "RelaySet \<Rightarrow> RelayState \<Rightarrow> RelayState \<Rightarrow> bool" where
  "mergedInto s found rec \<longleftrightarrow>
     (case lookup (relays s) (APIHTTPSAddr (Descriptor found)) of
        None \<Rightarrow> rec = found \<or> rec = mergeLocalRelayState found (relayStateOf emptyDescriptor 0)
      | Some old \<Rightarrow> rec = mergeLocalRelayState found old)"

text \<open>
  A property of the set that every part of an operation keeps: the contract under which both
  ingestion paths, announce and discovery response, are reasoned about once.
\<close>

locale ingestion =
  fixes env :: relay_env and now :: go_time and good :: "RelayState \<Rightarrow> bool" and isTarget :: "string \<Rightarrow> bool"
    and P :: "RelaySet \<Rightarrow> bool"
  assumes P_observations: "P s \<Longrightarrow> P (s\<lparr>incompatible := m\<rparr>)" "P s \<Longrightarrow> P (s\<lparr>releaseVersions := m'\<rparr>)"
    and P_upsert: "P s \<Longrightarrow> good found \<Longrightarrow> samples found = []
      \<Longrightarrow> mergedInto s found rec
      \<Longrightarrow> upsertDescriptorLocked env (if t then markDiscoveryVerified rec else rec) now allow s = (r, s')
      \<Longrightarrow> (t \<longrightarrow> isTarget (APIHTTPSAddr (Descriptor found))) \<Longrightarrow> P s'"
    and P_clear: "P s \<Longrightarrow> P (clearExpiredPoolBansLocked now s)"
    and P_credit: "P s \<Longrightarrow> isTarget u \<Longrightarrow> lookup (relays s) u = Some old \<Longrightarrow> P (s\<lparr>relays := put u (markDiscoveryVerified old) (relays s)\<rparr>)"
begin

lemma P_discovered:
  assumes "P s" "good found" "samples found = []" "u = APIHTTPSAddr (Descriptor found)"
  shows "P (fst (applyDiscovered env now isTarget (u, found) (s, c, f)))"
proof -
  let ?old = "case lookup (relays s) u of None \<Rightarrow> relayStateOf emptyDescriptor 0 | Some e \<Rightarrow> e"
  let ?m = "mergeLocalRelayState found ?old"
  obtain r s' where up: "upsertDescriptorLocked env (if isTarget u then markDiscoveryVerified ?m else ?m) now (isTarget u) s = (r, s')" by force
  have P': "P s'"
    by (rule P_upsert [OF assms(1-3) _ up]) (use assms in \<open>auto simp: mergedInto_def split: option.splits\<close>)
  show ?thesis
  proof (cases "lookup (relays s) u")
    case None
    with up P' show ?thesis by (cases r; cases "isTarget u") (simp_all add: applyDiscovered_def Let_def)
  next
    case (Some old)
    have same: "r \<noteq> upsertAccepted \<Longrightarrow> relays s' = relays s"
      using up by (cases rule: upsert_cases) (auto dest: dropsStale_frame(1))
    then have credit: "r \<noteq> upsertAccepted \<Longrightarrow> isTarget u \<Longrightarrow> P (s'\<lparr>relays := put u (markDiscoveryVerified old) (relays s')\<rparr>)"
      using P_credit [OF P', of u old] Some by simp
    show ?thesis using up P' Some credit same by (cases r; cases "isTarget u") (simp_all add: applyDiscovered_def Let_def)
  qed
qed

lemma P_fold:
  assumes "P s" "\<forall>(u, found) \<in> set ds. good found \<and> samples found = [] \<and> u = APIHTTPSAddr (Descriptor found)"
  shows "P (fst (fold (applyDiscovered env now isTarget) ds (s, c, f)))"
  using assms
proof (induction ds arbitrary: s c f)
  case (Cons e ds)
  obtain u found where e: "e = (u, found)" by force
  obtain s1 c1 f1 where st: "applyDiscovered env now isTarget e (s, c, f) = (s1, c1, f1)" by (metis prod_cases3)
  have "P s1" using P_discovered [of s found u c f] Cons.prems st e by auto
  with Cons show ?case by (simp add: st)
qed simp

lemma P_observe: "P s \<Longrightarrow> P (recordReleaseObservationLocked u v n s)" "P s \<Longrightarrow> P (recordIncompatibleRelayLocked u v n s)"
  by (auto simp: recordReleaseObservationLocked_def recordIncompatibleRelayLocked_def pruneReleaseVersionsLocked_def pruneIncompatibleLocked_def
      Let_def intro: P_observations split: option.splits)

lemma P_insert:
  assumes "P s" and fresh: "\<And>d. verifyFreshRelayDescriptor env desc now = Inr d \<Longrightarrow> good (relayStateOf d now)" and now: "orNow wall now0 = now"
  shows "snd (InsertCandidate env wall desc now0 s) = s
    \<or> (\<exists>s1. P s1 \<and> (snd (InsertCandidate env wall desc now0 s) = s1 \<or> snd (InsertCandidate env wall desc now0 s) = enforceCapLocked wall s1))"
proof (cases "verifyFreshRelayDescriptor env desc now")
  case (Inl e)
  then show ?thesis by (simp add: InsertCandidate_def now)
next
  case (Inr d)
  let ?s = "clearExpiredPoolBansLocked now s" and ?f = "relayStateOf d now"
  have P1: "P ?s" using assms by (intro P_clear)
  let ?e = "lookup (relays ?s) (APIHTTPSAddr d)"
  let ?rec = "case ?e of None \<Rightarrow> ?f | Some e \<Rightarrow> mergeLocalRelayState ?f e"
  obtain r s' where up: "upsertDescriptorLocked env ?rec now False ?s = (r, s')" by force
  have "P s'"
    by (rule P_upsert [OF P1 fresh [OF Inr], where rec = ?rec and t = False])
      (use up in \<open>auto simp: mergedInto_def split: option.splits\<close>)
  with P1 show ?thesis using Inr up
    by (cases r) (auto simp: InsertCandidate_def now Let_def split: if_splits option.splits prod.splits)
qed

lemma discovered_good:
  assumes "\<And>d. good (relayStateOf d now) \<or> (\<nexists>d'. verifyFreshRelayDescriptor env d' now = Inr d)"
  shows "\<forall>(u, found) \<in> set (discoverLocked env ds now target s). good found \<and> samples found = [] \<and> u = APIHTTPSAddr (Descriptor found)"
proof -
  let ?f = "\<lambda>d m. case discoveryRelayStateLocked env d now target s of None \<Rightarrow> m | Some state \<Rightarrow> put (APIHTTPSAddr (Descriptor state)) state m"
  let ?ok = "\<lambda>(u, found). good found \<and> samples found = [] \<and> u = APIHTTPSAddr (Descriptor found)"
  have one: "good st \<and> samples st = []" if "discoveryRelayStateLocked env d now target s = Some st" for d st
    using that assms by (auto simp: discoveryRelayStateLocked_def Let_def split: sum.splits if_splits)
  have "wf_map m \<and> Ball (set m) ?ok \<Longrightarrow> wf_map (fold ?f ds m) \<and> Ball (set (fold ?f ds m)) ?ok" for m
  proof (induction ds arbitrary: m)
    case (Cons d ds)
    have "wf_map (?f d m) \<and> Ball (set (?f d m)) ?ok"
      using Cons.prems one [of d] by (auto simp: set_put split: option.splits)
    from Cons.IH [OF this] show ?case by simp
  qed simp
  from this [of "[]"] show ?thesis by (simp add: discoverLocked_def)
qed

lemma P_apply:
  assumes "P s" and fresh: "\<And>d. good (relayStateOf d now) \<or> (\<nexists>d'. verifyFreshRelayDescriptor env d' now = Inr d)"
    and now: "orNow wall now0 = now"
    and target: "isTarget = (\<lambda>u. respProtocolVersion resp = DiscoveryVersion env \<and> target \<noteq> '''' \<and> u = target
      \<and> has_key (discoverLocked env (respRelays resp) now target (clearExpiredPoolBansLocked now s)) target)"
  shows "snd (ApplyRelayDiscoveryResponse env wall target resp now0 s) = s
    \<or> (\<exists>s1 m. P s1 \<and> snd (ApplyRelayDiscoveryResponse env wall target resp now0 s) = (enforceCapLocked wall s1)\<lparr>incompatible := m\<rparr>)"
proof -
  let ?s = "clearExpiredPoolBansLocked now s"
  let ?ds = "discoverLocked env (respRelays resp) now target ?s"
  let ?s1 = "if target \<noteq> '''' then recordReleaseObservationLocked target (respReleaseVersion resp) now ?s else ?s"
  let ?s2 = "if target \<noteq> '''' \<and> respProtocolVersion resp \<noteq> DiscoveryVersion env
    then recordIncompatibleRelayLocked target (respProtocolVersion resp) now ?s1 else ?s1"
  obtain s3 c f where loop: "fold (applyDiscovered env now isTarget) ?ds (?s2, False, False) = (s3, c, f)" by (metis prod_cases3)
  have "P ?s2" using P_clear [OF assms(1)] by (simp add: P_observe)
  with P_fold [OF this discovered_good [OF fresh, of "respRelays resp" target ?s], of False False] loop have P3: "P s3" by simp
  have t: "isTarget = (\<lambda>u. \<not> respProtocolVersion resp \<noteq> DiscoveryVersion env \<and> \<not> (target \<noteq> '''' \<and> \<not> has_key ?ds target) \<and> target \<noteq> '''' \<and> u = target)"
    unfolding target by auto
  have "snd (ApplyRelayDiscoveryResponse env wall target resp now0 s) \<in> {s, enforceCapLocked wall s3, (enforceCapLocked wall s3)\<lparr>incompatible := del target (incompatible (enforceCapLocked wall s3))\<rparr>}"
    unfolding ApplyRelayDiscoveryResponse_def Let_def now using loop [unfolded t] by (simp split del: if_split) (auto split: if_splits)
  moreover have "enforceCapLocked wall s3 = (enforceCapLocked wall s3)\<lparr>incompatible := incompatible (enforceCapLocked wall s3)\<rparr>" by simp
  ultimately have "snd (ApplyRelayDiscoveryResponse env wall target resp now0 s) = s
      \<or> (\<exists>m. snd (ApplyRelayDiscoveryResponse env wall target resp now0 s) = (enforceCapLocked wall s3)\<lparr>incompatible := m\<rparr>)"
    by (metis insertE singletonD)
  with P3 show ?thesis by blast
qed

end

section \<open>Operations that store no descriptor\<close>

definition derived :: "RelaySet \<Rightarrow> RelaySet \<Rightarrow> bool" where
  "derived s s' \<longleftrightarrow> (\<forall>u st. (u, st) \<in> set (relays s') \<longrightarrow>
     (\<exists>old. (u, old) \<in> set (relays s) \<and> Descriptor st = Descriptor old \<and> Trust st = Trust old)
     \<or> Trust st = RelayCandidate \<and> identityOf st = '''')"

lemma derived_refl [simp]: "derived s s"
  by (auto simp: derived_def)

lemma derived_trans: "derived s s1 \<Longrightarrow> derived s1 s2 \<Longrightarrow> derived s s2"
  unfolding derived_def identityOf_def by metis

lemma derived_sub: "set (relays s') \<subseteq> set (relays s) \<Longrightarrow> derived s s'"
  by (auto simp: derived_def)

lemma derived_put:
  assumes "rs_wf s" "lookup (relays s) u = Some old \<and> Descriptor st = Descriptor old \<and> Trust st = Trust old \<or> Trust st = RelayCandidate \<and> identityOf st = ''''"
  shows "derived s (s\<lparr>relays := put u st (relays s)\<rparr>)"
proof -
  have "wf_map (relays s)" using assms(1) by (simp add: rs_wf_def)
  with assms(2) show ?thesis by (auto simp: derived_def set_put dest: map_of_SomeD)
qed

lemma derived_clear: "derived s (clearExpiredPoolBansLocked now s)"
  unfolding derived_def by (metis clear_entries clearExpiredBan_same)

lemma derived_cap: "derived s (enforceCapLocked wall s)"
proof (rule derived_trans [OF derived_clear derived_sub])
  show "set (relays (enforceCapLocked wall s)) \<subseteq> set (relays (clearExpiredPoolBansLocked wall s))"
    using evict_sub by (simp add: enforceCapLocked_def Let_def)
qed

lemma derived_other [simp]: "derived s (s'\<lparr>incompatible := m\<rparr>) = derived s s'" "derived s (s'\<lparr>releaseVersions := r\<rparr>) = derived s s'"
  by (simp_all add: derived_def)

lemma new_state_simps [simp]:
  "Trust (newRelayState u) = RelayCandidate" "identityOf (newRelayState u) = ''''" "samples (newRelayState u) = []"
  "APIHTTPSAddr (Descriptor (newRelayState u)) = u"
  by (simp_all add: newRelayState_def identityOf_def emptyDescriptor_def TrimSpace_def ToLower_def)

lemma identityOf_cong: "Descriptor st = Descriptor old \<Longrightarrow> identityOf st = identityOf old"
  by (simp add: identityOf_def)

text \<open>A plain operation keeps the set well formed, the anchors and every stored descriptor.\<close>

definition plain :: "RelaySet \<Rightarrow> RelaySet \<Rightarrow> bool" where
  "plain s s' \<longleftrightarrow> rs_wf s' \<and> derived s s' \<and> keyIndex s' = keyIndex s"

lemma plain_trans: "plain s s1 \<Longrightarrow> plain s1 s2 \<Longrightarrow> plain s s2"
  by (auto simp: plain_def intro: derived_trans)

lemma plain_refl: "rs_wf s \<Longrightarrow> plain s s"
  by (simp add: plain_def)

lemma plain_put:
  "rs_wf s \<Longrightarrow> lookup (relays s) u = Some old \<Longrightarrow> Descriptor st = Descriptor old \<Longrightarrow> Trust st = Trust old \<Longrightarrow> length (samples st) \<le> 100
     \<Longrightarrow> plain s (s\<lparr>relays := put u st (relays s)\<rparr>)"
  unfolding plain_def by (auto intro!: rs_wf_put derived_put dest: rs_wf_entry simp: entry_ok_def)

lemma plain_new:
  "rs_wf s \<Longrightarrow> Descriptor st = Descriptor (newRelayState u) \<Longrightarrow> Trust st = RelayCandidate \<Longrightarrow> samples st = []
     \<Longrightarrow> plain s (s\<lparr>relays := put u st (relays s)\<rparr>)"
  unfolding plain_def
  by (auto intro!: rs_wf_put derived_put simp: entry_ok_def identityOf_cong [of st "newRelayState u"])

lemma plain_other [simp]: "plain s (s'\<lparr>incompatible := m\<rparr>) = plain s s'" "plain s (s'\<lparr>releaseVersions := r\<rparr>) = plain s s'"
  by (simp_all add: plain_def)

lemma plain_clear: "rs_wf s \<Longrightarrow> plain s (clearExpiredPoolBansLocked now s)"
  by (simp add: plain_def rs_wf_clear derived_clear)

lemma length_Add_sample: "length xs \<le> 100 \<Longrightarrow> length (Add_sample x xs) \<le> 100"
  by (simp add: Add_sample_def Let_def)

lemma stateAt_cases: "lookup (relays s) u = Some (stateAt u s) \<or> (lookup (relays s) u = None \<and> stateAt u s = newRelayState u)"
  by (simp add: stateAt_def split: option.splits)

lemma plain_stateAt:
  assumes "rs_wf s" "Descriptor st = Descriptor (stateAt u s)" "Trust st = Trust (stateAt u s)" "samples st = samples (stateAt u s)"
  shows "plain s (s\<lparr>relays := put u st (relays s)\<rparr>)"
  using stateAt_cases [of s u]
proof
  assume "lookup (relays s) u = Some (stateAt u s)"
  with assms show ?thesis using rs_wf_entry [OF assms(1)] by (intro plain_put) (auto simp: entry_ok_def)
qed (use assms in \<open>auto intro!: plain_new\<close>)

lemma plain_ban: "rs_wf s \<Longrightarrow> plain s (banFromPoolLocked u now s)"
  by (simp add: banFromPoolLocked_def Let_def plain_refl plain_new)

fun stores :: "relay_op \<Rightarrow> bool" where
  "stores (InsertOp _ _ _) = True"
| "stores (ApplyOp _ _ _ _) = True"
| "stores _ = False"

lemma plain_DiscoveryFailure: "rs_wf s \<Longrightarrow> plain s (snd (RecordDiscoveryFailure now u n s))"
proof -
  assume "rs_wf s"
  then have s: "plain s (clearExpiredPoolBansLocked now s)" (is "plain s ?s") by (rule plain_clear)
  then have wf: "rs_wf ?s" by (simp add: plain_def)
  show ?thesis
  proof (cases "lookup (relays ?s) u")
    case None
    with s show ?thesis by (simp add: RecordDiscoveryFailure_def)
  next
    case (Some st)
    have put: "plain s (?s\<lparr>relays := put u st' (relays ?s)\<rparr>)"
      if "Descriptor st' = Descriptor st" "Trust st' = Trust st" "samples st' = samples st" for st'
      by (rule plain_trans [OF s plain_put [OF wf Some]]) (use that rs_wf_entry [OF wf Some] in \<open>simp_all add: entry_ok_def\<close>)
    show ?thesis using Some s put plain_trans [OF s plain_ban [OF wf]] by (simp add: RecordDiscoveryFailure_def Let_def)
  qed
qed

lemma plain_ActiveFailure: "rs_wf s \<Longrightarrow> plain s (snd (RecordActiveFailure now u n s))"
proof -
  assume "rs_wf s"
  then have s: "plain s (clearExpiredPoolBansLocked now s)" (is "plain s ?s") by (rule plain_clear)
  then have wf: "rs_wf ?s" by (simp add: plain_def)
  show ?thesis
  proof (cases "lookup (relays ?s) u")
    case (Some st)
    have put: "plain s (?s\<lparr>relays := put u st' (relays ?s)\<rparr>)"
      if "Descriptor st' = Descriptor st" "Trust st' = Trust st" "samples st' = samples st" for st'
      by (rule plain_trans [OF s plain_put [OF wf Some]]) (use that rs_wf_entry [OF wf Some] in \<open>simp_all add: entry_ok_def\<close>)
    with Some s show ?thesis by (simp add: RecordActiveFailure_def Let_def)
  qed (use s in \<open>simp add: RecordActiveFailure_def\<close>)
qed

lemma plain_step: "rs_wf s \<Longrightarrow> \<not> stores e \<Longrightarrow> plain s (relay_set_step env fl e s)"
proof (cases e)
  case (RTTOp u rtt t)
  assume wf: "rs_wf s"
  show ?thesis
  proof (cases "lookup (relays s) u")
    case (Some st)
    then show ?thesis using RTTOp wf rs_wf_entry [OF wf Some]
      by (auto simp: RecordDiscoveryRTT_def entry_ok_def intro!: plain_put length_Add_sample)
  qed (use wf RTTOp in \<open>simp add: RecordDiscoveryRTT_def plain_refl\<close>)
next
  case (DeactivateOp now u)
  assume wf: "rs_wf s"
  show ?thesis
  proof (cases "lookup (relays s) u")
    case (Some st)
    then show ?thesis using DeactivateOp wf rs_wf_entry [OF wf Some]
      by (auto simp: DeactivateRelayURL_def entry_ok_def intro!: plain_put)
  qed (use wf DeactivateOp in \<open>simp add: DeactivateRelayURL_def plain_refl\<close>)
qed (auto simp: plain_DiscoveryFailure plain_ActiveFailure BanRelayURL_def AllowRelayURL_def EnsureRelayURL_def currentRelayStates_def Let_def
    intro: plain_stateAt plain_refl plain_new plain_clear)

section \<open>Both ingestion paths keep the set well formed\<close>

lemma upsert_relays:
  assumes "rs_wf s" "upsertDescriptorLocked env rec now allow s = (r, s')"
  shows "set (relays s') \<subseteq> insert (APIHTTPSAddr (Descriptor rec), rec) (set (relays s))"
  using assms(2)
proof (cases rule: upsert_cases)
  case (1 s1)
  then show ?thesis by (auto dest: dropsStale_frame(1))
next
  case (2 s1)
  have "relays s1 = relays s" using 2(1) by (rule dropsStale_frame(1))
  moreover have "wf_map (relays s)" using assms(1) by (simp add: rs_wf_def)
  ultimately have "set (relays (storeRecord rec s1)) \<subseteq> insert (APIHTTPSAddr (Descriptor rec), rec) (set (relays s))"
    by (auto simp: store_relays set_put)
  with 2(4) identityCap_sub show ?thesis by blast
qed

lemma merged_facts:
  assumes "mergedInto s found rec" "rs_wf s" "samples found = []"
  shows "Descriptor rec = Descriptor found" "length (samples rec) \<le> 100"
    "Trust rec = RelayVerified \<Longrightarrow> Trust found = RelayVerified \<or> (\<exists>old. (APIHTTPSAddr (Descriptor found), old) \<in> set (relays s) \<and> Trust old = RelayVerified)"
proof -
  let ?e = "lookup (relays s) (APIHTTPSAddr (Descriptor found))"
  show "Descriptor rec = Descriptor found" using assms(1) by (auto simp: mergedInto_def split: option.splits)
  show "length (samples rec) \<le> 100"
    using assms by (cases ?e) (auto simp: mergedInto_def mergeLocalRelayState_def Let_def entry_ok_def dest: rs_wf_entry)
  assume "Trust rec = RelayVerified"
  with assms show "Trust found = RelayVerified \<or> (\<exists>old. (APIHTTPSAddr (Descriptor found), old) \<in> set (relays s) \<and> Trust old = RelayVerified)"
    by (cases ?e) (auto simp: mergedInto_def mergeLocalRelayState_def Let_def split: if_splits dest: map_of_SomeD)
qed

text \<open>The URLs of verified relays; \<open>V\<close> bounds them, \<open>T\<close> is the target being polled.\<close>

definition verifiedURLs :: "RelaySet \<Rightarrow> string set" where
  "verifiedURLs s = {u. \<exists>st. (u, st) \<in> set (relays s) \<and> Trust st = RelayVerified}"

lemma derived_verified: "derived s s' \<Longrightarrow> verifiedURLs s' \<subseteq> verifiedURLs s"
  by (fastforce simp: derived_def verifiedURLs_def)

definition trust_inv :: "string set \<Rightarrow> (string \<Rightarrow> bool) \<Rightarrow> RelaySet \<Rightarrow> bool" where
  "trust_inv V T s \<longleftrightarrow> rs_wf s \<and> verifiedURLs s \<subseteq> V \<union> Collect T"

interpretation trust: ingestion env now "\<lambda>st. Trust st = RelayCandidate" T "trust_inv V T" for env now V T
proof (unfold_locales, goal_cases)
  case (3 s found rec t allow r s')
  let ?rec = "if t then markDiscoveryVerified rec else rec"
  have wf: "rs_wf s" and sub: "verifiedURLs s \<subseteq> V \<union> Collect T" using 3(1) by (simp_all add: trust_inv_def)
  note m = merged_facts [OF 3(4) wf 3(3)]
  have "rs_wf s'" using rs_wf_upsert [OF wf _ 3(5)] m(2) by (cases t) simp_all
  moreover have "Trust ?rec = RelayVerified \<Longrightarrow> APIHTTPSAddr (Descriptor found) \<in> V \<union> Collect T"
    using m(3) 3(2,6) sub by (cases t) (auto simp: verifiedURLs_def)
  then have "verifiedURLs s' \<subseteq> V \<union> Collect T"
    using upsert_relays [OF wf 3(5)] sub m(1) by (cases t) (fastforce simp: verifiedURLs_def)+
  ultimately show ?case by (simp add: trust_inv_def)
next
  case (4 s)
  then show ?case using derived_verified [OF derived_clear] by (auto simp: trust_inv_def rs_wf_clear)
next
  case (5 s u old)
  then have wf: "rs_wf s" by (simp add: trust_inv_def)
  then have "wf_map (relays s)" by (simp add: rs_wf_def)
  with 5 show ?case
    by (auto simp: trust_inv_def verifiedURLs_def set_put entry_ok_def intro!: rs_wf_put dest: rs_wf_entry)
qed (simp_all add: trust_inv_def verifiedURLs_def)

section \<open>Only polled relays are trusted\<close>

text \<open>A direct poll of \<open>u\<close> that spoke our protocol and returned a valid descriptor for \<open>u\<close> itself.\<close>

definition polled :: "relay_env \<Rightarrow> relay_op \<Rightarrow> string \<Rightarrow> bool" where
  "polled env e u \<longleftrightarrow> (\<exists>wall resp now d v. e = ApplyOp wall u resp now \<and> u \<noteq> '''' \<and> respProtocolVersion resp = DiscoveryVersion env
     \<and> d \<in> set (respRelays resp) \<and> verifyFreshRelayDescriptor env d (orNow wall now) = Inr v \<and> APIHTTPSAddr v = u)"

lemma discovered_from:
  assumes "has_key (discoverLocked env ds now target s) u"
  shows "\<exists>d \<in> set ds. \<exists>v. verifyFreshRelayDescriptor env d now = Inr v \<and> APIHTTPSAddr v = u"
proof -
  let ?f = "\<lambda>d m. case discoveryRelayStateLocked env d now target s of None \<Rightarrow> m | Some state \<Rightarrow> put (APIHTTPSAddr (Descriptor state)) state m"
  have "has_key (fold ?f ds m) u \<Longrightarrow> has_key m u \<or> (\<exists>d \<in> set ds. \<exists>v. verifyFreshRelayDescriptor env d now = Inr v \<and> APIHTTPSAddr v = u)" for m
  proof (induction ds arbitrary: m)
    case (Cons d ds)
    then have "has_key (?f d m) u \<or> (\<exists>d \<in> set ds. \<exists>v. verifyFreshRelayDescriptor env d now = Inr v \<and> APIHTTPSAddr v = u)" by simp
    then show ?case
      by (auto simp: discoveryRelayStateLocked_def Let_def split: option.splits sum.splits if_splits)
  qed simp
  from this [of "[]"] assms show ?thesis by (simp add: discoverLocked_def)
qed

lemma rs_wf_step_trust:
  assumes wf: "rs_wf s"
  shows "rs_wf (relay_set_step env fl e s) \<and> verifiedURLs (relay_set_step env fl e s) \<subseteq> verifiedURLs s \<union> {u. polled env e u}"
proof (cases e)
  case (InsertOp wall d now)
  have inv: "trust_inv (verifiedURLs s) (\<lambda>_. False) s" using wf by (simp add: trust_inv_def)
  from trust.P_insert [OF inv _ refl, of env d wall now] rs_wf_cap derived_verified [OF derived_cap] show ?thesis
    using wf InsertOp by (fastforce simp: trust_inv_def)
next
  case (ApplyOp wall target resp now)
  let ?now = "orNow wall now"
  let ?T = "\<lambda>u. respProtocolVersion resp = DiscoveryVersion env \<and> target \<noteq> '''' \<and> u = target
      \<and> has_key (discoverLocked env (respRelays resp) ?now target (clearExpiredPoolBansLocked ?now s)) target"
  have inv: "trust_inv (verifiedURLs s) ?T s" using wf by (simp add: trust_inv_def)
  have T: "Collect ?T \<subseteq> {u. polled env e u}" using ApplyOp by (auto simp: polled_def dest!: discovered_from)
  let ?r = "snd (ApplyRelayDiscoveryResponse env wall target resp now s)"
  from trust.P_apply [OF inv _ refl refl] have "?r = s \<or> (\<exists>s1 m. trust_inv (verifiedURLs s) ?T s1 \<and> ?r = (enforceCapLocked wall s1)\<lparr>incompatible := m\<rparr>)"
    by simp
  then show ?thesis
  proof
    assume "?r = s"
    then show ?thesis using wf ApplyOp by simp
  next
    assume "\<exists>s1 m. trust_inv (verifiedURLs s) ?T s1 \<and> ?r = (enforceCapLocked wall s1)\<lparr>incompatible := m\<rparr>"
    then obtain s1 m where s1: "rs_wf s1" "verifiedURLs s1 \<subseteq> verifiedURLs s \<union> Collect ?T" and r: "?r = (enforceCapLocked wall s1)\<lparr>incompatible := m\<rparr>"
      by (auto simp: trust_inv_def)
    have "verifiedURLs ?r \<subseteq> verifiedURLs s1" using derived_verified [OF derived_cap, of wall s1] unfolding r by (simp add: verifiedURLs_def)
    moreover have "rs_wf ?r" unfolding r using rs_wf_cap [OF s1(1)] by simp
    ultimately show ?thesis using s1(2) T ApplyOp by auto
  qed
qed (use wf plain_step [OF wf, of e env fl] derived_verified in \<open>auto simp: plain_def\<close>)

interpretation relay_set: op_system "relay_set_step env fl" rs_wf for env fl
  by unfold_locales (use rs_wf_step_trust in blast)

lemma new_set_entries:
  "wf_map (relays (NewRelaySet bs)) \<and> (\<forall>(u, st) \<in> set (relays (NewRelaySet bs)).
     u = APIHTTPSAddr (Descriptor st) \<and> samples st = [] \<and> Trust st = RelayCandidate \<and> identityOf st = '''')"
proof -
  let ?f = "\<lambda>u. put u ((newRelayState u)\<lparr>Bootstrap := True\<rparr>)"
  let ?ok = "\<lambda>m :: (string, RelayState) gomap. wf_map m \<and> (\<forall>(u, st) \<in> set m. u = APIHTTPSAddr (Descriptor st) \<and> samples st = [] \<and> Trust st = RelayCandidate \<and> identityOf st = '''')"
  have "?ok m \<Longrightarrow> ?ok (fold ?f bs m)" for m
  proof (induction bs arbitrary: m)
    case (Cons b bs)
    have "?ok (?f b m)" using Cons.prems by (auto simp: set_put identityOf_cong [of _ "newRelayState b"])
    from Cons.IH [OF this] show ?case by simp
  qed simp
  from this [of "[]"] show ?thesis by (auto simp: NewRelaySet_def)
qed

lemma rs_wf_new: "rs_wf (NewRelaySet bs)"
  using new_set_entries [of bs] by (auto simp: rs_wf_def) (auto simp: NewRelaySet_def)

lemma run_trust:
  "rs_wf s \<Longrightarrow> verifiedURLs (relay_set_run env fl es s) \<subseteq> verifiedURLs s \<union> {u. \<exists>e \<in> set es. polled env e u}"
proof (induction es arbitrary: s)
  case (Cons e es)
  note st = rs_wf_step_trust [OF Cons.prems, of env fl e]
  from Cons.IH [of "relay_set_step env fl e s"] st show ?case by auto
qed simp

lemma descriptors_from:
  "d \<in> set (fold (\<lambda>st. addDescriptor now (Descriptor st)) sts out) \<Longrightarrow> d \<in> set out \<or> (\<exists>st \<in> set sts. d = Descriptor st)"
proof (induction sts arbitrary: out)
  case (Cons st sts)
  from Cons.IH [of "addDescriptor now (Descriptor st) out"] Cons.prems show ?case
    by (auto simp: addDescriptor_def split: if_splits)
qed simp

lemma descriptors_verified:
  assumes "rs_wf s" "d \<in> set (fst (Descriptors now self s))" "d \<noteq> self"
  shows "APIHTTPSAddr d \<in> verifiedURLs s"
proof -
  let ?s = "clearExpiredPoolBansLocked (orNow now now) s"
  have "\<exists>st \<in> set (filter discoverable (map snd (relays ?s))). d = Descriptor st"
    using assms(2,3) descriptors_from [of d now "filter discoverable (map snd (relays ?s))"]
    by (fastforce simp: Descriptors_def currentRelayStates_def Let_def addDescriptor_def split: if_splits)
  then obtain u st where "(u, st) \<in> set (relays ?s)" "Trust st = RelayVerified" "d = Descriptor st"
    by (auto simp: discoverable_def)
  moreover have "rs_wf ?s" using assms(1) by (rule rs_wf_clear)
  ultimately have "APIHTTPSAddr d \<in> verifiedURLs ?s" by (auto simp: rs_wf_def verifiedURLs_def)
  then show ?thesis using derived_verified [OF derived_clear] by blast
qed

text \<open>
  C5: whatever is announced or gossiped, a relay other than oneself is listed to others only
  after a direct poll of its own URL, in our protocol version, returned a validly signed and
  fresh descriptor for that URL.
\<close>

theorem listed_relays_were_polled:
  assumes "d \<in> set (fst (Descriptors now self (relay_set_run env fl es (NewRelaySet bs))))" and "d \<noteq> self"
  shows "\<exists>e \<in> set es. polled env e (APIHTTPSAddr d)"
proof -
  let ?s = "relay_set_run env fl es (NewRelaySet bs)"
  have "rs_wf ?s" by (rule relay_set.run_inv [OF rs_wf_new])
  from descriptors_verified [OF this assms] run_trust [OF rs_wf_new, of env fl es bs]
  have "APIHTTPSAddr d \<in> verifiedURLs (NewRelaySet bs) \<union> {u. \<exists>e \<in> set es. polled env e u}" by blast
  moreover have "verifiedURLs (NewRelaySet bs) = {}" using new_set_entries [of bs] by (auto simp: verifiedURLs_def)
  ultimately show ?thesis by simp
qed

section \<open>No rollback\<close>

text \<open>What the set has stored of an identity: when its descriptors were issued.\<close>

definition ident :: "RelayDescriptor \<Rightarrow> string" where
  "ident d = ToLower (TrimSpace (Address d))"

definition descs :: "RelaySet \<Rightarrow> RelayDescriptor set" where
  "descs s = {d. ident d \<noteq> '''' \<and> (\<exists>u st. (u, st) \<in> set (relays s) \<and> d = Descriptor st)}"

text \<open>
  \<open>covered now s a t\<close>: a descriptor of \<open>a\<close> issued at \<open>t\<close> is remembered by an anchor, or its replay
  window has closed.
\<close>

definition covered :: "go_time \<Rightarrow> RelaySet \<Rightarrow> string \<Rightarrow> go_time \<Rightarrow> bool" where
  "covered now s a t \<longleftrightarrow> (\<exists>k. lookup (keyIndex s) a = Some k \<and> t \<le> anchorIssuedAt k) \<or> t + AnnounceMaxValidity < now"

definition anchor_inv :: "go_time \<Rightarrow> RelayDescriptor set \<Rightarrow> RelayDescriptor set \<Rightarrow> RelaySet \<Rightarrow> bool" where
  "anchor_inv now past before s \<longleftrightarrow> rs_wf s
     \<and> (\<forall>d \<in> past \<union> descs s. covered now s (ident d) (IssuedAt d))
     \<and> (\<forall>d \<in> descs s. d \<in> before \<or> (\<forall>d' \<in> past. ident d' = ident d \<longrightarrow> IssuedAt d' \<le> IssuedAt d))"

definition fresh :: "go_time \<Rightarrow> RelayState \<Rightarrow> bool" where
  "fresh now st \<longleftrightarrow> After (ExpiresAt (Descriptor st)) now \<and> ExpiresAt (Descriptor st) - IssuedAt (Descriptor st) \<le> AnnounceMaxValidity
     \<and> ident (Descriptor st) \<noteq> ''''"

lemma identityOf_ident: "identityOf st = ident (Descriptor st)"
  by (simp add: identityOf_def ident_def)

lemma derived_descs: "derived s s' \<Longrightarrow> descs s' \<subseteq> descs s"
  by (fastforce simp: derived_def descs_def identityOf_ident)

lemma covered_stale:
  assumes "dropsStale now a s s1" "rs_wf s" "covered now s b t"
  shows "covered now s1 b t"
  using assms by (fastforce simp: dropsStale_def covered_def rs_wf_def)

lemma covered_store:
  assumes "covered now s b t" "\<forall>k. lookup (keyIndex s) (identityOf rec) = Some k \<longrightarrow> anchorIssuedAt k \<le> IssuedAt (Descriptor rec)"
  shows "covered now (storeRecord rec s) b t"
  using assms by (auto simp: covered_def storeRecord_def Let_def split: option.splits)

lemma covered_stored: "identityOf rec \<noteq> '''' \<Longrightarrow> covered now (storeRecord rec s) (identityOf rec) (IssuedAt (Descriptor rec))"
  by (auto simp: covered_def storeRecord_def Let_def split: option.splits)

lemma covered_cong: "keyIndex s' = keyIndex s \<Longrightarrow> covered now s' a t = covered now s a t"
  by (simp add: covered_def)

lemma anchor_upsert:
  assumes inv: "anchor_inv now past bef s" and new: "fresh now rec" "length (samples rec) \<le> 100"
    and up: "upsertDescriptorLocked env rec now allow s = (r, s')"
  shows "anchor_inv now past bef s'"
proof -
  have wf: "rs_wf s" and cov: "\<forall>d \<in> past \<union> descs s. covered now s (ident d) (IssuedAt d)"
    and old: "\<forall>d \<in> descs s. d \<in> bef \<or> (\<forall>d' \<in> past. ident d' = ident d \<longrightarrow> IssuedAt d' \<le> IssuedAt d)"
    using inv by (auto simp: anchor_inv_def)
  have wf': "rs_wf s'" by (rule rs_wf_upsert [OF wf new(2) up])
  from up show ?thesis
  proof (cases rule: upsert_cases)
    case (1 s1)
    then have "relays s' = relays s" using dropsStale_frame(1) by simp
    then have "descs s' = descs s" by (simp add: descs_def)
    with 1 cov old wf' covered_stale [OF 1(1) wf] show ?thesis by (simp add: anchor_inv_def)
  next
    case (2 s1)
    let ?d = "Descriptor rec"
    have a: "identityOf rec = ident ?d" "ident ?d \<noteq> ''''" using new(1) by (simp_all add: identityOf_ident fresh_def)
    have sub: "descs s' \<subseteq> insert ?d (descs s)"
      using upsert_relays [OF wf up] by (auto simp: descs_def)
    have k: "\<forall>k. lookup (keyIndex s1) (identityOf rec) = Some k \<longrightarrow> anchorIssuedAt k \<le> IssuedAt ?d" using 2(6) a by simp
    have cov1: "covered now s1 (ident d) (IssuedAt d)" if "d \<in> past \<union> descs s" for d using covered_stale [OF 2(1) wf] cov that by blast
    have keep: "covered now s' b t = covered now (storeRecord rec s1) b t" for b t by (rule covered_cong) (simp add: 2(4))
    have "covered now s' (ident d) (IssuedAt d)" if "d \<in> past \<union> descs s'" for d
      using that sub covered_store [OF cov1 k] covered_stored [of rec now s1] a by (auto simp: keep)
    moreover have "IssuedAt d' \<le> IssuedAt ?d" if "d' \<in> past" "ident d' = ident ?d" for d'
      using cov1 [of d'] that k new(1) a by (auto simp: covered_def fresh_def)
    ultimately show ?thesis using wf' sub old unfolding anchor_inv_def by blast
  qed
qed

interpretation anchors: ingestion env now "fresh now" T "anchor_inv now past bef" for env now T past bef
proof (unfold_locales, goal_cases)
  case (3 s found rec t allow r s')
  have wf: "rs_wf s" using 3(1) by (simp add: anchor_inv_def)
  note m = merged_facts [OF 3(4) wf 3(3)]
  show ?case by (rule anchor_upsert [OF 3(1) _ _ 3(5)]) (use 3(2) m in \<open>simp_all add: fresh_def\<close>)
next
  case (4 s)
  have "descs (clearExpiredPoolBansLocked now s) \<subseteq> descs s" by (rule derived_descs [OF derived_clear])
  with 4 show ?case by (auto simp: anchor_inv_def rs_wf_clear covered_def)
next
  case (5 s u old)
  then have wf: "rs_wf s" "wf_map (relays s)" by (simp_all add: anchor_inv_def rs_wf_def)
  from wf 5 have "descs (s\<lparr>relays := put u (markDiscoveryVerified old) (relays s)\<rparr>) \<subseteq> descs s"
    by (fastforce simp: descs_def set_put dest: map_of_SomeD)
  moreover have "rs_wf (s\<lparr>relays := put u (markDiscoveryVerified old) (relays s)\<rparr>)"
    using wf rs_wf_entry [OF wf(1) 5(3)] by (intro rs_wf_put) (auto simp: entry_ok_def)
  ultimately show ?case using 5(1) by (auto simp: anchor_inv_def covered_def)
qed (auto simp: anchor_inv_def covered_def descs_def)

lemma anchor_cap:
  assumes "anchor_inv now past bef s" "now \<le> wall"
  shows "anchor_inv wall past bef (enforceCapLocked wall s)"
proof -
  have wf: "rs_wf s" and cov: "\<forall>d \<in> past \<union> descs s. covered now s (ident d) (IssuedAt d)"
    and old: "\<forall>d \<in> descs s. d \<in> bef \<or> (\<forall>d' \<in> past. ident d' = ident d \<longrightarrow> IssuedAt d' \<le> IssuedAt d)"
    using assms(1) by (auto simp: anchor_inv_def)
  have k: "lookup (keyIndex (enforceCapLocked wall s)) a = (case lookup (keyIndex s) a of None \<Rightarrow> None
      | Some e \<Rightarrow> if TombstoneUntil e \<noteq> 0 \<and> After wall (TombstoneUntil e) then None else Some e)" for a
    using wf by (simp add: enforceCapLocked_def Let_def rs_wf_def lookup_del_where)
  have "covered wall (enforceCapLocked wall s) a t" if "covered now s a t" for a t
    using that assms(2) wf by (auto simp: covered_def k rs_wf_def)
  moreover have "descs (enforceCapLocked wall s) \<subseteq> descs s" by (rule derived_descs [OF derived_cap])
  ultimately show ?thesis using rs_wf_cap [OF wf] cov old unfolding anchor_inv_def by blast
qed

text \<open>A verified descriptor names a signer, so its identity is never empty.\<close>

lemma evm_address_nonempty: "NormalizeEVMAddress h raw = Inr a \<Longrightarrow> ToLower (TrimSpace a) \<noteq> ''''"
proof -
  assume "NormalizeEVMAddress h raw = Inr a"
  then obtain rest where a: "a = CHR ''0'' # CHR ''x'' # rest" by (auto simp: NormalizeEVMAddress_def Let_def split: if_splits)
  have z: "\<not> is_space (CHR ''0'')" by (simp add: is_space_def)
  have "TrimSpace a \<noteq> []"
  proof
    assume "TrimSpace a = []"
    then have "\<forall>c \<in> set a. is_space c" using z by (simp add: TrimSpace_def a dropWhile_eq_Nil_conv)
    with z show False by (simp add: a)
  qed
  then show ?thesis by (simp add: ToLower_def)
qed

lemma verified_fresh:
  assumes "verifyFreshRelayDescriptor env d now = Inr v"
  shows "fresh now (relayStateOf v t)"
proof -
  from assms have ver: "VerifyRelayDescriptor env d = Inr v" and fr: "validateRelayDescriptorFreshness v now = None"
    by (auto simp: verifyFreshRelayDescriptor_def split: sum.splits option.splits)
  from ver obtain n where n: "NormalizeRelayDescriptor env d = Inr n" and v: "Address v = Address n"
    by (auto simp: VerifyRelayDescriptor_def Let_def split: if_splits sum.splits option.splits)
  from n have "Address n \<noteq> ''''" "\<exists>raw. NormalizeEVMAddress (keccak env) raw = Inr (Address n)"
    by (auto simp: NormalizeRelayDescriptor_def Let_def split: if_splits sum.splits)
  then have "ident v \<noteq> ''''" using evm_address_nonempty v by (auto simp: ident_def)
  with fr show ?thesis by (auto simp: fresh_def validateRelayDescriptorFreshness_def split: if_splits)
qed

text \<open>
  Times never go back: an ingestion starts no earlier than the last one ended. The wall clock of
  an ingestion is read when it enforces the cap.
\<close>

fun chronological :: "go_time \<Rightarrow> relay_op list \<Rightarrow> bool" where
  "chronological c [] \<longleftrightarrow> True"
| "chronological c (InsertOp wall d now # es) \<longleftrightarrow> c \<le> orNow wall now \<and> orNow wall now \<le> wall \<and> chronological wall es"
| "chronological c (ApplyOp wall target resp now # es) \<longleftrightarrow> c \<le> orNow wall now \<and> orNow wall now \<le> wall \<and> chronological wall es"
| "chronological c (_ # es) \<longleftrightarrow> chronological c es"

fun clockAfter :: "go_time \<Rightarrow> relay_op \<Rightarrow> go_time" where
  "clockAfter c (InsertOp wall d now) = wall"
| "clockAfter c (ApplyOp wall target resp now) = wall"
| "clockAfter c _ = c"

lemma anchor_mono: "anchor_inv c past bef s \<Longrightarrow> c \<le> c' \<Longrightarrow> anchor_inv c' past bef s"
  unfolding anchor_inv_def covered_def by (meson le_less_trans less_le_trans)

lemma anchor_step:
  assumes inv: "anchor_inv c past (descs s) s" and chron: "chronological c [e]"
  shows "anchor_inv (clockAfter c e) past (descs s) (relay_set_step env fl e s)"
proof (cases e)
  case (InsertOp wall d now)
  let ?now = "orNow wall now"
  from InsertOp chron have t: "c \<le> ?now" "?now \<le> wall" by simp_all
  have P: "anchor_inv ?now past (descs s) s" by (rule anchor_mono [OF inv t(1)])
  from anchors.P_insert [OF P _ refl, where desc = d and env = env] verified_fresh InsertOp anchor_mono [OF inv] anchor_mono [OF _ t(2)] anchor_cap [OF _ t(2)] t
  show ?thesis by auto
next
  case (ApplyOp wall target resp now)
  let ?now = "orNow wall now"
  from ApplyOp chron have t: "c \<le> ?now" "?now \<le> wall" by simp_all
  have P: "anchor_inv ?now past (descs s) s" by (rule anchor_mono [OF inv t(1)])
  have "\<And>d. fresh ?now (relayStateOf d ?now) \<or> (\<nexists>d'. verifyFreshRelayDescriptor env d' ?now = Inr d)" using verified_fresh by blast
  from anchors.P_apply [OF P this refl refl, of target resp]
  consider "relay_set_step env fl e s = s"
    | s1 m where "anchor_inv ?now past (descs s) s1" "relay_set_step env fl e s = (enforceCapLocked wall s1)\<lparr>incompatible := m\<rparr>"
    unfolding ApplyOp by auto
  then show ?thesis
  proof cases
    case 1
    with anchor_mono [OF P t(2)] ApplyOp show ?thesis by simp
  next
    case 2
    from anchors.P_observations(1) [OF anchor_cap [OF 2(1) t(2)], of m] 2(2) ApplyOp show ?thesis by simp
  qed
qed (use inv plain_step [of s e env fl] derived_descs in \<open>fastforce simp: plain_def anchor_inv_def covered_def\<close>)+

lemma chronological_Cons: "chronological c (e # es) \<longleftrightarrow> chronological c [e] \<and> chronological (clockAfter c e) es"
  by (cases e) auto

lemma chronological_append: "chronological c (es @ fs) \<longleftrightarrow> chronological c es \<and> chronological (fold (\<lambda>e c. clockAfter c e) es c) fs"
proof (induction es arbitrary: c)
  case (Cons e es)
  then show ?case using chronological_Cons [of c e es] chronological_Cons [of c e "es @ fs"] by simp
qed simp

lemma anchor_rebase: "anchor_inv c past bef s \<Longrightarrow> past' \<subseteq> past \<union> descs s \<Longrightarrow> anchor_inv c past' (descs s) s"
  unfolding anchor_inv_def by blast

lemma anchor_run:
  "anchor_inv c past (descs s) s \<Longrightarrow> descs s \<subseteq> past \<Longrightarrow> chronological c es
   \<Longrightarrow> \<exists>past'. anchor_inv (fold (\<lambda>e c. clockAfter c e) es c) past' (descs (relay_set_run env fl es s)) (relay_set_run env fl es s)
     \<and> past \<subseteq> past' \<and> (\<forall>i. descs (relay_set_run env fl (take i es) s) \<subseteq> past')"
proof (induction es arbitrary: c past s)
  case (Cons e es)
  let ?s = "relay_set_step env fl e s"
  from Cons.prems(3) have ch: "chronological c [e]" "chronological (clockAfter c e) es" using chronological_Cons [of c e es] by simp_all
  have "anchor_inv (clockAfter c e) (past \<union> descs ?s) (descs ?s) ?s"
    by (rule anchor_rebase [OF anchor_step [OF Cons.prems(1) ch(1)]]) simp
  from Cons.IH [OF this _ ch(2)] obtain past' where p: "anchor_inv (fold (\<lambda>e c. clockAfter c e) es (clockAfter c e)) past' (descs (relay_set_run env fl es ?s)) (relay_set_run env fl es ?s)"
    "past \<union> descs ?s \<subseteq> past'" "\<forall>i. descs (relay_set_run env fl (take i es) ?s) \<subseteq> past'" by auto
  have "descs (relay_set_run env fl (take i (e # es)) s) \<subseteq> past'" for i
    using p Cons.prems(2) by (cases i) auto
  with p show ?case by auto
qed (auto intro: exI [where x = past])

lemma descs_new: "descs (NewRelaySet bs) = {}"
  using new_set_entries [of bs] by (auto simp: descs_def identityOf_ident)

lemma anchor_new: "anchor_inv c {} (descs (NewRelaySet bs)) (NewRelaySet bs)"
  by (simp add: anchor_inv_def rs_wf_new descs_new)

text \<open>
  C4: no rollback. Whatever is announced, gossiped or polled, in whatever order and under
  whatever URL, a descriptor that enters the set is at least as recent as every descriptor of the
  same signing identity the set has ever held, also after those were evicted and their anchors
  swept, as long as the clock does not go back.
\<close>

theorem identity_never_rolls_back:
  assumes "chronological c (es @ [e])"
    and "old \<in> descs (relay_set_run env fl (take i es) (NewRelaySet bs))"
    and "new \<in> descs (relay_set_run env fl (es @ [e]) (NewRelaySet bs)) - descs (relay_set_run env fl es (NewRelaySet bs))"
    and "ident old = ident new"
  shows "IssuedAt old \<le> IssuedAt new"
proof -
  let ?s = "relay_set_run env fl es (NewRelaySet bs)" and ?c = "fold (\<lambda>e c. clockAfter c e) es c"
  from assms(1) have ch: "chronological c es" "chronological ?c [e]" using chronological_append by auto
  from anchor_run [OF anchor_new _ ch(1), of bs env fl] obtain past where past: "anchor_inv ?c past (descs ?s) ?s"
    "\<forall>i. descs (relay_set_run env fl (take i es) (NewRelaySet bs)) \<subseteq> past" by (auto simp: descs_new)
  have "old \<in> past" using past(2) assms(2) by blast
  moreover have "new \<in> descs (relay_set_step env fl e ?s)" "new \<notin> descs ?s" using assms(3) by simp_all
  ultimately show ?thesis using anchor_step [OF past(1) ch(2), of env fl] assms(4) unfolding anchor_inv_def by blast
qed

text \<open>Relay 1 announces itself under one URL and an hour later renews the announcement.\<close>

definition demo_start :: go_time where "demo_start = 36000000000000"
definition demo_later :: go_time where "demo_later = 37000000000000"

definition demo_announce :: "char \<Rightarrow> string \<Rightarrow> go_time \<Rightarrow> go_time \<Rightarrow> relay_op" where
  "demo_announce c u issued now = InsertOp now (demo_descriptor c u issued) now"

abbreviation demo_net :: "relay_op list \<Rightarrow> RelaySet" where
  "demo_net es \<equiv> relay_set_run demo_env (\<lambda>_. 0) es (NewRelaySet [])"

lemma demo_first:
  "demo_net [demo_announce CHR ''1'' ''https://a'' demo_start demo_start] =
     \<lparr>relays = [(''https://a'', relayStateOf (demo_descriptor CHR ''1'' ''https://a'' demo_start) demo_start)],
      keyIndex = [(demo_address CHR ''1'', \<lparr>anchorIssuedAt = demo_start, TombstoneUntil = demo_start + 24 * hour\<rparr>)],
      incompatible = [], releaseVersions = []\<rparr>"
  by code_simp

lemma demo_second:
  "relays (demo_net [demo_announce CHR ''1'' ''https://a'' demo_start demo_start, demo_announce CHR ''1'' ''https://a'' demo_later demo_later]) =
     [(''https://a'', relayStateOf (demo_descriptor CHR ''1'' ''https://a'' demo_later) demo_later)]"
  by code_simp

lemma demo_ident: "ident (demo_descriptor c u t) = ToLower (TrimSpace (demo_address c))" "IssuedAt (demo_descriptor c u t) = t"
  by (simp_all add: ident_def demo_descriptor_def)

lemma demo_ident_nonempty: "ident (demo_descriptor CHR ''1'' u t) \<noteq> ''''"
  unfolding demo_ident by code_simp

theorem identity_never_rolls_back_witness:
  "demo_descriptor CHR ''1'' ''https://a'' demo_later \<in> descs (demo_net [demo_announce CHR ''1'' ''https://a'' demo_start demo_start, demo_announce CHR ''1'' ''https://a'' demo_later demo_later])
   \<and> IssuedAt (demo_descriptor CHR ''1'' ''https://a'' demo_start) \<le> IssuedAt (demo_descriptor CHR ''1'' ''https://a'' demo_later)"
proof -
  let ?es = "[demo_announce CHR ''1'' ''https://a'' demo_start demo_start]" and ?e = "demo_announce CHR ''1'' ''https://a'' demo_later demo_later"
  have chron: "chronological 0 (?es @ [?e])" by (simp add: demo_announce_def demo_start_def demo_later_def orNow_def)
  have old: "descs (demo_net ?es) = {demo_descriptor CHR ''1'' ''https://a'' demo_start}"
    unfolding demo_first descs_def using demo_ident_nonempty by auto
  have new: "descs (demo_net (?es @ [?e])) = {demo_descriptor CHR ''1'' ''https://a'' demo_later}"
    using demo_second demo_ident_nonempty by (auto simp: descs_def)
  have ne: "demo_descriptor CHR ''1'' ''https://a'' demo_later \<noteq> demo_descriptor CHR ''1'' ''https://a'' demo_start"
  proof
    assume "demo_descriptor CHR ''1'' ''https://a'' demo_later = demo_descriptor CHR ''1'' ''https://a'' demo_start"
    from arg_cong [OF this, of IssuedAt] show False by (simp add: demo_ident demo_start_def demo_later_def)
  qed
  have "IssuedAt (demo_descriptor CHR ''1'' ''https://a'' demo_start) \<le> IssuedAt (demo_descriptor CHR ''1'' ''https://a'' demo_later)"
    by (rule identity_never_rolls_back [OF chron, where i = 1 and env = demo_env and fl = "\<lambda>_. 0" and bs = "[]"])
      (use old new ne in \<open>simp_all add: demo_ident\<close>)
  then show ?thesis using new by simp
qed

end
