(* ===== verification/Relay_Trust.thy ===== *)
theory Relay_Trust
  imports Relay_Set_Safety
begin

text \<open>
  Further guarantees of the relay set: an identity cannot crowd out others, a ban by the operator
  holds, and one case in which trust is credited to an identity that never proved itself.
\<close>

section \<open>The cap per identity\<close>

definition candidatesOf :: "string \<Rightarrow> RelaySet \<Rightarrow> (string \<times> RelayState) list" where
  "candidatesOf a s = filter (\<lambda>(_, st). candidateOf a st) (relays s)"

lemma sort_key_take_drop:
  assumes "x \<in> set (take n (sort_key f xs))" "y \<in> set (drop n (sort_key f xs))"
  shows "f x \<le> f y"
proof -
  have "sorted (map f (take n (sort_key f xs) @ drop n (sort_key f xs)))" by simp
  with assms show ?thesis by (fastforce simp: sorted_append simp del: append_take_drop_id)
qed

lemma identityCap_entries:
  fixes s a
  defines "owned \<equiv> map (\<lambda>(u, st). (u, LastSeenAt st)) (candidatesOf a s)"
  assumes "a = ToLower (TrimSpace a)" "a \<noteq> ''''"
  shows "relays (enforceIdentityCapLocked a s) = fold (\<lambda>(u, _). del u) (take (length owned - MaxAnnouncedRelaysPerIdentity) (sort_key snd owned)) (relays s)"
proof -
  have o: "owned = map (\<lambda>(u, st). (u, LastSeenAt st)) (filter (\<lambda>(_, st). candidateOf a st) (relays s))" by (simp add: owned_def candidatesOf_def)
  show ?thesis using assms(2,3) unfolding enforceIdentityCapLocked_def Let_def o by (simp flip: assms(2))
qed

text \<open>The effect of the cap: at most four candidates stay, and only the oldest candidates of the identity go.\<close>

lemma identityCap_effect:
  assumes wf: "wf_map (relays s)" and a: "a = ToLower (TrimSpace a)" "a \<noteq> ''''"
  defines "s' \<equiv> enforceIdentityCapLocked a s"
  shows "length (candidatesOf a s') \<le> MaxAnnouncedRelaysPerIdentity"
    and "(u, st) \<in> set (relays s) \<Longrightarrow> (u, st) \<notin> set (relays s') \<Longrightarrow> candidateOf a st
      \<and> (\<forall>(v, kept) \<in> set (candidatesOf a s'). LastSeenAt st \<le> LastSeenAt kept)"
proof -
  let ?owned = "map (\<lambda>(u, st). (u, LastSeenAt st)) (candidatesOf a s)"
  let ?n = "length ?owned - MaxAnnouncedRelaysPerIdentity"
  let ?gone = "take ?n (sort_key snd ?owned)" and ?stay = "drop ?n (sort_key snd ?owned)"
  have set': "set (relays s') = {e \<in> set (relays s). fst e \<notin> fst ` set ?gone}"
    unfolding s'_def identityCap_entries [OF a] set_del_many ..
  have wf': "wf_map (relays s')" unfolding s'_def identityCap_entries [OF a] by (rule wf_map_del_many [OF wf])
  have dist: "distinct (map fst ?owned)" using wf by (simp add: wf_map_def candidatesOf_def distinct_map_filter comp_def case_prod_beta)
  have sorted_dist: "distinct (map fst (?gone @ ?stay))"
  proof -
    have "mset (map fst (?gone @ ?stay)) = mset (map fst ?owned)" by (simp only: append_take_drop_id mset_map mset_sort)
    with dist show ?thesis by (metis mset_eq_imp_distinct_iff)
  qed
  have parts: "set ?owned = set ?gone \<union> set ?stay"
    unfolding set_append [symmetric] append_take_drop_id by simp
  have cand: "set (candidatesOf a s') = {e \<in> set (candidatesOf a s). fst e \<notin> fst ` set ?gone}" by (auto simp: candidatesOf_def set')
  have stay: "(u, LastSeenAt st) \<in> set ?stay" if "(u, st) \<in> set (candidatesOf a s')" for u st
  proof -
    from that cand have "(u, LastSeenAt st) \<in> set ?owned" "(u, LastSeenAt st) \<notin> set ?gone" by force+
    then show ?thesis using parts by blast
  qed
  have "distinct (map fst (candidatesOf a s'))" using wf' by (simp add: wf_map_def candidatesOf_def distinct_map_filter)
  then have "length (candidatesOf a s') = card (fst ` set (candidatesOf a s'))" using distinct_card [of "map fst (candidatesOf a s')"] by simp
  also have "\<dots> \<le> card (fst ` set ?stay)" by (rule card_mono) (use stay in force)+
  also have "\<dots> \<le> length ?stay" using card_length [of "map fst ?stay"] by simp
  finally show "length (candidatesOf a s') \<le> MaxAnnouncedRelaysPerIdentity" by simp
  assume "(u, st) \<in> set (relays s)" "(u, st) \<notin> set (relays s')"
  then have "u \<in> fst ` set ?gone" by (simp add: set')
  then obtain t where t: "(u, t) \<in> set ?gone" by force
  then have "(u, t) \<in> set ?owned" using parts by blast
  then obtain st' where st': "(u, st') \<in> set (candidatesOf a s)" "t = LastSeenAt st'" by auto
  have same: "st' = st" using st'(1) \<open>(u, st) \<in> set (relays s)\<close> wf by (auto simp: candidatesOf_def wf_map_def dest: eq_key_imp_eq_value)
  have "LastSeenAt st \<le> LastSeenAt kept" if "(v, kept) \<in> set (candidatesOf a s')" for v kept
    using sort_key_take_drop [OF t stay [OF that]] st' same by simp
  with st' same show "candidateOf a st \<and> (\<forall>(v, kept) \<in> set (candidatesOf a s'). LastSeenAt st \<le> LastSeenAt kept)"
    by (auto simp: candidatesOf_def)
qed

lemma identity_normal: "ToLower (TrimSpace (identityOf st)) = identityOf st"
  by (simp add: identityOf_def ToLower_TrimSpace)

text \<open>
  C29: an identity that floods the set recycles its own slots. Whenever a descriptor is accepted,
  its identity is left with at most four unverified entries, and every entry that disappears was
  an unverified entry of that identity, no more recent than any it keeps.
\<close>

theorem flood_recycles_own_slots:
  fixes env fl es bs
  defines "s \<equiv> relay_set_run env fl es (NewRelaySet bs)"
  assumes up: "upsertDescriptorLocked env rec now allow s = (upsertAccepted, s')" and a: "identityOf rec \<noteq> ''''"
  shows "length (candidatesOf (identityOf rec) s') \<le> 4
    \<and> (\<forall>(u, st) \<in> set (relays s). (u, st) \<in> set (relays s') \<or> u = APIHTTPSAddr (Descriptor rec)
      \<or> candidateOf (identityOf rec) st \<and> (\<forall>(v, kept) \<in> set (candidatesOf (identityOf rec) s'). LastSeenAt st \<le> LastSeenAt kept))"
proof (rule conjI)
  have wf: "rs_wf s" unfolding s_def by (rule relay_set.run_inv [OF rs_wf_new])
  let ?a = "identityOf rec"
  from up show "length (candidatesOf ?a s') \<le> 4"
  proof (cases rule: upsert_cases)
    case (2 s1)
    then have "wf_map (relays (storeRecord rec s1))" using dropsStale_frame(2) [OF 2(1) wf] by (simp add: store_relays rs_wf_def)
    from identityCap_effect(1) [OF this identity_normal [symmetric] a] 2(4) show ?thesis by (simp add: MaxAnnouncedRelaysPerIdentity_def)
  qed simp
  from up show "\<forall>(u, st) \<in> set (relays s). (u, st) \<in> set (relays s') \<or> u = APIHTTPSAddr (Descriptor rec)
      \<or> candidateOf ?a st \<and> (\<forall>(v, kept) \<in> set (candidatesOf ?a s'). LastSeenAt st \<le> LastSeenAt kept)"
  proof (cases rule: upsert_cases)
    case (2 s1)
    have r1: "relays s1 = relays s" using 2(1) by (rule dropsStale_frame(1))
    have wfr: "wf_map (relays s)" using wf by (simp add: rs_wf_def)
    then have w: "wf_map (relays (storeRecord rec s1))" by (simp add: store_relays r1)
    have "(u, st) \<in> set (relays (storeRecord rec s1))" if "(u, st) \<in> set (relays s)" "u \<noteq> APIHTTPSAddr (Descriptor rec)" for u st
      using that wfr by (simp add: store_relays r1 set_put)
    then show ?thesis using identityCap_effect(2) [OF w identity_normal [symmetric] a] 2(4) by blast
  qed simp
qed

definition demo_state :: RelayState where
  "demo_state = relayStateOf (demo_descriptor CHR ''1'' ''https://a'' demo_start) demo_start"

lemma demo_upsert:
  "fst (upsertDescriptorLocked demo_env demo_state demo_start False (NewRelaySet [])) = upsertAccepted \<and> identityOf demo_state \<noteq> ''''"
  by code_simp

theorem flood_recycles_own_slots_witness:
  "fst (upsertDescriptorLocked demo_env demo_state demo_start False (NewRelaySet [])) = upsertAccepted
   \<and> length (candidatesOf (identityOf demo_state) (snd (upsertDescriptorLocked demo_env demo_state demo_start False (NewRelaySet [])))) \<le> 4"
proof -
  obtain s' where up: "upsertDescriptorLocked demo_env demo_state demo_start False (NewRelaySet []) = (upsertAccepted, s')"
    using demo_upsert by (metis eq_fst_iff)
  from flood_recycles_own_slots [where es = "[]" and bs = "[]" and env = demo_env and rec = demo_state, simplified, OF up] demo_upsert up show ?thesis by simp
qed

section \<open>Bans\<close>

text \<open>A relay the operator banned: it has no end date, so clearing expired pool bans leaves it.\<close>

definition bannedForGood :: "string \<Rightarrow> RelaySet \<Rightarrow> bool" where
  "bannedForGood u s \<longleftrightarrow> (\<exists>st. lookup (relays s) u = Some st \<and> Banned st \<and> IsZero (suppressActiveUntil st))"

definition ban_inv :: "string \<Rightarrow> RelaySet \<Rightarrow> bool" where
  "ban_inv u s \<longleftrightarrow> rs_wf s \<and> bannedForGood u s"

lemma banned_in: "wf_map (relays s) \<Longrightarrow> bannedForGood u s \<longleftrightarrow> (\<exists>st. (u, st) \<in> set (relays s) \<and> Banned st \<and> IsZero (suppressActiveUntil st))"
  by (simp add: bannedForGood_def lookup_in_set)

lemma ban_clear:
  assumes "ban_inv u s"
  shows "ban_inv u (clearExpiredPoolBansLocked now s)"
proof -
  have wf: "rs_wf s" "wf_map (relays s)" using assms by (simp_all add: ban_inv_def rs_wf_def)
  from assms obtain st where "(u, st) \<in> set (relays s)" "Banned st" "IsZero (suppressActiveUntil st)" by (auto simp: ban_inv_def banned_in [OF wf(2)])
  then have "(u, st) \<in> set (relays (clearExpiredPoolBansLocked now s))"
    by (auto simp: clearExpiredPoolBansLocked_def map_filter_set clearExpiredBan_def intro!: bexI [where x = "(u, st)"])
  then show ?thesis using \<open>Banned st\<close> \<open>IsZero (suppressActiveUntil st)\<close> rs_wf_clear [OF wf(1)]
    by (auto simp: ban_inv_def banned_in [OF wf_map_clear [OF wf(2)]])
qed

lemma ban_put: "ban_inv u s \<Longrightarrow> entry_ok v st \<Longrightarrow> v \<noteq> u \<or> Banned st \<and> IsZero (suppressActiveUntil st) \<Longrightarrow> ban_inv u (s\<lparr>relays := put v st (relays s)\<rparr>)"
  by (auto simp: ban_inv_def bannedForGood_def rs_wf_put)

lemma ban_identityCap:
  assumes "ban_inv u s" "a = ToLower (TrimSpace a)"
  shows "ban_inv u (enforceIdentityCapLocked a s)"
proof (cases "a = ''''")
  case True
  then show ?thesis using assms by (simp add: enforceIdentityCapLocked_def)
next
  case False
  have wf: "wf_map (relays s)" "rs_wf s" using assms(1) by (simp_all add: ban_inv_def rs_wf_def)
  from assms(1) obtain st where st: "(u, st) \<in> set (relays s)" "Banned st" "IsZero (suppressActiveUntil st)" by (auto simp: ban_inv_def banned_in [OF wf(1)])
  then have "(u, st) \<in> set (relays (enforceIdentityCapLocked a s))"
    using identityCap_effect(2) [OF wf(1) assms(2) False st(1)] by (auto simp: candidateOf_def)
  moreover have "rs_wf (enforceIdentityCapLocked a s)" by (rule rs_wf_identityCap [OF wf(2)])
  ultimately show ?thesis using st by (auto simp: ban_inv_def banned_in rs_wf_def)
qed

lemma ban_store: "ban_inv u s \<Longrightarrow> length (samples rec) \<le> 100 \<Longrightarrow> APIHTTPSAddr (Descriptor rec) \<noteq> u \<Longrightarrow> ban_inv u (storeRecord rec s)"
  by (simp add: ban_inv_def rs_wf_store bannedForGood_def store_relays)

lemma ban_upsert:
  assumes inv: "ban_inv u s" and "length (samples rec) \<le> 100" and up: "upsertDescriptorLocked env rec now allow s = (r, s')"
  shows "ban_inv u s'"
  using up
proof (cases rule: upsert_cases)
  case (1 s1)
  then show ?thesis using inv dropsStale_frame [OF 1(1)] by (simp add: ban_inv_def bannedForGood_def)
next
  case (2 s1)
  have "ban_inv u s1" using inv dropsStale_frame [OF 2(1)] by (simp add: ban_inv_def bannedForGood_def)
  moreover have "APIHTTPSAddr (Descriptor rec) \<noteq> u" using 2(5) inv by (auto simp: upsertConflict_def ban_inv_def bannedForGood_def)
  ultimately show ?thesis using assms(2) 2(4) by (simp add: ban_identityCap ban_store identity_normal)
qed

interpretation bans: ingestion env now "\<lambda>_. True" T "ban_inv u" for env now T u
proof (unfold_locales, goal_cases)
  case (3 s found rec t allow r s')
  have wf: "rs_wf s" using 3(1) by (simp add: ban_inv_def)
  show ?case by (rule ban_upsert [OF 3(1) _ 3(5)]) (use merged_facts(2) [OF 3(4) wf 3(3)] in simp)
next
  case (4 s)
  then show ?case by (rule ban_clear)
next
  case (5 s v old)
  then have "entry_ok v (markDiscoveryVerified old)" using rs_wf_entry [of s v old] by (simp add: ban_inv_def entry_ok_def)
  moreover have "v \<noteq> u \<or> Banned old \<and> IsZero (suppressActiveUntil old)" using 5 by (auto simp: ban_inv_def bannedForGood_def)
  ultimately show ?case using 5(1) by (intro ban_put) (auto simp: markDiscoveryVerified_def)
qed (simp_all add: ban_inv_def bannedForGood_def)

lemma evict_keeps: "e \<in> set m \<Longrightarrow> fst e \<notin> set us \<Longrightarrow> e \<in> set (fold evictOne us m)"
proof (induction us arbitrary: m)
  case (Cons u us)
  then have "e \<in> set (evictOne u m)" by (auto simp: evictOne_def set_del)
  with Cons show ?case by simp
qed simp

lemma ban_cap:
  assumes "ban_inv u s"
  shows "ban_inv u (enforceCapLocked wall s)"
proof -
  let ?s = "clearExpiredPoolBansLocked wall s"
  have inv: "ban_inv u ?s" by (rule ban_clear [OF assms])
  then have wf: "wf_map (relays ?s)" by (simp add: ban_inv_def rs_wf_def)
  from inv obtain st where st: "(u, st) \<in> set (relays ?s)" "Banned st" "IsZero (suppressActiveUntil st)" by (auto simp: ban_inv_def banned_in [OF wf])
  have "u \<notin> set (evictionOrder (relays ?s))"
  proof
    assume "u \<in> set (evictionOrder (relays ?s))"
    then obtain st' where "(u, st') \<in> set (relays ?s)" "\<not> Banned st'" by (auto simp: evictionOrder_def Let_def)
    with st wf show False by (auto simp: wf_map_def dest: eq_key_imp_eq_value)
  qed
  then have "(u, st) \<in> set (relays (enforceCapLocked wall s))" using evict_keeps [OF st(1)] by (simp add: enforceCapLocked_def Let_def)
  moreover have "rs_wf (enforceCapLocked wall s)" using assms by (intro rs_wf_cap) (simp add: ban_inv_def)
  ultimately show ?thesis using st by (auto simp: ban_inv_def banned_in rs_wf_def)
qed

text \<open>Only two operations may end such a ban.\<close>

fun lifts :: "string \<Rightarrow> relay_op \<Rightarrow> bool" where
  "lifts u (AllowOp v) \<longleftrightarrow> v = u"
| "lifts u (DeactivateOp now v) \<longleftrightarrow> v = u"
| "lifts u _ \<longleftrightarrow> False"

lemma ban_plain_step:
  assumes inv: "ban_inv u s" and "\<not> stores e" "\<not> lifts u e"
  shows "ban_inv u (relay_set_step env fl e s)"
proof -
  have wf: "rs_wf s" using inv by (simp add: ban_inv_def)
  have "bannedForGood u (relay_set_step env fl e s)"
  proof (cases e)
    case (DiscoveryFailureOp now v n)
    have "bannedForGood u (clearExpiredPoolBansLocked now s)" using ban_clear [OF inv] by (simp add: ban_inv_def)
    then show ?thesis using DiscoveryFailureOp
      by (auto simp: RecordDiscoveryFailure_def banFromPoolLocked_def bannedForGood_def Let_def split: option.splits)
  next
    case (ActiveFailureOp now v n)
    have "bannedForGood u (clearExpiredPoolBansLocked now s)" using ban_clear [OF inv] by (simp add: ban_inv_def)
    then show ?thesis using ActiveFailureOp by (auto simp: RecordActiveFailure_def bannedForGood_def Let_def split: option.splits)
  next
    case (ViewOp now)
    then show ?thesis using ban_clear [OF inv] by (simp add: ban_inv_def currentRelayStates_def Let_def)
  qed (use inv assms in \<open>auto simp: ban_inv_def bannedForGood_def RecordDiscoveryRTT_def BanRelayURL_def AllowRelayURL_def
      DeactivateRelayURL_def EnsureRelayURL_def has_key_def stateAt_def split: option.splits\<close>)
  then show ?thesis using plain_step [OF wf assms(2)] by (simp add: ban_inv_def plain_def)
qed

lemma relay_ban_step:
  assumes inv: "ban_inv u s" and "\<not> lifts u e"
  shows "ban_inv u (relay_set_step env fl e s)"
proof (cases e)
  case (InsertOp wall d now)
  from bans.P_insert [OF inv _ refl, of env d wall now] ban_cap inv InsertOp show ?thesis by auto
next
  case (ApplyOp wall target resp now)
  from bans.P_apply [OF inv _ refl refl, where env = env and target = target and resp = resp and wall = wall and ?now0.0 = now]
  consider "relay_set_step env fl e s = s" | s1 m where "ban_inv u s1" "relay_set_step env fl e s = (enforceCapLocked wall s1)\<lparr>incompatible := m\<rparr>"
    unfolding ApplyOp by auto
  then show ?thesis using inv ban_cap bans.P_observations(1) by cases auto
qed (use ban_plain_step [OF inv _ assms(2), of env fl] in auto)

lemma relay_ban_run: "ban_inv u s \<Longrightarrow> list_all (\<lambda>e. \<not> lifts u e) es \<Longrightarrow> ban_inv u (relay_set_run env fl es s)"
  by (induction es arbitrary: s) (auto intro: relay_ban_step)

lemma banned_entry:
  assumes "ban_inv u s" "(v, st) \<in> set (relays (clearExpiredPoolBansLocked now s))" "\<not> Banned st"
  shows "APIHTTPSAddr (Descriptor st) \<noteq> u"
proof
  let ?s = "clearExpiredPoolBansLocked now s"
  assume eq: "APIHTTPSAddr (Descriptor st) = u"
  have inv: "ban_inv u ?s" by (rule ban_clear [OF assms(1)])
  then have wf: "wf_map (relays ?s)" "v = u" using assms(2) eq by (auto simp: ban_inv_def rs_wf_def)
  from inv obtain st' where "(u, st') \<in> set (relays ?s)" "Banned st'" by (auto simp: ban_inv_def banned_in [OF wf(1)])
  with wf assms(2,3) show False by (auto simp: wf_map_def dest: eq_key_imp_eq_value)
qed

text \<open>
  C28: a relay that was banned, by the operator or after a detected man in the middle, stays
  banned under every later operation except an explicit permission or deactivation of that
  relay: it is neither polled nor listed, whatever it announces.
\<close>

theorem operator_ban_holds:
  fixes env fl es0 es bs u
  defines "s \<equiv> relay_set_run env fl es (BanRelayURL u (relay_set_run env fl es0 (NewRelaySet bs)))"
  assumes "list_all (\<lambda>e. \<not> lifts u e) es"
  shows "bannedForGood u s
    \<and> u \<notin> APIHTTPSAddr ` (set (fst (Descriptors now self s)) - {self})
    \<and> u \<notin> (APIHTTPSAddr \<circ> Descriptor) ` set (fst (refreshCandidates wall now s))"
proof -
  let ?s0 = "relay_set_run env fl es0 (NewRelaySet bs)"
  have "rs_wf ?s0" by (rule relay_set.run_inv [OF rs_wf_new])
  then have "rs_wf (BanRelayURL u ?s0)" using plain_step [of ?s0 "BanOp u" env fl] by (simp add: plain_def)
  then have "ban_inv u (BanRelayURL u ?s0)" by (simp add: ban_inv_def bannedForGood_def BanRelayURL_def)
  then have inv: "ban_inv u s" unfolding s_def by (rule relay_ban_run [OF _ assms(2)])
  have "APIHTTPSAddr d \<noteq> u" if "d \<in> set (fst (Descriptors now self s))" "d \<noteq> self" for d
  proof -
    let ?c = "clearExpiredPoolBansLocked (orNow now now) s"
    from that descriptors_from [of d now "filter discoverable (map snd (relays ?c))"]
    obtain st where "st \<in> set (map snd (relays ?c))" "discoverable st" "d = Descriptor st"
      by (fastforce simp: Descriptors_def currentRelayStates_def Let_def addDescriptor_def split: if_splits)
    then show ?thesis using banned_entry [OF inv] by (fastforce simp: discoverable_def)
  qed
  moreover have "APIHTTPSAddr (Descriptor st) \<noteq> u" if "st \<in> set (fst (refreshCandidates wall now s))" for st
    using that banned_entry [OF inv] by (fastforce simp: refreshCandidates_def currentRelayStates_def Let_def refreshable_def)
  ultimately show ?thesis using inv by (auto simp: ban_inv_def)
qed

theorem operator_ban_holds_witness:
  "bannedForGood ''https://a'' (demo_net [demo_announce CHR ''1'' ''https://a'' demo_start demo_start, BanOp ''https://a'', demo_announce CHR ''1'' ''https://a'' demo_later demo_later])"
proof -
  have "list_all (\<lambda>e. \<not> lifts ''https://a'' e) [demo_announce CHR ''1'' ''https://a'' demo_later demo_later]"
    by (simp add: demo_announce_def)
  from operator_ban_holds [OF this, of demo_env "\<lambda>_. 0" "[demo_announce CHR ''1'' ''https://a'' demo_start demo_start]" "[]"]
  show ?thesis by simp
qed

section \<open>Trust credited to the wrong identity\<close>

definition demo_response :: "RelayDescriptor list \<Rightarrow> DiscoveryResponse" where
  "demo_response ds = \<lparr>respProtocolVersion = ''1'', respRelays = ds, respIncompatibleRelays = [], respReleaseVersion = '''', respRelayReleaseVersions = []\<rparr>"

text \<open>
  Identity 1 announces the URL of relay 2, a poll of it fails once, and relay 2 is known with a
  newer descriptor under its other URL. The next poll answers with a descriptor of relay 2.
\<close>

definition squatted :: RelaySet where
  "squatted =
     \<lparr>relays = [(''https://a'', (relayStateOf (demo_descriptor CHR ''1'' ''https://a'' demo_start) demo_start)\<lparr>discoveryFailures := 1, unhealthySince := demo_start\<rparr>),
                (''https://b'', relayStateOf (demo_descriptor CHR ''2'' ''https://b'' demo_later) demo_later)],
      keyIndex = [(demo_address CHR ''1'', \<lparr>anchorIssuedAt = demo_start, TombstoneUntil = demo_start + 24 * hour\<rparr>),
                  (demo_address CHR ''2'', \<lparr>anchorIssuedAt = demo_later, TombstoneUntil = demo_later + 24 * hour\<rparr>)],
      incompatible = [], releaseVersions = []\<rparr>"

definition squatting :: "relay_op list" where
  "squatting = [demo_announce CHR ''1'' ''https://a'' demo_start demo_start, DiscoveryFailureOp demo_start ''https://a'' 5, demo_announce CHR ''2'' ''https://b'' demo_later demo_later]"

lemma squatted_reached:
  "relay_set_step demo_env (\<lambda>_. 0) (demo_announce CHR ''2'' ''https://b'' demo_later demo_later)
     (relay_set_step demo_env (\<lambda>_. 0) (DiscoveryFailureOp demo_start ''https://a'' 5)
       (demo_net [demo_announce CHR ''1'' ''https://a'' demo_start demo_start])) = squatted"
  unfolding demo_first by code_simp

lemma squatted_polled:
  "fst (Descriptors demo_later emptyDescriptor
     (relay_set_step demo_env (\<lambda>_. 0) (ApplyOp demo_later ''https://a'' (demo_response [demo_descriptor CHR ''2'' ''https://a'' demo_start]) demo_later) squatted))
   = [demo_descriptor CHR ''1'' ''https://a'' demo_start]"
  by code_simp


theorem listed_relays_were_polled_witness:
  "\<exists>e \<in> set (squatting @ [ApplyOp demo_later ''https://a'' (demo_response [demo_descriptor CHR ''2'' ''https://a'' demo_start]) demo_later]). polled demo_env e ''https://a''"
proof -
  let ?es = "squatting @ [ApplyOp demo_later ''https://a'' (demo_response [demo_descriptor CHR ''2'' ''https://a'' demo_start]) demo_later]"
  have "demo_descriptor CHR ''1'' ''https://a'' demo_start \<in> set (fst (Descriptors demo_later emptyDescriptor (demo_net ?es)))"
    using squatted_reached squatted_polled by (simp add: squatting_def)
  moreover have "demo_descriptor CHR ''1'' ''https://a'' demo_start \<noteq> emptyDescriptor"
    by (simp add: demo_descriptor_def emptyDescriptor_def demo_start_def)
  moreover have "APIHTTPSAddr (demo_descriptor CHR ''1'' ''https://a'' demo_start) = ''https://a''" by (simp add: demo_descriptor_def)
  ultimately show ?thesis using listed_relays_were_polled by metis
qed

end
