(* ===== verification/Relay_Selection.thy ===== *)
theory Relay_Selection
  imports Relay_Set
begin

text \<open>
  Which relays a client uses: \<open>src/portal/discovery/mols.go\<close>, the latency model of
  \<open>relaystate.go\<close>, the eligibility filter of \<open>relayset.go\<close> and the policy methods of
  \<open>controller.go\<close>. Arithmetic on float64 is an argument (\<open>float_ops\<close>), so every result holds for
  any rounding; the keyed digest is an argument as well.
\<close>

section \<open>Latency\<close>

text \<open>The constants 0.3, 0.5, 0.6, 0.9 and 100 as float64.\<close>

definition molsP2CPressureDelta :: float64 where "molsP2CPressureDelta = 0x3FD3333333333333"
definition float_half :: float64 where "float_half = 0x3FE0000000000000"
definition molsCVThreshold :: float64 where "molsCVThreshold = 0x3FE3333333333333"
definition float_p90 :: float64 where "float_p90 = 0x3FECCCCCCCCCCCCD"
definition float_100 :: float64 where "float_100 = 0x4059000000000000"

text \<open>
  \<open>PercentileTracker.Get\<close>. The index \<open>k\<close> is below the number of samples for IEEE arithmetic; the
  model reads zero beyond.
\<close>

definition Get_percentile :: "float_ops \<Rightarrow> float64 \<Rightarrow> float64 list \<Rightarrow> duration" where
  "Get_percentile F p xs =
     (if length xs = 0 then 0
      else if length xs = 1 then to_int64 F (xs ! 0)
      else
        let percent = fmul F p float_100 in
        if \<not> (flt F 0 percent \<and> fle F percent float_100) then 0
        else
          let sorted = sort_by (flt F) xs; at = (\<lambda>i. if i < length sorted then sorted ! i else 0);
              rank = fmul F (fdiv F percent float_100) (of_int64 F (int (length sorted) - 1));
              k = nat (to_int64 F rank);
              value = at k;
              value = (if k + 1 < length sorted
                       then fadd F value (fmul F (fsub F rank (of_int64 F (int k))) (fsub F (at (k + 1)) (at k))) else value)
          in to_int64 F value)"

definition failurePenaltyRTT :: duration where "failurePenaltyRTT = 300 * millisecond"
definition maxFailurePenalty :: duration where "maxFailurePenalty = 3 * second"

definition effectiveRTT :: "RelayState \<Rightarrow> duration" where
  "effectiveRTT state =
     (let failures = activeFailures state + discoveryFailures state in
      if failures > 0 then DiscoveryRTT state + min (int failures * failurePenaltyRTT) maxFailurePenalty else DiscoveryRTT state)"

definition Pressure :: "float_ops \<Rightarrow> RelayState \<Rightarrow> float64" where
  "Pressure F state =
     (let p50 = of_int64 F (Get_percentile F float_half (samples state)); p90 = of_int64 F (Get_percentile F float_p90 (samples state))
      in if flt F 0 p50 \<and> flt F p50 p90 then fdiv F (fsub F p90 p50) p50 else 0)"

definition molsCongestionRTTThreshold :: duration where "molsCongestionRTTThreshold = 500 * millisecond"
definition molsFallbackRTTThreshold :: duration where "molsFallbackRTTThreshold = 2 * second"
definition molsMinActiveNodes :: nat where "molsMinActiveNodes = 2"
definition DefaultMaxActiveRelays :: nat where "DefaultMaxActiveRelays = 3"

definition isRelayFallback :: "RelayState \<Rightarrow> bool" where
  "isRelayFallback state \<longleftrightarrow> \<not> IsZero (DiscoveryRTTAt state) \<and> effectiveRTT state > molsFallbackRTTThreshold"

definition molsRTTStats :: "float_ops \<Rightarrow> RelayState list \<Rightarrow> duration \<times> float64" where
  "molsRTTStats F states =
     (let measured = filter (\<lambda>state. \<not> IsZero (DiscoveryRTTAt state)) states;
          rtts = map (\<lambda>state. of_int64 F (effectiveRTT state)) measured;
          count = of_int64 F (int (length measured))
      in if length measured = 0 then (0, 0)
         else
           let avg = fdiv F (fold (\<lambda>x acc. fadd F acc x) rtts 0) count in
           if length measured = 1 then (to_int64 F avg, 0)
           else
             let sq = fold (\<lambda>x acc. let d = fsub F x avg in fadd F acc (fmul F d d)) rtts 0;
                 stddev = fsqrt F (fdiv F sq count)
             in (to_int64 F avg, if flt F 0 avg then fdiv F stddev avg else 0))"

definition molsCongestionMode :: "float_ops \<Rightarrow> RelayState list \<Rightarrow> bool \<times> bool" where
  "molsCongestionMode F states =
     (let (avgRTT, cv) = molsRTTStats F (filter (\<lambda>state. \<not> isRelayFallback state) states)
      in (avgRTT > molsCongestionRTTThreshold, flt F molsCVThreshold cv))"

section \<open>Latin squares\<close>

definition molsBaseM1 :: int where "molsBaseM1 = 3"
definition molsBaseM2 :: int where "molsBaseM2 = 5"
definition molsVariantM1 :: int where "molsVariantM1 = 7"
definition molsVariantM2 :: int where "molsVariantM2 = 11"

definition molsScore :: "int \<Rightarrow> int \<Rightarrow> int \<Rightarrow> int \<Rightarrow> int \<Rightarrow> int \<Rightarrow> bool \<Rightarrow> int" where
  "molsScore row col j m1 m2 order ok =
     (if \<not> ok \<or> order \<le> 1 then ((m1 * row + j) mod order) * order + 1
      else
        let t1 = (m1 * row + col) mod order; t2 = (m2 * row + col) mod order;
            d1 = (j - t1 + order) mod order; d2 = (j - t2 + order) mod order;
            bonus = (if j = t1 then 2 * order * order else 0) + (if j = t2 then order * order else 0)
        in bonus + (order - d1) * order + (order - d2) + 1)"

function gcd_loop :: "int \<Rightarrow> int \<Rightarrow> int" where
  "gcd_loop a b = (if b = 0 then a else gcd_loop b (a mod b))"
  by pat_completeness auto
termination
  by (relation "measure (\<lambda>(a, b). nat \<bar>b\<bar>)") (auto simp: abs_mod_less)

declare gcd_loop.simps [simp del]

definition molsGcd :: "int \<Rightarrow> int \<Rightarrow> int" where
  "molsGcd a b = gcd_loop (if a < 0 then - a else a) b"

definition molsPairValid :: "int \<Rightarrow> int \<Rightarrow> int \<Rightarrow> bool" where
  "molsPairValid order m1 m2 \<longleftrightarrow> molsGcd m1 order = 1 \<and> molsGcd m2 order = 1 \<and> molsGcd (m1 - m2) order = 1"

text \<open>The nested loops: the first pair below the order, \<open>a\<close> outside and \<open>b\<close> inside.\<close>

definition firstPair :: "int \<Rightarrow> (int \<Rightarrow> int \<Rightarrow> bool) \<Rightarrow> (int \<times> int) option" where
  "firstPair order P = List.find (\<lambda>(a, b). P a b) (List.product [1..order - 1] [1..order - 1])"

definition baseMultipliers :: "int \<Rightarrow> int \<times> int \<times> bool" where
  "baseMultipliers order =
     (if order mod 2 = 0 then (1, 1, False)
      else if molsPairValid order molsBaseM1 molsBaseM2 then (molsBaseM1, molsBaseM2, True)
      else case firstPair order (\<lambda>a b. a \<noteq> b \<and> molsPairValid order a b) of
          Some (a, b) \<Rightarrow> (a, b, True)
        | None \<Rightarrow> (1, 1, False))"

definition molsMultipliers :: "int \<Rightarrow> bool \<Rightarrow> int \<times> int \<times> bool" where
  "molsMultipliers order variant =
     (if \<not> variant then baseMultipliers order
      else if order mod 2 = 0 then (1, 1, False)
      else
        let (baseM1, baseM2, baseOK) = baseMultipliers order;
            differsFromBase = (\<lambda>a b. a mod order \<noteq> baseM1 mod order \<or> b mod order \<noteq> baseM2 mod order)
        in if \<not> baseOK then (1, 1, False)
           else if molsPairValid order molsVariantM1 molsVariantM2 \<and> differsFromBase molsVariantM1 molsVariantM2
           then (molsVariantM1, molsVariantM2, True)
           else case firstPair order (\<lambda>a b. a \<noteq> b \<and> molsPairValid order a b \<and> differsFromBase a b) of
               Some (a, b) \<Rightarrow> (a, b, True)
             | None \<Rightarrow> (1, 1, False))"

definition molsCongestionScore :: "int \<Rightarrow> int \<Rightarrow> int \<Rightarrow> int \<Rightarrow> int \<Rightarrow> int \<Rightarrow> bool \<Rightarrow> int" where
  "molsCongestionScore row col j m1 m2 order ok =
     (3 * order * order + order * order + order + 1) - molsScore row col ((order - 1) - j) m1 m2 order ok"

section \<open>Ranking\<close>

type_synonym mols_digest = "string \<Rightarrow> bytes"

fun bytes_less :: "bytes \<Rightarrow> bytes \<Rightarrow> bool" where
  "bytes_less _ [] \<longleftrightarrow> False"
| "bytes_less [] _ \<longleftrightarrow> True"
| "bytes_less (a # s) (b # t) \<longleftrightarrow> unat a < unat b \<or> (a = b \<and> bytes_less s t)"

definition be_uint32 :: "bytes \<Rightarrow> int" where
  "be_uint32 b = fold (\<lambda>x acc. acc * 256 + uint x) (take 4 b) 0"

record molsCandidate =
  candState :: RelayState
  candScore :: int
  candSeq :: nat

abbreviation relayURL_of :: "RelayState \<Rightarrow> string" where "relayURL_of state \<equiv> APIHTTPSAddr (Descriptor state)"

definition betterMOLSCandidate :: "molsCandidate \<Rightarrow> molsCandidate \<Rightarrow> bool" where
  "betterMOLSCandidate a b =
     (if candScore a \<noteq> candScore b then candScore a > candScore b
      else if relayURL_of (candState a) \<noteq> relayURL_of (candState b) then string_less (relayURL_of (candState a)) (relayURL_of (candState b))
      else candSeq a < candSeq b)"

definition relayColumns :: "mols_digest \<Rightarrow> string list \<Rightarrow> (string, nat) gomap" where
  "relayColumns digest urls =
     (let sorted = sort_by (\<lambda>a b. if digest a \<noteq> digest b then bytes_less (digest a) (digest b) else string_less a b) urls
      in fold (\<lambda>(col, url). put url col) (enumerate 0 sorted) [])"

definition scoreFor :: "(string, nat) gomap \<Rightarrow> bool \<Rightarrow> int \<Rightarrow> int \<Rightarrow> int \<times> int \<times> bool \<Rightarrow> int \<Rightarrow> RelayState \<Rightarrow> int" where
  "scoreFor cols congested row col m order state =
     (case m of (m1, m2, ok) \<Rightarrow>
        let j = int (case lookup cols (relayURL_of state) of None \<Rightarrow> 0 | Some c \<Rightarrow> c)
        in if congested then molsCongestionScore row col j m1 m2 order ok else molsScore row col j m1 m2 order ok)"

definition swapPressured :: "float_ops \<Rightarrow> molsCandidate list \<Rightarrow> molsCandidate list" where
  "swapPressured F cs =
     (case cs of
        a # b # rest \<Rightarrow>
          if flt F molsP2CPressureDelta (fsub F (Pressure F (candState a)) (Pressure F (candState b))) then b # a # rest else cs
      | _ \<Rightarrow> cs)"

definition rankTier :: "float_ops \<Rightarrow> (RelayState \<Rightarrow> int) \<Rightarrow> RelayState list \<Rightarrow> string list" where
  "rankTier F score states =
     map (\<lambda>c. relayURL_of (candState c))
       (swapPressured F (sort_by betterMOLSCandidate
         (map (\<lambda>(i, state). \<lparr>candState = state, candScore = score state, candSeq = i\<rparr>) (enumerate 0 states))))"

text \<open>The tiers: when fewer than two relays are active, the fastest fallback relays join them.\<close>

definition relayTiers :: "RelayState list \<Rightarrow> RelayState list \<times> RelayState list" where
  "relayTiers pool =
     (let active = filter (\<lambda>state. \<not> isRelayFallback state) pool; fallback = filter isRelayFallback pool in
      if length active < molsMinActiveNodes \<and> length fallback > 0 then
        let fallback = sort_by (\<lambda>a b. if effectiveRTT a \<noteq> effectiveRTT b then effectiveRTT a < effectiveRTT b
                                     else string_less (relayURL_of a) (relayURL_of b)) fallback;
            promote = min (molsMinActiveNodes - length active) (length fallback)
        in (active @ take promote fallback, drop promote fallback)
      else (active, fallback))"

definition RankRelayPool :: "float_ops \<Rightarrow> mols_digest \<Rightarrow> RelayState list \<Rightarrow> string \<Rightarrow> string list" where
  "RankRelayPool F digest autoPool localAddress =
     (if autoPool = [] then []
      else
        let (congested, nonLinear) = molsCongestionMode F autoPool;
            order = int (length autoPool);
            m = molsMultipliers order nonLinear;
            ingress = digest localAddress;
            row = be_uint32 ingress mod order;
            col = be_uint32 (drop 4 ingress) mod order;
            cols = relayColumns digest (map relayURL_of autoPool);
            score = scoreFor cols congested row col m order;
            (active, fallback) = relayTiers autoPool
        in rankTier F score active @ rankTier F score fallback)"

section \<open>Selection\<close>

record routeState =
  ExplicitRelayURLs :: "string list"
  ActiveRelayURLs :: "string list"
  MaxActiveRelays :: int
  RequireUDP :: bool
  RequireTCP :: bool
  LocalAddress :: string

definition supportsRequiredTransports :: "RelayState \<Rightarrow> routeState \<Rightarrow> go_time \<Rightarrow> bool" where
  "supportsRequiredTransports state route now \<longleftrightarrow>
     (if \<not> hasObservedDescriptor state \<or> \<not> After (ExpiresAt (Descriptor state)) now then True
      else (\<not> RequireUDP route \<or> SupportsUDP (Descriptor state)) \<and> (\<not> RequireTCP route \<or> SupportsTCP (Descriptor state)))"

definition eligible :: "routeState \<Rightarrow> go_time \<Rightarrow> RelayState \<Rightarrow> bool" where
  "eligible route now state \<longleftrightarrow>
     \<not> (Trust state \<noteq> RelayVerified \<and> (\<not> Bootstrap state \<or> hasObservedDescriptor state))
     \<and> relayURL_of state \<notin> set (ExplicitRelayURLs route)
     \<and> \<not> (Banned state \<or> Dead state)
     \<and> (hasObservedDescriptor state \<longrightarrow> After (ExpiresAt (Descriptor state)) now \<and> supportsRequiredTransports state route now)
     \<and> \<not> suppressed state now"

definition filterCandidatePool :: "RelayState list \<Rightarrow> routeState \<Rightarrow> go_time \<Rightarrow> RelayState list" where
  "filterCandidatePool states route now = filter (eligible route now) states"

text \<open>The last state of a URL, as a Go map built from the list holds it.\<close>

definition stateMap :: "RelayState list \<Rightarrow> (string, RelayState) gomap" where
  "stateMap states = fold (\<lambda>state. put (relayURL_of state) state) states []"

definition stickyOK :: "float_ops \<Rightarrow> RelayState list \<Rightarrow> string \<Rightarrow> bool" where
  "stickyOK F states u =
     (case lookup (stateMap states) u of
        None \<Rightarrow> False
      | Some s \<Rightarrow> \<not> isRelayFallback s \<and> \<not> flt F float_half (Pressure F s))"

fun keepActive :: "(string \<Rightarrow> bool) \<Rightarrow> string list \<Rightarrow> nat \<Rightarrow> string list \<Rightarrow> string list \<Rightarrow> string list" where
  "keepActive ok ranked maxActive [] selected = selected"
| "keepActive ok ranked maxActive (u # us) selected =
     (if length selected \<ge> maxActive then selected
      else if \<not> ok u then keepActive ok ranked maxActive us selected
      else if u \<in> set ranked \<and> u \<notin> set selected then keepActive ok ranked maxActive us (selected @ [u])
      else keepActive ok ranked maxActive us selected)"

definition appendNew :: "string \<Rightarrow> string list \<Rightarrow> string list" where
  "appendNew u selected = (if u \<in> set selected then selected else selected @ [u])"

definition applyActiveStickiness :: "float_ops \<Rightarrow> string list \<Rightarrow> string list \<Rightarrow> RelayState list \<Rightarrow> int \<Rightarrow> string list" where
  "applyActiveStickiness F ranked activeRelayURLs states maxActive =
     (if ranked = [] \<or> maxActive \<le> 0 \<or> activeRelayURLs = [] then ranked
      else fold appendNew ranked (keepActive (stickyOK F states) ranked (nat maxActive) activeRelayURLs []))"

definition explicitUsable :: "RelayState list \<Rightarrow> routeState \<Rightarrow> go_time \<Rightarrow> string \<Rightarrow> bool" where
  "explicitUsable states route now u \<longleftrightarrow>
     list_ex (\<lambda>state. relayURL_of state = u \<and> \<not> Banned state \<and> \<not> Dead state \<and> \<not> suppressed state now
       \<and> supportsRequiredTransports state route now) states"

definition maxActiveOf :: "routeState \<Rightarrow> int" where
  "maxActiveOf route = (if MaxActiveRelays route \<le> 0 then int DefaultMaxActiveRelays else MaxActiveRelays route)"

definition SelectPriority :: "float_ops \<Rightarrow> mols_digest \<Rightarrow> go_time \<Rightarrow> RelayState list \<Rightarrow> routeState \<Rightarrow> string list" where
  "SelectPriority F digest now states route =
     (if states = [] then []
      else
        let explicit = filter (explicitUsable states route now) (fold appendNew (ExplicitRelayURLs route) []);
            auto = RankRelayPool F digest (filterCandidatePool states route now) (LocalAddress route);
            maxActive = maxActiveOf route;
            auto = applyActiveStickiness F auto (ActiveRelayURLs route) states maxActive
        in explicit @ take (nat maxActive) auto)"

text \<open>The states \<open>SelectRelays\<close> adds for explicit relays the set does not know.\<close>

fun addExplicit :: "string list \<Rightarrow> RelayState list \<times> string list \<Rightarrow> RelayState list \<times> string list" where
  "addExplicit [] acc = acc"
| "addExplicit (raw # raws) (states, seen) =
     (let u = TrimSpace raw in
      if u = '''' \<or> u \<in> set seen then addExplicit raws (states, seen)
      else addExplicit raws (states @ [newRelayState u], u # seen))"

definition SelectRelays :: "float_ops \<Rightarrow> mols_digest \<Rightarrow> go_time \<Rightarrow> routeState \<Rightarrow> RelaySet \<Rightarrow> string list \<times> RelaySet" where
  "SelectRelays F digest now route s =
     (let (states, s) = currentRelayStates now now s;
          seen = filter (\<lambda>u. u \<noteq> '''') (map (\<lambda>state. TrimSpace (relayURL_of state)) states);
          states = (if ExplicitRelayURLs route = [] then states else fst (addExplicit (ExplicitRelayURLs route) (states, seen)))
      in (SelectPriority F digest now states route, s))"

section \<open>Policy\<close>

datatype FailureKind = FailureRuntime | FailureTerminal | FailureMITM

record Controller =
  relaySet :: RelaySet
  explicitRelays :: "string list"
  activeRelays :: "string list"
  maxActiveRelays :: int
  requireUDP :: bool
  requireTCP :: bool
  localAddress :: string

definition Report :: "go_time \<Rightarrow> string \<Rightarrow> FailureKind \<Rightarrow> Controller \<Rightarrow> Controller" where
  "Report now relayURL kind c =
     (if relayURL = '''' then c
      else case kind of
          FailureMITM \<Rightarrow> c\<lparr>relaySet := BanRelayURL relayURL (relaySet c)\<rparr>
        | _ \<Rightarrow> if IsSuppressed relayURL now (relaySet c) then c
               else c\<lparr>relaySet := snd (RecordActiveFailure now relayURL 1 (relaySet c))\<rparr>)"

text \<open>\<open>normalized\<close> is the result of \<open>NormalizeRelayURLs\<close>, \<open>None\<close> for its errors.\<close>

definition SetExplicitRelays :: "string list option \<Rightarrow> string list \<Rightarrow> Controller \<Rightarrow> Controller" where
  "SetExplicitRelays normalized urls c =
     (let urls = (case normalized of None \<Rightarrow> urls | Some us \<Rightarrow> us)
      in c\<lparr>explicitRelays := urls, relaySet := fold EnsureRelayURL urls (relaySet c)\<rparr>)"

definition SetActiveRelays :: "string list \<Rightarrow> Controller \<Rightarrow> Controller" where
  "SetActiveRelays urls c = c\<lparr>activeRelays := urls\<rparr>"

definition AddRelay :: "relay_env \<Rightarrow> string \<Rightarrow> Controller \<Rightarrow> Controller" where
  "AddRelay env relayURL c =
     (if relayURL = '''' then c
      else
        let u = (case NormalizeRelayURL env relayURL of Inl _ \<Rightarrow> relayURL | Inr n \<Rightarrow> n);
            explicit = (if u \<in> set (explicitRelays c) then explicitRelays c else sort_by string_less (explicitRelays c @ [u]))
        in c\<lparr>explicitRelays := explicit, relaySet := AllowRelayURL u (relaySet c)\<rparr>)"

definition RemoveRelay :: "go_time \<Rightarrow> string \<Rightarrow> Controller \<Rightarrow> Controller" where
  "RemoveRelay now relayURL c =
     (if relayURL = '''' then c
      else c\<lparr>explicitRelays := filter (\<lambda>u. u \<noteq> relayURL) (explicitRelays c), relaySet := DeactivateRelayURL now relayURL (relaySet c)\<rparr>)"

definition SetMaxActiveRelays :: "int \<Rightarrow> Controller \<Rightarrow> Controller" where
  "SetMaxActiveRelays n c = c\<lparr>maxActiveRelays := n\<rparr>"

definition SetTransportRequirements :: "bool \<Rightarrow> bool \<Rightarrow> Controller \<Rightarrow> Controller" where
  "SetTransportRequirements udp tcp c = c\<lparr>requireUDP := udp, requireTCP := tcp\<rparr>"

definition SetLocalAddress :: "string \<Rightarrow> Controller \<Rightarrow> Controller" where
  "SetLocalAddress address c = c\<lparr>localAddress := address\<rparr>"

definition buildRouteState :: "Controller \<Rightarrow> routeState" where
  "buildRouteState c =
     \<lparr>ExplicitRelayURLs = explicitRelays c, ActiveRelayURLs = activeRelays c, MaxActiveRelays = maxActiveRelays c,
      RequireUDP = requireUDP c, RequireTCP = requireTCP c, LocalAddress = localAddress c\<rparr>"

definition NewController :: "string list \<Rightarrow> Controller" where
  "NewController bootstrap =
     \<lparr>relaySet = NewRelaySet bootstrap, explicitRelays = [], activeRelays = [], maxActiveRelays = 0, requireUDP = False, requireTCP = False,
      localAddress = ''''\<rparr>"

section \<open>Orthogonal squares\<close>

lemma gcd_loop_gcd: "0 \<le> a \<Longrightarrow> 0 \<le> b \<Longrightarrow> gcd_loop a b = gcd a b"
proof (induction a b rule: gcd_loop.induct)
  case (1 a b)
  show ?case
  proof (cases "b = 0")
    case True
    then show ?thesis using 1 by (simp add: gcd_loop.simps)
  next
    case False
    then have "gcd_loop a b = gcd b (a mod b)" using 1 by (subst gcd_loop.simps) simp
    then show ?thesis using gcd_red_int [of a b] by simp
  qed
qed

lemma molsGcd_gcd: "0 \<le> b \<Longrightarrow> molsGcd a b = gcd a b"
  by (auto simp: molsGcd_def gcd_loop_gcd)

lemma molsPairValid_coprime:
  "0 < n \<Longrightarrow> molsPairValid n m1 m2 \<longleftrightarrow> coprime m1 n \<and> coprime m2 n \<and> coprime (m1 - m2) n"
  by (simp add: molsPairValid_def molsGcd_gcd coprime_iff_gcd_eq_1)

lemma mod_eq_small: "(x :: int) mod n = y mod n \<Longrightarrow> 0 \<le> x \<Longrightarrow> x < n \<Longrightarrow> 0 \<le> y \<Longrightarrow> y < n \<Longrightarrow> x = y"
  by simp

lemma targets_orthogonal:
  fixes n m1 m2 r c r' c' :: int
  assumes "coprime (m1 - m2) n" and range: "0 \<le> r" "r < n" "0 \<le> r'" "r' < n" "0 \<le> c" "c < n" "0 \<le> c'" "c' < n"
    and t1: "(m1 * r + c) mod n = (m1 * r' + c') mod n" and t2: "(m2 * r + c) mod n = (m2 * r' + c') mod n"
  shows "r = r' \<and> c = c'"
proof -
  have "n dvd (m1 * r + c) - (m1 * r' + c')" "n dvd (m2 * r + c) - (m2 * r' + c')" using t1 t2 by (simp_all add: mod_eq_dvd_iff)
  from dvd_diff [OF this] have "n dvd (m1 - m2) * (r - r')" by (simp add: algebra_simps)
  then have "n dvd r - r'" using assms(1) by (simp add: coprime_commute coprime_dvd_mult_right_iff)
  then have "r mod n = r' mod n" by (simp add: mod_eq_dvd_iff)
  from mod_eq_small [OF this range(1-4)] have r: "r = r'" .
  with t1 have "n dvd c - c'" by (simp add: mod_eq_dvd_iff)
  then have "c mod n = c' mod n" by (simp add: mod_eq_dvd_iff)
  from mod_eq_small [OF this range(5-8)] r show ?thesis by simp
qed

text \<open>The scores in terms of the two targets.\<close>

lemma distance_bounds:
  fixes n j t :: int
  assumes "0 < n" "0 \<le> j" "j < n" "0 \<le> t" "t < n"
  shows "(j - t + n) mod n = (if t \<le> j then j - t else j - t + n)"
proof (cases "t \<le> j")
  case True
  with assms have "(j - t + n) mod n = (j - t) mod n" "(j - t) mod n = j - t" by simp_all
  with True show ?thesis by simp
next
  case False
  with assms have "(j - t + n) mod n = j - t + n" by (intro mod_pos_pos_trivial) simp_all
  with False show ?thesis by simp
qed

lemma molsScore_choices:
  fixes n m1 m2 row col j :: int
  assumes n: "1 < n" and j: "0 \<le> j" "j < n"
  defines "t1 \<equiv> (m1 * row + col) mod n" and "t2 \<equiv> (m2 * row + col) mod n"
  shows "j = t1 \<Longrightarrow> molsScore row col j m1 m2 n True > 3 * (n * n)"
    and "j \<noteq> t1 \<Longrightarrow> molsScore row col j m1 m2 n True \<le> 2 * (n * n) + 1"
    and "j = t2 \<Longrightarrow> molsScore row col j m1 m2 n True > n * n + 1"
    and "j \<noteq> t1 \<Longrightarrow> j \<noteq> t2 \<Longrightarrow> molsScore row col j m1 m2 n True \<le> n * n"
proof -
  have t: "0 \<le> t1" "t1 < n" "0 \<le> t2" "t2 < n" using n by (simp_all add: t1_def t2_def)
  define d1 where "d1 = (j - t1 + n) mod n"
  define d2 where "d2 = (j - t2 + n) mod n"
  have e: "d1 = (if t1 \<le> j then j - t1 else j - t1 + n)" "d2 = (if t2 \<le> j then j - t2 else j - t2 + n)"
    unfolding d1_def d2_def by (rule distance_bounds; use n j t in simp)+
  have d: "0 \<le> d1" "d1 \<le> n - 1" "0 \<le> d2" "d2 \<le> n - 1" "d1 = 0 \<longleftrightarrow> j = t1" "d2 = 0 \<longleftrightarrow> j = t2"
    using n j t unfolding e by auto
  have score: "molsScore row col j m1 m2 n True
      = (if j = t1 then 2 * (n * n) else 0) + (if j = t2 then n * n else 0) + (n - d1) * n + (n - d2) + 1"
    using n by (simp add: molsScore_def Let_def d1_def d2_def t1_def t2_def mult.assoc)
  have full: "d1 = 0 \<Longrightarrow> (n - d1) * n = n * n" by simp
  have part: "d1 \<noteq> 0 \<Longrightarrow> (n - d1) * n \<le> n * n - n"
  proof -
    assume "d1 \<noteq> 0"
    with d have "(n - d1) * n \<le> (n - 1) * n" using n by (intro mult_right_mono) auto
    then show ?thesis by (simp add: algebra_simps)
  qed
  have least: "n \<le> (n - d1) * n" using d n mult_right_mono [of 1 "n - d1" n] by simp
  obtain q where q: "n * n = q" "n < q" using n by simp
  obtain x where x: "(n - d1) * n = x" by simp
  note score = score [unfolded q x] and full = full [unfolded q x] and part = part [unfolded q x] and least = least [unfolded x]
  show "j = t1 \<Longrightarrow> molsScore row col j m1 m2 n True > 3 * (n * n)" unfolding q using score full d n q(2) by auto
  show "j \<noteq> t1 \<Longrightarrow> molsScore row col j m1 m2 n True \<le> 2 * (n * n) + 1" unfolding q using score part d n q(2) by auto
  show "j = t2 \<Longrightarrow> molsScore row col j m1 m2 n True > n * n + 1" unfolding q using score least d n q(2) by auto
  show "j \<noteq> t1 \<Longrightarrow> j \<noteq> t2 \<Longrightarrow> molsScore row col j m1 m2 n True \<le> n * n" unfolding q using score part d n q(2) by auto
qed

lemma firstPair_Some: "firstPair n P = Some (a, b) \<Longrightarrow> P a b"
  by (auto simp: firstPair_def find_Some_iff)

lemma firstPair_total:
  assumes "P a b" "1 \<le> a" "a < n" "1 \<le> b" "b < n"
  shows "\<exists>p. firstPair n P = Some p"
proof (rule ccontr)
  assume "\<nexists>p. firstPair n P = Some p"
  then have "firstPair n P = None" by (cases "firstPair n P") auto
  then show False using assms by (auto simp: firstPair_def find_None_iff)
qed

lemma baseMultipliers_exact:
  assumes "0 < n"
  shows "baseMultipliers n = (m1, m2, ok) \<Longrightarrow> (ok \<longleftrightarrow> odd n) \<and> (ok \<longrightarrow> molsPairValid n m1 m2)"
proof -
  assume eq: "baseMultipliers n = (m1, m2, ok)"
  show ?thesis
  proof (cases "even n")
    case True
    with eq show ?thesis by (simp add: baseMultipliers_def even_iff_mod_2_eq_zero)
  next
    case False
    then have odd: "n mod 2 \<noteq> 0" by (simp add: even_iff_mod_2_eq_zero)
    show ?thesis
    proof (cases "molsPairValid n molsBaseM1 molsBaseM2")
      case True
      with eq odd False show ?thesis by (auto simp: baseMultipliers_def)
    next
      case nb: False
      let ?P = "\<lambda>a b. a \<noteq> b \<and> molsPairValid n a b"
      have "n \<noteq> 1" using nb by (auto simp: molsPairValid_coprime)
      then have "2 < n" using False assms by (cases "n = 2") auto
      moreover have "coprime 2 n" using False by (simp add: coprime_left_2_iff_odd)
      ultimately have "?P 1 2" using assms by (simp add: molsPairValid_coprime)
      with \<open>2 < n\<close> obtain a b where ab: "firstPair n ?P = Some (a, b)" using firstPair_total [of ?P 1 2 n] by auto
      with firstPair_Some [OF ab] eq odd nb False show ?thesis by (auto simp: baseMultipliers_def)
    qed
  qed
qed

text \<open>
  The two squares do what the ranking wants of them. For every odd number of relays the
  multipliers are a valid pair (for even numbers there is none and the code falls back); the
  first and the second choice of a client position are the two targets, in this order; and
  different client positions never share both choices, so clients displaced from one relay spread
  over different second choices.
\<close>

theorem mols_choices_spread:
  assumes n: "1 < n" and m: "molsMultipliers n False = (m1, m2, ok)" and pos: "0 \<le> row" "row < n" "0 \<le> col" "col < n"
  shows "(ok \<longleftrightarrow> odd n) \<and> (ok \<longrightarrow>
    (\<forall>j. 0 \<le> j \<and> j < n \<longrightarrow>
       (j \<noteq> (m1 * row + col) mod n \<longrightarrow> molsScore row col j m1 m2 n ok < molsScore row col ((m1 * row + col) mod n) m1 m2 n ok)
       \<and> (j \<noteq> (m1 * row + col) mod n \<and> j \<noteq> (m2 * row + col) mod n
          \<longrightarrow> molsScore row col j m1 m2 n ok < molsScore row col ((m2 * row + col) mod n) m1 m2 n ok))
    \<and> (\<forall>row' col'. 0 \<le> row' \<and> row' < n \<and> 0 \<le> col' \<and> col' < n \<and> (m1 * row + col) mod n = (m1 * row' + col') mod n
         \<and> (m2 * row + col) mod n = (m2 * row' + col') mod n \<longrightarrow> row' = row \<and> col' = col))"
proof -
  have base: "(ok \<longleftrightarrow> odd n) \<and> (ok \<longrightarrow> molsPairValid n m1 m2)"
    using baseMultipliers_exact [of n m1 m2 ok] n m by (simp add: molsMultipliers_def)
  let ?t1 = "(m1 * row + col) mod n" and ?t2 = "(m2 * row + col) mod n"
  have t: "0 \<le> ?t1" "?t1 < n" "0 \<le> ?t2" "?t2 < n" using n by simp_all
  obtain q where q: "n * n = q" "n < q" using n by simp
  have c1: "j \<noteq> ?t1 \<longrightarrow> molsScore row col j m1 m2 n True < molsScore row col ?t1 m1 m2 n True" if "0 \<le> j" "j < n" for j
    using molsScore_choices(1) [OF n t(1,2), of m1 row col m2] molsScore_choices(2) [OF n that, of m1 row col m2] n q(2) unfolding q(1) by auto
  have c2: "j \<noteq> ?t1 \<and> j \<noteq> ?t2 \<longrightarrow> molsScore row col j m1 m2 n True < molsScore row col ?t2 m1 m2 n True" if "0 \<le> j" "j < n" for j
    using molsScore_choices(3) [OF n t(3,4), of m2 row col m1] molsScore_choices(4) [OF n that, of m1 row col m2] by auto
  have c3: "row' = row \<and> col' = col" if "ok" "0 \<le> row'" "row' < n" "0 \<le> col'" "col' < n" "?t1 = (m1 * row' + col') mod n" "?t2 = (m2 * row' + col') mod n" for row' col'
    using targets_orthogonal [of m1 m2 n row row' col col'] base that pos n by (auto simp: molsPairValid_coprime)
  from base c1 c2 c3 show ?thesis by auto
qed

theorem mols_choices_spread_witness:
  "molsMultipliers 7 False = (3, 5, True) \<and> molsScore 2 4 0 3 5 7 True < molsScore 2 4 3 3 5 7 True"
proof -
  have m: "molsMultipliers 7 False = (3, 5, True)" by code_simp
  from mols_choices_spread [OF _ m, of 2 4] have "molsScore 2 4 0 3 5 7 True < molsScore 2 4 3 3 5 7 True" by simp
  with m show ?thesis ..
qed

section \<open>Ranking is a permutation\<close>

lemma mset_swapPressured [simp]: "mset (swapPressured F cs) = mset cs"
  by (auto simp: swapPressured_def split: list.splits)

lemma mset_rankTier: "mset (rankTier F score states) = mset (map relayURL_of states)"
proof -
  let ?cs = "map (\<lambda>(i, state). \<lparr>candState = state, candScore = score state, candSeq = i\<rparr>) (enumerate 0 states)"
  have "map (\<lambda>c. relayURL_of (candState c)) ?cs = map (\<lambda>p. relayURL_of (snd p)) (enumerate 0 states)"
    unfolding list.map_comp by (rule map_cong) (auto simp: comp_def split: prod.splits)
  also have "\<dots> = map relayURL_of (map snd (enumerate 0 states))" unfolding list.map_comp comp_def ..
  finally have "map (\<lambda>c. relayURL_of (candState c)) ?cs = map relayURL_of states" by simp
  then show ?thesis unfolding rankTier_def mset_map mset_swapPressured mset_sort_by by (metis mset_map)
qed

lemma mset_relayTiers: "relayTiers pool = (active, fallback) \<Longrightarrow> mset active + mset fallback = mset pool"
proof -
  let ?a = "filter (\<lambda>state. \<not> isRelayFallback state) pool" and ?f = "filter isRelayFallback pool"
  have split: "mset ?a + mset ?f = mset pool" by (metis mset_filter multiset_partition union_commute)
  have "mset (take n xs) + mset (drop n xs) = mset xs" for n and xs :: "RelayState list"
    by (metis append_take_drop_id mset_append)
  moreover assume "relayTiers pool = (active, fallback)"
  ultimately show ?thesis using split by (simp add: relayTiers_def Let_def union_assoc del: mset_filter split: if_splits) (auto simp: union_assoc)
qed

lemma RankRelayPool_permutes: "mset (RankRelayPool F digest pool addr) = mset (map relayURL_of pool)"
proof (cases "pool = []")
  case False
  obtain a f where t: "relayTiers pool = (a, f)" by force
  have "\<exists>score. RankRelayPool F digest pool addr = rankTier F score a @ rankTier F score f"
    using False t by (auto simp: RankRelayPool_def Let_def split: prod.splits)
  then obtain score where r: "RankRelayPool F digest pool addr = rankTier F score a @ rankTier F score f" ..
  show ?thesis unfolding r mset_append mset_rankTier mset_map image_mset_union [symmetric] mset_relayTiers [OF t] ..
qed (simp add: RankRelayPool_def)

section \<open>Selection\<close>

lemma appendNew_extends: "\<exists>rest. fold appendNew xs sel = sel @ rest"
proof (induction xs arbitrary: sel)
  case (Cons x xs)
  obtain rest where "fold appendNew xs (appendNew x sel) = appendNew x sel @ rest" using Cons by blast
  moreover have "\<exists>r. appendNew x sel = sel @ r" by (simp add: appendNew_def)
  ultimately show ?case by auto
qed simp

lemma appendNew_set: "set (fold appendNew xs sel) = set sel \<union> set xs"
  by (induction xs arbitrary: sel) (auto simp: appendNew_def)

lemma appendNew_distinct: "distinct sel \<Longrightarrow> distinct (fold appendNew xs sel)"
  by (induction xs arbitrary: sel) (auto simp: appendNew_def)

lemma keepActive_take:
  "length sel \<le> m \<Longrightarrow> keepActive ok ranked m us sel = take m (fold appendNew (filter (\<lambda>u. ok u \<and> u \<in> set ranked) us) sel)"
proof (induction us arbitrary: sel)
  case (Cons u us)
  let ?f = "filter (\<lambda>u. ok u \<and> u \<in> set ranked) us"
  show ?case
  proof (cases "length sel = m")
    case True
    have "\<exists>rest. fold appendNew (filter (\<lambda>u. ok u \<and> u \<in> set ranked) (u # us)) sel = sel @ rest" by (rule appendNew_extends)
    with True show ?thesis by auto
  next
    case False
    with Cons show ?thesis by (auto simp: appendNew_def)
  qed
qed simp

text \<open>The active relays that stay: healthy and ranked, in their order, up to the quota.\<close>

definition stickyRelays :: "float_ops \<Rightarrow> RelayState list \<Rightarrow> string list \<Rightarrow> string list \<Rightarrow> nat \<Rightarrow> string list" where
  "stickyRelays F states pool active m = take m (fold appendNew (filter (\<lambda>u. stickyOK F states u \<and> u \<in> set pool) active) [])"

lemma stickiness_facts:
  fixes F states active
  assumes "distinct ranked" "0 < m"
  defines "out \<equiv> applyActiveStickiness F ranked active states m"
  shows "distinct out" "set out = set ranked" "length out = length ranked"
    "set (stickyRelays F states ranked active (nat m)) \<subseteq> set (take (nat m) out)"
proof -
  let ?k = "stickyRelays F states ranked active (nat m)"
  have k: "keepActive (stickyOK F states) ranked (nat m) active [] = ?k" by (simp add: keepActive_take stickyRelays_def)
  have kd: "distinct ?k" "set ?k \<subseteq> set ranked" "length ?k \<le> nat m"
    by (auto simp: stickyRelays_def appendNew_distinct appendNew_set dest: in_set_takeD)
  have out: "out = (if ranked = [] \<or> active = [] then ranked else fold appendNew ranked ?k)"
    using assms(2) by (simp add: out_def applyActiveStickiness_def k)
  obtain rest where rest: "fold appendNew ranked ?k = ?k @ rest" using appendNew_extends by blast
  show d: "distinct out" and s: "set out = set ranked" using out kd assms(1) by (auto simp: appendNew_distinct appendNew_set)
  show "length out = length ranked" using d s assms(1) distinct_card by metis
  show "set ?k \<subseteq> set (take (nat m) out)"
  proof (cases "ranked = [] \<or> active = []")
    case True
    then show ?thesis using kd by (auto simp: stickyRelays_def)
  next
    case False
    with out rest kd(3) show ?thesis by simp
  qed
qed

text \<open>
  C30: the selection honours the policy. The explicit relays come first, each once, exactly those
  that are usable; then come as many eligible relays as there are, up to the limit; every one of
  them passed the filter; no relay occurs twice; and the active relays that are still ranked and
  healthy are kept within the limit.
\<close>

theorem selection_honours_policy:
  assumes "distinct (map relayURL_of states)" and "states \<noteq> []"
  shows "\<exists>explicit auto. SelectPriority F digest now states route = explicit @ auto
    \<and> distinct (explicit @ auto)
    \<and> set explicit = {u \<in> set (ExplicitRelayURLs route). explicitUsable states route now u}
    \<and> length auto = min (nat (maxActiveOf route)) (length (filterCandidatePool states route now))
    \<and> set auto \<subseteq> relayURL_of ` {st \<in> set states. eligible route now st}
    \<and> set (stickyRelays F states (map relayURL_of (filterCandidatePool states route now)) (ActiveRelayURLs route) (nat (maxActiveOf route))) \<subseteq> set auto"
proof -
  let ?pool = "filterCandidatePool states route now" and ?m = "maxActiveOf route"
  let ?ranked = "RankRelayPool F digest ?pool (LocalAddress route)"
  let ?out = "applyActiveStickiness F ?ranked (ActiveRelayURLs route) states ?m"
  let ?explicit = "filter (explicitUsable states route now) (fold appendNew (ExplicitRelayURLs route) [])"
  have m: "0 < ?m" by (simp add: maxActiveOf_def DefaultMaxActiveRelays_def)
  have perm: "mset ?ranked = mset (map relayURL_of ?pool)" by (rule RankRelayPool_permutes)
  have "distinct (map relayURL_of ?pool)" using assms(1) by (simp add: filterCandidatePool_def distinct_map_filter)
  then have d: "distinct ?ranked" using perm by (metis mset_eq_imp_distinct_iff)
  have set_r: "set ?ranked = set (map relayURL_of ?pool)" and len_r: "length ?ranked = length ?pool"
    using mset_eq_setD [OF perm] mset_eq_length [OF perm] by simp_all
  note st = stickiness_facts [OF d m, where F = F and states = states and active = "ActiveRelayURLs route"]
  have sticky: "stickyRelays F states ?ranked (ActiveRelayURLs route) (nat ?m) = stickyRelays F states (map relayURL_of ?pool) (ActiveRelayURLs route) (nat ?m)"
    by (simp add: stickyRelays_def set_r)
  have sel: "SelectPriority F digest now states route = ?explicit @ take (nat ?m) ?out" using assms(2) by (simp add: SelectPriority_def Let_def)
  have auto: "set (take (nat ?m) ?out) \<subseteq> relayURL_of ` {st \<in> set states. eligible route now st}"
    using st(2) set_r by (auto simp: filterCandidatePool_def dest: in_set_takeD)
  have "set ?explicit \<inter> set (take (nat ?m) ?out) = {}" using auto by (auto simp: appendNew_set eligible_def)
  then have dd: "distinct (?explicit @ take (nat ?m) ?out)" using st(1) by (auto simp: appendNew_distinct)
  have se: "set ?explicit = {u \<in> set (ExplicitRelayURLs route). explicitUsable states route now u}" by (auto simp: appendNew_set)
  have le: "length (take (nat ?m) ?out) = min (nat ?m) (length ?pool)" using st(3) len_r by (simp add: min.commute)
  show ?thesis
    by (intro exI [of _ ?explicit] exI [of _ "take (nat ?m) ?out"] conjI sel dd se le auto st(4) [unfolded sticky])
qed

text \<open>Two configured relays that were never observed, and a route that asks for one of them by name.\<close>

definition demo_states :: "RelayState list" where
  "demo_states = [(newRelayState ''https://a'')\<lparr>Bootstrap := True\<rparr>, (newRelayState ''https://b'')\<lparr>Bootstrap := True\<rparr>]"

definition demo_route :: routeState where
  "demo_route = \<lparr>ExplicitRelayURLs = [''https://a''], ActiveRelayURLs = [], MaxActiveRelays = 0, RequireUDP = False, RequireTCP = False, LocalAddress = ''''\<rparr>"

lemma demo_states_facts:
  "distinct (map relayURL_of demo_states)" "demo_states \<noteq> []" "eligible demo_route 1 (demo_states ! 1)" "\<not> eligible demo_route 1 (demo_states ! 0)"
  "explicitUsable demo_states demo_route 1 ''https://a''"
  by (simp_all add: demo_states_def demo_route_def newRelayState_def relayStateOf_def emptyDescriptor_def eligible_def explicitUsable_def
      hasObservedDescriptor_def suppressed_def supportsRequiredTransports_def)

lemma distinct_singleton: "distinct xs \<Longrightarrow> set xs = {x} \<Longrightarrow> xs = [x]"
  by (cases xs; cases "tl xs") auto

definition demo_ops :: float_ops where
  "demo_ops = \<lparr>fadd = (+), fsub = (-), fmul = (*), fdiv = (\<lambda>a b. a div b), fsqrt = id, flt = (<), fle = (\<le>), fmin = min, fceil = id, of_int64 = word_of_int, to_int64 = sint\<rparr>"

theorem selection_honours_policy_witness:
  "\<exists>auto. SelectPriority demo_ops (\<lambda>_. []) 1 demo_states demo_route = ''https://a'' # auto \<and> length auto = 1"
proof -
  have one: "filterCandidatePool demo_states demo_route 1 = [demo_states ! 1]"
    using demo_states_facts(3,4) by (simp add: filterCandidatePool_def demo_states_def)
  obtain explicit auto where sel: "SelectPriority demo_ops (\<lambda>_. []) 1 demo_states demo_route = explicit @ auto" and d: "distinct explicit"
    and e: "set explicit = {u \<in> set (ExplicitRelayURLs demo_route). explicitUsable demo_states demo_route 1 u}"
    and l: "length auto = min (nat (maxActiveOf demo_route)) (length (filterCandidatePool demo_states demo_route 1))"
    using selection_honours_policy [OF demo_states_facts(1,2), of demo_ops "\<lambda>_. []" 1 demo_route] by auto
  have "set explicit = {''https://a''}" using e demo_states_facts(5) by (auto simp: demo_route_def)
  from distinct_singleton [OF d this] have "explicit = [''https://a'']" .
  moreover have "length auto = 1" using l one by (simp add: maxActiveOf_def demo_route_def DefaultMaxActiveRelays_def)
  ultimately show ?thesis using sel by simp
qed

section \<open>A ban that does not last\<close>

text \<open>A controller whose only relay was caught tampering, after the user removed that relay.\<close>

definition tamperedThenRemoved :: Controller where
  "tamperedThenRemoved = RemoveRelay minute ''https://a'' (Report second ''https://a'' FailureMITM (NewController [''https://a'']))"

lemma tampered_state:
  "relays (snd (currentRelayStates (3 * minute) (3 * minute) (relaySet tamperedThenRemoved))) = [(''https://a'', (newRelayState ''https://a'')\<lparr>Bootstrap := True\<rparr>)]"
  by (simp add: tamperedThenRemoved_def RemoveRelay_def Report_def NewController_def NewRelaySet_def BanRelayURL_def DeactivateRelayURL_def stateAt_def
      newRelayState_def relayStateOf_def currentRelayStates_def clearExpiredPoolBansLocked_def map_filter_simps clearExpiredBan_def orNow_def
      defaultDirectRecoveryBackoff_def minute_def second_def)

lemma singleton_rank: "RankRelayPool F digest [st] addr = [relayURL_of st]"
  using RankRelayPool_permutes [of F digest "[st]" addr] by simp


end
