(* ===== verification/Base_Codec.thy ===== *)
theory Base_Codec
  imports Datagram_Codec
begin

text \<open>
  The text encodings of Go's standard library that the overlay uses: \<open>encoding/base32\<close> with the
  standard alphabet and \<open>encoding/base64\<close> with the URL alphabet, both without padding. A byte
  string is read as a bit string, most significant bit first, cut into groups that index the
  alphabet. Both are instances of one locale, in which decoding is shown to invert encoding.
\<close>

section \<open>Bit groups\<close>

definition bits_of :: "nat \<Rightarrow> nat \<Rightarrow> bool list" where
  "bits_of k n = map (\<lambda>i. odd (n div 2 ^ (k - 1 - i))) [0..<k]"

definition of_bits :: "bool list \<Rightarrow> nat" where
  "of_bits bs = foldl (\<lambda>n b. 2 * n + of_bool b) 0 bs"

definition byte_bits :: "byte \<Rightarrow> bool list" where
  "byte_bits b = bits_of 8 (unat b)"

definition bits_byte :: "bool list \<Rightarrow> byte" where
  "bits_byte bs = word_of_nat (of_bits bs)"

text \<open>Groups of \<open>k\<close> bits; the last one is filled up with zeros.\<close>

function groups :: "nat \<Rightarrow> bool list \<Rightarrow> bool list list" where
  "groups k bs =
     (if bs = [] \<or> k = 0 then []
      else take k (bs @ replicate k False) # groups k (drop k bs))"
  by pat_completeness auto
termination
  by (relation "measure (\<lambda>(k, bs). length bs)") auto

declare groups.simps [simp del]

lemma of_bits_append: "of_bits (xs @ [b]) = 2 * of_bits xs + of_bool b"
  by (simp add: of_bits_def)

lemma of_bits_less: "of_bits bs < 2 ^ length bs"
  by (induction bs rule: rev_induct) (auto simp: of_bits_append of_bits_def)

lemma bits_of_Suc: "bits_of (Suc k) n = bits_of k (n div 2) @ [odd n]"
  by (rule nth_equalityI) (auto simp: bits_of_def nth_append less_Suc_eq Suc_diff_Suc simp flip: div_mult2_eq power_Suc)

lemma bits_of_of_bits: "bits_of (length bs) (of_bits bs) = bs"
  by (induction bs rule: rev_induct) (simp_all add: bits_of_Suc of_bits_append, simp add: bits_of_def)

lemma of_bits_bits_of: "n < 2 ^ k \<Longrightarrow> of_bits (bits_of k n) = n"
proof (induction k arbitrary: n)
  case (Suc k)
  then have "n div 2 < 2 ^ k" by auto
  from Suc.IH [OF this] show ?case by (simp add: bits_of_Suc of_bits_append)
qed (simp add: bits_of_def of_bits_def)

lemma length_bits_of [simp]: "length (bits_of k n) = k"
  by (simp add: bits_of_def)

lemma byte_bits_length [simp]: "length (byte_bits b) = 8"
  by (simp add: byte_bits_def)

lemma bits_byte_bits [simp]: "bits_byte (byte_bits b) = b"
proof -
  have "unat b < 2 ^ 8" using unsigned_less [of b] by simp
  then show ?thesis unfolding byte_bits_def bits_byte_def by (simp add: of_bits_bits_of)
qed

lemma groups_Nil [simp]: "groups k [] = []"
  by (simp add: groups.simps)

lemma groups_append: "length g = k \<Longrightarrow> 0 < k \<Longrightarrow> groups k (g @ bs) = g # groups k bs"
  by (subst groups.simps) auto

lemma groups_of_bytes: "groups 8 (concat (map byte_bits bs)) = map byte_bits bs"
  by (induction bs) (simp_all add: groups_append)

lemma length_groups_elem: "g \<in> set (groups k bs) \<Longrightarrow> length g = k"
proof (induction k bs rule: groups.induct)
  case (1 k bs)
  show ?case
  proof (cases "bs = [] \<or> k = 0")
    case False
    then have "groups k bs = take k (bs @ replicate k False) # groups k (drop k bs)" by (simp add: groups.simps [of k bs])
    with 1 False show ?thesis by auto
  qed (use 1(2) in \<open>auto simp: groups.simps [of k bs]\<close>)
qed

lemma length_groups: "0 < k \<Longrightarrow> length (groups k bs) = (length bs + k - 1) div k"
proof (induction k bs rule: groups.induct)
  case (1 k bs)
  consider "bs = []" | "bs \<noteq> []" "k \<le> length bs" | "bs \<noteq> []" "length bs < k" by linarith
  then show ?case
  proof cases
    case 2
    then show ?thesis using 1 by (simp add: groups.simps [of k bs] le_div_geq)
  next
    case 3
    then have "length bs + k - 1 = length bs - 1 + k" and small: "length bs - 1 < k" by (cases bs; simp)+
    then have "(length bs + k - 1) div k = (length bs - 1 + k) div k" by (simp only:)
    then have "(length bs + k - 1) div k = Suc 0" using 1(2) div_less [OF small] by (simp only: div_add_self2)
    with 3 show ?thesis by (simp add: groups.simps [of k bs])
  qed (use 1(2) in simp)
qed

lemma length_bytes_bits: "length (concat (map byte_bits bs)) = 8 * length bs"
  by (induction bs) auto

lemma concat_groups: "0 < k \<Longrightarrow> \<exists>p < k. concat (groups k bs) = bs @ replicate p False"
proof (induction k bs rule: groups.induct)
  case (1 k bs)
  consider "bs = []" | "bs \<noteq> []" "k \<le> length bs" | "bs \<noteq> []" "length bs < k" by linarith
  then show ?case
  proof cases
    case 2
    with 1 obtain p where "p < k" "concat (groups k (drop k bs)) = drop k bs @ replicate p False" by auto
    with 2 1(2) show ?thesis by (intro exI [of _ p]) (simp add: groups.simps [of k bs])
  next
    case 3
    then have "concat (groups k bs) = bs @ replicate (k - length bs) False" by (simp add: groups.simps [of k bs])
    with 3 show ?thesis by (intro exI [of _ "k - length bs"]) simp
  qed (use 1 in \<open>auto intro: exI [of _ 0]\<close>)
qed

section \<open>Encodings\<close>

definition encode_base :: "nat \<Rightarrow> string \<Rightarrow> bytes \<Rightarrow> string" where
  "encode_base k alphabet bs = map (\<lambda>g. alphabet ! of_bits g) (groups k (concat (map byte_bits bs)))"

fun index_of :: "string \<Rightarrow> char \<Rightarrow> nat option" where
  "index_of [] c = None"
| "index_of (x # xs) c = (if x = c then Some 0 else map_option Suc (index_of xs c))"

text \<open>The values of the characters; line ends are skipped, any other character is an error.\<close>

fun char_values :: "string \<Rightarrow> string \<Rightarrow> nat list option" where
  "char_values alphabet [] = Some []"
| "char_values alphabet (c # cs) =
     (if c = CHR 0x0A \<or> c = CHR 0x0D then char_values alphabet cs
      else case index_of alphabet c of
          None \<Rightarrow> None
        | Some n \<Rightarrow> map_option ((#) n) (char_values alphabet cs))"

text \<open>The bytes of \<open>m\<close> whole bytes worth of bits; what remains of the last group is dropped.\<close>

definition decode_values :: "nat \<Rightarrow> nat \<Rightarrow> nat list \<Rightarrow> bytes" where
  "decode_values k m ns = map bits_byte (groups 8 (take (8 * m) (concat (map (bits_of k) ns))))"

lemma index_of_nth: "distinct alphabet \<Longrightarrow> i < length alphabet \<Longrightarrow> index_of alphabet (alphabet ! i) = Some i"
proof (induction alphabet arbitrary: i)
  case (Cons x xs)
  then show ?case by (cases i) (auto simp: nth_eq_iff_index_eq)
qed simp

locale base_codec =
  fixes k :: nat and alphabet :: string
  assumes pos: "0 < k" and size: "length alphabet = 2 ^ k" and dist: "distinct alphabet"
    and no_newline: "CHR 0x0A \<notin> set alphabet" "CHR 0x0D \<notin> set alphabet"
begin

lemma char_values_nth: "\<forall>n \<in> set ns. n < 2 ^ k \<Longrightarrow> char_values alphabet (map ((!) alphabet) ns) = Some ns"
proof (induction ns)
  case (Cons n ns)
  then have "n < length alphabet" by (simp add: size)
  then have "alphabet ! n \<in> set alphabet" "index_of alphabet (alphabet ! n) = Some n" by (simp_all add: index_of_nth dist)
  with Cons no_newline show ?case by auto
qed simp

lemma groups_index: "g \<in> set (groups k bs) \<Longrightarrow> of_bits g < 2 ^ k"
  using length_groups_elem of_bits_less by blast

lemma char_values_encode:
  "char_values alphabet (encode_base k alphabet bs) = Some (map of_bits (groups k (concat (map byte_bits bs))))"
proof -
  have "encode_base k alphabet bs = map ((!) alphabet) (map of_bits (groups k (concat (map byte_bits bs))))"
    by (simp add: encode_base_def)
  then show ?thesis by (simp only:) (rule char_values_nth, auto simp: groups_index)
qed

lemma decode_encode:
  "decode_values k (length bs) (map of_bits (groups k (concat (map byte_bits bs)))) = bs"
proof -
  let ?b = "concat (map byte_bits bs)"
  have "map (bits_of k) (map of_bits (groups k ?b)) = groups k ?b"
    unfolding map_map by (rule map_idI) (metis comp_apply bits_of_of_bits length_groups_elem)
  moreover obtain p where "concat (groups k ?b) = ?b @ replicate p False" using concat_groups [OF pos] by blast
  ultimately have "decode_values k (length bs) (map of_bits (groups k ?b)) = map bits_byte (groups 8 ?b)"
    unfolding decode_values_def by (simp add: length_bytes_bits)
  then show ?thesis by (simp add: groups_of_bytes comp_def)
qed

lemma length_encode: "length (encode_base k alphabet bs) = (8 * length bs + k - 1) div k"
  by (simp add: encode_base_def length_groups [OF pos] length_bytes_bits)

lemma set_encode: "set (encode_base k alphabet bs) \<subseteq> set alphabet"
  by (auto simp: encode_base_def size groups_index intro!: nth_mem)

end

section \<open>Base 32 and base 64\<close>

definition base32_alphabet :: string where "base32_alphabet = ''ABCDEFGHIJKLMNOPQRSTUVWXYZ234567''"

definition base32_EncodeToString :: "bytes \<Rightarrow> string" where
  "base32_EncodeToString = encode_base 5 base32_alphabet"

text \<open>A last block of 3 or 6 characters yields nothing.\<close>

definition base32_DecodeString :: "string \<Rightarrow> bytes option" where
  "base32_DecodeString s =
     map_option (\<lambda>ns. let n = length ns; l = n mod 8
        in decode_values 5 (5 * (n div 8) + (if l = 3 \<or> l = 6 then 0 else l * 5 div 8)) ns) (char_values base32_alphabet s)"

definition base64url_alphabet :: string where
  "base64url_alphabet = ''ABCDEFGHIJKLMNOPQRSTUVWXYZabcdefghijklmnopqrstuvwxyz0123456789-_''"

definition base64url_EncodeToString :: "bytes \<Rightarrow> string" where
  "base64url_EncodeToString = encode_base 6 base64url_alphabet"

text \<open>A last block of one character is an error.\<close>

definition base64url_DecodeString :: "string \<Rightarrow> bytes option" where
  "base64url_DecodeString s =
     (case char_values base64url_alphabet s of
        None \<Rightarrow> None
      | Some ns \<Rightarrow> if length ns mod 4 = 1 then None else Some (decode_values 6 (length ns * 6 div 8) ns))"

interpretation b32: base_codec 5 base32_alphabet
  by unfold_locales (simp_all add: base32_alphabet_def)

interpretation b64url: base_codec 6 base64url_alphabet
  by unfold_locales (simp_all add: base64url_alphabet_def)

lemma base32_DecodeString_EncodeToString: "base32_DecodeString (base32_EncodeToString bs) = Some bs"
proof -
  let ?n = "(8 * length bs + 4) div 5"
  have len: "length (groups 5 (concat (map byte_bits bs))) = ?n"
    using b32.length_encode [of bs] by (simp add: encode_base_def)
  obtain q r where qr: "length bs = 5 * q + r" "r < 5" by (metis mod_less_divisor mult_div_mod_eq zero_less_numeral)
  define c where "c = (8 * r + 4) div 5"
  have "c < 8" "?n = c + 8 * q" using qr by (simp_all add: c_def)
  then have n: "?n div 8 = q" "?n mod 8 = c" by simp_all
  from qr(2) consider "r = 0" | "r = 1" | "r = 2" | "r = 3" | "r = 4" by linarith
  then have "5 * (?n div 8) + (if ?n mod 8 = 3 \<or> ?n mod 8 = 6 then 0 else ?n mod 8 * 5 div 8) = length bs"
    unfolding n unfolding qr(1) by cases (simp_all add: c_def)
  note m = this
  have "base32_DecodeString (base32_EncodeToString bs)
      = Some (decode_values 5 (5 * (?n div 8) + (if ?n mod 8 = 3 \<or> ?n mod 8 = 6 then 0 else ?n mod 8 * 5 div 8))
          (map of_bits (groups 5 (concat (map byte_bits bs)))))"
    unfolding base32_DecodeString_def base32_EncodeToString_def b32.char_values_encode by (simp only: option.map Let_def length_map len)
  then show ?thesis unfolding m b32.decode_encode .
qed

lemma base64url_DecodeString_EncodeToString: "base64url_DecodeString (base64url_EncodeToString bs) = Some bs"
proof -
  let ?n = "(8 * length bs + 5) div 6"
  have len: "length (groups 6 (concat (map byte_bits bs))) = ?n"
    using b64url.length_encode [of bs] by (simp add: encode_base_def)
  have "?n mod 4 \<noteq> 1 \<and> ?n * 6 div 8 = length bs" by presburger
  then show ?thesis
    using b64url.char_values_encode [of bs] b64url.decode_encode [of bs]
    by (simp add: base64url_DecodeString_def base64url_EncodeToString_def len)
qed

end
