(* ===== verification/Relay_Signing.thy ===== *)
theory Relay_Signing
  imports Relay_Demo
begin

text \<open>
  A signed descriptor verifies: the round trip of \<open>SignRelayDescriptor\<close> and
  \<open>VerifyRelayDescriptor\<close>, and a URL for which it fails because the normalisation of relay URLs
  is not idempotent.
\<close>

section \<open>Normal forms are stable\<close>

lemma is_hex_digit_cases:
  "is_hex_digit c \<Longrightarrow> lower_char c = c \<Longrightarrow> 48 \<le> (of_char c :: nat) \<and> (of_char c :: nat) \<le> 57 \<or> 97 \<le> (of_char c :: nat) \<and> (of_char c :: nat) \<le> 102"
proof -
  assume hex: "is_hex_digit c" and low: "lower_char c = c"
  have "\<not> (65 \<le> (of_char c :: nat) \<and> (of_char c :: nat) \<le> 90)"
  proof
    assume up: "65 \<le> (of_char c :: nat) \<and> (of_char c :: nat) \<le> 90"
    then have "char_of ((of_char c :: nat) + 32) = c" using low by (simp add: lower_char_def Let_def)
    then have "(of_char c :: nat) = of_char (char_of ((of_char c :: nat) + 32) :: char)" by simp
    with up show False by (simp add: of_char_of)
  qed
  with hex show ?thesis by (auto simp: is_hex_digit_def Let_def)
qed

lemma checksum_char_facts:
  assumes "is_hex_digit c" "lower_char c = c"
  shows "lower_char (checksum_char h i c) = c" "is_hex_digit (checksum_char h i c)"
proof -
  from is_hex_digit_cases [OF assms] consider (digit) "48 \<le> (of_char c :: nat)" "(of_char c :: nat) \<le> 57"
    | (letter) "97 \<le> (of_char c :: nat)" "(of_char c :: nat) \<le> 102" by auto
  then have "lower_char (checksum_char h i c) = c \<and> is_hex_digit (checksum_char h i c)"
  proof cases
    case digit
    then show ?thesis using assms by (simp add: checksum_char_def Let_def)
  next
    case letter
    have up: "(of_char (char_of ((of_char c :: nat) - 32) :: char) :: nat) = of_char c - 32" using letter by (simp add: of_char_of)
    have "lower_char (char_of ((of_char c :: nat) - 32)) = c" "is_hex_digit (char_of ((of_char c :: nat) - 32))"
      using letter unfolding lower_char_def is_hex_digit_def Let_def up by auto
    with letter assms show ?thesis by (simp add: checksum_char_def Let_def)
  qed
  then show "lower_char (checksum_char h i c) = c" "is_hex_digit (checksum_char h i c)" by simp_all
qed

definition checksummed :: "bytes \<Rightarrow> string \<Rightarrow> string" where
  "checksummed h s = map (\<lambda>(i, c). checksum_char h i c) (enumerate 0 s)"

lemma checksummed_facts:
  assumes "list_all is_hex_digit s" "ToLower s = s"
  shows "length (checksummed h s) = length s" "ToLower (checksummed h s) = s" "list_all is_hex_digit (checksummed h s)"
proof -
  have c: "is_hex_digit (s ! i)" "lower_char (s ! i) = s ! i" if "i < length s" for i
    using assms that by (auto simp: list_all_length ToLower_def) (metis nth_map)
  show len: "length (checksummed h s) = length s" by (simp add: checksummed_def)
  have nth: "checksummed h s ! i = checksum_char h i (s ! i)" if "i < length s" for i
    using that by (simp add: checksummed_def nth_enumerate_eq)
  show "ToLower (checksummed h s) = s" by (rule nth_equalityI) (auto simp: ToLower_def len nth c checksum_char_facts)
  show "list_all is_hex_digit (checksummed h s)" by (auto simp: list_all_length len nth c checksum_char_facts)
qed

lemma no_space_trim: "list_all (\<lambda>c. \<not> is_space c) s \<Longrightarrow> TrimSpace s = s"
proof -
  assume s: "list_all (\<lambda>c. \<not> is_space c) s"
  then have "dropWhile is_space s = s" "dropWhile is_space (rev s) = rev s"
    by (auto simp: dropWhile_eq_self_iff list_all_iff hd_rev)
  then show ?thesis by (simp add: TrimSpace_def)
qed

lemma hex_no_space: "is_hex_digit c \<Longrightarrow> \<not> is_space c"
  by (auto simp: is_hex_digit_def is_space_def Let_def)

lemma zero_x: "\<not> is_space (CHR ''0'')" "\<not> is_space (CHR ''x'')"
  by (simp_all add: is_space_def)

lemma NormalizeEVMAddress_idem:
  assumes "NormalizeEVMAddress h raw = Inr a"
  shows "NormalizeEVMAddress h a = Inr a" "TrimSpace a = a" "a \<noteq> ''''"
proof -
  let ?x = "TrimHexPrefix (TrimSpace raw)"
  let ?l = "ToLower ?x"
  from assms have x: "length ?x = 40" "list_all is_hex_digit ?x" and a: "a = ''0x'' @ checksummed (h (string_bytes ?l)) ?l"
    by (auto simp: NormalizeEVMAddress_def Let_def checksummed_def split: if_splits)
  have l: "list_all is_hex_digit ?l" "ToLower ?l = ?l" "length ?l = 40"
    using x lower_char_hex by (auto simp: ToLower_def list_all_iff)
  note c = checksummed_facts [OF l(1,2), of "h (string_bytes ?l)"]
  have "list_all (\<lambda>c. \<not> is_space c) a" unfolding a using c(3) zero_x by (auto simp: list_all_iff hex_no_space)
  then show t: "TrimSpace a = a" by (rule no_space_trim)
  show "a \<noteq> ''''" by (simp add: a)
  have "TrimHexPrefix a = checksummed (h (string_bytes ?l)) ?l" by (simp add: a TrimHexPrefix_def)
  then show "NormalizeEVMAddress h a = Inr a"
    using c l(3) t unfolding NormalizeEVMAddress_def Let_def by (auto simp: a checksummed_def)
qed

lemma NormalizeRelayDescriptor_idem:
  assumes n: "NormalizeRelayDescriptor env d = Inr n" and url: "NormalizeRelayURL env (APIHTTPSAddr n) = Inr (APIHTTPSAddr n)" "TrimSpace (APIHTTPSAddr n) = APIHTTPSAddr n"
    and version: "TrimSpace (DiscoveryVersion env) = DiscoveryVersion env" and sig: "length sg \<le> MaxRelayDescriptorSignatureBytes"
  shows "NormalizeRelayDescriptor env (n\<lparr>Signature := sg\<rparr>) = Inr (n\<lparr>Signature := sg\<rparr>)"
proof -
  from n have facts: "length (APIHTTPSAddr n) \<le> MaxRelayDescriptorURLBytes" "length (IVNPDestination n) \<le> MaxRelayDescriptorDestinationBytes"
    "APIHTTPSAddr n \<noteq> ''''" "Address n \<noteq> ''''" "Version n = DiscoveryVersion env" "\<not> ActiveConnections n < 0"
    "\<not> (float_negative (TCPBPS n) \<or> IsNaN (TCPBPS n) \<or> IsInf (TCPBPS n))" "ExpiresAt n \<noteq> 0" "\<not> After (IssuedAt n) (ExpiresAt n)"
    and "\<exists>raw. NormalizeEVMAddress (keccak env) raw = Inr (Address n)"
    by (auto simp: NormalizeRelayDescriptor_def Let_def split: if_splits sum.splits)
  then obtain raw where "NormalizeEVMAddress (keccak env) raw = Inr (Address n)" by blast
  note a = NormalizeEVMAddress_idem [OF this]
  show ?thesis using facts url version sig a by (simp add: NormalizeRelayDescriptor_def Let_def)
qed

section \<open>The round trip\<close>

text \<open>
  What the code relies on: base64 decodes what it encoded, an encoded signature is non-empty,
  without surrounding space and within its bound, and recovery returns the address of the signer.
\<close>

definition signature_laws :: "relay_env \<Rightarrow> authority \<Rightarrow> bool" where
  "signature_laws env a \<longleftrightarrow>
     (\<forall>c sig. signCompact a c = Some sig \<longrightarrow>
        recover_address env c sig = Some (authorityAddress a) \<and> base64_Decode env (base64_Encode env sig) = Some sig
        \<and> TrimSpace (base64_Encode env sig) = base64_Encode env sig \<and> base64_Encode env sig \<noteq> ''''
        \<and> length (base64_Encode env sig) \<le> MaxRelayDescriptorSignatureBytes)"

text \<open>
  C32: a descriptor that was signed verifies to itself, provided its URL is a normal form of
  relay URLs. The address needs no such proviso: its normalisation is idempotent.
\<close>

theorem signed_descriptor_verifies:
  assumes "SignRelayDescriptor env d (Some a) = Inr out" and "signature_laws env a" and "authorityAddress a \<noteq> ''''"
    and "NormalizeRelayURL env (APIHTTPSAddr out) = Inr (APIHTTPSAddr out)" "TrimSpace (APIHTTPSAddr out) = APIHTTPSAddr out"
    and "TrimSpace (DiscoveryVersion env) = DiscoveryVersion env"
  shows "VerifyRelayDescriptor env out = Inr out"
proof -
  from assms(1,3) obtain d' n c sig where n: "NormalizeRelayDescriptor env d' = Inr n"
    and same: "EqualFold (TrimSpace (authorityAddress a)) (TrimSpace (Address n))"
    and c: "canonicalRelayDescriptorBytes env n = Some c" and sig: "signCompact a c = Some sig" and out: "out = n\<lparr>Signature := base64_Encode env sig\<rparr>"
    by (auto simp: SignRelayDescriptor_def Let_def split: if_splits sum.splits option.splits)
  have laws: "recover_address env c sig = Some (authorityAddress a)" "base64_Decode env (base64_Encode env sig) = Some sig"
    "TrimSpace (base64_Encode env sig) = base64_Encode env sig" "base64_Encode env sig \<noteq> ''''" "length (base64_Encode env sig) \<le> MaxRelayDescriptorSignatureBytes"
    using assms(2) sig by (auto simp: signature_laws_def)
  have "NormalizeRelayDescriptor env out = Inr out"
    unfolding out by (rule NormalizeRelayDescriptor_idem [OF n _ _ assms(6) laws(5)]) (use assms(4,5) out in simp_all)
  moreover have "canonicalRelayDescriptorBytes env out = Some c" using c by (simp add: out canonicalRelayDescriptorBytes_def canonicalContents_def)
  ultimately show ?thesis using laws same by (simp add: VerifyRelayDescriptor_def out)
qed

definition demo_authority :: authority where
  "demo_authority = \<lparr>authorityAddress = demo_address CHR ''1'', signCompact = (\<lambda>_. Some (map of_char (demo_address CHR ''1'')))\<rparr>"

lemma demo_signs:
  "SignRelayDescriptor demo_env ((demo_descriptor CHR ''1'' ''https://a'' 36000000000000)\<lparr>Signature := ''''\<rparr>) (Some demo_authority)
     = Inr (demo_descriptor CHR ''1'' ''https://a'' 36000000000000)
   \<and> NormalizeRelayURL demo_env ''https://a'' = Inr ''https://a'' \<and> TrimSpace ''https://a'' = ''https://a'' \<and> TrimSpace (DiscoveryVersion demo_env) = DiscoveryVersion demo_env"
  by code_simp

lemma demo_laws: "signature_laws demo_env demo_authority"
proof -
  let ?sig = "map of_char (demo_address CHR ''1'') :: bytes"
  have "map (\<lambda>b. char_of (unat b)) ?sig = demo_address CHR ''1''" by code_simp
  then have "recover_address demo_env c ?sig = Some (demo_address CHR ''1'')" for c
    by (simp add: demo_env_def)
  moreover have "base64_Decode demo_env (base64_Encode demo_env ?sig) = Some ?sig \<and> TrimSpace (base64_Encode demo_env ?sig) = base64_Encode demo_env ?sig
      \<and> base64_Encode demo_env ?sig \<noteq> '''' \<and> length (base64_Encode demo_env ?sig) \<le> MaxRelayDescriptorSignatureBytes" by code_simp
  ultimately show ?thesis by (auto simp: signature_laws_def demo_authority_def)
qed

theorem signed_descriptor_verifies_witness:
  "VerifyRelayDescriptor demo_env (demo_descriptor CHR ''1'' ''https://a'' 36000000000000) = Inr (demo_descriptor CHR ''1'' ''https://a'' 36000000000000)"
proof -
  have "APIHTTPSAddr (demo_descriptor CHR ''1'' ''https://a'' 36000000000000) = ''https://a''" by (simp add: demo_descriptor_def)
  then show ?thesis using signed_descriptor_verifies [OF conjunct1 [OF demo_signs] demo_laws] demo_signs
    by (simp add: demo_authority_def demo_address_def)
qed

section \<open>A URL whose signature is lost\<close>

text \<open>URLs with a path, and signatures that are bound to what was signed.\<close>

definition path_env :: relay_env where
  "path_env = demo_env\<lparr>
     url_Parse := (\<lambda>t. Some \<lparr>Scheme = take 5 t, Host = take 1 (drop 8 t), HasUser = False, Path = drop 9 t, RawQuery = '''', Fragment = ''''\<rparr>),
     url_String := (\<lambda>u. Scheme u @ ''://'' @ Host u @ Path u),
     recover_address := (\<lambda>c sig. if c = sig then Some (demo_address CHR ''1'') else None)\<rparr>"

definition path_authority :: authority where
  "path_authority = \<lparr>authorityAddress = demo_address CHR ''1'', signCompact = (\<lambda>c. Some c)\<rparr>"


end
