(* ===== verification/Overlay_Capability.thy ===== *)
theory Overlay_Capability
  imports Base_Codec Relay_Signing Service_Types
begin

text \<open>
  Capabilities of the relay overlay (\<open>src/portal/overlay/runtime.go\<close>): the ingress relay that
  holds a lease signs a token which lets the lease's owner reach it through a gateway relay.
  \<open>encoding/json\<close> on the claims is an argument; base32 and base64 are those of \<open>Base_Codec\<close>, and
  the recovery of a signer is that of the relay environment.
\<close>

section \<open>Destinations\<close>

datatype overlay_error =
    IvnpDestinationMust32ByteB32
  | InvalidIvnpDestinationHash
  | OverlayLeaseIsInvalid
  | OverlayIngressDescriptorIsInvalid
  | InvalidOverlayCapabilityLength
  | InvalidOverlayCapability
  | InvalidOverlayCapabilityPayload
  | InvalidOverlayCapabilitySignature
  | InvalidOverlayCapabilityClaims
  | NonCanonicalOverlayCapability
  | OverlayCapabilitySignerDoesNotMatch
  | OverlayCapabilityExpiredOrIncomplete
  | OverlayDescriptorError descriptor_error
  | OverlayRecoverFailed
  | OverlayMarshalFailed
  | OverlaySignFailed
  | OverlayGatewayURLInvalid

definition b32_suffix :: string where "b32_suffix = ''.b32.i2p''"

definition ToUpper :: "string \<Rightarrow> string" where "ToUpper s = map upper_char s"

definition normalizeIVNPDestination :: "string \<Rightarrow> overlay_error + string" where
  "normalizeIVNPDestination destination =
     (let destination = ToLower (TrimSpace destination); label = TrimSuffixString destination b32_suffix in
      if \<not> has_suffix destination b32_suffix \<or> length label \<noteq> 52 then Inl IvnpDestinationMust32ByteB32
      else case base32_DecodeString (ToUpper label) of
          None \<Rightarrow> Inl InvalidIvnpDestinationHash
        | Some raw \<Rightarrow>
            if length raw \<noteq> 32 \<or> ToLower (base32_EncodeToString raw) \<noteq> label then Inl InvalidIvnpDestinationHash
            else Inr destination)"

text \<open>The destination of a 32-byte hash.\<close>

definition B32 :: "bytes \<Rightarrow> string" where
  "B32 hash = ToLower (base32_EncodeToString hash) @ b32_suffix"

lemma upper_lower_b32: "list_all (\<lambda>c. upper_char (lower_char c) = c \<and> \<not> is_space (lower_char c)) base32_alphabet"
  by (simp add: base32_alphabet_def upper_char_def lower_char_def is_space_def Let_def char_of_eq_iff)

lemma b32_upper_lower: "ToUpper (ToLower (base32_EncodeToString hash)) = base32_EncodeToString hash"
proof -
  have "\<forall>c \<in> set (base32_EncodeToString hash). upper_char (lower_char c) = c"
    using b32.set_encode [of hash] upper_lower_b32 by (auto simp: base32_EncodeToString_def list_all_iff)
  then show ?thesis by (simp add: ToUpper_def ToLower_def map_idI)
qed

lemma B32_no_space: "list_all (\<lambda>c. \<not> is_space c) (B32 hash)"
proof -
  have "list_all (\<lambda>c. \<not> is_space c) b32_suffix" by (simp add: b32_suffix_def is_space_def)
  moreover have "\<forall>c \<in> set (base32_EncodeToString hash). \<not> is_space (lower_char c)"
    using b32.set_encode [of hash] upper_lower_b32 by (auto simp: base32_EncodeToString_def list_all_iff)
  ultimately show ?thesis by (auto simp: B32_def ToLower_def list_all_iff)
qed

lemma has_suffix_append [simp]: "has_suffix (s @ x) x"
  by (simp add: has_suffix_def)

lemma has_suffix_split: "has_suffix s x \<Longrightarrow> TrimSuffixString s x @ x = s"
  by (metis TrimSuffixString_def append_take_drop_id has_suffix_def)

lemma TrimSuffix_append [simp]: "TrimSuffixString (s @ x) x = s"
  by (simp add: TrimSuffixString_def)

lemma B32_normal: "ToLower (B32 hash) = B32 hash" "TrimSpace (B32 hash) = B32 hash"
proof -
  have "ToLower b32_suffix = b32_suffix" by (simp add: b32_suffix_def ToLower_def lower_char_def)
  then show "ToLower (B32 hash) = B32 hash" by (simp add: B32_def ToLower_def)
  show "TrimSpace (B32 hash) = B32 hash" by (rule no_space_trim) (rule B32_no_space)
qed

lemma normalizeIVNPDestination_B32:
  assumes "length hash = 32"
  shows "normalizeIVNPDestination (B32 hash) = Inr (B32 hash)"
proof -
  let ?l = "ToLower (base32_EncodeToString hash)"
  have "TrimSuffixString (B32 hash) b32_suffix = ?l" "has_suffix (B32 hash) b32_suffix" by (simp_all add: B32_def)
  moreover have "length ?l = 52" using b32.length_encode [of hash] assms by (simp add: ToLower_def base32_EncodeToString_def)
  moreover have "base32_DecodeString (ToUpper ?l) = Some hash" by (simp add: b32_upper_lower base32_DecodeString_EncodeToString)
  ultimately show ?thesis using assms by (simp add: normalizeIVNPDestination_def B32_normal Let_def)
qed

lemma normalizeIVNPDestination_Inr:
  "normalizeIVNPDestination s = Inr d \<longleftrightarrow> ToLower (TrimSpace s) = d \<and> (\<exists>hash. length hash = 32 \<and> d = B32 hash)"
proof
  assume "normalizeIVNPDestination s = Inr d"
  then obtain hash where "has_suffix d b32_suffix" "length hash = 32"
      "ToLower (base32_EncodeToString hash) = TrimSuffixString d b32_suffix" "ToLower (TrimSpace s) = d"
    by (auto simp: normalizeIVNPDestination_def Let_def split: if_splits option.splits)
  then show "ToLower (TrimSpace s) = d \<and> (\<exists>hash. length hash = 32 \<and> d = B32 hash)"
    using has_suffix_split [of d b32_suffix] by (intro conjI exI [of _ hash]) (simp_all add: B32_def)
next
  assume d: "ToLower (TrimSpace s) = d \<and> (\<exists>hash. length hash = 32 \<and> d = B32 hash)"
  then have "ToLower (TrimSpace s) = ToLower (TrimSpace d)" by (auto simp: B32_normal)
  then have "normalizeIVNPDestination s = normalizeIVNPDestination d" by (simp only: normalizeIVNPDestination_def)
  then show "normalizeIVNPDestination s = Inr d" using d normalizeIVNPDestination_B32 by auto
qed

lemma normalizeIVNPDestination_idem: "normalizeIVNPDestination s = Inr d \<Longrightarrow> normalizeIVNPDestination d = Inr d"
  using normalizeIVNPDestination_B32 by (auto simp: normalizeIVNPDestination_Inr B32_normal)

section \<open>Capabilities\<close>

definition capabilityPrefix :: string where "capabilityPrefix = ''ov1''"
definition capabilityLimit :: nat where "capabilityLimit = 16384"

record capabilityClaims =
  ClaimsVersion :: int
  LeaseIdentity :: Identity
  LeaseID :: string
  ClaimsExpiresAt :: go_time
  Ingress :: RelayDescriptor
  GatewayAddress :: string
  GatewayDestination :: string

text \<open>
  The relay environment, \<open>json.Marshal\<close> on claims, and a strict \<open>json.Decoder\<close> that reads exactly
  one claims object with no unknown field.
\<close>

record overlay_env =
  relayEnv :: relay_env
  claims_Marshal :: "capabilityClaims \<Rightarrow> bytes option"
  claims_Decode :: "bytes \<Rightarrow> capabilityClaims option"

definition signCapability :: "overlay_env \<Rightarrow> authority \<Rightarrow> capabilityClaims \<Rightarrow> overlay_error + string" where
  "signCapability env a claims =
     (case claims_Marshal env claims of
        None \<Rightarrow> Inl OverlayMarshalFailed
      | Some payload \<Rightarrow>
          (case signCompact a payload of
             None \<Rightarrow> Inl OverlaySignFailed
           | Some compact \<Rightarrow>
               Inr (capabilityPrefix @ dot # base64url_EncodeToString payload @ dot # base64url_EncodeToString compact)))"

text \<open>The last checks: completeness and expiry of claims whose signer is known.\<close>

definition completeClaims :: "capabilityClaims \<Rightarrow> RelayDescriptor \<Rightarrow> go_time \<Rightarrow> overlay_error + capabilityClaims" where
  "completeClaims claims verifiedIngress now =
     (let claims = claims\<lparr>LeaseID := TrimSpace (LeaseID claims), GatewayAddress := TrimSpace (GatewayAddress claims)\<rparr>;
          incomplete = (ClaimsVersion claims \<noteq> 1 \<or> LeaseID claims = '''' \<or> GatewayAddress claims = '''');
          invalidExpiry = (\<not> After (ClaimsExpiresAt claims) now \<or> After (ClaimsExpiresAt claims) (RelayDescriptor.ExpiresAt verifiedIngress))
      in case normalizeIVNPDestination (GatewayDestination claims) of
           Inl _ \<Rightarrow> Inl OverlayCapabilityExpiredOrIncomplete
         | Inr destination \<Rightarrow>
             if incomplete \<or> invalidExpiry then Inl OverlayCapabilityExpiredOrIncomplete
             else Inr (claims\<lparr>GatewayDestination := destination, Ingress := verifiedIngress\<rparr>))"

definition verifySigner :: "overlay_env \<Rightarrow> bytes \<Rightarrow> bytes \<Rightarrow> capabilityClaims \<Rightarrow> go_time \<Rightarrow> overlay_error + capabilityClaims" where
  "verifySigner env payload signature claims now =
     (case VerifyRelayDescriptor (relayEnv env) (Ingress claims) of
        Inl e \<Rightarrow> Inl (OverlayDescriptorError e)
      | Inr verifiedIngress \<Rightarrow>
          (case normalizeIVNPDestination (IVNPDestination verifiedIngress) of
             Inl e \<Rightarrow> Inl e
           | Inr destination \<Rightarrow>
               (case recover_address (relayEnv env) payload signature of
                  None \<Rightarrow> Inl OverlayRecoverFailed
                | Some address \<Rightarrow>
                    if \<not> EqualFold address (RelayDescriptor.Address verifiedIngress) then Inl OverlayCapabilitySignerDoesNotMatch
                    else completeClaims claims (verifiedIngress\<lparr>IVNPDestination := destination\<rparr>) now)))"

definition verifyCapability :: "overlay_env \<Rightarrow> string \<Rightarrow> go_time \<Rightarrow> overlay_error + capabilityClaims" where
  "verifyCapability env capability now =
     (let capability = TrimSpace capability in
      if length capability = 0 \<or> length capability > capabilityLimit then Inl InvalidOverlayCapabilityLength
      else case splitOn dot capability of
          [p0, p1, p2] \<Rightarrow>
            if p0 \<noteq> capabilityPrefix then Inl InvalidOverlayCapability
            else (case base64url_DecodeString p1 of
                None \<Rightarrow> Inl InvalidOverlayCapabilityPayload
              | Some payload \<Rightarrow>
                  if length payload = 0 \<or> length payload > capabilityLimit then Inl InvalidOverlayCapabilityPayload
                  else (case base64url_DecodeString p2 of
                      None \<Rightarrow> Inl InvalidOverlayCapabilitySignature
                    | Some signature \<Rightarrow>
                        (case claims_Decode env payload of
                           None \<Rightarrow> Inl InvalidOverlayCapabilityClaims
                         | Some claims \<Rightarrow>
                             if claims_Marshal env claims \<noteq> Some payload then Inl NonCanonicalOverlayCapability
                             else verifySigner env payload signature claims now)))
        | _ \<Rightarrow> Inl InvalidOverlayCapability)"

section \<open>What a verified capability says\<close>

lemma base64url_clean: "list_all (\<lambda>c. c \<noteq> dot \<and> \<not> is_space c) base64url_alphabet"
  by (simp add: base64url_alphabet_def is_space_def)

lemma base64url_text: "list_all (\<lambda>c. c \<noteq> dot \<and> \<not> is_space c) (base64url_EncodeToString bs)"
  using b64url.set_encode [of bs] base64url_clean by (auto simp: base64url_EncodeToString_def list_all_iff)

lemma prefix_clean: "list_all (\<lambda>c. c \<noteq> dot \<and> \<not> is_space c) capabilityPrefix"
  by (simp add: capabilityPrefix_def is_space_def)

lemma signCapability_shape:
  assumes "signCapability env a claims = Inr cap"
  obtains payload compact where "claims_Marshal env claims = Some payload" "signCompact a payload = Some compact"
    "TrimSpace cap = cap" "cap \<noteq> ''''" "splitOn dot cap = [capabilityPrefix, base64url_EncodeToString payload, base64url_EncodeToString compact]"
    "length (base64url_EncodeToString payload) \<le> length cap"
proof -
  from assms obtain payload compact where p: "claims_Marshal env claims = Some payload" "signCompact a payload = Some compact"
    and cap: "cap = capabilityPrefix @ dot # base64url_EncodeToString payload @ dot # base64url_EncodeToString compact"
    by (auto simp: signCapability_def split: option.splits)
  have free: "dot \<notin> set capabilityPrefix" "dot \<notin> set (base64url_EncodeToString bs)" for bs
    using prefix_clean base64url_text [of bs] by (auto simp: list_all_iff)
  have "\<not> is_space dot" by (simp add: is_space_def)
  then have "list_all (\<lambda>c. \<not> is_space c) cap" unfolding cap using prefix_clean base64url_text by (auto simp: list_all_iff)
  moreover have "splitOn dot cap = [capabilityPrefix, base64url_EncodeToString payload, base64url_EncodeToString compact]"
    unfolding cap by (simp add: splitOn_sep splitOn_free free)
  ultimately show thesis using p by (intro that) (auto simp: cap no_space_trim)
qed

lemma payload_fits: "length bs \<le> length (base64url_EncodeToString bs)"
  using b64url.length_encode [of bs] by (simp add: base64url_EncodeToString_def)

lemma verifyCapability_Inr:
  assumes "verifyCapability env cap now = Inr claims"
  obtains payload signature raw where "claims_Decode env payload = Some raw" "claims_Marshal env raw = Some payload"
    "verifySigner env payload signature raw now = Inr claims"
  using assms by (auto simp: verifyCapability_def Let_def split: if_splits list.splits option.splits)

lemma verifySigner_Inr:
  assumes "verifySigner env payload signature raw now = Inr claims"
  obtains v address where "VerifyRelayDescriptor (relayEnv env) (Ingress raw) = Inr v"
    "normalizeIVNPDestination (IVNPDestination v) = Inr (IVNPDestination (Ingress claims))"
    "recover_address (relayEnv env) payload signature = Some address" "EqualFold address (RelayDescriptor.Address v)"
    "completeClaims raw (v\<lparr>IVNPDestination := IVNPDestination (Ingress claims)\<rparr>) now = Inr claims"
    "Ingress claims = v\<lparr>IVNPDestination := IVNPDestination (Ingress claims)\<rparr>"
  using assms by (auto simp: verifySigner_def completeClaims_def Let_def split: if_splits sum.splits option.splits)

lemma completeClaims_Inr:
  assumes "completeClaims raw v now = Inr claims"
  shows "ClaimsVersion raw = 1" "LeaseID claims = TrimSpace (LeaseID raw)" "LeaseID claims \<noteq> ''''" "LeaseIdentity claims = LeaseIdentity raw"
    "GatewayAddress claims = TrimSpace (GatewayAddress raw)" "normalizeIVNPDestination (GatewayDestination raw) = Inr (GatewayDestination claims)"
    "now < ClaimsExpiresAt claims" "ClaimsExpiresAt claims \<le> RelayDescriptor.ExpiresAt v" "ClaimsExpiresAt claims = ClaimsExpiresAt raw" "Ingress claims = v"
  using assms by (auto simp: completeClaims_def Let_def split: if_splits sum.splits)

end
