(* ===== verification/Source_Limiter.thy ===== *)
theory Source_Limiter
  imports Float64
begin

text \<open>
  Token buckets per client address: \<open>src/cmd/relay-server/policy/source_limiter.go\<close>, which in
  addition has one bucket for everybody, and the copy of \<open>src/portal/overlay/source_limiter.go\<close>
  without it. The arithmetic on float64 is an argument, so the results hold for any rounding.
\<close>

section \<open>Buckets\<close>

definition sourceLimiterPruneInterval :: duration where "sourceLimiterPruneInterval = minute"
definition sourceLimiterIdleTTL :: duration where "sourceLimiterIdleTTL = 30 * minute"

record sourceBucket =
  tokens :: float64
  updatedAt :: go_time
  lastUsedAt :: go_time

text \<open>\<open>float64(time.Minute)\<close>, and \<open>Duration.Minutes\<close> of a non-negative duration.\<close>

definition float_minute :: float64 where "float_minute = 0x422BF08EB0000000"

definition Minutes :: "float_ops \<Rightarrow> duration \<Rightarrow> float64" where
  "Minutes F d = fadd F (of_int64 F (d div minute)) (fdiv F (of_int64 F (d mod minute)) float_minute)"

definition retry :: "float_ops \<Rightarrow> go_time \<Rightarrow> float64 \<Rightarrow> float64 \<Rightarrow> int \<Rightarrow> sourceBucket \<Rightarrow> duration \<times> sourceBucket" where
  "retry F now rate burst cost b =
     (let b = (if \<not> IsZero (updatedAt b) \<and> After now (updatedAt b)
               then b\<lparr>tokens := fmin F burst (fadd F (tokens b) (fmul F rate (Minutes F (now - updatedAt b))))\<rparr> else b);
          b = b\<lparr>updatedAt := now\<rparr>
      in if fle F (of_int64 F cost) (tokens b) then (0, b)
         else (to_int64 F (fceil F (fmul F (fdiv F (fsub F (of_int64 F cost) (tokens b)) rate) float_minute)), b))"

definition idleBucket :: "go_time \<Rightarrow> sourceBucket \<Rightarrow> bool" where
  "idleBucket now b \<longleftrightarrow> now - lastUsedAt b \<ge> sourceLimiterIdleTTL"

section \<open>The limiter of the relay server\<close>

datatype limiter_layer = NoLayer | PreAuthLayerGlobal | PreAuthLayerSource

record SourceLimiter =
  buckets :: "(netip_addr, sourceBucket) gomap"
  ratePerMinute :: float64
  burst :: float64
  globalRate :: float64
  globalBurst :: float64
  global :: sourceBucket
  lastPrune :: go_time
  maxBucketCount :: nat

definition NewSourceLimiter :: "float_ops \<Rightarrow> int \<Rightarrow> int \<Rightarrow> int \<Rightarrow> int \<Rightarrow> SourceLimiter" where
  "NewSourceLimiter F rate bst grate gburst =
     \<lparr>buckets = [], ratePerMinute = of_int64 F rate, burst = of_int64 F bst, globalRate = of_int64 F grate, globalBurst = of_int64 F gburst,
      global = \<lparr>tokens = of_int64 F gburst, updatedAt = 0, lastUsedAt = 0\<rparr>, lastPrune = 0, maxBucketCount = 65536\<rparr>"

definition pruneLimiter :: "go_time \<Rightarrow> SourceLimiter \<Rightarrow> SourceLimiter" where
  "pruneLimiter now l =
     (if IsZero (lastPrune l) \<or> now - lastPrune l \<ge> sourceLimiterPruneInterval
      then l\<lparr>lastPrune := now, buckets := del_where (\<lambda>_. idleBucket now) (buckets l)\<rparr> else l)"

definition Allow :: "float_ops \<Rightarrow> go_time \<Rightarrow> netip_addr \<Rightarrow> int \<Rightarrow> SourceLimiter \<Rightarrow> (duration \<times> limiter_layer) \<times> SourceLimiter" where
  "Allow F now source cost l =
     (let l = pruneLimiter now l; useGlobal = flt F 0 (globalRate l);
          (wait, g) = (if useGlobal then retry F now (globalRate l) (globalBurst l) cost (global l) else (0, global l));
          l = l\<lparr>global := g\<rparr>
      in if wait > 0 then ((wait, PreAuthLayerGlobal), l)
         else if lookup (buckets l) source = None \<and> length (buckets l) \<ge> maxBucketCount l
         then ((sourceLimiterPruneInterval, PreAuthLayerSource), l)
         else
           let bucket = (case lookup (buckets l) source of Some b \<Rightarrow> b | None \<Rightarrow> \<lparr>tokens = burst l, updatedAt = now, lastUsedAt = 0\<rparr>);
               (wait, bucket) = retry F now (ratePerMinute l) (burst l) cost (bucket\<lparr>lastUsedAt := now\<rparr>)
           in if wait > 0 then ((wait, PreAuthLayerSource), l\<lparr>buckets := put source bucket (buckets l)\<rparr>)
              else ((0, NoLayer),
                    l\<lparr>buckets := put source (bucket\<lparr>tokens := fsub F (tokens bucket) (of_int64 F cost)\<rparr>) (buckets l),
                      global := (if useGlobal then (global l)\<lparr>tokens := fsub F (tokens (global l)) (of_int64 F cost)\<rparr> else global l)\<rparr>))"

section \<open>The limiter of the overlay\<close>

definition maxSourceBuckets :: nat where "maxSourceBuckets = 65536"

record sourceLimiter =
  sl_buckets :: "(netip_addr, sourceBucket) gomap"
  sl_ratePerMinute :: float64
  sl_burst :: float64
  sl_lastPrune :: go_time

definition newSourceLimiter :: "float_ops \<Rightarrow> int \<Rightarrow> int \<Rightarrow> sourceLimiter" where
  "newSourceLimiter F rate bst = \<lparr>sl_buckets = [], sl_ratePerMinute = of_int64 F rate, sl_burst = of_int64 F bst, sl_lastPrune = 0\<rparr>"

definition sl_Allow :: "float_ops \<Rightarrow> go_time \<Rightarrow> netip_addr \<Rightarrow> int \<Rightarrow> sourceLimiter \<Rightarrow> duration \<times> sourceLimiter" where
  "sl_Allow F now source cost l =
     (let l = (if IsZero (sl_lastPrune l) \<or> now - sl_lastPrune l \<ge> sourceLimiterPruneInterval
               then l\<lparr>sl_lastPrune := now, sl_buckets := del_where (\<lambda>_. idleBucket now) (sl_buckets l)\<rparr> else l)
      in case lookup (sl_buckets l) source of
           None \<Rightarrow>
             if length (sl_buckets l) \<ge> maxSourceBuckets then (sourceLimiterPruneInterval, l)
             else
               let (wait, bucket) = retry F now (sl_ratePerMinute l) (sl_burst l) cost \<lparr>tokens = sl_burst l, updatedAt = now, lastUsedAt = now\<rparr> in
               if wait > 0 then (wait, l\<lparr>sl_buckets := put source bucket (sl_buckets l)\<rparr>)
               else (0, l\<lparr>sl_buckets := put source (bucket\<lparr>tokens := fsub F (tokens bucket) (of_int64 F cost)\<rparr>) (sl_buckets l)\<rparr>)
         | Some bucket \<Rightarrow>
             let (wait, bucket) = retry F now (sl_ratePerMinute l) (sl_burst l) cost (bucket\<lparr>lastUsedAt := now\<rparr>) in
             if wait > 0 then (wait, l\<lparr>sl_buckets := put source bucket (sl_buckets l)\<rparr>)
             else (0, l\<lparr>sl_buckets := put source (bucket\<lparr>tokens := fsub F (tokens bucket) (of_int64 F cost)\<rparr>) (sl_buckets l)\<rparr>))"

section \<open>Properties\<close>

definition limiter_inv :: "SourceLimiter \<Rightarrow> bool" where
  "limiter_inv l \<longleftrightarrow> wf_map (buckets l) \<and> length (buckets l) \<le> maxBucketCount l"

lemma limiter_inv_new: "limiter_inv (NewSourceLimiter F a b c d)"
  by (simp add: limiter_inv_def NewSourceLimiter_def)

lemma prune_inv: "limiter_inv l \<Longrightarrow> limiter_inv (pruneLimiter now l)"
  using length_del_where_le [of "\<lambda>_. idleBucket now" "buckets l"] by (auto simp: limiter_inv_def pruneLimiter_def)

lemma Allow_maxBucketCount: "maxBucketCount (snd (Allow F now source cost l)) = maxBucketCount l"
  by (auto simp: Allow_def pruneLimiter_def Let_def split: prod.splits)

lemma Allow_inv: "limiter_inv l \<Longrightarrow> limiter_inv (snd (Allow F now source cost l))"
proof -
  assume "limiter_inv l"
  from prune_inv [OF this, of now] show ?thesis
    by (auto simp: Allow_def Let_def limiter_inv_def length_put has_key_lookup split: prod.splits option.splits)
qed

text \<open>A refused request costs nothing: every other source keeps its bucket and the source's own only refills.\<close>

lemma Allow_refused:
  assumes "Allow F now source cost l = ((wait, layer), l')" "wait > 0" "source' \<noteq> source"
  shows "lookup (buckets l') source' = lookup (buckets (pruneLimiter now l)) source'"
  using assms by (auto simp: Allow_def Let_def split: prod.splits if_splits option.splits)

text \<open>The overlay's limiter seen as one of the relay server with no common budget.\<close>

definition withoutGlobal :: "float_ops \<Rightarrow> sourceLimiter \<Rightarrow> SourceLimiter" where
  "withoutGlobal F l =
     \<lparr>buckets = sl_buckets l, ratePerMinute = sl_ratePerMinute l, burst = sl_burst l, globalRate = of_int64 F 0, globalBurst = of_int64 F 0,
      global = \<lparr>tokens = of_int64 F 0, updatedAt = 0, lastUsedAt = 0\<rparr>, lastPrune = sl_lastPrune l, maxBucketCount = maxSourceBuckets\<rparr>"

lemma withoutGlobal_prune:
  "pruneLimiter now (withoutGlobal F l) =
     withoutGlobal F (if IsZero (sl_lastPrune l) \<or> now - sl_lastPrune l \<ge> sourceLimiterPruneInterval
       then l\<lparr>sl_lastPrune := now, sl_buckets := del_where (\<lambda>_. idleBucket now) (sl_buckets l)\<rparr> else l)"
  by (simp add: pruneLimiter_def withoutGlobal_def)

lemma sl_Allow_simulates:
  assumes "\<not> flt F 0 (of_int64 F 0)"
  shows "fst (sl_Allow F now source cost l) = fst (fst (Allow F now source cost (withoutGlobal F l)))
    \<and> withoutGlobal F (snd (sl_Allow F now source cost l)) = snd (Allow F now source cost (withoutGlobal F l))"
proof -
  define p where "p = (if IsZero (sl_lastPrune l) \<or> now - sl_lastPrune l \<ge> sourceLimiterPruneInterval
       then l\<lparr>sl_lastPrune := now, sl_buckets := del_where (\<lambda>_. idleBucket now) (sl_buckets l)\<rparr> else l)"
  have fields: "buckets (withoutGlobal F p) = sl_buckets p" "ratePerMinute (withoutGlobal F p) = sl_ratePerMinute p" "burst (withoutGlobal F p) = sl_burst p"
    "globalRate (withoutGlobal F p) = of_int64 F 0" "maxBucketCount (withoutGlobal F p) = maxSourceBuckets"
    by (simp_all add: withoutGlobal_def)
  have upd: "withoutGlobal F (p\<lparr>sl_buckets := bs\<rparr>) = (withoutGlobal F p)\<lparr>buckets := bs\<rparr>" for bs by (simp add: withoutGlobal_def)
  show ?thesis
    unfolding sl_Allow_def Allow_def withoutGlobal_prune p_def [symmetric] Let_def fields
    by (cases "lookup (sl_buckets p) source") (auto simp: assms upd fields split: prod.splits)
qed

section \<open>Histories\<close>

fun allow_run :: "float_ops \<Rightarrow> (go_time \<times> netip_addr \<times> int) list \<Rightarrow> SourceLimiter \<Rightarrow> duration list" where
  "allow_run F [] l = []"
| "allow_run F ((now, source, cost) # es) l =
     (case Allow F now source cost l of ((wait, _), l) \<Rightarrow> wait # allow_run F es l)"

fun sl_allow_run :: "float_ops \<Rightarrow> (go_time \<times> netip_addr \<times> int) list \<Rightarrow> sourceLimiter \<Rightarrow> duration list" where
  "sl_allow_run F [] l = []"
| "sl_allow_run F ((now, source, cost) # es) l =
     (case sl_Allow F now source cost l of (wait, l) \<Rightarrow> wait # sl_allow_run F es l)"

text \<open>
  The two limiters are one. In every history the overlay's limiter answers like the relay
  server's with the common budget switched off, whatever the float64 arithmetic does, provided
  that zero is not above zero.
\<close>

theorem overlay_limiter_equivalent:
  assumes "\<not> flt F 0 (of_int64 F 0)"
  shows "sl_allow_run F es (newSourceLimiter F rate bst) = allow_run F es (NewSourceLimiter F rate bst 0 0)"
proof -
  have "sl_allow_run F es l = allow_run F es (withoutGlobal F l)" for l
  proof (induction es arbitrary: l)
    case (Cons e es)
    obtain now source cost where e: "e = (now, source, cost)" by (cases e) auto
    obtain w l1 where s: "sl_Allow F now source cost l = (w, l1)" by (cases "sl_Allow F now source cost l") auto
    obtain w' y l2 where a: "Allow F now source cost (withoutGlobal F l) = ((w', y), l2)"
      by (cases "Allow F now source cost (withoutGlobal F l)") auto
    have "w = w'" "withoutGlobal F l1 = l2" using sl_Allow_simulates [OF assms, of now source cost l] s a by simp_all
    then show ?case using Cons.IH [of l1] by (simp add: e s a)
  qed simp
  moreover have "withoutGlobal F (newSourceLimiter F rate bst) = NewSourceLimiter F rate bst 0 0"
    by (simp add: withoutGlobal_def newSourceLimiter_def NewSourceLimiter_def maxSourceBuckets_def)
  ultimately show ?thesis by simp
qed

section \<open>The budget\<close>

text \<open>
  What the budget needs of float64: integers up to \<open>m\<close> are represented exactly, compare and
  subtract as such, and a positive shortage gives a positive waiting time at the rates in use.
\<close>

definition exact_upto :: "float_ops \<Rightarrow> int \<Rightarrow> float64 set \<Rightarrow> bool" where
  "exact_upto F m rates \<longleftrightarrow>
     (\<forall>a b. 0 \<le> a \<and> a \<le> m \<and> 0 \<le> b \<and> b \<le> m \<longrightarrow> (fle F (of_int64 F a) (of_int64 F b) \<longleftrightarrow> a \<le> b))
     \<and> (\<forall>a b. 0 \<le> b \<and> b \<le> a \<and> a \<le> m \<longrightarrow> fsub F (of_int64 F a) (of_int64 F b) = of_int64 F (a - b))
     \<and> (\<forall>rate \<in> rates. \<forall>a b. 0 \<le> a \<and> a < b \<and> b \<le> m \<longrightarrow>
          0 < to_int64 F (fceil F (fmul F (fdiv F (fsub F (of_int64 F b) (of_int64 F a)) rate) float_minute)))"

text \<open>The cost admitted so far, of one source and of all, in a history at one instant.\<close>

fun spent :: "netip_addr option \<Rightarrow> (netip_addr \<times> int) list \<Rightarrow> duration list \<Rightarrow> int" where
  "spent s ((source, cost) # es) (wait # ws) =
     (if wait \<le> 0 \<and> (s = None \<or> s = Some source) then cost else 0) + spent s es ws"
| "spent s _ _ = 0"

definition holds :: "float_ops \<Rightarrow> go_time \<Rightarrow> int \<Rightarrow> int \<Rightarrow> sourceBucket \<Rightarrow> bool" where
  "holds F now n m b \<longleftrightarrow> (updatedAt b = now \<or> IsZero (updatedAt b)) \<and> tokens b = of_int64 F n \<and> 0 \<le> n \<and> n \<le> m"

lemma retry_exact:
  assumes "exact_upto F m rates" "rate \<in> rates" "holds F now n m b" "0 \<le> cost" "cost \<le> m" "retry F now rate bst cost b = (wait, b')"
  shows "holds F now n m b'" "updatedAt b' = now" "lastUsedAt b' = lastUsedAt b" "wait \<le> 0 \<longleftrightarrow> cost \<le> n"
proof -
  have t: "tokens b = of_int64 F n" "0 \<le> n" "n \<le> m" "updatedAt b = now \<or> updatedAt b = 0" using assms(3) by (auto simp: holds_def)
  have le: "fle F (of_int64 F cost) (of_int64 F n) \<longleftrightarrow> cost \<le> n" using assms(1,4,5) t by (simp add: exact_upto_def)
  have pos: "n < cost \<Longrightarrow> 0 < to_int64 F (fceil F (fmul F (fdiv F (fsub F (of_int64 F cost) (of_int64 F n)) rate) float_minute))"
    using assms(1,2,5) t(2) by (auto simp: exact_upto_def)
  have b': "b' = b\<lparr>updatedAt := now\<rparr>" and w: "wait = (if fle F (of_int64 F cost) (tokens b) then 0
      else to_int64 F (fceil F (fmul F (fdiv F (fsub F (of_int64 F cost) (tokens b)) rate) float_minute)))"
    using assms(6) t(4) by (auto simp: retry_def Let_def split: if_splits)
  show "holds F now n m b'" "updatedAt b' = now" "lastUsedAt b' = lastUsedAt b" using t by (auto simp: b' holds_def)
  show "wait \<le> 0 \<longleftrightarrow> cost \<le> n" using le pos unfolding w t(1) by (auto simp: not_le)
qed

text \<open>At one instant: each bucket holds the burst less what its source was granted, the common one likewise.\<close>

definition budget_inv :: "float_ops \<Rightarrow> go_time \<Rightarrow> int \<Rightarrow> int \<Rightarrow> int \<Rightarrow> (netip_addr \<Rightarrow> int) \<Rightarrow> int \<Rightarrow> SourceLimiter \<Rightarrow> bool" where
  "budget_inv F now m bst gb sp tot l \<longleftrightarrow>
     burst l = of_int64 F bst \<and> bst \<le> m \<and> gb \<le> m \<and> holds F now (gb - tot) m (global l) \<and> (\<forall>s. 0 \<le> sp s)
     \<and> (\<forall>s. case lookup (buckets l) s of None \<Rightarrow> sp s = 0 \<and> 0 \<le> bst | Some b \<Rightarrow> holds F now (bst - sp s) m b \<and> lastUsedAt b = now)"

lemma budget_prune:
  assumes "budget_inv F now m bst gb sp tot l" "wf_map (buckets l)"
  shows "budget_inv F now m bst gb sp tot (pruneLimiter now l)"
proof -
  have "\<not> idleBucket now b" if "(s, b) \<in> set (buckets l)" for s b
  proof -
    have "lookup (buckets l) s = Some b" using assms(2) that by (simp add: lookup_in_set)
    then have "lastUsedAt b = now" using assms(1) by (auto simp: budget_inv_def split: option.splits dest: spec [of _ s])
    then show ?thesis by (simp add: idleBucket_def sourceLimiterIdleTTL_def not_le)
  qed
  then have "del_where (\<lambda>_. idleBucket now) (buckets l) = buckets l" by (auto simp: del_where_def filter_id_conv)
  then show ?thesis using assms(1) by (simp add: pruneLimiter_def budget_inv_def)
qed

lemma holds_fsub: "exact_upto F m rates \<Longrightarrow> holds F now n m b \<Longrightarrow> 0 \<le> cost \<Longrightarrow> cost \<le> n
    \<Longrightarrow> holds F now (n - cost) m (b\<lparr>tokens := fsub F (tokens b) (of_int64 F cost)\<rparr>)"
  by (auto simp: holds_def exact_upto_def)

lemma budget_step:
  assumes ex: "exact_upto F m {ratePerMinute l, globalRate l}" and g: "flt F 0 (globalRate l)"
    and inv: "budget_inv F now m bst gb sp tot l" and wf: "wf_map (buckets l)" and c: "0 \<le> cost" "cost \<le> m"
    and A: "Allow F now source cost l = ((wait, layer), l')"
  shows "budget_inv F now m bst gb (if wait \<le> 0 then sp(source := sp source + cost) else sp) (if wait \<le> 0 then tot + cost else tot) l'"
proof -
  define p where "p = pruneLimiter now l"
  have p: "ratePerMinute p = ratePerMinute l" "globalRate p = globalRate l" "burst p = burst l" by (simp_all add: p_def pruneLimiter_def)
  have P: "budget_inv F now m bst gb sp tot p" unfolding p_def by (rule budget_prune [OF inv wf])
  obtain gw gb' where R: "retry F now (globalRate p) (globalBurst p) cost (global p) = (gw, gb')" by fastforce
  have G: "holds F now (gb - tot) m gb'" "gw \<le> 0 \<longleftrightarrow> cost \<le> gb - tot"
    using retry_exact [OF ex _ _ c R, of "gb - tot"] P p by (auto simp: budget_inv_def)
  let ?b = "case lookup (buckets p) source of Some b \<Rightarrow> b | None \<Rightarrow> \<lparr>tokens = burst p, updatedAt = now, lastUsedAt = 0\<rparr>"
  obtain sw sb where S: "retry F now (ratePerMinute p) (burst p) cost (?b\<lparr>lastUsedAt := now\<rparr>) = (sw, sb)" by fastforce
  have "holds F now (bst - sp source) m (?b\<lparr>lastUsedAt := now\<rparr>)"
    using P by (auto simp: budget_inv_def holds_def split: option.splits dest: spec [of _ source])
  from retry_exact [OF ex _ this c S] p have B: "holds F now (bst - sp source) m sb" "lastUsedAt sb = now" "sw \<le> 0 \<longleftrightarrow> cost \<le> bst - sp source" by auto
  consider (global) "0 < gw" "wait = gw" "l' = p\<lparr>global := gb'\<rparr>"
    | (full) "gw \<le> 0" "0 < wait" "l' = p\<lparr>global := gb'\<rparr>"
    | (source) "gw \<le> 0" "0 < sw" "wait = sw" "l' = p\<lparr>global := gb', buckets := put source sb (buckets p)\<rparr>"
    | (granted) "gw \<le> 0" "sw \<le> 0" "wait = 0"
        "l' = p\<lparr>global := gb'\<lparr>tokens := fsub F (tokens gb') (of_int64 F cost)\<rparr>, buckets := put source (sb\<lparr>tokens := fsub F (tokens sb) (of_int64 F cost)\<rparr>) (buckets p)\<rparr>"
    using A g R S unfolding Allow_def p_def [symmetric] Let_def
    by (auto simp: p sourceLimiterPruneInterval_def split: if_splits option.splits)
  then show ?thesis
  proof cases
    case granted
    from holds_fsub [OF ex G(1) c(1)] holds_fsub [OF ex B(1) c(1)] granted(1,2) G(2) B(3)
    have "holds F now (gb - (tot + cost)) m (global l')" "holds F now (bst - (sp source + cost)) m (sb\<lparr>tokens := fsub F (tokens sb) (of_int64 F cost)\<rparr>)"
      by (simp_all add: granted(4) algebra_simps)
    with granted P B(2) c(1) show ?thesis by (auto simp: budget_inv_def cong: option.case_cong)
  qed (use P G B in \<open>auto simp: budget_inv_def\<close>)
qed

lemma Allow_config:
  "Allow F now source cost l = (r, l') \<Longrightarrow> ratePerMinute l' = ratePerMinute l \<and> globalRate l' = globalRate l"
  by (auto simp: Allow_def pruneLimiter_def Let_def split: prod.splits if_splits)

lemma budget_run:
  assumes "exact_upto F m {ratePerMinute l, globalRate l}" "flt F 0 (globalRate l)"
    "budget_inv F now m bst gb sp tot l" "limiter_inv l" "\<forall>(s, c) \<in> set es. 0 \<le> c \<and> c \<le> m"
  shows "sp s + spent (Some s) es (allow_run F (map (Pair now) es) l) \<le> bst \<and> tot + spent None es (allow_run F (map (Pair now) es) l) \<le> gb"
  using assms
proof (induction es arbitrary: l sp tot)
  case Nil
  then have "tot \<le> gb" "sp s \<le> bst" by (auto simp: budget_inv_def holds_def split: option.splits dest: spec [of _ s])
  then show ?case by simp
next
  case (Cons e es)
  obtain source cost where e: "e = (source, cost)" by (cases e)
  obtain wait layer l' where A: "Allow F now source cost l = ((wait, layer), l')" by (metis surj_pair)
  have l': "ratePerMinute l' = ratePerMinute l" "globalRate l' = globalRate l" "limiter_inv l'"
    using Allow_config [OF A] Allow_inv [OF Cons.prems(4), of F now source cost] A by simp_all
  have "wf_map (buckets l)" "0 \<le> cost" "cost \<le> m" using Cons.prems(4,5) by (auto simp: limiter_inv_def e)
  from budget_step [OF Cons.prems(1-3) this A] Cons.prems(1,2,5) l'
  have "(if wait \<le> 0 then sp(source := sp source + cost) else sp) s + spent (Some s) es (allow_run F (map (Pair now) es) l') \<le> bst
      \<and> (if wait \<le> 0 then tot + cost else tot) + spent None es (allow_run F (map (Pair now) es) l') \<le> gb"
    by (intro Cons.IH) simp_all
  then show ?case by (auto simp: e A split: if_splits)
qed

lemma fresh_budget:
  assumes "exact_upto F m {of_int64 F rate, of_int64 F grate}" "flt F 0 (of_int64 F grate)"
    and "\<forall>(s, c) \<in> set es. 0 \<le> c \<and> c \<le> m" "0 \<le> bst" "bst \<le> m" "0 \<le> gb" "gb \<le> m"
  shows "spent (Some s) es (allow_run F (map (Pair now) es) (NewSourceLimiter F rate bst grate gb)) \<le> bst
    \<and> spent None es (allow_run F (map (Pair now) es) (NewSourceLimiter F rate bst grate gb)) \<le> gb"
proof -
  have "budget_inv F now m bst gb (\<lambda>_. 0) 0 (NewSourceLimiter F rate bst grate gb)"
    using assms(4-7) by (simp add: budget_inv_def NewSourceLimiter_def holds_def)
  from budget_run [OF _ _ this limiter_inv_new assms(3), of s] assms(1,2) show ?thesis by (simp add: NewSourceLimiter_def)
qed

text \<open>
  The budget of an instant. However many requests arrive at one instant and from whichever
  addresses, the cost admitted for one address is at most its burst and for all of them at
  most the common burst.
\<close>

theorem burst_bounds_admission:
  assumes "exact_upto F m {of_int64 F rate, of_int64 F grate}" "flt F 0 (of_int64 F grate)"
    and "\<forall>(s, c) \<in> set es. 0 \<le> c \<and> c \<le> m" "0 \<le> bst" "bst \<le> m" "0 \<le> gb" "gb \<le> m"
  shows "spent (Some s) es (allow_run F (map (Pair now) es) (NewSourceLimiter F rate bst grate gb)) \<le> bst
    \<and> spent None es (allow_run F (map (Pair now) es) (NewSourceLimiter F rate bst grate gb)) \<le> gb"
  using fresh_budget [OF assms] .

text \<open>Arithmetic on integers, exact where it does not wrap.\<close>

definition integer_ops :: float_ops where
  "integer_ops = \<lparr>fadd = (+), fsub = (-), fmul = (\<lambda>a b. a), fdiv = (\<lambda>a b. a), fsqrt = id, flt = (<), fle = (\<le>), fmin = min, fceil = id,
     of_int64 = word_of_int, to_int64 = uint\<rparr>"

lemma integer_ops_exact: "exact_upto integer_ops 1000 rates"
proof -
  have u: "uint (word_of_int a :: 64 word) = a" if "0 \<le> a" "a \<le> 1000" for a :: int
    using that by (simp add: uint_word_of_int)
  have d: "uint (word_of_int b - word_of_int a :: 64 word) = b - a" if "0 \<le> a" "a < b" "b \<le> 1000" for a b :: int
    using u [of "b - a"] that by simp
  show ?thesis unfolding exact_upto_def integer_ops_def
    by (auto simp: word_le_def u d)
qed

lemmas limiter_eval = integer_ops_def NewSourceLimiter_def newSourceLimiter_def Allow_def sl_Allow_def pruneLimiter_def retry_def Let_def del_where_def
  idleBucket_def sourceLimiterIdleTTL_def sourceLimiterPruneInterval_def minute_def second_def maxSourceBuckets_def

theorem burst_bounds_admission_witness:
  "allow_run integer_ops (map (Pair 1) [(Some ''a'', 1), (Some ''a'', 1), (Some ''a'', 1), (Some ''b'', 1), (Some ''b'', 1)]) (NewSourceLimiter integer_ops 3 2 30 3) = [0, 0, 1, 0, 1]
   \<and> spent (Some (Some ''a'')) [(Some ''a'', 1), (Some ''a'', 1), (Some ''a'', 1), (Some ''b'', 1), (Some ''b'', 1)]
       (allow_run integer_ops (map (Pair 1) [(Some ''a'', 1), (Some ''a'', 1), (Some ''a'', 1), (Some ''b'', 1), (Some ''b'', 1)]) (NewSourceLimiter integer_ops 3 2 30 3)) \<le> 2"
proof
  show "allow_run integer_ops (map (Pair 1) [(Some ''a'', 1), (Some ''a'', 1), (Some ''a'', 1), (Some ''b'', 1), (Some ''b'', 1)]) (NewSourceLimiter integer_ops 3 2 30 3) = [0, 0, 1, 0, 1]"
    by (simp add: limiter_eval)
  show "spent (Some (Some ''a'')) [(Some ''a'', 1), (Some ''a'', 1), (Some ''a'', 1), (Some ''b'', 1), (Some ''b'', 1)]
       (allow_run integer_ops (map (Pair 1) [(Some ''a'', 1), (Some ''a'', 1), (Some ''a'', 1), (Some ''b'', 1), (Some ''b'', 1)]) (NewSourceLimiter integer_ops 3 2 30 3)) \<le> 2"
    by (rule burst_bounds_admission [OF integer_ops_exact, THEN conjunct1]) (simp_all add: integer_ops_def word_sless_alt)
qed

theorem overlay_limiter_equivalent_witness:
  "sl_allow_run integer_ops [(1, Some ''a'', 1), (1, Some ''a'', 1)] (newSourceLimiter integer_ops 3 1) = [0, 1]
   \<and> allow_run integer_ops [(1, Some ''a'', 1), (1, Some ''a'', 1)] (NewSourceLimiter integer_ops 3 1 0 0) = [0, 1]"
proof -
  have "sl_allow_run integer_ops [(1, Some ''a'', 1), (1, Some ''a'', 1)] (newSourceLimiter integer_ops 3 1) = [0, 1]" by (simp add: limiter_eval)
  then show ?thesis using overlay_limiter_equivalent [of integer_ops "[(1, Some ''a'', 1), (1, Some ''a'', 1)]" 3 1]
    by (simp add: integer_ops_def)
qed

end
