(* ===== verification/Overlay_Runtime.thy ===== *)
theory Overlay_Runtime
  imports Overlay_Capability Source_Limiter
begin

text \<open>
  The overlay runtime of a relay (\<open>src/portal/overlay/runtime.go\<close>). As ingress it picks a gateway
  for a lease and signs a capability for it; as gateway it admits connections that present one
  and forwards them; as ingress again it checks the capability that arrives through the overlay
  and offers the connection to the lease. The I2P endpoint, dialling, and the hijacking of the
  HTTP connection are represented by their answers.
\<close>

section \<open>State\<close>

definition connectionLimit :: nat where "connectionLimit = 128"
definition sourceConnectionLimit :: int where "sourceConnectionLimit = 16"
definition sourceRequestsPerMinute :: int where "sourceRequestsPerMinute = 120"
definition sourceRequestBurst :: int where "sourceRequestBurst = 16"
definition gatewayRetryDelay :: duration where "gatewayRetryDelay = 30 * second"
definition minimumGatewayTTL :: duration where "minimumGatewayTTL = 30 * second"

definition statusUnavailable :: byte where "statusUnavailable = 0"
definition statusAccepted :: byte where "statusAccepted = 1"
definition statusCapacity :: byte where "statusCapacity = 2"
definition statusPending :: byte where "statusPending = 3"
definition statusDenied :: byte where "statusDenied = 4"

text \<open>The endpoint is known by its B32 name; \<open>None\<close> is the nil interface.\<close>

record Runtime =
  rt_authority :: authority
  ready :: bool
  endpoint :: "string option"
  rt_limiter :: sourceLimiter
  outbound :: int
  activeSources :: "(netip_addr, int) gomap"
  assignments :: "(string, string) gomap"
  failures :: "(string, (string, go_time) gomap) gomap"

definition New :: "float_ops \<Rightarrow> string \<Rightarrow> authority option \<Rightarrow> Runtime option" where
  "New F configPath auth =
     (case auth of
        None \<Rightarrow> None
      | Some a \<Rightarrow>
          if TrimSpace configPath = '''' then None
          else Some \<lparr>rt_authority = a, ready = False, endpoint = None, rt_limiter = newSourceLimiter F sourceRequestsPerMinute sourceRequestBurst,
                 outbound = 0, activeSources = [], assignments = [], failures = []\<rparr>)"

text \<open>\<open>Run\<close> publishes the endpoint unless the context has ended, and withdraws it when it returns.\<close>

definition publishEndpoint :: "bool \<Rightarrow> string \<Rightarrow> Runtime \<Rightarrow> Runtime" where
  "publishEndpoint ctxDone b32 r = (if ctxDone then r else r\<lparr>endpoint := Some b32, ready := True\<rparr>)"

definition withdrawEndpoint :: "Runtime \<Rightarrow> Runtime" where
  "withdrawEndpoint r = r\<lparr>ready := False\<rparr>"

definition Close_Runtime :: "Runtime \<Rightarrow> Runtime" where
  "Close_Runtime r = r\<lparr>ready := False, assignments := [], failures := []\<rparr>"

definition Destination :: "Runtime \<Rightarrow> string" where
  "Destination r = (if \<not> ready r then '''' else case endpoint r of None \<Rightarrow> '''' | Some b32 \<Rightarrow> b32)"

definition Handles :: "string \<Rightarrow> bool" where
  "Handles capability \<longleftrightarrow> take (length capabilityPrefix + 1) (TrimSpace capability) = capabilityPrefix @ [dot]"

definition ForgetLease :: "string \<Rightarrow> Runtime \<Rightarrow> Runtime" where
  "ForgetLease leaseID r =
     (if leaseID = '''' then r else r\<lparr>assignments := del leaseID (assignments r), failures := del leaseID (failures r)\<rparr>)"

section \<open>Gateways\<close>

definition usableGateway :: "overlay_env \<Rightarrow> go_time \<Rightarrow> string \<Rightarrow> string \<Rightarrow> RelayDescriptor \<Rightarrow> (RelayDescriptor \<times> string) option" where
  "usableGateway env now ingressAddress ingressDestination candidate =
     (case VerifyRelayDescriptor (relayEnv env) candidate of
        Inl _ \<Rightarrow> None
      | Inr verified \<Rightarrow>
          if \<not> After (RelayDescriptor.ExpiresAt verified) (now + minimumGatewayTTL) \<or> EqualFold (RelayDescriptor.Address verified) ingressAddress then None
          else case normalizeIVNPDestination (IVNPDestination verified) of
              Inl _ \<Rightarrow> None
            | Inr destination \<Rightarrow>
                if destination \<noteq> IVNPDestination verified \<or> destination = ingressDestination then None
                else Some (verified, destination))"

fun collectGateways :: "overlay_env \<Rightarrow> go_time \<Rightarrow> string \<Rightarrow> string \<Rightarrow> string list \<Rightarrow> string list \<Rightarrow> RelayDescriptor list \<Rightarrow> RelayDescriptor list" where
  "collectGateways env now ia idest seenAddresses seenDestinations [] = []"
| "collectGateways env now ia idest seenAddresses seenDestinations (candidate # rest) =
     (case usableGateway env now ia idest candidate of
        None \<Rightarrow> collectGateways env now ia idest seenAddresses seenDestinations rest
      | Some (verified, destination) \<Rightarrow>
          let addressKey = ToLower (RelayDescriptor.Address verified) in
          if addressKey \<in> set seenAddresses \<or> destination \<in> set seenDestinations
          then collectGateways env now ia idest seenAddresses seenDestinations rest
          else verified # collectGateways env now ia idest (addressKey # seenAddresses) (destination # seenDestinations) rest)"

text \<open>Load first, then throughput, then the URL. Gateways that tie on all three may come in any order.\<close>

definition gatewayBefore :: "float_ops \<Rightarrow> RelayDescriptor \<Rightarrow> RelayDescriptor \<Rightarrow> bool" where
  "gatewayBefore F a b \<longleftrightarrow>
     (if ActiveConnections a < ActiveConnections b then True
      else if ActiveConnections a > ActiveConnections b then False
      else if flt F (TCPBPS a) (TCPBPS b) then True
      else if flt F (TCPBPS b) (TCPBPS a) then False
      else string_less (APIHTTPSAddr a) (APIHTTPSAddr b))"

fun insertGateway :: "float_ops \<Rightarrow> RelayDescriptor \<Rightarrow> RelayDescriptor list \<Rightarrow> RelayDescriptor list" where
  "insertGateway F d [] = [d]"
| "insertGateway F d (x # xs) = (if gatewayBefore F x d then x # insertGateway F d xs else d # x # xs)"

definition gatewayCandidates :: "overlay_env \<Rightarrow> float_ops \<Rightarrow> RelayDescriptor list \<Rightarrow> go_time \<Rightarrow> string \<Rightarrow> string \<Rightarrow> RelayDescriptor list" where
  "gatewayCandidates env F descriptors now ingressAddress ingressDestination =
     foldr (insertGateway F) (collectGateways env now ingressAddress ingressDestination [] [] descriptors) []"

definition endpointOrigin :: "overlay_env \<Rightarrow> string \<Rightarrow> string" where
  "endpointOrigin env rawURL =
     (case url_Parse (relayEnv env) (TrimSpace rawURL) of
        None \<Rightarrow> ''''
      | Some parsed \<Rightarrow> if Scheme parsed = '''' \<or> Host parsed = '''' then '''' else ToLower (Scheme parsed @ ''://'' @ Host parsed))"

text \<open>The failures of a lease after the expired ones are dropped and the reported one is added.\<close>

definition recentFailures :: "overlay_env \<Rightarrow> string \<Rightarrow> string \<Rightarrow> go_time \<Rightarrow> Runtime \<Rightarrow> (string, go_time) gomap" where
  "recentFailures env leaseID failedURL now r =
     (let failed = (case lookup (failures r) leaseID of None \<Rightarrow> [] | Some m \<Rightarrow> m);
          failed = del_where (\<lambda>_ retryAt. \<not> After retryAt now) failed;
          origin = endpointOrigin env failedURL
      in if origin \<noteq> '''' then put origin (now + gatewayRetryDelay) failed else failed)"

definition selectGateway :: "overlay_env \<Rightarrow> string \<Rightarrow> string \<Rightarrow> RelayDescriptor list \<Rightarrow> go_time \<Rightarrow> Runtime \<Rightarrow> RelayDescriptor option \<times> Runtime" where
  "selectGateway env leaseID failedURL candidates now r =
     (let failed = recentFailures env leaseID failedURL now r;
          r = r\<lparr>failures := put leaseID failed (failures r)\<rparr>
      in case filter (\<lambda>c. \<not> has_key failed (endpointOrigin env (APIHTTPSAddr c))) candidates of
           [] \<Rightarrow> (None, r\<lparr>assignments := del leaseID (assignments r)\<rparr>)
         | first # rest \<Rightarrow>
             let candidates = first # rest;
                 current = (case lookup (assignments r) leaseID of None \<Rightarrow> '''' | Some a \<Rightarrow> a);
                 assign = (\<lambda>c. (Some c, r\<lparr>assignments := put leaseID (RelayDescriptor.Address c) (assignments r)\<rparr>))
             in case (if failedURL = '''' then find (\<lambda>c. EqualFold (RelayDescriptor.Address c) current) candidates else None) of
                  Some c \<Rightarrow> (Some c, r)
                | None \<Rightarrow>
                    (case find (\<lambda>c. \<not> EqualFold (RelayDescriptor.Address c) current) candidates of
                       Some c \<Rightarrow> assign c
                     | None \<Rightarrow> assign first))"

section \<open>Issuing an endpoint\<close>

record IssueInput =
  ii_LeaseIdentity :: Identity
  ii_LeaseID :: string
  ii_ExpiresAt :: go_time
  ii_FailedURL :: string
  ii_Self :: RelayDescriptor
  ii_Descriptors :: "RelayDescriptor list"

record overlayEndpoint =
  oe_URL :: string
  oe_Capability :: string
  oe_ExpiresAt :: go_time
  oe_Gateway :: RelayDescriptor

definition PathSDKConnect :: string where "PathSDKConnect = ''/sdk/connect''"

text \<open>\<open>ResolveReference\<close> with an absolute path keeps scheme and host and drops query and fragment.\<close>

definition ResolveAPIURL :: "parsedURL \<Rightarrow> string \<Rightarrow> parsedURL" where
  "ResolveAPIURL base path = base\<lparr>Path := path, RawQuery := '''', Fragment := ''''\<rparr>"

definition earliest :: "go_time \<Rightarrow> go_time \<Rightarrow> go_time" where
  "earliest a b = (if Before b a then b else a)"

definition issuedClaims :: "IssueInput \<Rightarrow> string \<Rightarrow> RelayDescriptor \<Rightarrow> RelayDescriptor \<Rightarrow> capabilityClaims" where
  "issuedClaims inp leaseID ingress gateway =
     \<lparr>ClaimsVersion = 1, LeaseIdentity = ii_LeaseIdentity inp, LeaseID = leaseID,
      ClaimsExpiresAt = earliest (earliest (ii_ExpiresAt inp) (RelayDescriptor.ExpiresAt ingress)) (RelayDescriptor.ExpiresAt gateway),
      Ingress = ingress, GatewayAddress = RelayDescriptor.Address gateway, GatewayDestination = IVNPDestination gateway\<rparr>"

definition IssueEndpoint :: "overlay_env \<Rightarrow> float_ops \<Rightarrow> go_time \<Rightarrow> IssueInput \<Rightarrow> Runtime \<Rightarrow> (overlay_error + overlayEndpoint option) \<times> Runtime" where
  "IssueEndpoint env F now inp r =
     (if \<not> ready r then (Inr None, r)
      else
        let leaseID = TrimSpace (ii_LeaseID inp) in
        if leaseID = '''' \<or> \<not> After (ii_ExpiresAt inp) now then (Inl OverlayLeaseIsInvalid, r)
        else case VerifyRelayDescriptor (relayEnv env) (ii_Self inp) of
            Inl e \<Rightarrow> (Inl (OverlayDescriptorError e), r)
          | Inr ingress \<Rightarrow>
              (case normalizeIVNPDestination (IVNPDestination ingress) of
                 Inl _ \<Rightarrow> (Inl OverlayIngressDescriptorIsInvalid, r)
               | Inr ingressDestination \<Rightarrow>
                   if ingressDestination \<noteq> Destination r then (Inl OverlayIngressDescriptorIsInvalid, r)
                   else
                     let candidates = gatewayCandidates env F (ii_Descriptors inp) now (RelayDescriptor.Address ingress) ingressDestination in
                     if candidates = [] then (Inr None, r)
                     else case selectGateway env leaseID (ii_FailedURL inp) candidates now r of
                         (None, r) \<Rightarrow> (Inr None, r)
                       | (Some gateway, r) \<Rightarrow>
                           let claims = issuedClaims inp leaseID ingress gateway in
                           (case signCapability env (rt_authority r) claims of
                              Inl e \<Rightarrow> (Inl e, r)
                            | Inr capability \<Rightarrow>
                                (case url_Parse (relayEnv env) (APIHTTPSAddr gateway) of
                                   None \<Rightarrow> (Inl OverlayGatewayURLInvalid, r)
                                 | Some gatewayURL \<Rightarrow>
                                     (Inr (Some \<lparr>oe_URL = url_String (relayEnv env) (ResolveAPIURL gatewayURL PathSDKConnect), oe_Capability = capability,
                                        oe_ExpiresAt = ClaimsExpiresAt claims, oe_Gateway = gateway\<rparr>), r)))))"

section \<open>Admission at the gateway\<close>

datatype connect_refusal =
    FeatureUnavailable
  | RequestRateExceeded
  | CapabilityIsInvalid
  | SourceCapacityExhausted
  | CapacityExhausted
  | RouteUnavailable
  | LeaseIsNotApproved
  | LeaseIsDenied
  | HijackingUnsupported
  | NoAnswer

definition activeOf :: "Runtime \<Rightarrow> netip_addr \<Rightarrow> int" where
  "activeOf r source = (case lookup (activeSources r) source of None \<Rightarrow> 0 | Some n \<Rightarrow> n)"

text \<open>The first part of \<open>HandleConnect\<close>, up to the counting of the connection.\<close>

definition connectAdmit :: "overlay_env \<Rightarrow> float_ops \<Rightarrow> go_time \<Rightarrow> go_time \<Rightarrow> string \<Rightarrow> netip_addr \<Rightarrow> Runtime \<Rightarrow> (connect_refusal + capabilityClaims) \<times> Runtime" where
  "connectAdmit env F now1 now2 capability source r =
     (if \<not> ready r then (Inl FeatureUnavailable, r)
      else
        let (wait, l) = sl_Allow F now1 source 1 (rt_limiter r); r = r\<lparr>rt_limiter := l\<rparr> in
        if wait > 0 then (Inl RequestRateExceeded, r)
        else case verifyCapability env capability now2 of
            Inl _ \<Rightarrow> (Inl CapabilityIsInvalid, r)
          | Inr claims \<Rightarrow>
              if \<not> EqualFold (GatewayAddress claims) (authorityAddress (rt_authority r)) \<or> GatewayDestination claims \<noteq> Destination r
              then (Inl CapabilityIsInvalid, r)
              else if activeOf r source \<ge> sourceConnectionLimit then (Inl SourceCapacityExhausted, r)
              else if outbound r \<ge> int connectionLimit then (Inl CapacityExhausted, r)
              else (Inr claims, r\<lparr>outbound := outbound r + 1, activeSources := put source (activeOf r source + 1) (activeSources r)\<rparr>))"

definition release :: "netip_addr \<Rightarrow> Runtime \<Rightarrow> Runtime" where
  "release source r =
     (let n = activeOf r source - 1
      in r\<lparr>outbound := outbound r - 1,
           activeSources := (if n = 0 then del source (put source n (activeSources r)) else put source n (activeSources r))\<rparr>)"

text \<open>\<open>dial\<close>: the destination must be canonical and the peer must prove that it is the destination.\<close>

definition dial :: "Runtime \<Rightarrow> string \<Rightarrow> string option option \<Rightarrow> bool" where
  "dial r destination conn \<longleftrightarrow>
     endpoint r \<noteq> None \<and>
     (case normalizeIVNPDestination destination of
        Inl _ \<Rightarrow> False
      | Inr destination \<Rightarrow> (case conn of None \<Rightarrow> False | Some peer \<Rightarrow> peer = Some destination))"

text \<open>
  The answers of the world to the second part: the dialled connection with the destination its
  peer has proved, the two writes, the status byte read back, and the steps of the upgrade.
\<close>

record connect_io =
  dialled :: "string option option"
  sizeWritten :: bool
  capabilityWritten :: bool
  response :: "byte option"
  hijackable :: bool
  hijacked :: bool
  upgradeWritten :: bool
  flushed :: bool

text \<open>The second part: \<open>None\<close> hands the pair of connections over, otherwise the reason why not.\<close>

definition connectOutcome :: "Runtime \<Rightarrow> capabilityClaims \<Rightarrow> connect_io \<Rightarrow> connect_refusal option" where
  "connectOutcome r claims io =
     (if \<not> dial r (IVNPDestination (Ingress claims)) (dialled io) then Some RouteUnavailable
      else if \<not> sizeWritten io \<or> \<not> capabilityWritten io then Some RouteUnavailable
      else case response io of
          None \<Rightarrow> Some RouteUnavailable
        | Some status \<Rightarrow>
            if status = statusCapacity then Some CapacityExhausted
            else if status = statusPending then Some LeaseIsNotApproved
            else if status = statusDenied then Some LeaseIsDenied
            else if status \<noteq> statusAccepted then Some CapabilityIsInvalid
            else if \<not> hijackable io then Some HijackingUnsupported
            else if \<not> hijacked io \<or> \<not> upgradeWritten io \<or> \<not> flushed io then Some NoAnswer
            else None)"

text \<open>The bytes written upstream: the length in two bytes, which wraps, and the capability as received.\<close>

definition be16 :: "16 word \<Rightarrow> bytes" where
  "be16 n = [ucast (drop_bit 8 n), ucast n]"

definition connectFrame :: "string \<Rightarrow> bytes" where
  "connectFrame capability = be16 (word_of_nat (length capability)) @ string_bytes capability"

section \<open>Arrival at the ingress\<close>

datatype accept_outcome = Dropped | Answered byte | Offered ServiceIdentityKey string

definition bytes_string :: "bytes \<Rightarrow> string" where "bytes_string bs = map (\<lambda>b. char_of (unat b)) bs"

definition readCapability :: "bytes \<Rightarrow> string option" where
  "readCapability stream =
     (case stream of
        hi # lo # rest \<Rightarrow>
          let size = 256 * unat hi + unat lo in
          if size = 0 \<or> size > capabilityLimit \<or> length rest < size then None else Some (bytes_string (take size rest))
      | _ \<Rightarrow> None)"

text \<open>\<open>peer\<close> is the destination the connection has authenticated; \<open>stopped\<close> says that the runtime ended while the offer waited.\<close>

definition acceptReverse :: "overlay_env \<Rightarrow> go_time \<Rightarrow> bytes \<Rightarrow> string option \<Rightarrow> bool \<Rightarrow> Runtime \<Rightarrow> accept_outcome" where
  "acceptReverse env now stream peer stopped r =
     (case readCapability stream of
        None \<Rightarrow> Dropped
      | Some raw \<Rightarrow>
          (case peer of
             None \<Rightarrow> Answered statusUnavailable
           | Some peer \<Rightarrow>
               (case verifyCapability env raw now of
                  Inl _ \<Rightarrow> Answered statusUnavailable
                | Inr claims \<Rightarrow>
                    if \<not> EqualFold (RelayDescriptor.Address (Ingress claims)) (authorityAddress (rt_authority r))
                       \<or> IVNPDestination (Ingress claims) \<noteq> Destination r \<or> GatewayDestination claims \<noteq> peer
                    then Answered statusUnavailable
                    else if stopped then Dropped
                    else Offered (ServiceKey (LeaseIdentity claims)) (LeaseID claims))))"

end
