(* ===== verification/Overlay_Safety.thy ===== *)
theory Overlay_Safety
  imports Overlay_Runtime
begin

text \<open>
  Properties of the overlay: exact accounting of forwarded connections, no gateway that has just
  failed, capabilities that are honoured by the relays they name, and offers that agree with an
  endpoint the relay has issued.
\<close>

section \<open>Accounting\<close>

text \<open>
  The runtime with the connections it serves. A handler is between admission and outcome and
  holds a place for its source; a client connection that was handed over gives the place back
  when it is closed for the first time (\<open>bufferedConn.Close\<close>, guarded by a \<open>sync.Once\<close>).
\<close>

record client =
  client_source :: netip_addr
  closed_once :: bool

record overlay_system =
  runtime :: Runtime
  handlers :: "(nat, netip_addr \<times> capabilityClaims) gomap"
  clients :: "(nat, client) gomap"

datatype overlay_op =
    PublishOp bool string
  | WithdrawOp
  | CloseOp
  | ForgetOp string
  | IssueOp go_time IssueInput
  | ConnectOp nat go_time go_time string netip_addr
  | OutcomeOp nat connect_io
  | CloseClientOp nat

definition CloseClient :: "nat \<Rightarrow> overlay_system \<Rightarrow> overlay_system" where
  "CloseClient i s =
     (case lookup (clients s) i of
        None \<Rightarrow> s
      | Some c \<Rightarrow>
          if closed_once c then s
          else s\<lparr>clients := put i (c\<lparr>closed_once := True\<rparr>) (clients s), runtime := release (client_source c) (runtime s)\<rparr>)"

fun overlay_step :: "overlay_env \<Rightarrow> float_ops \<Rightarrow> overlay_op \<Rightarrow> overlay_system \<Rightarrow> overlay_system" where
  "overlay_step env F (PublishOp ctxDone b32) s = s\<lparr>runtime := publishEndpoint ctxDone b32 (runtime s)\<rparr>"
| "overlay_step env F WithdrawOp s = s\<lparr>runtime := withdrawEndpoint (runtime s)\<rparr>"
| "overlay_step env F CloseOp s = s\<lparr>runtime := Close_Runtime (runtime s)\<rparr>"
| "overlay_step env F (ForgetOp leaseID) s = s\<lparr>runtime := ForgetLease leaseID (runtime s)\<rparr>"
| "overlay_step env F (IssueOp now inp) s = s\<lparr>runtime := snd (IssueEndpoint env F now inp (runtime s))\<rparr>"
| "overlay_step env F (ConnectOp i now1 now2 capability source) s =
     (if has_key (handlers s) i \<or> has_key (clients s) i then s
      else case connectAdmit env F now1 now2 capability source (runtime s) of
          (Inl _, r) \<Rightarrow> s\<lparr>runtime := r\<rparr>
        | (Inr claims, r) \<Rightarrow> s\<lparr>runtime := r, handlers := put i (source, claims) (handlers s)\<rparr>)"
| "overlay_step env F (OutcomeOp i io) s =
     (case lookup (handlers s) i of
        None \<Rightarrow> s
      | Some (source, claims) \<Rightarrow>
          let s' = s\<lparr>handlers := del i (handlers s)\<rparr> in
          case connectOutcome (runtime s) claims io of
            Some _ \<Rightarrow> s'\<lparr>runtime := release source (runtime s)\<rparr>
          | None \<Rightarrow> s'\<lparr>clients := put i \<lparr>client_source = source, closed_once = False\<rparr> (clients s)\<rparr>)"
| "overlay_step env F (CloseClientOp i) s = CloseClient i s"

definition overlay_init :: "Runtime \<Rightarrow> overlay_system" where
  "overlay_init r = \<lparr>runtime = r, handlers = [], clients = []\<rparr>"

definition overlay_run :: "overlay_env \<Rightarrow> float_ops \<Rightarrow> overlay_op list \<Rightarrow> overlay_system \<Rightarrow> overlay_system" where
  "overlay_run env F es s = fold (overlay_step env F) es s"

lemma overlay_run_append: "overlay_run env F (es @ fs) s = overlay_run env F fs (overlay_run env F es s)"
  by (simp add: overlay_run_def)

text \<open>The sources of the places that are held: by handlers, and by client connections not yet closed.\<close>

definition held :: "overlay_system \<Rightarrow> netip_addr multiset" where
  "held s = image_mset (fst \<circ> snd) (mset (handlers s))
     + image_mset (client_source \<circ> snd) (filter_mset (\<lambda>(_, c). \<not> closed_once c) (mset (clients s)))"

definition accounts :: "Runtime \<Rightarrow> netip_addr multiset \<Rightarrow> bool" where
  "accounts r h \<longleftrightarrow>
     wf_map (activeSources r) \<and> outbound r = int (size h)
     \<and> (\<forall>source. lookup (activeSources r) source = (if count h source = 0 then None else Some (int (count h source))))
     \<and> (\<forall>source. int (count h source) \<le> sourceConnectionLimit) \<and> size h \<le> connectionLimit"

definition overlay_inv :: "overlay_system \<Rightarrow> bool" where
  "overlay_inv s \<longleftrightarrow> wf_map (handlers s) \<and> wf_map (clients s) \<and> (\<forall>i. \<not> (has_key (handlers s) i \<and> has_key (clients s) i)) \<and> accounts (runtime s) (held s)"

lemma activeOf_accounts: "accounts r h \<Longrightarrow> activeOf r source = int (count h source)"
  by (simp add: accounts_def activeOf_def)

lemma accounts_cong: "outbound r' = outbound r \<Longrightarrow> activeSources r' = activeSources r \<Longrightarrow> accounts r' h = accounts r h"
  by (simp add: accounts_def)

lemma accounts_admit:
  assumes "accounts r h" "activeOf r source < sourceConnectionLimit" "outbound r < int connectionLimit"
  shows "accounts (r\<lparr>outbound := outbound r + 1, activeSources := put source (activeOf r source + 1) (activeSources r)\<rparr>) (add_mset source h)"
  using assms activeOf_accounts [OF assms(1), of source] by (auto simp: accounts_def count_eq_zero_iff)

lemma accounts_release:
  assumes "accounts r (add_mset source h)"
  shows "accounts (release source r) h"
proof -
  have "int (count h x) \<le> int (count (add_mset source h) x)" for x by simp
  moreover have "int (count (add_mset source h) x) \<le> sourceConnectionLimit" for x using assms by (simp add: accounts_def)
  ultimately have le: "int (count h x) \<le> sourceConnectionLimit" for x by (rule order_trans)
  have "lookup (activeSources r) x = (if count (add_mset source h) x = 0 then None else Some (int (count (add_mset source h) x)))" for x
    using assms by (simp add: accounts_def)
  then show ?thesis using assms le activeOf_accounts [OF assms, of source]
    by (auto simp: accounts_def release_def Let_def count_eq_zero_iff)
qed

lemma selectGateway_frame:
  "outbound (snd (selectGateway env l f cs now r)) = outbound r" "activeSources (snd (selectGateway env l f cs now r)) = activeSources r"
  "rt_authority (snd (selectGateway env l f cs now r)) = rt_authority r"
  "Destination (snd (selectGateway env l f cs now r)) = Destination r"
  by (auto simp: selectGateway_def Let_def Destination_def split: list.splits option.splits)

lemma IssueEndpoint_runtime:
  "snd (IssueEndpoint env F now inp r) = r \<or>
   (\<exists>cs. snd (IssueEndpoint env F now inp r) = snd (selectGateway env (TrimSpace (ii_LeaseID inp)) (ii_FailedURL inp) cs now r))"
  by (auto simp: IssueEndpoint_def Let_def split: sum.splits prod.splits option.splits) (metis snd_conv)+

lemma IssueEndpoint_frame:
  "outbound (snd (IssueEndpoint env F now inp r)) = outbound r" "activeSources (snd (IssueEndpoint env F now inp r)) = activeSources r"
  using IssueEndpoint_runtime [of env F now inp r] selectGateway_frame by metis+

lemma connectAdmit_accounts:
  assumes "accounts r h" "connectAdmit env F now1 now2 capability source r = (res, r')"
  shows "accounts r' (case res of Inl _ \<Rightarrow> h | Inr _ \<Rightarrow> add_mset source h)"
proof -
  obtain wait l where A: "sl_Allow F now1 source 1 (rt_limiter r) = (wait, l)" by fastforce
  let ?r = "r\<lparr>rt_limiter := l\<rparr>"
  have acc: "accounts ?r h" using assms(1) by (simp add: accounts_def)
  note admit = accounts_admit [OF acc, of source]
  show ?thesis using assms(1,2) acc admit
    by (auto simp: connectAdmit_def A Let_def split: if_splits sum.splits)
qed

lemma held_add_handler: "wf_map (handlers s) \<Longrightarrow> \<not> has_key (handlers s) i
    \<Longrightarrow> held (s\<lparr>runtime := r, handlers := put i (source, c) (handlers s)\<rparr>) = add_mset source (held s)"
  by (simp add: held_def mset_put_fresh)

lemma held_del_handler: "wf_map (handlers s) \<Longrightarrow> lookup (handlers s) i = Some (source, c)
    \<Longrightarrow> held s = add_mset source (held (s\<lparr>handlers := del i (handlers s)\<rparr>))"
  by (simp add: held_def mset_del)

lemma held_new_client: "wf_map (clients s) \<Longrightarrow> \<not> has_key (clients s) i
    \<Longrightarrow> held (s\<lparr>clients := put i \<lparr>client_source = source, closed_once = False\<rparr> (clients s)\<rparr>) = add_mset source (held s)"
  by (simp add: held_def mset_put_fresh)

lemma held_close_client:
  assumes "wf_map (clients s)" "lookup (clients s) i = Some c" "\<not> closed_once c"
  shows "held s = add_mset (client_source c) (held (s\<lparr>clients := put i (c\<lparr>closed_once := True\<rparr>) (clients s), runtime := r\<rparr>))"
  using assms by (simp add: held_def mset_put mset_del [OF assms(1,2)])

lemma held_runtime [simp]: "held (s\<lparr>runtime := r\<rparr>) = held s"
  by (simp add: held_def)

lemma overlay_inv_runtime: "overlay_inv s \<Longrightarrow> outbound r = outbound (runtime s) \<Longrightarrow> activeSources r = activeSources (runtime s) \<Longrightarrow> overlay_inv (s\<lparr>runtime := r\<rparr>)"
  by (simp add: overlay_inv_def accounts_def)

lemma connect_inv:
  assumes "overlay_inv s"
  shows "overlay_inv (overlay_step env F (ConnectOp i now1 now2 capability source) s)"
proof (cases "has_key (handlers s) i \<or> has_key (clients s) i")
  case False
  obtain res r where A: "connectAdmit env F now1 now2 capability source (runtime s) = (res, r)" by fastforce
  have "accounts (runtime s) (held s)" using assms by (simp add: overlay_inv_def)
  from connectAdmit_accounts [OF this A] show ?thesis
    using False assms held_add_handler [of s i] by (cases res) (auto simp: A overlay_inv_def)
qed (use assms in simp)

lemma outcome_inv:
  assumes "overlay_inv s"
  shows "overlay_inv (overlay_step env F (OutcomeOp i io) s)"
proof (cases "lookup (handlers s) i")
  case (Some e)
  obtain source claims where e: "e = (source, claims)" by (cases e)
  have "has_key (handlers s) i" using Some by (simp add: has_key_lookup)
  then have wf: "wf_map (handlers s)" "wf_map (clients s)" "\<not> has_key (clients s) i" "accounts (runtime s) (held s)"
    using assms by (auto simp: overlay_inv_def)
  define s' where "s' = s\<lparr>handlers := del i (handlers s)\<rparr>"
  have h: "held s = add_mset source (held s')" unfolding s'_def using held_del_handler [OF wf(1)] Some e by simp
  show ?thesis
  proof (cases "connectOutcome (runtime s) claims io")
    case None
    have "held (s'\<lparr>clients := put i \<lparr>client_source = source, closed_once = False\<rparr> (clients s')\<rparr>) = held s"
      unfolding h by (rule held_new_client) (use wf in \<open>simp_all add: s'_def\<close>)
    then show ?thesis using None Some e wf assms by (auto simp: overlay_inv_def s'_def Let_def)
  next
    case (Some y)
    have "accounts (release source (runtime s)) (held s')" by (rule accounts_release) (use wf(4) h in simp)
    then show ?thesis using Some \<open>lookup (handlers s) i = Some e\<close> e wf assms by (auto simp: overlay_inv_def s'_def Let_def)
  qed
qed (use assms in simp)

lemma close_inv:
  assumes "overlay_inv s"
  shows "overlay_inv (CloseClient i s)"
proof (cases "lookup (clients s) i")
  case (Some c)
  show ?thesis
  proof (cases "closed_once c")
    case False
    have wf: "wf_map (clients s)" "accounts (runtime s) (held s)" using assms by (auto simp: overlay_inv_def)
    let ?r = "release (client_source c) (runtime s)"
    have "accounts ?r (held (s\<lparr>clients := put i (c\<lparr>closed_once := True\<rparr>) (clients s), runtime := ?r\<rparr>))"
      by (rule accounts_release) (use wf(2) held_close_client [OF wf(1) Some False] in metis)
    moreover have "has_key (clients s) i" using Some by (simp add: has_key_lookup)
    ultimately show ?thesis using Some False assms by (auto simp: CloseClient_def overlay_inv_def)
  qed (use Some assms in \<open>simp add: CloseClient_def\<close>)
qed (use assms in \<open>simp add: CloseClient_def\<close>)

lemma overlay_step_inv: "overlay_inv s \<Longrightarrow> overlay_inv (overlay_step env F e s)"
proof (cases e)
  case (ConnectOp i now1 now2 capability source)
  assume "overlay_inv s"
  from connect_inv [OF this] show ?thesis by (simp only: ConnectOp)
next
  case (OutcomeOp i io)
  assume "overlay_inv s"
  from outcome_inv [OF this] show ?thesis by (simp only: OutcomeOp)
qed (auto simp: publishEndpoint_def withdrawEndpoint_def Close_Runtime_def ForgetLease_def IssueEndpoint_frame close_inv intro!: overlay_inv_runtime)

interpretation overlay: op_system "overlay_step env F" overlay_inv for env F
  by unfold_locales (rule overlay_step_inv)

lemma overlay_inv_init: "New F path auth = Some r \<Longrightarrow> overlay_inv (overlay_init r)"
  by (auto simp: New_def overlay_inv_def overlay_init_def accounts_def held_def sourceConnectionLimit_def split: option.splits if_splits)

text \<open>
  C10: the gateway's accounting is exact. In every interleaving of connection attempts, their
  outcomes, closings (repeated ones included) and everything else, the counters are the number
  of handlers at work plus client connections not yet closed, in total and per source, and
  never exceed 128 and 16.
\<close>

theorem overlay_accounts_exact:
  assumes "New F path auth = Some r" and "s = overlay_run env F es (overlay_init r)"
  shows "outbound (runtime s) = int (size (held s)) \<and> activeOf (runtime s) source = int (count (held s) source)
    \<and> size (held s) \<le> 128 \<and> count (held s) source \<le> 16"
proof -
  have "overlay_inv s" unfolding assms(2) overlay_run_def by (rule overlay.run_inv [OF overlay_inv_init [OF assms(1)]])
  then have acc: "accounts (runtime s) (held s)" by (simp add: overlay_inv_def)
  then have "int (count (held s) source) \<le> 16" by (auto simp: accounts_def sourceConnectionLimit_def)
  with acc activeOf_accounts [OF acc, of source] show ?thesis by (simp add: accounts_def connectionLimit_def)
qed

section \<open>Gateways that failed\<close>

lemma set_insertGateway [simp]: "set (insertGateway F d xs) = insert d (set xs)"
  by (induction xs) auto

lemma set_gatewayCandidates: "set (gatewayCandidates env F ds now ia idest) = set (collectGateways env now ia idest [] [] ds)"
proof -
  have "set (foldr (insertGateway F) xs []) = set xs" for xs by (induction xs) auto
  then show ?thesis by (simp add: gatewayCandidates_def)
qed

lemma collectGateways_usable:
  "d \<in> set (collectGateways env now ia idest sa sd ds) \<Longrightarrow> \<exists>c \<in> set ds. \<exists>dest. usableGateway env now ia idest c = Some (d, dest)"
  by (induction ds arbitrary: sa sd) (fastforce simp: Let_def split: option.splits if_splits)+

lemma usableGateway_Some:
  assumes "usableGateway env now ia idest c = Some (d, dest)"
  shows "VerifyRelayDescriptor (relayEnv env) c = Inr d" "now + minimumGatewayTTL < RelayDescriptor.ExpiresAt d" "\<not> EqualFold (RelayDescriptor.Address d) ia"
    "normalizeIVNPDestination (IVNPDestination d) = Inr (IVNPDestination d)" "IVNPDestination d \<noteq> idest"
  using assms by (auto simp: usableGateway_def split: sum.splits if_splits)

lemma find_member: "find P xs = Some x \<Longrightarrow> x \<in> set xs"
  by (induction xs) (auto split: if_splits)

lemma selectGateway_choice:
  assumes "selectGateway env leaseID failedURL cs now r = (Some g, r')"
  shows "g \<in> set cs" "\<not> has_key (recentFailures env leaseID failedURL now r) (endpointOrigin env (APIHTTPSAddr g))"
proof -
  define fs where "fs = filter (\<lambda>c. \<not> has_key (recentFailures env leaseID failedURL now r) (endpointOrigin env (APIHTTPSAddr c))) cs"
  have "g \<in> set fs" using assms unfolding selectGateway_def Let_def fs_def [symmetric]
    by (cases fs) (auto simp del: find.simps split: option.splits if_splits dest!: find_member)
  then show "g \<in> set cs" "\<not> has_key (recentFailures env leaseID failedURL now r) (endpointOrigin env (APIHTTPSAddr g))"
    by (auto simp: fs_def)
qed

lemma selectGateway_failures: "failures (snd (selectGateway env l f cs now r)) = put l (recentFailures env l f now r) (failures r)"
  by (auto simp: selectGateway_def Let_def split: list.splits option.splits)

text \<open>An endpoint that was issued, with the selection behind it.\<close>

lemma IssueEndpoint_Some:
  assumes "IssueEndpoint env F now inp r = (Inr (Some ep), r')"
  obtains ingress where "VerifyRelayDescriptor (relayEnv env) (ii_Self inp) = Inr ingress"
    "normalizeIVNPDestination (IVNPDestination ingress) = Inr (Destination r)" "TrimSpace (ii_LeaseID inp) \<noteq> ''''" "now < ii_ExpiresAt inp"
    "selectGateway env (TrimSpace (ii_LeaseID inp)) (ii_FailedURL inp) (gatewayCandidates env F (ii_Descriptors inp) now (RelayDescriptor.Address ingress) (Destination r)) now r = (Some (oe_Gateway ep), r')"
    "signCapability env (rt_authority r) (issuedClaims inp (TrimSpace (ii_LeaseID inp)) ingress (oe_Gateway ep)) = Inr (oe_Capability ep)"
    "oe_ExpiresAt ep = ClaimsExpiresAt (issuedClaims inp (TrimSpace (ii_LeaseID inp)) ingress (oe_Gateway ep))"
proof -
  from assms obtain ingress where i: "VerifyRelayDescriptor (relayEnv env) (ii_Self inp) = Inr ingress"
    "normalizeIVNPDestination (IVNPDestination ingress) = Inr (Destination r)" "TrimSpace (ii_LeaseID inp) \<noteq> ''''" "now < ii_ExpiresAt inp"
    by (auto simp: IssueEndpoint_def Let_def split: if_splits sum.splits)
  let ?cs = "gatewayCandidates env F (ii_Descriptors inp) now (RelayDescriptor.Address ingress) (Destination r)"
  obtain g r1 where sel: "selectGateway env (TrimSpace (ii_LeaseID inp)) (ii_FailedURL inp) ?cs now r = (g, r1)" by fastforce
  have auth: "rt_authority r1 = rt_authority r" using selectGateway_frame(3) [of env _ _ ?cs now r] sel by (metis snd_conv)
  show thesis using assms i sel auth
    by (intro that) (auto simp: IssueEndpoint_def Let_def split: if_splits sum.splits option.splits prod.splits)
qed

text \<open>The failures of a lease remember an origin at least until \<open>t\<close>; inner maps have distinct keys.\<close>

definition remembers :: "string \<Rightarrow> string \<Rightarrow> go_time \<Rightarrow> Runtime \<Rightarrow> bool" where
  "remembers leaseID org t r \<longleftrightarrow> (\<exists>m t'. lookup (failures r) leaseID = Some m \<and> lookup m org = Some t' \<and> t \<le> t')"

definition failures_wf :: "Runtime \<Rightarrow> bool" where
  "failures_wf r \<longleftrightarrow> (\<forall>l m. lookup (failures r) l = Some m \<longrightarrow> wf_map m)"

lemma recentFailures_wf: "failures_wf r \<Longrightarrow> wf_map (recentFailures env l f now r)"
  by (auto simp: recentFailures_def Let_def failures_wf_def split: option.splits)

lemma recentFailures_remembers:
  assumes "failures_wf r" "remembers l org t r" "now < t" "t \<le> now + gatewayRetryDelay"
  shows "\<exists>t'. lookup (recentFailures env l f now r) org = Some t' \<and> t \<le> t'"
proof -
  from assms(2) obtain m t' where m: "lookup (failures r) l = Some m" "lookup m org = Some t'" "t \<le> t'" by (auto simp: remembers_def)
  then have "wf_map m" using assms(1) by (auto simp: failures_wf_def)
  then show ?thesis using m assms(3,4) by (auto simp: recentFailures_def Let_def lookup_del_where)
qed

lemma select_keeps:
  assumes "failures_wf r" "remembers l org t r" "now < t" "t \<le> now + gatewayRetryDelay"
  shows "failures_wf (snd (selectGateway env l' f cs now r)) \<and> remembers l org t (snd (selectGateway env l' f cs now r))"
proof -
  have "failures_wf (snd (selectGateway env l' f cs now r))"
    using assms(1) recentFailures_wf [OF assms(1), of env l' f now] by (auto simp: failures_wf_def selectGateway_failures)
  moreover have "remembers l org t (snd (selectGateway env l' f cs now r))"
    using recentFailures_remembers [OF assms, of env f] assms(2) by (auto simp: remembers_def selectGateway_failures)
  ultimately show ?thesis ..
qed

text \<open>Operations that may happen meanwhile: any but dropping the lease or the runtime; endpoints are issued within the delay.\<close>

fun meanwhile :: "string \<Rightarrow> go_time \<Rightarrow> overlay_op \<Rightarrow> bool" where
  "meanwhile leaseID t0 (ForgetOp l) \<longleftrightarrow> l \<noteq> leaseID"
| "meanwhile leaseID t0 CloseOp \<longleftrightarrow> False"
| "meanwhile leaseID t0 (IssueOp now inp) \<longleftrightarrow> t0 \<le> now \<and> now < t0 + gatewayRetryDelay"
| "meanwhile leaseID t0 e \<longleftrightarrow> True"

lemma remembers_cong: "failures r' = failures r \<Longrightarrow> failures_wf r' = failures_wf r \<and> remembers l org t r' = remembers l org t r"
  by (simp add: failures_wf_def remembers_def)

lemma release_failures [simp]: "failures (release source r) = failures r"
  by (simp add: release_def Let_def)

lemma connectAdmit_failures: "failures (snd (connectAdmit env F n1 n2 c source r)) = failures r"
  by (auto simp: connectAdmit_def Let_def split: prod.splits sum.splits)

lemma step_keeps:
  assumes "failures_wf (runtime s)" "remembers l org (t0 + gatewayRetryDelay) (runtime s)" "meanwhile l t0 e"
  shows "failures_wf (runtime (overlay_step env F e s)) \<and> remembers l org (t0 + gatewayRetryDelay) (runtime (overlay_step env F e s))"
proof (cases e)
  case (IssueOp now inp)
  have k: "failures_wf (snd (selectGateway env l' f cs now (runtime s))) \<and> remembers l org (t0 + gatewayRetryDelay) (snd (selectGateway env l' f cs now (runtime s)))" for l' f cs
    by (rule select_keeps) (use assms IssueOp in simp_all)
  show ?thesis using IssueEndpoint_runtime [of env F now inp "runtime s"] k assms(1,2) by (auto simp: IssueOp)
next
  case (ForgetOp l')
  then show ?thesis using assms by (auto simp: ForgetLease_def failures_wf_def remembers_def)
next
  case (ConnectOp i n1 n2 c source)
  have "failures (runtime (overlay_step env F e s)) = failures (runtime s)"
    using connectAdmit_failures [of env F n1 n2 c source "runtime s"] by (auto simp: ConnectOp split: prod.splits sum.splits)
  then show ?thesis using assms remembers_cong by blast
next
  case (OutcomeOp i io)
  have "failures (runtime (overlay_step env F e s)) = failures (runtime s)"
    by (auto simp: OutcomeOp Let_def split: option.splits)
  then show ?thesis using assms remembers_cong by blast
next
  case (CloseClientOp i)
  have "failures (runtime (overlay_step env F e s)) = failures (runtime s)"
    by (auto simp: CloseClientOp CloseClient_def split: option.splits)
  then show ?thesis using assms remembers_cong by blast
qed (use assms in \<open>auto simp: publishEndpoint_def withdrawEndpoint_def failures_wf_def remembers_def\<close>)

lemma step_failures_wf: "failures_wf (runtime s) \<Longrightarrow> failures_wf (runtime (overlay_step env F e s))"
proof (cases e)
  case (IssueOp now inp)
  assume wf: "failures_wf (runtime s)"
  have "failures_wf (snd (selectGateway env l' f cs now (runtime s)))" for l' f cs
    using wf recentFailures_wf [OF wf, of env l' f now] by (auto simp: failures_wf_def selectGateway_failures)
  then show ?thesis using IssueEndpoint_runtime [of env F now inp "runtime s"] wf by (auto simp: IssueOp)
next
  case (ConnectOp i n1 n2 c source)
  assume wf: "failures_wf (runtime s)"
  have "failures (runtime (overlay_step env F e s)) = failures (runtime s)"
    using connectAdmit_failures [of env F n1 n2 c source "runtime s"] by (auto simp: ConnectOp split: prod.splits sum.splits)
  then show ?thesis using wf remembers_cong by blast
qed (auto simp: publishEndpoint_def withdrawEndpoint_def Close_Runtime_def ForgetLease_def CloseClient_def failures_wf_def Let_def split: option.splits)

interpretation overlay_failures: op_system "overlay_step env F" "\<lambda>s. failures_wf (runtime s)" for env F
  by unfold_locales (rule step_failures_wf)

lemma failures_wf_init: "New F path auth = Some r \<Longrightarrow> failures_wf (runtime (overlay_init r))"
  by (auto simp: New_def overlay_init_def failures_wf_def split: option.splits if_splits)

lemma run_keeps:
  "failures_wf (runtime s) \<Longrightarrow> remembers l org (t0 + gatewayRetryDelay) (runtime s) \<Longrightarrow> list_all (meanwhile l t0) es
    \<Longrightarrow> failures_wf (runtime (overlay_run env F es s)) \<and> remembers l org (t0 + gatewayRetryDelay) (runtime (overlay_run env F es s))"
proof (induction es arbitrary: s)
  case (Cons e es)
  from step_keeps [OF Cons.prems(1,2), of e env F] Cons.prems(3) Cons.IH [of "overlay_step env F e s"] show ?case
    by (simp add: overlay_run_def)
qed (simp add: overlay_run_def)

lemma report_remembers:
  assumes "selectGateway env l f cs t0 r = (g, r')" "endpointOrigin env f \<noteq> ''''"
  shows "remembers l (endpointOrigin env f) (t0 + gatewayRetryDelay) r'"
  using selectGateway_failures [of env l f cs t0 r] assms by (auto simp: remembers_def recentFailures_def Let_def)


section \<open>An issued endpoint is honoured\<close>

text \<open>
  What the relays rely on: JSON carries the claims without the secrets of the identity, in one
  way only, and recovery returns the address of the signer.
\<close>

definition public :: "capabilityClaims \<Rightarrow> capabilityClaims" where
  "public c = c\<lparr>LeaseIdentity := (LeaseIdentity c)\<lparr>PublicKey := '''', PrivateKey := '''', Mnemonic := '''', DerivationPath := '''', TokenSecret := ''''\<rparr>\<rparr>"

definition claims_laws :: "overlay_env \<Rightarrow> bool" where
  "claims_laws env \<longleftrightarrow> (\<forall>c p. claims_Marshal env c = Some p \<longrightarrow> p \<noteq> [] \<and> claims_Decode env p = Some (public c) \<and> claims_Marshal env (public c) = Some p)"

definition recovers :: "overlay_env \<Rightarrow> authority \<Rightarrow> bool" where
  "recovers env a \<longleftrightarrow> (\<forall>c sig. signCompact a c = Some sig \<longrightarrow> recover_address (relayEnv env) c sig = Some (authorityAddress a))"

lemma public_simps [simp]:
  "ClaimsVersion (public c) = ClaimsVersion c" "LeaseID (public c) = LeaseID c" "ClaimsExpiresAt (public c) = ClaimsExpiresAt c"
  "Ingress (public c) = Ingress c" "GatewayAddress (public c) = GatewayAddress c" "GatewayDestination (public c) = GatewayDestination c"
  "ServiceKey (LeaseIdentity (public c)) = ServiceKey (LeaseIdentity c)"
  by (simp_all add: public_def ServiceKey_def)

lemma verify_signed:
  assumes "signCapability env a claims = Inr cap" "claims_laws env" "recovers env a" "length cap \<le> capabilityLimit"
    and v: "VerifyRelayDescriptor (relayEnv env) (Ingress claims) = Inr (Ingress claims)"
    and d: "normalizeIVNPDestination (IVNPDestination (Ingress claims)) = Inr dest"
    and a: "EqualFold (authorityAddress a) (RelayDescriptor.Address (Ingress claims))"
  shows "verifyCapability env cap now = completeClaims (public claims) ((Ingress claims)\<lparr>IVNPDestination := dest\<rparr>) now"
proof -
  from assms(1) obtain payload compact where p: "claims_Marshal env claims = Some payload" "signCompact a payload = Some compact"
    and cap: "TrimSpace cap = cap" "cap \<noteq> ''''" "splitOn dot cap = [capabilityPrefix, base64url_EncodeToString payload, base64url_EncodeToString compact]"
      "length (base64url_EncodeToString payload) \<le> length cap" by (rule signCapability_shape)
  have j: "payload \<noteq> []" "claims_Decode env payload = Some (public claims)" "claims_Marshal env (public claims) = Some payload"
    using assms(2) p(1) by (auto simp: claims_laws_def)
  have "length payload \<le> capabilityLimit" using payload_fits [of payload] cap(4) assms(4) by linarith
  then have "verifyCapability env cap now = verifySigner env payload compact (public claims) now"
    using cap j assms(4) by (simp add: verifyCapability_def base64url_DecodeString_EncodeToString)
  also have "\<dots> = completeClaims (public claims) ((Ingress claims)\<lparr>IVNPDestination := dest\<rparr>) now"
    using v d a p(2) assms(3) by (auto simp: verifySigner_def recovers_def)
  finally show ?thesis .
qed

lemma bytes_string_bytes [simp]: "bytes_string (string_bytes s) = s"
proof -
  have "char_of (unat (of_char c :: byte)) = c" for c :: char
  proof -
    have "unat (of_char c :: byte) = of_char c"
      unfolding of_nat_of_char [symmetric, where 'a = byte] by (simp add: unat_of_nat take_bit_eq_mod)
    then show ?thesis by simp
  qed
  then show ?thesis by (simp add: bytes_string_def string_bytes_def map_idI)
qed

lemma readCapability_connectFrame:
  assumes "cap \<noteq> ''''" "length cap \<le> capabilityLimit"
  shows "readCapability (connectFrame cap) = Some cap"
proof -
  let ?n = "word_of_nat (length cap) :: 16 word"
  have "256 * unat (ucast (drop_bit 8 ?n) :: byte) + unat (ucast ?n :: byte) = length cap"
  proof -
    have "unat ?n = length cap" using assms(2) by (simp add: unat_of_nat capabilityLimit_def take_bit_eq_mod)
    moreover have "unat (ucast (drop_bit 8 ?n) :: byte) = unat ?n div 256 mod 256" "unat (ucast ?n :: byte) = unat ?n mod 256"
      by (simp_all add: unsigned_ucast_eq unat_drop_bit_eq drop_bit_eq_div take_bit_eq_mod unat_div)
    ultimately show ?thesis using assms(2) by (simp add: capabilityLimit_def)
  qed
  note size = this
  have "length (string_bytes cap) = length cap" by (simp add: string_bytes_def)
  then show ?thesis using assms unfolding readCapability_def connectFrame_def be16_def append.simps list.case Let_def size by simp
qed

lemma verified_address:
  assumes "VerifyRelayDescriptor env d = Inr v"
  shows "TrimSpace (RelayDescriptor.Address v) = RelayDescriptor.Address v" "RelayDescriptor.Address v \<noteq> ''''"
proof -
  from assms obtain raw where "NormalizeEVMAddress (keccak env) raw = Inr (RelayDescriptor.Address v)"
    by (auto simp: VerifyRelayDescriptor_def NormalizeRelayDescriptor_def Let_def split: if_splits sum.splits option.splits)
  from NormalizeEVMAddress_idem [OF this] show "TrimSpace (RelayDescriptor.Address v) = RelayDescriptor.Address v" "RelayDescriptor.Address v \<noteq> ''''" by simp_all
qed

lemma issued_gateway:
  assumes "IssueEndpoint env F now inp r = (Inr (Some ep), r')"
  shows "TrimSpace (RelayDescriptor.Address (oe_Gateway ep)) = RelayDescriptor.Address (oe_Gateway ep)" "RelayDescriptor.Address (oe_Gateway ep) \<noteq> ''''"
    "normalizeIVNPDestination (IVNPDestination (oe_Gateway ep)) = Inr (IVNPDestination (oe_Gateway ep))"
proof -
  from assms obtain cs ia where "selectGateway env (TrimSpace (ii_LeaseID inp)) (ii_FailedURL inp) cs now r = (Some (oe_Gateway ep), r')"
    "cs = gatewayCandidates env F (ii_Descriptors inp) now ia (Destination r)" by (metis IssueEndpoint_Some)
  with selectGateway_choice(1) obtain x dest where u: "usableGateway env now ia (Destination r) x = Some (oe_Gateway ep, dest)"
    by (metis collectGateways_usable set_gatewayCandidates)
  note g = usableGateway_Some [OF u]
  from verified_address [OF g(1)] g(4) show "TrimSpace (RelayDescriptor.Address (oe_Gateway ep)) = RelayDescriptor.Address (oe_Gateway ep)"
    "RelayDescriptor.Address (oe_Gateway ep) \<noteq> ''''" "normalizeIVNPDestination (IVNPDestination (oe_Gateway ep)) = Inr (IVNPDestination (oe_Gateway ep))" by simp_all
qed

lemma issued_verifies:
  assumes issue: "IssueEndpoint env F now inp ri = (Inr (Some ep), ri')" and laws: "claims_laws env" "recovers env (rt_authority ri)"
    and self: "VerifyRelayDescriptor (relayEnv env) (ii_Self inp) = Inr (ii_Self inp)" "EqualFold (authorityAddress (rt_authority ri)) (RelayDescriptor.Address (ii_Self inp))"
    and cap: "length (oe_Capability ep) \<le> capabilityLimit" and time: "now' < oe_ExpiresAt ep"
  obtains claims where "verifyCapability env (oe_Capability ep) now' = Inr claims" "GatewayAddress claims = RelayDescriptor.Address (oe_Gateway ep)"
    "GatewayDestination claims = IVNPDestination (oe_Gateway ep)" "Ingress claims = (ii_Self inp)\<lparr>IVNPDestination := Destination ri\<rparr>"
    "LeaseID claims = TrimSpace (ii_LeaseID inp)" "ServiceKey (LeaseIdentity claims) = ServiceKey (ii_LeaseIdentity inp)"
proof -
  from issue obtain ingress where i: "VerifyRelayDescriptor (relayEnv env) (ii_Self inp) = Inr ingress"
    and d: "normalizeIVNPDestination (IVNPDestination ingress) = Inr (Destination ri)" and lid: "TrimSpace (ii_LeaseID inp) \<noteq> ''''"
    and sign: "signCapability env (rt_authority ri) (issuedClaims inp (TrimSpace (ii_LeaseID inp)) ingress (oe_Gateway ep)) = Inr (oe_Capability ep)"
    and ex: "oe_ExpiresAt ep = ClaimsExpiresAt (issuedClaims inp (TrimSpace (ii_LeaseID inp)) ingress (oe_Gateway ep))" by (rule IssueEndpoint_Some)
  have [simp]: "ingress = ii_Self inp" using i self(1) by simp
  let ?c = "issuedClaims inp (TrimSpace (ii_LeaseID inp)) (ii_Self inp) (oe_Gateway ep)"
  note g = issued_gateway [OF issue]
  have "verifyCapability env (oe_Capability ep) now' = completeClaims (public ?c) ((ii_Self inp)\<lparr>IVNPDestination := Destination ri\<rparr>) now'"
    using verify_signed [OF sign laws cap, of "Destination ri" now'] self d by (simp add: issuedClaims_def)
  moreover have "ClaimsExpiresAt ?c \<le> RelayDescriptor.ExpiresAt (ii_Self inp)" by (simp add: issuedClaims_def earliest_def)
  ultimately show thesis using g lid time ex public_simps [of ?c]
    by (intro that) (auto simp: completeClaims_def Let_def, auto simp: issuedClaims_def)
qed

text \<open>
  C9: the endpoint an ingress issues works. The gateway it names does not refuse the capability
  (it may refuse for want of budget or places), the frame the gateway sends carries it
  unchanged, and the ingress then offers the connection to the lease of the request.
\<close>

theorem issued_endpoint_is_honoured:
  assumes issue: "IssueEndpoint env F now inp ri = (Inr (Some ep), ri')" and laws: "claims_laws env" "recovers env (rt_authority ri)"
    and self: "VerifyRelayDescriptor (relayEnv env) (ii_Self inp) = Inr (ii_Self inp)" "EqualFold (authorityAddress (rt_authority ri)) (RelayDescriptor.Address (ii_Self inp))"
    and cap: "length (oe_Capability ep) \<le> capabilityLimit" and time: "now' < oe_ExpiresAt ep"
    and gateway: "ready rg" "EqualFold (RelayDescriptor.Address (oe_Gateway ep)) (authorityAddress (rt_authority rg))" "Destination rg = IVNPDestination (oe_Gateway ep)"
    and later: "rt_authority rl = rt_authority ri" "Destination rl = Destination ri"
  shows "fst (connectAdmit env F t now' (oe_Capability ep) source rg) \<notin> {Inl CapabilityIsInvalid, Inl FeatureUnavailable}
    \<and> acceptReverse env now' (connectFrame (oe_Capability ep)) (Some (Destination rg)) False rl
        = Offered (ServiceKey (ii_LeaseIdentity inp)) (TrimSpace (ii_LeaseID inp))"
proof -
  obtain claims where v: "verifyCapability env (oe_Capability ep) now' = Inr claims" and c: "GatewayAddress claims = RelayDescriptor.Address (oe_Gateway ep)"
    "GatewayDestination claims = IVNPDestination (oe_Gateway ep)" "Ingress claims = (ii_Self inp)\<lparr>IVNPDestination := Destination ri\<rparr>"
    "LeaseID claims = TrimSpace (ii_LeaseID inp)" "ServiceKey (LeaseIdentity claims) = ServiceKey (ii_LeaseIdentity inp)"
    using issued_verifies [OF issue laws self cap time] by blast
  have "oe_Capability ep \<noteq> ''''" using v by (auto simp: verifyCapability_def TrimSpace_def Let_def)
  note frame = readCapability_connectFrame [OF this cap]
  have "fst (connectAdmit env F t now' (oe_Capability ep) source rg) \<notin> {Inl CapabilityIsInvalid, Inl FeatureUnavailable}"
    using v c gateway by (auto simp: connectAdmit_def Let_def Destination_def split: prod.splits if_splits)
  moreover have "acceptReverse env now' (connectFrame (oe_Capability ep)) (Some (Destination rg)) False rl
        = Offered (ServiceKey (ii_LeaseIdentity inp)) (TrimSpace (ii_LeaseID inp))"
    using v c gateway(3) later self(2) by (simp add: acceptReverse_def frame EqualFold_def)
  ultimately show ?thesis ..
qed

section \<open>Offers agree with issued endpoints\<close>

lemma step_authority: "rt_authority (runtime (overlay_step env F e s)) = rt_authority (runtime s)"
proof (cases e)
  case (IssueOp now inp)
  then show ?thesis using IssueEndpoint_runtime [of env F now inp "runtime s"] selectGateway_frame(3) by (auto simp: IssueOp)
qed (auto simp: publishEndpoint_def withdrawEndpoint_def Close_Runtime_def ForgetLease_def CloseClient_def release_def connectAdmit_def Let_def
      split: option.splits prod.splits sum.splits)

lemma run_authority: "rt_authority (runtime (overlay_run env F es s)) = rt_authority (runtime s)"
  by (induction es arbitrary: s) (simp_all add: overlay_run_def step_authority)

text \<open>The endpoints issued in a history, with the request behind each, and the claims signed for them.\<close>

definition issuedIn :: "overlay_env \<Rightarrow> float_ops \<Rightarrow> overlay_op list \<Rightarrow> overlay_system \<Rightarrow> (IssueInput \<times> overlayEndpoint) set" where
  "issuedIn env F es s = {(inp, ep). \<exists>es1 now es2. es = es1 @ IssueOp now inp # es2
     \<and> fst (IssueEndpoint env F now inp (runtime (overlay_run env F es1 s))) = Inr (Some ep)}"

definition claimsOf :: "overlay_env \<Rightarrow> IssueInput \<times> overlayEndpoint \<Rightarrow> capabilityClaims" where
  "claimsOf env e = (case e of (inp, ep) \<Rightarrow>
     issuedClaims inp (TrimSpace (ii_LeaseID inp)) (projr (VerifyRelayDescriptor (relayEnv env) (ii_Self inp))) (oe_Gateway ep))"

text \<open>
  Nobody but the relay signs claims in its name: a payload that is a claims object and whose
  signature recovers to the relay's address was signed for an endpoint of the history.
\<close>

definition unforged :: "overlay_env \<Rightarrow> string \<Rightarrow> (IssueInput \<times> overlayEndpoint) set \<Rightarrow> bool" where
  "unforged env address I \<longleftrightarrow>
     (\<forall>payload sig signer. recover_address (relayEnv env) payload sig = Some signer \<and> EqualFold signer address \<and> claims_Decode env payload \<noteq> None
        \<longrightarrow> (\<exists>e \<in> I. claims_Marshal env (claimsOf env e) = Some payload))"

text \<open>
  C8: agreement. Whatever arrives through the overlay, a connection is offered to a lease only if
  the relay has issued an endpoint for that lease and identity, through the very gateway the
  connection comes from, and that endpoint has not expired.
\<close>

theorem offer_agrees_with_issue:
  assumes "s = overlay_run env F es (overlay_init r)" and "claims_laws env"
    and "unforged env (authorityAddress (rt_authority r)) (issuedIn env F es (overlay_init r))"
    and "acceptReverse env now stream peer stopped (runtime s) = Offered key leaseID"
  shows "\<exists>(inp, ep) \<in> issuedIn env F es (overlay_init r).
    leaseID = TrimSpace (ii_LeaseID inp) \<and> key = ServiceKey (ii_LeaseIdentity inp) \<and> peer = Some (IVNPDestination (oe_Gateway ep)) \<and> now < oe_ExpiresAt ep"
proof -
  have auth: "rt_authority (runtime s) = rt_authority r" by (simp add: assms(1) run_authority overlay_init_def)
  from assms(4) obtain raw claims where v: "verifyCapability env raw now = Inr claims"
    and c: "EqualFold (RelayDescriptor.Address (Ingress claims)) (authorityAddress (rt_authority r))" "peer = Some (GatewayDestination claims)"
      "key = ServiceKey (LeaseIdentity claims)" "leaseID = LeaseID claims"
    by (auto simp: acceptReverse_def auth split: option.splits sum.splits if_splits)
  from v obtain payload sig decoded where d: "claims_Decode env payload = Some decoded" and w: "verifySigner env payload sig decoded now = Inr claims"
    by (rule verifyCapability_Inr)
  from w obtain ing signer where signer: "recover_address (relayEnv env) payload sig = Some signer" "EqualFold signer (RelayDescriptor.Address ing)"
    and ing: "Ingress claims = ing\<lparr>IVNPDestination := IVNPDestination (Ingress claims)\<rparr>"
    and compl: "completeClaims decoded (ing\<lparr>IVNPDestination := IVNPDestination (Ingress claims)\<rparr>) now = Inr claims"
    by (rule verifySigner_Inr)
  have "RelayDescriptor.Address ing = RelayDescriptor.Address (Ingress claims)" by (subst ing) simp
  then have "EqualFold signer (authorityAddress (rt_authority r))" using signer(2) c(1) by (simp add: EqualFold_def)
  then have "\<exists>e \<in> issuedIn env F es (overlay_init r). claims_Marshal env (claimsOf env e) = Some payload"
    using assms(3) signer(1) d unfolding unforged_def by blast
  then obtain inp ep where e: "(inp, ep) \<in> issuedIn env F es (overlay_init r)" "claims_Marshal env (claimsOf env (inp, ep)) = Some payload"
    by auto
  have dec: "decoded = public (claimsOf env (inp, ep))" using assms(2) e(2) d by (auto simp: claims_laws_def)
  from e(1) obtain t r1 rs where issue: "IssueEndpoint env F t inp r1 = (Inr (Some ep), rs)" by (auto simp: issuedIn_def) (metis prod.collapse)
  note g = issued_gateway(3) [OF issue]
  from issue obtain ingress where self: "VerifyRelayDescriptor (relayEnv env) (ii_Self inp) = Inr ingress"
    and ex: "oe_ExpiresAt ep = ClaimsExpiresAt (issuedClaims inp (TrimSpace (ii_LeaseID inp)) ingress (oe_Gateway ep))"
    by (rule IssueEndpoint_Some)
  note f = completeClaims_Inr [OF compl, unfolded dec public_simps claimsOf_def prod.case self sum.sel]
  have "leaseID = TrimSpace (ii_LeaseID inp)" "key = ServiceKey (ii_LeaseIdentity inp)" "peer = Some (IVNPDestination (oe_Gateway ep))" "now < oe_ExpiresAt ep"
    using f g c ex by (auto simp: issuedClaims_def public_def ServiceKey_def)
  with e(1) show ?thesis by blast
qed

end
