(* ===== verification/Overlay_Demo.thy ===== *)
theory Overlay_Demo
  imports Overlay_Safety
begin

text \<open>
  A network of an ingress and two gateways on which the properties of the overlay are exercised.
\<close>

section \<open>The network\<close>

definition demo_relay :: "char \<Rightarrow> string \<Rightarrow> byte \<Rightarrow> RelayDescriptor" where
  "demo_relay c url b = (demo_descriptor c url 36000000000000)\<lparr>IVNPDestination := B32 (replicate 32 b)\<rparr>"

lemma demo_destination: "normalizeIVNPDestination (B32 (replicate 32 b)) = Inr (B32 (replicate 32 b))"
  by (rule normalizeIVNPDestination_B32) simp

lemma B32_length: "length (B32 (replicate 32 b)) = 60"
  using b32.length_encode [of "replicate 32 b"] by (simp add: B32_def ToLower_def base32_EncodeToString_def b32_suffix_def)

lemma demo_address_facts: "TrimSpace (demo_address c) = demo_address c" if "c = CHR ''1'' \<or> c = CHR ''2'' \<or> c = CHR ''3''"
  using that by (intro no_space_trim) (auto simp: demo_address_def is_space_def list_all_iff)

lemma demo_address_3: "NormalizeEVMAddress (\<lambda>_. replicate 32 0) (demo_address CHR ''3'') = Inr (demo_address CHR ''3'')"
  by code_simp

lemma demo_URL:
  assumes "u = ''https://a'' \<or> u = ''https://b'' \<or> u = ''https://c''"
  shows "NormalizeRelayURL demo_env u = Inr u" "TrimSpace u = u"
proof -
  show t: "TrimSpace u = u" using assms by (intro no_space_trim) (auto simp: is_space_def)
  have parse: "url_Parse demo_env u = Some \<lparr>Scheme = ''https'', Host = drop 8 u, HasUser = False, Path = '''', RawQuery = '''', Fragment = ''''\<rparr>"
    and str: "''https://'' @ drop 8 u = u" and c: "contains u ''://''" and h: "drop 8 u \<noteq> ''''" "\<not> has_suffix (drop 8 u) '':''" "u \<noteq> ''''"
    using assms by (elim disjE; simp add: demo_env_def has_suffix_def)+
  have schemes: "\<not> EqualFold ''https'' ''http''" by (simp add: EqualFold_def ToLower_def)
  have env: "url_Port demo_env p = ''''" "url_String demo_env p = Scheme p @ ''://'' @ Host p" for p by (simp_all add: demo_env_def)
  have no: "\<not> has_suffix (ToLower '''') ''/relay''" by (simp add: has_suffix_def ToLower_def)
  have "parse_relay_url demo_env u = Some \<lparr>Scheme = ''https'', Host = drop 8 u, HasUser = False, Path = '''', RawQuery = '''', Fragment = ''''\<rparr>"
    by (simp add: parse_relay_url_def parse)
  then have "NormalizeRelayURL demo_env u = Inr (''https://'' @ drop 8 u)" unfolding NormalizeRelayURL_def t
    using c h schemes no by (simp add: relay_port_ok_def env EqualFold_def)
  then show "NormalizeRelayURL demo_env u = Inr u" unfolding str .
qed

lemma bytes_back: "map (\<lambda>b. char_of (unat b)) (map of_char s :: bytes) = s"
  using bytes_string_bytes [of s] by (simp only: bytes_string_def string_bytes_def)

lemma demo_relay_verifies:
  assumes "c = CHR ''1'' \<or> c = CHR ''2'' \<or> c = CHR ''3''" "u = ''https://a'' \<or> u = ''https://b'' \<or> u = ''https://c''"
  shows "VerifyRelayDescriptor demo_env (demo_relay c u b) = Inr (demo_relay c u b)"
proof -
  have fields: "RelayDescriptor.Address (demo_relay c u b) = demo_address c" "Version (demo_relay c u b) = ''1''" "APIHTTPSAddr (demo_relay c u b) = u"
    "Signature (demo_relay c u b) = demo_address c" "ActiveConnections (demo_relay c u b) = 0" "TCPBPS (demo_relay c u b) = 0"
    "IVNPDestination (demo_relay c u b) = B32 (replicate 32 b)" "RelayDescriptor.IssuedAt (demo_relay c u b) = 36000000000000"
    "RelayDescriptor.ExpiresAt (demo_relay c u b) = 36000000000000 + hour"
    by (simp_all add: demo_relay_def demo_descriptor_def emptyDescriptor_def)
  have addr: "TrimSpace (demo_address c) = demo_address c" "demo_address c \<noteq> ''''" "length (demo_address c) = 42"
    "NormalizeEVMAddress (\<lambda>_. replicate 32 0) (demo_address c) = Inr (demo_address c)"
    using assms(1) demo_address_facts demo_address_normal demo_address_3 by (auto simp: demo_address_def)
  have env: "keccak demo_env = (\<lambda>_. replicate 32 0)" "DiscoveryVersion demo_env = ''1''" "base64_Decode demo_env s = Some (map of_char s)"
    "recover_address demo_env p (map of_char s) = Some s" "json_Marshal demo_env c' \<noteq> None" for s p c'
    using bytes_back [of s] by (simp_all add: demo_env_def)
  have one: "TrimSpace ''1'' = ''1''" by (rule no_space_trim) (simp add: is_space_def)
  have float: "\<not> float_negative 0" "\<not> IsNaN 0" "\<not> IsInf 0" by (simp_all add: float_negative_def float_sign_def IsNaN_def IsInf_def float_exp_def)
  have "length u = 9" "u \<noteq> ''''" using assms(2) by auto
  then have "NormalizeRelayDescriptor demo_env (demo_relay c u b) = Inr (demo_relay c u b)"
    unfolding NormalizeRelayDescriptor_def Let_def
    using fields addr demo_URL [OF assms(2)] one float env(1,2) B32_length [of b]
    by (simp add: MaxRelayDescriptorURLBytes_def MaxRelayDescriptorDestinationBytes_def MaxRelayDescriptorSignatureBytes_def hour_def minute_def second_def)
  then show ?thesis unfolding VerifyRelayDescriptor_def using fields addr env
    by (auto simp: canonicalRelayDescriptorBytes_def EqualFold_def Let_def split: option.splits)
qed

lemma B32_inj: "B32 x = B32 y \<longleftrightarrow> x = y"
proof
  assume "B32 x = B32 y"
  then have "base32_EncodeToString x = base32_EncodeToString y" using b32_upper_lower by (metis B32_def append_same_eq)
  then show "x = y" by (metis base32_DecodeString_EncodeToString option.inject)
qed simp

section \<open>An endpoint\<close>

definition demo_identity :: Identity where
  "demo_identity = \<lparr>Name = ''app'', Address = ''0xab'', PublicKey = '''', PrivateKey = '''', Mnemonic = '''', DerivationPath = '''', TokenSecret = ''''\<rparr>"

definition demo_input :: "string \<Rightarrow> IssueInput" where
  "demo_input failedURL = \<lparr>ii_LeaseIdentity = demo_identity, ii_LeaseID = ''lease'', ii_ExpiresAt = 36000000000000 + minute, ii_FailedURL = failedURL,
     ii_Self = demo_relay CHR ''1'' ''https://a'' 1, ii_Descriptors = [demo_relay CHR ''1'' ''https://a'' 1, demo_relay CHR ''2'' ''https://b'' 2, demo_relay CHR ''3'' ''https://c'' 3]\<rparr>"

definition demo_claims :: capabilityClaims where
  "demo_claims = \<lparr>ClaimsVersion = 1, LeaseIdentity = demo_identity, LeaseID = ''lease'', ClaimsExpiresAt = 36000000000000 + minute,
     Ingress = demo_relay CHR ''1'' ''https://a'' 1, GatewayAddress = demo_address CHR ''3'', GatewayDestination = B32 (replicate 32 3)\<rparr>"

definition overlay_demo_env :: overlay_env where
  "overlay_demo_env = \<lparr>relayEnv = demo_env, claims_Marshal = (\<lambda>c. if public c = demo_claims then Some [1] else None),
     claims_Decode = (\<lambda>p. if p = [1] then Some demo_claims else None)\<rparr>"

definition demo_capability :: string where
  "demo_capability = capabilityPrefix @ dot # base64url_EncodeToString [1] @ dot # base64url_EncodeToString (map of_char (demo_address CHR ''1''))"

definition demo_endpoint :: overlayEndpoint where
  "demo_endpoint = \<lparr>oe_URL = ''https://c'', oe_Capability = demo_capability, oe_ExpiresAt = 36000000000000 + minute, oe_Gateway = demo_relay CHR ''3'' ''https://c'' 3\<rparr>"

lemma public_demo: "public demo_claims = demo_claims"
  by (simp add: public_def demo_claims_def demo_identity_def)

lemma overlay_demo_laws: "claims_laws overlay_demo_env" "recovers overlay_demo_env demo_authority"
proof -
  show "claims_laws overlay_demo_env" by (auto simp: claims_laws_def overlay_demo_env_def public_demo split: if_splits)
  have "recover_address demo_env p (map of_char s) = Some s" for p s using bytes_back [of s] by (simp add: demo_env_def)
  then show "recovers overlay_demo_env demo_authority" by (simp add: recovers_def overlay_demo_env_def demo_authority_def)
qed

lemma demo_relay_fields [simp]:
  "RelayDescriptor.Address (demo_relay c u b) = demo_address c" "APIHTTPSAddr (demo_relay c u b) = u" "IVNPDestination (demo_relay c u b) = B32 (replicate 32 b)"
  "RelayDescriptor.ExpiresAt (demo_relay c u b) = 36000000000000 + hour" "ActiveConnections (demo_relay c u b) = 0" "TCPBPS (demo_relay c u b) = 0"
  by (simp_all add: demo_relay_def demo_descriptor_def emptyDescriptor_def)

lemma demo_address_fold: "EqualFold (demo_address CHR ''2'') (demo_address CHR ''1'') = False" "EqualFold (demo_address CHR ''3'') (demo_address CHR ''1'') = False"
  "EqualFold (demo_address c) (demo_address c)" "ToLower (demo_address CHR ''2'') \<noteq> ToLower (demo_address CHR ''3'')" "\<not> EqualFold (demo_address CHR ''3'') ''''"
  by (simp_all add: EqualFold_def ToLower_def demo_address_def lower_char_def)

lemma replicate_bytes: "replicate 32 (3 :: byte) \<noteq> replicate 32 1" "replicate 32 (2 :: byte) \<noteq> replicate 32 1" "replicate 32 (2 :: byte) \<noteq> replicate 32 3"
  by simp_all

lemma demo_usable:
  "usableGateway overlay_demo_env 36000000000000 (demo_address CHR ''1'') (B32 (replicate 32 1)) (demo_relay CHR ''1'' ''https://a'' 1) = None"
  "usableGateway overlay_demo_env 36000000000000 (demo_address CHR ''1'') (B32 (replicate 32 1)) (demo_relay CHR ''2'' ''https://b'' 2) = Some (demo_relay CHR ''2'' ''https://b'' 2, B32 (replicate 32 2))"
  "usableGateway overlay_demo_env 36000000000000 (demo_address CHR ''1'') (B32 (replicate 32 1)) (demo_relay CHR ''3'' ''https://c'' 3) = Some (demo_relay CHR ''3'' ''https://c'' 3, B32 (replicate 32 3))"
  using demo_address_fold replicate_bytes
  by (simp_all add: usableGateway_def overlay_demo_env_def demo_relay_verifies demo_destination B32_inj minimumGatewayTTL_def second_def hour_def minute_def)

lemma demo_candidates:
  "gatewayCandidates overlay_demo_env integer_ops (ii_Descriptors (demo_input f)) 36000000000000 (demo_address CHR ''1'') (B32 (replicate 32 1))
     = [demo_relay CHR ''2'' ''https://b'' 2, demo_relay CHR ''3'' ''https://c'' 3]"
  using demo_address_fold(4) replicate_bytes
  by (simp add: gatewayCandidates_def demo_input_def demo_usable B32_inj gatewayBefore_def integer_ops_def)

lemma demo_origins: "endpointOrigin overlay_demo_env ''https://b'' = ''https://b''" "endpointOrigin overlay_demo_env ''https://c'' = ''https://c''" "endpointOrigin overlay_demo_env '''' = ''''"
  by (simp_all add: endpointOrigin_def overlay_demo_env_def demo_URL(2) demo_env_def ToLower_def lower_char_def TrimSpace_def is_space_def)

definition demo_runtime :: "authority \<Rightarrow> byte \<Rightarrow> Runtime" where
  "demo_runtime a b = publishEndpoint False (B32 (replicate 32 b)) (the (New integer_ops ''overlay.json'' (Some a)))"

lemma demo_config: "TrimSpace ''overlay.json'' = ''overlay.json''"
  by (rule no_space_trim) (simp add: is_space_def)

lemma demo_New: "New integer_ops ''overlay.json'' (Some a) = Some \<lparr>rt_authority = a, ready = False, endpoint = None,
   rt_limiter = newSourceLimiter integer_ops sourceRequestsPerMinute sourceRequestBurst, outbound = 0, activeSources = [], assignments = [], failures = []\<rparr>"
  by (simp add: New_def demo_config)

lemma demo_runtime_eq: "demo_runtime a b = \<lparr>rt_authority = a, ready = True, endpoint = Some (B32 (replicate 32 b)),
   rt_limiter = newSourceLimiter integer_ops sourceRequestsPerMinute sourceRequestBurst, outbound = 0, activeSources = [], assignments = [], failures = []\<rparr>"
  by (simp add: demo_runtime_def demo_New publishEndpoint_def)

lemma demo_sign: "signCapability overlay_demo_env demo_authority demo_claims = Inr demo_capability"
  by (simp add: signCapability_def overlay_demo_env_def public_demo demo_authority_def demo_capability_def)

lemma demo_issue_from:
  assumes "ready r" "Destination r = B32 (replicate 32 1)" "rt_authority r = demo_authority"
    and "selectGateway overlay_demo_env ''lease'' f [demo_relay CHR ''2'' ''https://b'' 2, demo_relay CHR ''3'' ''https://c'' 3] 36000000000000 r = (Some (demo_relay CHR ''3'' ''https://c'' 3), r')"
    and "rt_authority r' = demo_authority"
  shows "IssueEndpoint overlay_demo_env integer_ops 36000000000000 (demo_input f) r = (Inr (Some demo_endpoint), r')"
proof -
  have t: "TrimSpace ''lease'' = ''lease''" by (rule no_space_trim) (simp add: is_space_def)
  have self: "VerifyRelayDescriptor (relayEnv overlay_demo_env) (demo_relay CHR ''1'' ''https://a'' 1) = Inr (demo_relay CHR ''1'' ''https://a'' 1)"
    by (simp add: overlay_demo_env_def demo_relay_verifies)
  have c: "issuedClaims (demo_input f) ''lease'' (demo_relay CHR ''1'' ''https://a'' 1) (demo_relay CHR ''3'' ''https://c'' 3) = demo_claims"
    by (simp add: issuedClaims_def demo_input_def demo_claims_def earliest_def hour_def minute_def second_def)
  have u: "url_Parse (relayEnv overlay_demo_env) ''https://c'' = Some \<lparr>Scheme = ''https'', Host = ''c'', HasUser = False, Path = '''', RawQuery = '''', Fragment = ''''\<rparr>"
    "url_String (relayEnv overlay_demo_env) p = Scheme p @ ''://'' @ Host p" for p by (simp_all add: overlay_demo_env_def demo_env_def)
  have fields: "ii_LeaseID (demo_input f) = ''lease''" "ii_ExpiresAt (demo_input f) = 36000000000000 + minute" "ii_Self (demo_input f) = demo_relay CHR ''1'' ''https://a'' 1" "ii_FailedURL (demo_input f) = f"
    by (simp_all add: demo_input_def)
  have ex: "ClaimsExpiresAt demo_claims = 36000000000000 + minute" by (simp add: demo_claims_def)
  show ?thesis unfolding IssueEndpoint_def fields
    using assms by (simp add: t self demo_destination demo_candidates c demo_sign u ResolveAPIURL_def demo_endpoint_def ex)
qed

lemma demo_select:
  assumes "lookup (failures r) ''lease'' = None \<and> f = ''https://b'' \<or> lookup (failures r) ''lease'' = Some [(''https://b'', 36030000000000)] \<and> f = ''''"
    and "lookup (assignments r) ''lease'' = None \<and> f = ''https://b'' \<or> lookup (assignments r) ''lease'' = Some (demo_address CHR ''3'')"
  shows "selectGateway overlay_demo_env ''lease'' f [demo_relay CHR ''2'' ''https://b'' 2, demo_relay CHR ''3'' ''https://c'' 3] 36000000000000 r
     = (Some (demo_relay CHR ''3'' ''https://c'' 3), r\<lparr>failures := put ''lease'' [(''https://b'', 36030000000000)] (failures r),
          assignments := (if f = '''' then assignments r else put ''lease'' (demo_address CHR ''3'') (assignments r))\<rparr>)"
proof -
  have rec: "recentFailures overlay_demo_env ''lease'' f 36000000000000 r = [(''https://b'', 36030000000000)]"
    using assms(1) by (auto simp: recentFailures_def demo_origins del_where_def gatewayRetryDelay_def second_def)
  show ?thesis unfolding selectGateway_def rec using assms demo_address_fold
    by (auto simp: demo_origins has_key_def)
qed

section \<open>Witnesses\<close>

lemma demo_Destination: "Destination (demo_runtime a b) = B32 (replicate 32 b)" "ready (demo_runtime a b)" "rt_authority (demo_runtime a b) = a"
  by (simp_all add: demo_runtime_eq Destination_def)

definition demo_issued :: Runtime where
  "demo_issued = (demo_runtime demo_authority 1)\<lparr>failures := [(''lease'', [(''https://b'', 36030000000000)])], assignments := [(''lease'', demo_address CHR ''3'')]\<rparr>"

lemma demo_issue:
  "IssueEndpoint overlay_demo_env integer_ops 36000000000000 (demo_input ''https://b'') (demo_runtime demo_authority 1) = (Inr (Some demo_endpoint), demo_issued)"
proof (rule demo_issue_from)
  show "selectGateway overlay_demo_env ''lease'' ''https://b'' [demo_relay CHR ''2'' ''https://b'' 2, demo_relay CHR ''3'' ''https://c'' 3] 36000000000000 (demo_runtime demo_authority 1)
      = (Some (demo_relay CHR ''3'' ''https://c'' 3), demo_issued)"
    using demo_select [of "demo_runtime demo_authority 1" "''https://b''"] by (simp add: demo_issued_def demo_runtime_eq)
qed (simp_all add: demo_Destination, simp add: demo_issued_def demo_runtime_eq)

lemma demo_reissue:
  "IssueEndpoint overlay_demo_env integer_ops 36000000000000 (demo_input '''') demo_issued = (Inr (Some demo_endpoint), demo_issued)"
proof (rule demo_issue_from)
  show "selectGateway overlay_demo_env ''lease'' '''' [demo_relay CHR ''2'' ''https://b'' 2, demo_relay CHR ''3'' ''https://c'' 3] 36000000000000 demo_issued
      = (Some (demo_relay CHR ''3'' ''https://c'' 3), demo_issued)"
    using demo_select [of demo_issued "''''"] by (simp add: demo_issued_def demo_runtime_eq)
qed (simp_all add: demo_issued_def demo_runtime_eq Destination_def)

lemma demo_capability_fits: "length demo_capability \<le> capabilityLimit"
proof -
  have "length (base64url_EncodeToString [1]) = 2" "length (base64url_EncodeToString (map of_char (demo_address CHR ''1''))) = 56"
    using b64url.length_encode [of "[1]"] b64url.length_encode [of "map of_char (demo_address CHR ''1'')"]
    by (simp_all add: base64url_EncodeToString_def demo_address_def)
  then show ?thesis by (simp add: demo_capability_def capabilityPrefix_def capabilityLimit_def)
qed

definition demo_gateway :: Runtime where
  "demo_gateway = demo_runtime \<lparr>authorityAddress = demo_address CHR ''3'', signCompact = (\<lambda>_. None)\<rparr> 3"

lemma demo_self: "VerifyRelayDescriptor (relayEnv overlay_demo_env) (ii_Self (demo_input f)) = Inr (ii_Self (demo_input f))"
  "EqualFold (authorityAddress (rt_authority (demo_runtime demo_authority 1))) (RelayDescriptor.Address (ii_Self (demo_input f)))"
  using demo_address_fold(3) by (simp_all add: demo_input_def overlay_demo_env_def demo_relay_verifies demo_Destination demo_authority_def)

theorem issued_endpoint_is_honoured_witness:
  "acceptReverse overlay_demo_env 36000000000001 (connectFrame demo_capability) (Some (Destination demo_gateway)) False demo_issued = Offered (ServiceKey demo_identity) ''lease''"
proof -
  have "rt_authority demo_issued = rt_authority (demo_runtime demo_authority 1)" "Destination demo_issued = Destination (demo_runtime demo_authority 1)"
    by (simp_all add: demo_issued_def demo_runtime_eq Destination_def)
  moreover have "oe_Capability demo_endpoint = demo_capability" "oe_Gateway demo_endpoint = demo_relay CHR ''3'' ''https://c'' 3" "36000000000001 < oe_ExpiresAt demo_endpoint"
    by (simp_all add: demo_endpoint_def minute_def second_def)
  moreover have "ready demo_gateway" "EqualFold (demo_address CHR ''3'') (authorityAddress (rt_authority demo_gateway))" "Destination demo_gateway = B32 (replicate 32 3)"
    using demo_address_fold(3) by (simp_all add: demo_gateway_def demo_Destination)
  moreover have "TrimSpace ''lease'' = ''lease''" by (rule no_space_trim) (simp add: is_space_def)
  ultimately show ?thesis
    using issued_endpoint_is_honoured [OF demo_issue overlay_demo_laws(1) _ demo_self, of 36000000000001 demo_gateway demo_issued 0 None]
      overlay_demo_laws(2) demo_capability_fits by (simp add: demo_Destination demo_input_def)
qed

lemma demo_input_fields: "ii_FailedURL (demo_input f) = f" "ii_LeaseID (demo_input f) = ''lease''" "ii_LeaseIdentity (demo_input f) = demo_identity"
  by (simp_all add: demo_input_def)

definition demo_start_state :: overlay_system where
  "demo_start_state = overlay_init (the (New integer_ops ''overlay.json'' (Some demo_authority)))"

lemma demo_published: "overlay_run overlay_demo_env integer_ops [PublishOp False (B32 (replicate 32 1))] demo_start_state = overlay_init (demo_runtime demo_authority 1)"
  by (simp add: overlay_run_def demo_start_state_def overlay_init_def demo_runtime_def)


lemma demo_verified:
  obtains claims where "verifyCapability overlay_demo_env demo_capability 36000000000001 = Inr claims" "GatewayAddress claims = demo_address CHR ''3''"
    "GatewayDestination claims = B32 (replicate 32 3)" "RelayDescriptor.Address (Ingress claims) = demo_address CHR ''1''" "IVNPDestination (Ingress claims) = B32 (replicate 32 1)"
    "LeaseID claims = ''lease''" "ServiceKey (LeaseIdentity claims) = ServiceKey demo_identity"
proof -
  have t: "TrimSpace ''lease'' = ''lease''" by (rule no_space_trim) (simp add: is_space_def)
  have ep: "oe_Capability demo_endpoint = demo_capability" "oe_Gateway demo_endpoint = demo_relay CHR ''3'' ''https://c'' 3" "36000000000001 < oe_ExpiresAt demo_endpoint"
    by (simp_all add: demo_endpoint_def minute_def second_def)
  obtain claims where "verifyCapability overlay_demo_env (oe_Capability demo_endpoint) 36000000000001 = Inr claims" "GatewayAddress claims = RelayDescriptor.Address (oe_Gateway demo_endpoint)"
    "GatewayDestination claims = IVNPDestination (oe_Gateway demo_endpoint)" "Ingress claims = (ii_Self (demo_input ''https://b''))\<lparr>IVNPDestination := Destination (demo_runtime demo_authority 1)\<rparr>"
    "LeaseID claims = TrimSpace (ii_LeaseID (demo_input ''https://b''))" "ServiceKey (LeaseIdentity claims) = ServiceKey (ii_LeaseIdentity (demo_input ''https://b''))"
    using issued_verifies [OF demo_issue overlay_demo_laws(1) _ demo_self _ ep(3)] overlay_demo_laws(2) demo_capability_fits ep by (auto simp: demo_Destination)
  then show thesis using ep t by (intro that) (simp_all add: demo_Destination demo_input_fields, simp_all add: demo_input_def)
qed

lemma demo_offer:
  assumes "rt_authority r = demo_authority" "Destination r = B32 (replicate 32 1)"
  shows "acceptReverse overlay_demo_env 36000000000001 (connectFrame demo_capability) (Some (B32 (replicate 32 3))) False r = Offered (ServiceKey demo_identity) ''lease''"
proof -
  have "demo_capability \<noteq> ''''" by (simp add: demo_capability_def)
  note frame = readCapability_connectFrame [OF this demo_capability_fits]
  obtain claims where "verifyCapability overlay_demo_env demo_capability 36000000000001 = Inr claims" "GatewayDestination claims = B32 (replicate 32 3)"
    "RelayDescriptor.Address (Ingress claims) = demo_address CHR ''1''" "IVNPDestination (Ingress claims) = B32 (replicate 32 1)"
    "LeaseID claims = ''lease''" "ServiceKey (LeaseIdentity claims) = ServiceKey demo_identity" by (rule demo_verified)
  then show ?thesis using assms demo_address_fold(3) by (simp add: acceptReverse_def frame demo_authority_def)
qed

theorem offer_agrees_with_issue_witness:
  "\<exists>(inp, ep) \<in> issuedIn overlay_demo_env integer_ops [PublishOp False (B32 (replicate 32 1)), IssueOp 36000000000000 (demo_input ''https://b'')] demo_start_state.
     ''lease'' = TrimSpace (ii_LeaseID inp) \<and> ServiceKey demo_identity = ServiceKey (ii_LeaseIdentity inp)
     \<and> Some (B32 (replicate 32 3)) = Some (IVNPDestination (oe_Gateway ep)) \<and> 36000000000001 < oe_ExpiresAt ep"
proof -
  let ?r = "the (New integer_ops ''overlay.json'' (Some demo_authority))" and ?es = "[PublishOp False (B32 (replicate 32 1)), IssueOp 36000000000000 (demo_input ''https://b'')]"
  have start: "overlay_init ?r = demo_start_state" by (simp add: demo_start_state_def)
  have run: "overlay_run overlay_demo_env integer_ops ?es (overlay_init ?r) = (overlay_init (demo_runtime demo_authority 1))\<lparr>runtime := demo_issued\<rparr>"
    using demo_published demo_issue overlay_run_append [of overlay_demo_env integer_ops "[PublishOp False (B32 (replicate 32 1))]" "[IssueOp 36000000000000 (demo_input ''https://b'')]" demo_start_state]
    unfolding start by (simp add: overlay_run_def [of _ _ "[IssueOp a b]" for a b] overlay_init_def)
  have "(demo_input ''https://b'', demo_endpoint) \<in> issuedIn overlay_demo_env integer_ops ?es (overlay_init ?r)"
    unfolding issuedIn_def start using demo_published demo_issue
    by (intro CollectI) (auto intro!: exI [of _ "[PublishOp False (B32 (replicate 32 1))]"] simp: overlay_init_def)
  moreover have "claimsOf overlay_demo_env (demo_input ''https://b'', demo_endpoint) = demo_claims"
    using demo_self(1) [of "''https://b''"] no_space_trim [of "''lease''"]
    by (simp add: claimsOf_def is_space_def) (simp add: demo_input_def demo_endpoint_def issuedClaims_def demo_claims_def earliest_def hour_def minute_def second_def)
  moreover have dec: "claims_Decode overlay_demo_env p \<noteq> None \<Longrightarrow> p = [1]" "claims_Marshal overlay_demo_env demo_claims = Some [1]" for p
    by (auto simp: overlay_demo_env_def public_demo split: if_splits)
  ultimately have "unforged overlay_demo_env (authorityAddress (rt_authority ?r)) (issuedIn overlay_demo_env integer_ops ?es (overlay_init ?r))"
    unfolding unforged_def using dec by (metis (no_types, lifting))
  moreover have "acceptReverse overlay_demo_env 36000000000001 (connectFrame demo_capability) (Some (B32 (replicate 32 3))) False
      (runtime (overlay_run overlay_demo_env integer_ops ?es (overlay_init ?r))) = Offered (ServiceKey demo_identity) ''lease''"
    unfolding run by (rule demo_offer [THEN trans, rotated 2]) (simp_all add: demo_issued_def demo_runtime_eq Destination_def)
  ultimately show ?thesis using offer_agrees_with_issue [OF refl overlay_demo_laws(1), of ?r integer_ops ?es] unfolding start by blast
qed

lemma demo_admit:
  obtains claims r where "connectAdmit overlay_demo_env integer_ops 1 36000000000001 demo_capability (Some ''10.0.0.1'') demo_gateway = (Inr claims, r)"
proof -
  obtain l where l: "sl_Allow integer_ops 1 (Some ''10.0.0.1'') 1 (newSourceLimiter integer_ops sourceRequestsPerMinute sourceRequestBurst) = (0, l)"
    by (simp add: limiter_eval sourceRequestsPerMinute_def sourceRequestBurst_def)
  obtain claims where v: "verifyCapability overlay_demo_env demo_capability 36000000000001 = Inr claims" "GatewayAddress claims = demo_address CHR ''3''"
    "GatewayDestination claims = B32 (replicate 32 3)" by (rule demo_verified)
  show thesis
    by (rule that) (use l v demo_address_fold(3) in \<open>simp add: connectAdmit_def demo_gateway_def demo_runtime_eq Destination_def activeOf_def sourceConnectionLimit_def connectionLimit_def\<close>)
qed

theorem overlay_accounts_exact_witness:
  "\<exists>s. s = overlay_run overlay_demo_env integer_ops [PublishOp False (B32 (replicate 32 3)), ConnectOp 0 1 36000000000001 demo_capability (Some ''10.0.0.1'')]
       (overlay_init (the (New integer_ops ''overlay.json'' (Some \<lparr>authorityAddress = demo_address CHR ''3'', signCompact = (\<lambda>_. None)\<rparr>))))
     \<and> held s = {#Some ''10.0.0.1''#} \<and> outbound (runtime s) = 1 \<and> activeOf (runtime s) (Some ''10.0.0.1'') = 1"
proof -
  let ?a = "\<lparr>authorityAddress = demo_address CHR ''3'', signCompact = (\<lambda>_. None)\<rparr> :: authority"
  let ?es = "[PublishOp False (B32 (replicate 32 3)), ConnectOp 0 1 36000000000001 demo_capability (Some ''10.0.0.1'')]"
  define r where "r = the (New integer_ops ''overlay.json'' (Some ?a))"
  define s where "s = overlay_run overlay_demo_env integer_ops ?es (overlay_init r)"
  obtain claims r' where admit: "connectAdmit overlay_demo_env integer_ops 1 36000000000001 demo_capability (Some ''10.0.0.1'') demo_gateway = (Inr claims, r')"
    by (rule demo_admit)
  have "publishEndpoint False (B32 (replicate 32 3)) r = demo_gateway" by (simp add: r_def demo_gateway_def demo_runtime_def)
  then have "held s = {#Some ''10.0.0.1''#}" using admit by (simp add: s_def overlay_run_def overlay_init_def held_def)
  moreover have "New integer_ops ''overlay.json'' (Some ?a) = Some r" by (simp add: r_def demo_New)
  note overlay_accounts_exact [OF this s_def, of "Some ''10.0.0.1''"]
  ultimately have "held s = {#Some ''10.0.0.1''#} \<and> outbound (runtime s) = 1 \<and> activeOf (runtime s) (Some ''10.0.0.1'') = 1" by simp
  then show ?thesis unfolding r_def [symmetric] s_def [symmetric] by blast
qed

end
