(* ===== verification/Json_Doc.thy ===== *)
theory Json_Doc
  imports Prelude
begin

text \<open>
  JSON documents as \<open>encoding/json\<close> reads and writes them, as trees. An object is a list of
  members; Go writes the keys of a map in ascending order, which the list does not record since
  Go maps have no order. Strings are valid UTF-8. A decoder returns \<open>None\<close> when \<open>json.Unmarshal\<close>
  returns an error; \<open>null\<close> leaves a value at its zero.

  A type that Go both writes and reads is an instance of the locale \<open>json_codec\<close>; slices and
  string-keyed maps of such a type are instances too.
\<close>

datatype json = JNull | JBool bool | JNum int | JFrac string | JStr string | JArr "json list" | JObj "(string \<times> json) list"

section \<open>Reading\<close>

fun sequence :: "'a option list \<Rightarrow> 'a list option" where
  "sequence [] = Some []"
| "sequence (x # xs) = (case x of None \<Rightarrow> None | Some v \<Rightarrow> map_option ((#) v) (sequence xs))"

fun dec_string :: "json \<Rightarrow> string option" where
  "dec_string JNull = Some ''''"
| "dec_string (JStr s) = Some s"
| "dec_string _ = None"

fun dec_bool :: "json \<Rightarrow> bool option" where
  "dec_bool JNull = Some False"
| "dec_bool (JBool b) = Some b"
| "dec_bool _ = None"

text \<open>An \<open>int\<close> of 64 bits.\<close>

definition int64 :: "int \<Rightarrow> bool" where "int64 n \<longleftrightarrow> - (2 ^ 63) \<le> n \<and> n < 2 ^ 63"

fun dec_int :: "json \<Rightarrow> int option" where
  "dec_int JNull = Some 0"
| "dec_int (JNum n) = (if int64 n then Some n else None)"
| "dec_int _ = None"

fun dec_list :: "(json \<Rightarrow> 'a option) \<Rightarrow> json \<Rightarrow> 'a list option" where
  "dec_list dec JNull = Some []"
| "dec_list dec (JArr xs) = sequence (map dec xs)"
| "dec_list dec _ = None"

text \<open>
  A map: \<open>Some None\<close> is the nil map, which \<open>null\<close> leaves. A key that comes twice keeps its last
  value.
\<close>

definition from_members :: "(string \<times> 'a) list \<Rightarrow> (string, 'a) gomap" where
  "from_members kvs = fold (\<lambda>(k, v). put k v) kvs []"

fun dec_map :: "(json \<Rightarrow> 'a option) \<Rightarrow> json \<Rightarrow> (string, 'a) gomap option option" where
  "dec_map dec JNull = Some None"
| "dec_map dec (JObj kvs) = map_option (\<lambda>vs. Some (from_members (zip (map fst kvs) vs))) (sequence (map (dec \<circ> snd) kvs))"
| "dec_map dec _ = None"

text \<open>
  The member a struct field is read from: the names are compared without case, and the last
  match counts. A field without a member reads like \<open>null\<close>.
\<close>

definition field :: "string \<Rightarrow> (string \<times> json) list \<Rightarrow> json" where
  "field name kvs = (case map_of (rev (map (\<lambda>(k, v). (ToLower k, v)) kvs)) name of None \<Rightarrow> JNull | Some v \<Rightarrow> v)"

section \<open>Writing\<close>

definition enc_list :: "('a \<Rightarrow> json) \<Rightarrow> 'a list \<Rightarrow> json" where "enc_list enc xs = JArr (map enc xs)"
definition enc_map :: "('a \<Rightarrow> json) \<Rightarrow> (string, 'a) gomap \<Rightarrow> json" where "enc_map enc m = JObj (map (\<lambda>(k, v). (k, enc v)) m)"

text \<open>A member with the option \<open>omitempty\<close>.\<close>

definition omitempty :: "bool \<Rightarrow> string \<times> json \<Rightarrow> (string \<times> json) list" where
  "omitempty isZero kv = (if isZero then [] else [kv])"

section \<open>Round trips\<close>

lemma sequence_Some: "(\<And>x. x \<in> set xs \<Longrightarrow> f x = Some (g x)) \<Longrightarrow> sequence (map f xs) = Some (map g xs)"
  by (induction xs) auto

lemma fold_put_distinct:
  "distinct (map fst acc @ map fst kvs) \<Longrightarrow> fold (\<lambda>(k, v). put k v) kvs acc = acc @ kvs"
proof (induction kvs arbitrary: acc)
  case (Cons kv kvs)
  obtain k v where kv: "kv = (k, v)" by (cases kv)
  have "put k v acc = acc @ [(k, v)]"
    using Cons.prems unfolding kv by (induction acc) auto
  with Cons show ?case by (simp add: kv)
qed simp

lemma from_members_wf: "wf_map kvs \<Longrightarrow> from_members kvs = kvs"
  using fold_put_distinct [of "[]" kvs] by (simp add: from_members_def wf_map_def)

lemma wf_from_members: "wf_map (from_members kvs)"
proof -
  have "wf_map acc \<Longrightarrow> wf_map (fold (\<lambda>(k, v). put k v) kvs acc)" for acc
    by (induction kvs arbitrary: acc) auto
  then show ?thesis by (simp add: from_members_def)
qed

lemma dec_map_wf: "dec_map dec j = Some (Some m) \<Longrightarrow> wf_map m"
  by (cases j) (auto simp: wf_from_members)

locale json_codec =
  fixes enc :: "'a \<Rightarrow> json" and dec :: "json \<Rightarrow> 'a option" and valid :: "'a \<Rightarrow> bool"
  assumes dec_enc: "valid x \<Longrightarrow> dec (enc x) = Some x"
begin

lemma list_roundtrip: "(\<And>x. x \<in> set xs \<Longrightarrow> valid x) \<Longrightarrow> dec_list dec (enc_list enc xs) = Some xs"
  using sequence_Some [of xs "dec \<circ> enc" "\<lambda>x. x"] by (simp add: enc_list_def dec_enc)

lemma map_roundtrip:
  assumes "wf_map m" "\<And>k x. (k, x) \<in> set m \<Longrightarrow> valid x"
  shows "dec_map dec (enc_map enc m) = Some (Some m)"
proof -
  have "sequence (map (dec \<circ> snd) (map (\<lambda>(k, v). (k, enc v)) m)) = Some (map snd m)"
    using sequence_Some [of m "dec \<circ> snd \<circ> (\<lambda>(k, v). (k, enc v))" snd] assms(2) by (auto simp: dec_enc)
  then show ?thesis using assms(1) by (simp add: enc_map_def from_members_wf comp_def case_prod_unfold zip_map_fst_snd)
qed

end

interpretation json_string: json_codec JStr dec_string "\<lambda>_. True"
  by unfold_locales simp

end
