(* ===== verification/Reputation.thy ===== *)
theory Reputation
  imports Base_Codec Source_Limiter
begin

text \<open>
  The vote ledger of the public directory (\<open>src/cmd/relay-server/policy/reputation.go\<close>): votes per
  service identity and voter, where a voter is known by a signed cookie or, without one, by its
  address. HMAC-SHA-256 and the bytes of an address are arguments; the file is represented by
  what was read from it and by whether a write succeeded.
\<close>

section \<open>Voters\<close>

definition VoteUp :: string where "VoteUp = ''up''"
definition VoteDown :: string where "VoteDown = ''down''"
definition VoteClear :: string where "VoteClear = ''clear''"

definition reputationVoterIDBytes :: nat where "reputationVoterIDBytes = 32"
definition reputationMaxVoters :: nat where "reputationMaxVoters = 1024"
definition reputationMaxIdentities :: nat where "reputationMaxIdentities = 4096"

datatype reputation_error = ReputationUnknownHostname | ReputationCapacity | ReputationStoreRequiresStatePath | LoadReputation | PersistReputation

type_synonym votes = "(string, string) gomap"

record persistedReputation =
  VoterSecret :: bytes
  Identities :: "(string, votes) gomap"

record ReputationStore =
  rep_state :: persistedReputation
  secret :: bytes
  rep_limiter :: SourceLimiter

record reputation_env =
  hmac :: "bytes \<Rightarrow> bytes \<Rightarrow> bytes"
  AsSlice :: "string \<Rightarrow> bytes"
  ops :: float_ops

definition hex_digit :: "nat \<Rightarrow> char" where "hex_digit n = ''0123456789abcdef'' ! (n mod 16)"

definition hex_EncodeToString :: "bytes \<Rightarrow> string" where
  "hex_EncodeToString bs = concat (map (\<lambda>b. [hex_digit (unat b div 16), hex_digit (unat b)]) bs)"

definition voterMAC :: "reputation_env \<Rightarrow> bytes \<Rightarrow> ReputationStore \<Rightarrow> bytes" where
  "voterMAC env i s = hmac env (secret s) i"

definition verifyVoter :: "reputation_env \<Rightarrow> string \<Rightarrow> ReputationStore \<Rightarrow> string option" where
  "verifyVoter env cookieID s =
     (case base64url_DecodeString cookieID of
        None \<Rightarrow> None
      | Some v \<Rightarrow>
          if length v \<noteq> reputationVoterIDBytes + 32 then None
          else
            let expected = voterMAC env (take reputationVoterIDBytes v) s in
            if expected \<noteq> drop reputationVoterIDBytes v then None else Some (hex_EncodeToString expected))"

definition sourcePrefix :: bytes where "sourcePrefix = map of_char ''reputation-source-v1'' @ [0]"

definition sourceVoter :: "reputation_env \<Rightarrow> string \<Rightarrow> ReputationStore \<Rightarrow> string \<times> string" where
  "sourceVoter env source s =
     (let i = hmac env (secret s) (sourcePrefix @ AsSlice env source); digest = voterMAC env i s
      in (hex_EncodeToString digest, base64url_EncodeToString (i @ digest)))"

definition resolveVoterLocked :: "reputation_env \<Rightarrow> string \<Rightarrow> netip_addr \<Rightarrow> ReputationStore \<Rightarrow> reputation_error + string \<times> string" where
  "resolveVoterLocked env cookieID source s =
     (case (if cookieID \<noteq> '''' then verifyVoter env cookieID s else None) of
        Some verified \<Rightarrow> Inr (verified, '''')
      | None \<Rightarrow> (case source of None \<Rightarrow> Inl ReputationCapacity | Some a \<Rightarrow> Inr (sourceVoter env a s)))"

definition ViewerHashFor :: "reputation_env \<Rightarrow> string \<Rightarrow> ReputationStore \<Rightarrow> string" where
  "ViewerHashFor env cookieID s =
     (if cookieID = '''' then '''' else case verifyVoter env cookieID s of None \<Rightarrow> '''' | Some h \<Rightarrow> h)"

section \<open>The store\<close>

record ReputationSummary =
  sum_Hostname :: string
  sum_Up :: nat
  sum_Down :: nat
  sum_Total :: nat
  ViewerVote :: string

definition voteOf :: "votes option \<Rightarrow> string \<Rightarrow> string" where
  "voteOf m h = (case m of None \<Rightarrow> '''' | Some vs \<Rightarrow> (case lookup vs h of None \<Rightarrow> '''' | Some v \<Rightarrow> v))"

definition summarize :: "string \<Rightarrow> votes option \<Rightarrow> string \<Rightarrow> ReputationSummary" where
  "summarize hostname vs viewerHash =
     (case vs of
        None \<Rightarrow> \<lparr>sum_Hostname = hostname, sum_Up = 0, sum_Down = 0, sum_Total = 0, ViewerVote = ''''\<rparr>
      | Some m \<Rightarrow>
          let up = length (filter (\<lambda>(_, v). v = VoteUp) m); down = length (filter (\<lambda>(_, v). v = VoteDown) m)
          in \<lparr>sum_Hostname = hostname, sum_Up = up, sum_Down = down, sum_Total = up + down, ViewerVote = voteOf vs viewerHash\<rparr>)"

text \<open>
  \<open>file\<close>: \<open>None\<close> when it cannot be read, \<open>Some None\<close> when it does not exist; \<open>fresh\<close> the random secret,
  or \<open>None\<close> when randomness fails.
\<close>

definition NewReputationStore ::
  "reputation_env \<Rightarrow> string \<Rightarrow> persistedReputation option option \<Rightarrow> bytes option \<Rightarrow> bool \<Rightarrow> reputation_error + ReputationStore" where
  "NewReputationStore env path file fresh written =
     (if TrimSpace path = '''' then Inl ReputationStoreRequiresStatePath
      else case file of
          None \<Rightarrow> Inl LoadReputation
        | Some content \<Rightarrow>
            let state = (case content of None \<Rightarrow> \<lparr>VoterSecret = [], Identities = []\<rparr> | Some p \<Rightarrow> p);
                store = (\<lambda>state. \<lparr>rep_state = state, secret = VoterSecret state, rep_limiter = NewSourceLimiter (ops env) 10 20 120 40\<rparr>)
            in if length (VoterSecret state) \<noteq> 0 then Inr (store state)
               else (case fresh of
                       None \<Rightarrow> Inl LoadReputation
                     | Some r \<Rightarrow> if \<not> written then Inl PersistReputation else Inr (store (state\<lparr>VoterSecret := r\<rparr>))))"

definition AllowVote :: "reputation_env \<Rightarrow> go_time \<Rightarrow> netip_addr \<Rightarrow> ReputationStore \<Rightarrow> duration \<times> ReputationStore" where
  "AllowVote env now source s =
     (case Allow (ops env) now source 1 (rep_limiter s) of ((wait, _), l) \<Rightarrow> (wait, s\<lparr>rep_limiter := l\<rparr>))"

text \<open>The table after a vote; a table without votes disappears.\<close>

definition applyVote :: "string \<Rightarrow> string \<Rightarrow> string \<Rightarrow> (string, votes) gomap \<Rightarrow> (string, votes) gomap" where
  "applyVote identity hash vote m =
     (let vs = (case lookup m identity of None \<Rightarrow> [] | Some vs \<Rightarrow> vs) in
      if vote = VoteClear
      then (let vs = del hash vs in if length vs = 0 then del identity m else put identity vs m)
      else put identity (put hash vote vs) m)"

definition CastVote ::
  "reputation_env \<Rightarrow> go_time \<Rightarrow> string \<Rightarrow> string \<Rightarrow> string \<Rightarrow> string \<Rightarrow> netip_addr \<Rightarrow> bool \<Rightarrow> ReputationStore
     \<Rightarrow> (reputation_error + ReputationSummary \<times> string) \<times> ReputationStore" where
  "CastVote env now hostname identity vote cookieID source written s =
     (if identity = '''' then (Inl ReputationUnknownHostname, s)
      else case resolveVoterLocked env cookieID source s of
          Inl e \<Rightarrow> (Inl e, s)
        | Inr (hash, minted) \<Rightarrow>
            let ids = Identities (rep_state s); previous = lookup ids identity in
            if vote = VoteClear \<and> voteOf previous hash = '''' \<or> voteOf previous hash = vote
            then (Inr (summarize hostname previous hash, minted), s)
            else if vote \<noteq> VoteClear \<and> previous = None \<and> length ids \<ge> reputationMaxIdentities then (Inl ReputationCapacity, s)
            else
              let new = (vote \<noteq> VoteClear \<and> (case previous of None \<Rightarrow> True | Some vs \<Rightarrow> \<not> has_key vs hash)) in
              if new \<and> (case previous of None \<Rightarrow> 0 | Some vs \<Rightarrow> length vs) \<ge> reputationMaxVoters then (Inl ReputationCapacity, s)
              else
                let ((wait, _), l) = (if new \<and> minted \<noteq> '''' then Allow (ops env) now source 10 (rep_limiter s) else ((0, NoLayer), rep_limiter s));
                    s = s\<lparr>rep_limiter := l\<rparr>
                in if wait > 0 then (Inl ReputationCapacity, s)
                   else if \<not> written then (Inl PersistReputation, s)
                   else
                     let ids = applyVote identity hash vote ids;
                         shown = (if vote = VoteClear then Some (del hash (case previous of None \<Rightarrow> [] | Some vs \<Rightarrow> vs)) else lookup ids identity)
                     in (Inr (summarize hostname shown hash, minted), s\<lparr>rep_state := (rep_state s)\<lparr>Identities := ids\<rparr>\<rparr>))"

definition Summaries :: "string \<Rightarrow> (string \<times> string \<times> string) list \<Rightarrow> ReputationStore \<Rightarrow> ReputationSummary list" where
  "Summaries viewerHash leases s =
     map (\<lambda>(canonical, hostname, key). summarize (if canonical \<noteq> '''' then canonical else hostname) (lookup (Identities (rep_state s)) key) viewerHash) leases"


section \<open>The ledger stays bounded\<close>

text \<open>
  What the store promises of its ledger: the caps hold, a table without votes is not kept and
  every vote is up or down.
\<close>

definition table_ok :: "votes \<Rightarrow> bool" where
  "table_ok vs \<longleftrightarrow> wf_map vs \<and> vs \<noteq> [] \<and> length vs \<le> reputationMaxVoters \<and> (\<forall>(h, v) \<in> set vs. v = VoteUp \<or> v = VoteDown)"

definition ledger_ok :: "(string, votes) gomap \<Rightarrow> bool" where
  "ledger_ok ids \<longleftrightarrow> wf_map ids \<and> length ids \<le> reputationMaxIdentities \<and> (\<forall>(i, vs) \<in> set ids. i \<noteq> '''' \<and> table_ok vs)"

definition reputation_inv :: "ReputationStore \<Rightarrow> bool" where
  "reputation_inv s \<longleftrightarrow> ledger_ok (Identities (rep_state s)) \<and> limiter_inv (rep_limiter s) \<and> secret s = VoterSecret (rep_state s)"

definition valid_vote :: "string \<Rightarrow> bool" where
  "valid_vote v \<longleftrightarrow> v = VoteUp \<or> v = VoteDown \<or> v = VoteClear"

lemmas vote_names = VoteUp_def VoteDown_def VoteClear_def

lemma ledger_lookup: "ledger_ok ids \<Longrightarrow> lookup ids i = Some vs \<Longrightarrow> table_ok vs"
  by (auto simp: ledger_ok_def dest: map_of_SomeD)

lemma ledger_put:
  assumes "ledger_ok ids" "table_ok vs" "i \<noteq> ''''" "has_key ids i \<or> length ids < reputationMaxIdentities"
  shows "ledger_ok (put i vs ids)"
  using assms by (auto simp: ledger_ok_def set_put length_put)

lemma ledger_del: "ledger_ok ids \<Longrightarrow> ledger_ok (del i ids)"
  using length_del_le [of i ids] by (auto simp: ledger_ok_def set_del)

lemma table_put:
  assumes "wf_map vs" "\<forall>(h, v) \<in> set vs. v = VoteUp \<or> v = VoteDown" "v = VoteUp \<or> v = VoteDown"
    "length vs \<le> reputationMaxVoters" "has_key vs h \<or> length vs < reputationMaxVoters"
  shows "table_ok (put h v vs)"
proof -
  have "(h, v) \<in> set (put h v vs)" using assms(1) by (simp add: set_put)
  then have "put h v vs \<noteq> []" by fastforce
  then show ?thesis using assms by (auto simp: table_ok_def set_put length_put)
qed

lemma table_del: "table_ok vs \<Longrightarrow> del h vs \<noteq> [] \<Longrightarrow> table_ok (del h vs)"
  using length_del_le [of h vs] by (auto simp: table_ok_def set_del)

lemma applyVote_ok:
  assumes ok: "ledger_ok ids" and vote: "valid_vote vote" and i: "i \<noteq> ''''"
    and room: "vote \<noteq> VoteClear \<Longrightarrow> has_key ids i \<or> length ids < reputationMaxIdentities"
    and seats: "vote \<noteq> VoteClear \<Longrightarrow> (case lookup ids i of None \<Rightarrow> True | Some vs \<Rightarrow> has_key vs h \<or> length vs < reputationMaxVoters)"
    and known: "vote = VoteClear \<Longrightarrow> has_key ids i"
  shows "ledger_ok (applyVote i h vote ids)"
proof (cases "vote = VoteClear")
  case True
  with known obtain vs where vs: "lookup ids i = Some vs" by (auto simp: has_key_lookup)
  then have "table_ok vs" using ledger_lookup [OF ok] by simp
  with True vs ok i known show ?thesis
    by (auto simp: applyVote_def Let_def intro!: ledger_del ledger_put table_del)
next
  case False
  then have v: "vote = VoteUp \<or> vote = VoteDown" using vote by (auto simp: valid_vote_def)
  have "table_ok (put h vote (case lookup ids i of None \<Rightarrow> [] | Some vs \<Rightarrow> vs))"
  proof (cases "lookup ids i")
    case None
    then show ?thesis using v by (auto simp: table_ok_def wf_map_def reputationMaxVoters_def)
  next
    case (Some vs)
    with ledger_lookup [OF ok] have "table_ok vs" by simp
    then have "wf_map vs" "\<forall>(h, v) \<in> set vs. v = VoteUp \<or> v = VoteDown" "length vs \<le> reputationMaxVoters" by (simp_all add: table_ok_def)
    from table_put [OF this(1,2) v this(3)] Some seats [OF False] show ?thesis by simp
  qed
  with False ok i room show ?thesis by (auto simp: applyVote_def Let_def intro!: ledger_put)
qed

text \<open>What one cast vote does to the ledger: nothing, or one entry of one table.\<close>

lemma CastVote_cases:
  assumes "CastVote env now hostname i vote cookieID source written s = (r, s')"
  obtains (same) "rep_state s' = rep_state s"
  | (voted) h minted where "written" "resolveVoterLocked env cookieID source s = Inr (h, minted)" "i \<noteq> ''''"
      "Identities (rep_state s') = applyVote i h vote (Identities (rep_state s))" "VoterSecret (rep_state s') = VoterSecret (rep_state s)"
      "vote \<noteq> VoteClear \<Longrightarrow> has_key (Identities (rep_state s)) i \<or> length (Identities (rep_state s)) < reputationMaxIdentities"
      "vote \<noteq> VoteClear \<Longrightarrow> (case lookup (Identities (rep_state s)) i of None \<Rightarrow> True | Some vs \<Rightarrow> has_key vs h \<or> length vs < reputationMaxVoters)"
      "vote = VoteClear \<Longrightarrow> has_key (Identities (rep_state s)) i"
proof -
  consider "rep_state s' = rep_state s" | h minted where "written" "resolveVoterLocked env cookieID source s = Inr (h, minted)" "i \<noteq> ''''"
      "Identities (rep_state s') = applyVote i h vote (Identities (rep_state s))" "VoterSecret (rep_state s') = VoterSecret (rep_state s)"
      "\<not> (vote = VoteClear \<and> voteOf (lookup (Identities (rep_state s)) i) h = '''')"
      "\<not> (vote \<noteq> VoteClear \<and> lookup (Identities (rep_state s)) i = None \<and> length (Identities (rep_state s)) \<ge> reputationMaxIdentities)"
      "\<not> ((vote \<noteq> VoteClear \<and> (case lookup (Identities (rep_state s)) i of None \<Rightarrow> True | Some vs \<Rightarrow> \<not> has_key vs h))
          \<and> (case lookup (Identities (rep_state s)) i of None \<Rightarrow> 0 | Some vs \<Rightarrow> length vs) \<ge> reputationMaxVoters)"
    using assms unfolding CastVote_def Let_def by (simp split: if_splits sum.splits prod.splits) auto
  then show thesis
  proof cases
    case 1
    then show ?thesis by (rule same)
  next
    case (2 h minted)
    show ?thesis
      by (rule voted [OF 2(1-5)]) (use 2(6-8) in \<open>auto simp: has_key_lookup voteOf_def split: option.splits\<close>)
  qed
qed

lemma CastVote_frame: "CastVote env now hostname i vote cookieID source written s = (r, s') \<Longrightarrow> secret s' = secret s \<and> (limiter_inv (rep_limiter s) \<longrightarrow> limiter_inv (rep_limiter s'))"
  using Allow_inv [of "rep_limiter s" "ops env" now source 10]
  by (auto simp: CastVote_def Let_def split: if_splits sum.splits prod.splits)

lemma CastVote_inv:
  assumes "reputation_inv s" "valid_vote vote"
  shows "reputation_inv (snd (CastVote env now hostname i vote cookieID source written s))"
proof -
  obtain r s' where c: "CastVote env now hostname i vote cookieID source written s = (r, s')" by fastforce
  note frame = CastVote_frame [OF c]
  from c show ?thesis
  proof (cases rule: CastVote_cases)
    case same
    with assms frame c show ?thesis by (simp add: reputation_inv_def)
  next
    case (voted h minted)
    have "ledger_ok (Identities (rep_state s'))"
      unfolding voted(4) by (rule applyVote_ok) (use assms voted in \<open>auto simp: reputation_inv_def\<close>)
    with assms frame c voted show ?thesis by (simp add: reputation_inv_def)
  qed
qed


section \<open>Histories\<close>

text \<open>
  What clients and operators do to the store: a vote, a charge of the vote budget, a restart that
  reads back what was written last. Votes reach the store after \<open>serveReputationVote\<close> has checked
  their value.
\<close>

datatype reputation_event =
  Vote (ev_time: go_time) (ev_hostname: string) (ev_identity: string) (ev_vote: string) (ev_cookie: string) (ev_source: netip_addr) (ev_written: bool)
| Permit go_time netip_addr
| Restart string

fun reputation_step :: "reputation_env \<Rightarrow> reputation_event \<Rightarrow> ReputationStore \<Rightarrow> ReputationStore" where
  "reputation_step env (Vote now hostname i vote cookieID source written) s =
     (if valid_vote vote then snd (CastVote env now hostname i vote cookieID source written s) else s)"
| "reputation_step env (Permit now source) s = snd (AllowVote env now source s)"
| "reputation_step env (Restart path) s =
     (case NewReputationStore env path (Some (Some (rep_state s))) None False of Inl _ \<Rightarrow> s | Inr s' \<Rightarrow> s')"

lemma AllowVote_frame [simp]:
  "rep_state (snd (AllowVote env now source s)) = rep_state s" "secret (snd (AllowVote env now source s)) = secret s"
  "rep_limiter (snd (AllowVote env now source s)) = snd (Allow (ops env) now source 1 (rep_limiter s))"
  by (auto simp: AllowVote_def split: prod.splits)

lemma restart_state: "reputation_step env (Restart path) s = s \<or> (\<exists>l. reputation_step env (Restart path) s = s\<lparr>secret := VoterSecret (rep_state s), rep_limiter := l\<rparr> \<and> limiter_inv l)"
  by (auto simp: NewReputationStore_def Let_def limiter_inv_new intro!: exI [of _ "NewSourceLimiter (ops env) 10 20 120 40"])

lemma step_reputation_inv: "reputation_inv s \<Longrightarrow> reputation_inv (reputation_step env e s)"
proof (cases e)
  case (Permit now source)
  assume "reputation_inv s"
  then show ?thesis using Permit by (simp add: reputation_inv_def Allow_inv)
next
  case (Restart path)
  assume "reputation_inv s"
  then show ?thesis using restart_state [of env path s] Restart by (auto simp: reputation_inv_def)
qed (simp add: CastVote_inv)

interpretation reputation: op_system "reputation_step env" reputation_inv for env
  by unfold_locales (rule step_reputation_inv)

section \<open>Voters and cookies\<close>

lemma step_secret: "reputation_inv s \<Longrightarrow> secret (reputation_step env e s) = secret s"
proof (cases e)
  case (Vote now hostname i vote cookieID source written)
  then show ?thesis using CastVote_frame by (auto, metis prod.collapse)
next
  case (Permit now source)
  then show ?thesis by simp
next
  case (Restart path)
  assume "reputation_inv s"
  then show ?thesis using restart_state [of env path s] Restart by (auto simp: reputation_inv_def)
qed

lemma voter_secret:
  assumes "secret s' = secret s"
  shows "verifyVoter env c s' = verifyVoter env c s" "sourceVoter env a s' = sourceVoter env a s"
proof -
  from assms have "voterMAC env i s' = voterMAC env i s" for i by (simp add: voterMAC_def)
  with assms show "verifyVoter env c s' = verifyVoter env c s" "sourceVoter env a s' = sourceVoter env a s"
    by (simp_all only: verifyVoter_def sourceVoter_def)
qed

lemma verify_minted:
  assumes "\<And>k m. length (hmac env k m) = 32"
  shows "verifyVoter env (snd (sourceVoter env a s)) s = Some (fst (sourceVoter env a s))"
  by (simp add: sourceVoter_def Let_def verifyVoter_def base64url_DecodeString_EncodeToString voterMAC_def assms reputationVoterIDBytes_def)

lemma length_voter:
  assumes "\<And>k m. length (hmac env k m) = 32"
  shows "length (fst (sourceVoter env a s)) = 64"
  by (simp add: sourceVoter_def Let_def voterMAC_def hex_EncodeToString_def length_concat comp_def assms sum_list_triv)

lemma minted_nonempty:
  assumes "\<And>k m. length (hmac env k m) = 32"
  shows "snd (sourceVoter env a s) \<noteq> ''''"
  using verify_minted [OF assms, of a s] by (auto simp: verifyVoter_def base64url_DecodeString_def decode_values_def reputationVoterIDBytes_def)


lemma applyVote_others:
  assumes "voteOf (lookup (applyVote i h vote ids) j) k \<noteq> voteOf (lookup ids j) k"
  shows "j = i \<and> k = h"
  using assms by (auto simp: applyVote_def Let_def voteOf_def split: if_splits option.splits)
    (metis delete_simps(1) lookup_del option.distinct(1))+

lemma resolve_own:
  assumes mac: "\<And>k m. length (hmac env k m) = 32"
    and own: "c = '''' \<or> verifyVoter env c s = None \<or> c = snd (sourceVoter env a s)"
    and r: "resolveVoterLocked env c (Some a) s = Inr (h, minted)"
  shows "h = fst (sourceVoter env a s)"
  using own r verify_minted [OF mac, of a s] by (auto simp: resolveVoterLocked_def split: if_splits option.splits)

text \<open>A client at address \<open>a\<close> that never shows a valid cookie but one of its own.\<close>

definition own_cookies :: "reputation_env \<Rightarrow> string \<Rightarrow> ReputationStore \<Rightarrow> reputation_event \<Rightarrow> bool" where
  "own_cookies env a s e = (case e of
      Vote _ _ _ _ c source _ \<Rightarrow> source = Some a \<and> (c = '''' \<or> verifyVoter env c s = None \<or> c = snd (sourceVoter env a s))
    | _ \<Rightarrow> True)"

lemma step_one_voter:
  assumes mac: "\<And>k m. length (hmac env k m) = 32" and inv: "reputation_inv s" and own: "own_cookies env a s e"
    and h: "h \<noteq> fst (sourceVoter env a s)"
  shows "voteOf (lookup (Identities (rep_state (reputation_step env e s))) i) h = voteOf (lookup (Identities (rep_state s)) i) h"
proof (cases e)
  case (Vote now hostname j vote c source written)
  obtain r s' where c: "CastVote env now hostname j vote c source written s = (r, s')" by fastforce
  from c have "voteOf (lookup (Identities (rep_state s')) i) h = voteOf (lookup (Identities (rep_state s)) i) h"
  proof (cases rule: CastVote_cases)
    case (voted k minted)
    have "k = fst (sourceVoter env a s)"
      by (rule resolve_own [OF mac]) (use own Vote voted(2) in \<open>auto simp: own_cookies_def\<close>)
    with h voted(4) applyVote_others [of j k vote _ i h] show ?thesis by auto
  qed simp
  with Vote c show ?thesis by simp
next
  case (Restart path)
  then show ?thesis using restart_state [of env path s] by auto
qed simp

lemma run_one_voter:
  assumes mac: "\<And>k m. length (hmac env k m) = 32" and h: "h \<noteq> fst (sourceVoter env a s)"
  shows "reputation_inv s \<Longrightarrow> \<forall>e \<in> set es. own_cookies env a s e
    \<Longrightarrow> voteOf (lookup (Identities (rep_state (fold (reputation_step env) es s))) i) h = voteOf (lookup (Identities (rep_state s)) i) h"
  using h
proof (induction es arbitrary: s)
  case (Cons e es)
  let ?s = "reputation_step env e s"
  have sec: "secret ?s = secret s" using Cons.prems(1) by (rule step_secret)
  have "own_cookies env a ?s = own_cookies env a s" by (rule ext) (simp only: own_cookies_def voter_secret [OF sec])
  with Cons sec have "voteOf (lookup (Identities (rep_state (fold (reputation_step env) es ?s))) i) h = voteOf (lookup (Identities (rep_state ?s)) i) h"
    by (intro Cons.IH) (auto simp: step_reputation_inv voter_secret [OF sec])
  with Cons.prems step_one_voter [OF mac Cons.prems(1), of a e h i] show ?case by simp
qed simp


section \<open>Properties\<close>

text \<open>
  The ledger stays within its caps, whatever clients send. After any sequence of votes with
  any cookies, budget charges, failed writes and restarts, a store whose ledger was sound has at
  most 4096 identities, each with between 1 and 1024 distinct voters, and holds no vote other
  than up or down; its limiter stays within its own bound.
\<close>

theorem reputation_bounded:
  assumes "reputation_inv s"
  shows "reputation_inv (fold (reputation_step env) es s)"
  using assms by (rule reputation.run_inv)

text \<open>
  C19: Dropping cookies does not buy votes. While a client at one address sends votes without a
  cookie, with cookies that do not verify, or with the cookie it was given, the vote of every
  voter other than the one derived from its address stays what it was, for every identity: the
  client owns one vote per identity. HMAC-SHA-256 yields 32 bytes.
\<close>

theorem one_source_one_voter:
  assumes "\<And>k m. length (hmac env k m) = 32" "reputation_inv s"
    and "\<forall>e \<in> set es. own_cookies env a s e" "h \<noteq> fst (sourceVoter env a s)"
  shows "voteOf (lookup (Identities (rep_state (fold (reputation_step env) es s))) i) h = voteOf (lookup (Identities (rep_state s)) i) h"
  using run_one_voter [OF assms(1,4,2,3)] .

text \<open>
  A minted cookie names the voter it was minted for: after any later history, restarts
  included, the store resolves it, from whatever address it arrives, to the same voter without
  minting another, and the read path sees the same viewer.
\<close>

theorem cookie_names_its_voter:
  assumes "\<And>k m. length (hmac env k m) = 32" "reputation_inv s"
    and "resolveVoterLocked env c source s = Inr (h, minted)" "minted \<noteq> ''''"
  shows "resolveVoterLocked env minted source' (fold (reputation_step env) es s) = Inr (h, '''')
    \<and> ViewerHashFor env minted (fold (reputation_step env) es s) = h"
proof -
  from assms(3,4) obtain a where a: "sourceVoter env a s = (h, minted)"
    by (auto simp: resolveVoterLocked_def split: if_splits option.splits)
  have "secret (fold (reputation_step env) es s) = secret s"
    using assms(2) by (induction es arbitrary: s) (auto simp: step_secret step_reputation_inv)
  from voter_secret(1) [OF this] have "verifyVoter env minted (fold (reputation_step env) es s) = Some h"
    using verify_minted [OF assms(1), of a s] by (simp add: a)
  with assms(4) show ?thesis
    by (simp add: resolveVoterLocked_def ViewerHashFor_def)
qed

section \<open>Witnesses\<close>

definition demo_reputation_env :: reputation_env where
  "demo_reputation_env = \<lparr>hmac = (\<lambda>k m. replicate 32 (of_nat (length m))), AsSlice = map of_char, ops = integer_ops\<rparr>"

definition demo_reputation :: ReputationStore where
  "demo_reputation = \<lparr>rep_state = \<lparr>VoterSecret = [7], Identities = [(''app'', [(''aa'', VoteDown)])]\<rparr>, secret = [7],
     rep_limiter = NewSourceLimiter integer_ops 10 20 120 40\<rparr>"

definition demo_votes :: "reputation_event list" where
  "demo_votes = [Vote 5 ''h'' ''app'' VoteUp '''' (Some ''1'') True, Vote 6 ''h'' ''app'' VoteDown ''x'' (Some ''1'') True, Restart ''f'']"

lemma demo_reputation_inv: "reputation_inv demo_reputation"
  by (simp add: reputation_inv_def demo_reputation_def limiter_inv_new ledger_ok_def table_ok_def wf_map_def
      reputationMaxIdentities_def reputationMaxVoters_def)

lemma demo_hmac: "length (hmac demo_reputation_env k m) = 32"
  by (simp add: demo_reputation_env_def)

theorem reputation_bounded_witness: "reputation_inv (fold (reputation_step demo_reputation_env) demo_votes demo_reputation)"
  by (rule reputation_bounded) (rule demo_reputation_inv)

theorem one_source_one_voter_witness:
  "voteOf (lookup (Identities (rep_state (fold (reputation_step demo_reputation_env) demo_votes demo_reputation))) ''app'') ''aa'' = VoteDown"
proof -
  have "\<forall>e \<in> set demo_votes. own_cookies demo_reputation_env ''1'' demo_reputation e"
    by (simp add: demo_votes_def own_cookies_def verifyVoter_def base64url_DecodeString_def base64url_alphabet_def)
  moreover have "''aa'' \<noteq> fst (sourceVoter demo_reputation_env ''1'' demo_reputation)"
    by (rule notI, drule arg_cong [where f = length]) (simp add: length_voter [OF demo_hmac])
  ultimately have "voteOf (lookup (Identities (rep_state (fold (reputation_step demo_reputation_env) demo_votes demo_reputation))) ''app'') ''aa''
      = voteOf (lookup (Identities (rep_state demo_reputation)) ''app'') ''aa''"
    by (intro one_source_one_voter [where a = "''1''"] demo_hmac demo_reputation_inv)
  then show ?thesis by (simp add: demo_reputation_def voteOf_def)
qed

theorem cookie_names_its_voter_witness:
  "resolveVoterLocked demo_reputation_env (snd (sourceVoter demo_reputation_env ''1'' demo_reputation)) None
     (fold (reputation_step demo_reputation_env) demo_votes demo_reputation) = Inr (fst (sourceVoter demo_reputation_env ''1'' demo_reputation), '''')"
  by (rule cookie_names_its_voter [where c = "''''" and source = "Some ''1''", THEN conjunct1])
    (auto simp: demo_hmac demo_reputation_inv resolveVoterLocked_def minted_nonempty)

end
