(* ===== verification/Comments.thy ===== *)
theory Comments
  imports Json_Doc Reputation
begin

text \<open>
  The comment threads of the public directory (\<open>src/cmd/relay-server/policy/comments.go\<close>): threads
  per service identity, votes per comment, and the author of each comment as the hash of a
  cookie. The file is a JSON document; \<open>rand.Text\<close>, the clock and whether a write succeeds are
  arguments of the operation that uses them.
\<close>

section \<open>Comments\<close>

definition CommentMaxLength :: nat where "CommentMaxLength = 2000"
definition commentsMaxPerApp :: nat where "commentsMaxPerApp = 100"
definition commentsMaxTotal :: nat where "commentsMaxTotal = 1000"
definition commentsMaxVotes :: nat where "commentsMaxVotes = 10000"

datatype comment_error = CommentInvalid | CommentCapacity | CommentNotFound | CommentStorePathRequired | CommentThreadInvalid
  | CommentStoredInvalid | CommentVotesInvalid | CommentVoteInvalid | CommentAuthorInvalid | CommentVoteChoice | CommentVoterRequired
  | LoadComments | PersistComment | NilMapPanic

record AppComment =
  com_ID :: string
  com_Text :: string
  com_CreatedAt :: go_time
  com_Up :: int
  com_Down :: int
  com_ViewerVote :: string
  com_CanDelete :: bool

type_synonym thread_map = "(string, AppComment list) gomap"
type_synonym vote_map = "(string, votes) gomap"

text \<open>\<open>threads_nil\<close>: the map of the threads is nil, which reads like an empty one and cannot be written.\<close>

record CommentsStore =
  com_threads :: thread_map
  threads_nil :: bool
  com_votes :: vote_map
  com_authors :: "(string, string) gomap"
  com_limiter :: SourceLimiter
  com_voteLimiter :: SourceLimiter

text \<open>\<open>utf8.RuneCountInString\<close> of valid UTF-8: the bytes that are no continuation bytes.\<close>

definition RuneCountInString :: "string \<Rightarrow> nat" where
  "RuneCountInString s = length (filter (\<lambda>c. let n = (of_char c :: nat) in n < 128 \<or> 192 \<le> n) s)"

definition totalLen :: "('k, 'v list) gomap \<Rightarrow> nat" where
  "totalLen m = sum_list (map (length \<circ> snd) m)"

text \<open>Indexing a map of slices or of maps: a missing key reads like an empty one.\<close>

definition entry :: "('k, 'v list) gomap \<Rightarrow> 'k \<Rightarrow> 'v list" where
  "entry m k = (case lookup m k of None \<Rightarrow> [] | Some xs \<Rightarrow> xs)"

abbreviation thread :: "CommentsStore \<Rightarrow> string \<Rightarrow> AppComment list" where
  "thread s identity \<equiv> entry (com_threads s) identity"

section \<open>The file\<close>

text \<open>\<open>time.Time\<close> is written as text of RFC 3339; formatting and parsing it are arguments.\<close>

record comments_env =
  formatTime :: "go_time \<Rightarrow> string"
  parseTime :: "string \<Rightarrow> go_time option"
  com_ops :: float_ops

fun dec_time :: "comments_env \<Rightarrow> json \<Rightarrow> go_time option" where
  "dec_time env JNull = Some 0"
| "dec_time env (JStr s) = parseTime env s"
| "dec_time env _ = None"

definition enc_comment :: "comments_env \<Rightarrow> AppComment \<Rightarrow> json" where
  "enc_comment env c = JObj
     ([(''id'', JStr (com_ID c)), (''text'', JStr (com_Text c)), (''created_at'', JStr (formatTime env (com_CreatedAt c))),
       (''up'', JNum (com_Up c)), (''down'', JNum (com_Down c))]
      @ omitempty (com_ViewerVote c = '''') (''viewer_vote'', JStr (com_ViewerVote c))
      @ omitempty (\<not> com_CanDelete c) (''can_delete'', JBool True))"

fun dec_comment :: "comments_env \<Rightarrow> json \<Rightarrow> AppComment option" where
  "dec_comment env JNull = Some \<lparr>com_ID = '''', com_Text = '''', com_CreatedAt = 0, com_Up = 0, com_Down = 0, com_ViewerVote = '''', com_CanDelete = False\<rparr>"
| "dec_comment env (JObj kvs) =
     (case (dec_string (field ''id'' kvs), dec_string (field ''text'' kvs), dec_time env (field ''created_at'' kvs), dec_int (field ''up'' kvs),
            dec_int (field ''down'' kvs), dec_string (field ''viewer_vote'' kvs), dec_bool (field ''can_delete'' kvs)) of
        (Some i, Some t, Some at, Some up, Some down, Some vv, Some cd) \<Rightarrow>
          Some \<lparr>com_ID = i, com_Text = t, com_CreatedAt = at, com_Up = up, com_Down = down, com_ViewerVote = vv, com_CanDelete = cd\<rparr>
      | _ \<Rightarrow> None)"
| "dec_comment env _ = None"

text \<open>The schema \<open>persistedComments\<close>; \<open>None\<close> is a nil map.\<close>

record persistedComments =
  Threads :: "thread_map option"
  Votes :: "vote_map option"
  Authors :: "(string, string) gomap option"

definition dec_table :: "json \<Rightarrow> votes option" where
  "dec_table j = map_option (\<lambda>m. case m of None \<Rightarrow> [] | Some vs \<Rightarrow> vs) (dec_map dec_string j)"

fun as_persisted :: "comments_env \<Rightarrow> json \<Rightarrow> persistedComments option" where
  "as_persisted env JNull = Some \<lparr>Threads = None, Votes = None, Authors = None\<rparr>"
| "as_persisted env (JObj kvs) =
     (case (dec_map (dec_list (dec_comment env)) (field ''threads'' kvs),
            dec_map dec_table (field ''votes'' kvs),
            dec_map dec_string (field ''authors'' kvs)) of
        (Some t, Some v, Some a) \<Rightarrow> Some \<lparr>Threads = t, Votes = v, Authors = a\<rparr>
      | _ \<Rightarrow> None)"
| "as_persisted env _ = None"

definition marshalComments :: "comments_env \<Rightarrow> CommentsStore \<Rightarrow> json" where
  "marshalComments env s = JObj
     (omitempty (com_threads s = []) (''threads'', enc_map (enc_list (enc_comment env)) (com_threads s))
      @ omitempty (com_votes s = []) (''votes'', enc_map (enc_map JStr) (com_votes s))
      @ omitempty (com_authors s = []) (''authors'', enc_map JStr (com_authors s)))"

section \<open>Opening the store\<close>

fun checkComments :: "AppComment list \<Rightarrow> string list \<Rightarrow> comment_error + string list" where
  "checkComments [] ids = Inr ids"
| "checkComments (c # cs) ids =
     (if com_ID c = '''' \<or> com_ID c \<in> set ids \<or> IsZero (com_CreatedAt c) \<or> TrimSpace (com_Text c) = ''''
        \<or> RuneCountInString (com_Text c) > CommentMaxLength
      then Inl CommentStoredInvalid else checkComments cs (com_ID c # ids))"

fun checkThreads :: "thread_map \<Rightarrow> string list \<Rightarrow> comment_error + string list" where
  "checkThreads [] ids = Inr ids"
| "checkThreads ((identity, cs) # m) ids =
     (if identity = '''' \<or> length cs = 0 \<or> length cs > commentsMaxPerApp then Inl CommentThreadInvalid
      else case checkComments cs ids of Inl e \<Rightarrow> Inl e | Inr ids \<Rightarrow> checkThreads m ids)"

fun checkVotes :: "string list \<Rightarrow> vote_map \<Rightarrow> comment_error option" where
  "checkVotes ids [] = None"
| "checkVotes ids ((i, vs) # m) =
     (if i \<notin> set ids \<or> length vs > 1024 then Some CommentVotesInvalid
      else if \<exists>(voter, vote) \<in> set vs. voter = '''' \<or> vote \<noteq> VoteUp \<and> vote \<noteq> VoteDown then Some CommentVoteInvalid
      else checkVotes ids m)"

definition checkState :: "thread_map \<Rightarrow> vote_map \<Rightarrow> (string, string) gomap \<Rightarrow> comment_error option" where
  "checkState ths vs as =
     (case checkThreads ths [] of
        Inl e \<Rightarrow> Some e
      | Inr ids \<Rightarrow>
          if totalLen ths > commentsMaxTotal then Some CommentCapacity
          else case checkVotes ids vs of
              Some e \<Rightarrow> Some e
            | None \<Rightarrow>
                if totalLen vs > commentsMaxVotes then Some CommentCapacity
                else if \<exists>(i, h) \<in> set as. i \<notin> set ids \<or> h = '''' then Some CommentAuthorInvalid else None)"

text \<open>
  A document without threads is read as the older schema, the threads alone. The result is the
  threads (\<open>None\<close> is nil), the votes and the authors.
\<close>

definition loadComments :: "comments_env \<Rightarrow> json \<Rightarrow> (thread_map option \<times> vote_map \<times> (string, string) gomap) option" where
  "loadComments env raw =
     (let legacy = map_option (\<lambda>t. (t, [], [])) (dec_map (dec_list (dec_comment env)) raw) in
      case as_persisted env raw of
        None \<Rightarrow> legacy
      | Some p \<Rightarrow> if Threads p = None then legacy
          else Some (Threads p, case Votes p of None \<Rightarrow> [] | Some v \<Rightarrow> v, case Authors p of None \<Rightarrow> [] | Some a \<Rightarrow> a))"

text \<open>\<open>file\<close>: \<open>None\<close> when it cannot be read as JSON, \<open>Some None\<close> when it does not exist.\<close>

definition NewCommentsStore :: "comments_env \<Rightarrow> string \<Rightarrow> json option option \<Rightarrow> comment_error + CommentsStore" where
  "NewCommentsStore env path file =
     (if TrimSpace path = '''' then Inl CommentStorePathRequired
      else case file of
          None \<Rightarrow> Inl LoadComments
        | Some content \<Rightarrow>
            (case (case content of None \<Rightarrow> Some (Some [], [], []) | Some raw \<Rightarrow> loadComments env raw) of
               None \<Rightarrow> Inl LoadComments
             | Some (t, vs, as) \<Rightarrow>
                 let ths = (case t of None \<Rightarrow> [] | Some ths \<Rightarrow> ths) in
                 case checkState ths vs as of
                   Some e \<Rightarrow> Inl e
                 | None \<Rightarrow> Inr \<lparr>com_threads = ths, threads_nil = (t = None), com_votes = vs, com_authors = as,
                     com_limiter = NewSourceLimiter (com_ops env) 3 3 30 10, com_voteLimiter = NewSourceLimiter (com_ops env) 10 20 120 40\<rparr>))"

section \<open>Operations\<close>

definition AllowPost :: "comments_env \<Rightarrow> go_time \<Rightarrow> netip_addr \<Rightarrow> CommentsStore \<Rightarrow> duration \<times> CommentsStore" where
  "AllowPost env now source s =
     (case Allow (com_ops env) now source 1 (com_limiter s) of ((wait, _), l) \<Rightarrow> (wait, s\<lparr>com_limiter := l\<rparr>))"

definition AllowCommentVote :: "comments_env \<Rightarrow> go_time \<Rightarrow> netip_addr \<Rightarrow> CommentsStore \<Rightarrow> duration \<times> CommentsStore" where
  "AllowCommentVote env now source s =
     (case Allow (com_ops env) now source 1 (com_voteLimiter s) of ((wait, _), l) \<Rightarrow> (wait, s\<lparr>com_voteLimiter := l\<rparr>))"

definition enrichCommentLocked :: "CommentsStore \<Rightarrow> string \<Rightarrow> string \<Rightarrow> AppComment \<Rightarrow> AppComment" where
  "enrichCommentLocked s viewerHash authorHash c =
     (let vs = entry (com_votes s) (com_ID c)
      in c\<lparr>com_Up := int (length (filter (\<lambda>(_, v). v = VoteUp) vs)),
           com_Down := int (length (filter (\<lambda>(_, v). v = VoteDown) vs)),
           com_CanDelete := (authorHash \<noteq> '''' \<and> lookup (com_authors s) (com_ID c) = Some authorHash),
           com_ViewerVote := voteOf (Some vs) viewerHash\<rparr>)"

definition listLocked :: "string \<Rightarrow> string \<Rightarrow> string \<Rightarrow> CommentsStore \<Rightarrow> AppComment list" where
  "listLocked identity viewerHash authorHash s = map (enrichCommentLocked s viewerHash authorHash) (thread s identity)"

definition AddComment ::
  "string \<Rightarrow> string \<Rightarrow> string \<Rightarrow> string \<Rightarrow> string \<Rightarrow> go_time \<Rightarrow> bool \<Rightarrow> CommentsStore \<Rightarrow> (comment_error + AppComment list) \<times> CommentsStore" where
  "AddComment identity txt viewerHash authorHash newID now written s =
     (let txt = TrimSpace txt in
      if identity = '''' \<or> authorHash = '''' \<or> txt = '''' \<or> RuneCountInString txt > CommentMaxLength then (Inl CommentInvalid, s)
      else if totalLen (com_threads s) \<ge> commentsMaxTotal \<or> length (thread s identity) \<ge> commentsMaxPerApp then (Inl CommentCapacity, s)
      else if threads_nil s then (Inl NilMapPanic, s)
      else if \<not> written then (Inl PersistComment, s)
      else
        let comment = \<lparr>com_ID = newID, com_Text = txt, com_CreatedAt = now, com_Up = 0, com_Down = 0, com_ViewerVote = '''', com_CanDelete = False\<rparr>;
            s = s\<lparr>com_threads := put identity (thread s identity @ [comment]) (com_threads s), com_authors := put newID authorHash (com_authors s)\<rparr>
        in (Inr (listLocked identity viewerHash authorHash s), s))"

text \<open>\<open>slices.IndexFunc\<close> and \<open>slices.Delete\<close>: the first comment with the identifier goes.\<close>

fun removeComment :: "string \<Rightarrow> AppComment list \<Rightarrow> AppComment list option" where
  "removeComment i [] = None"
| "removeComment i (c # cs) = (if com_ID c = i then Some cs else map_option ((#) c) (removeComment i cs))"

definition DeleteComment ::
  "string \<Rightarrow> string \<Rightarrow> string \<Rightarrow> string \<Rightarrow> bool \<Rightarrow> CommentsStore \<Rightarrow> (comment_error + AppComment list) \<times> CommentsStore" where
  "DeleteComment identity i viewerHash authorHash written s =
     (if authorHash = '''' \<or> lookup (com_authors s) i \<noteq> Some authorHash then (Inl CommentNotFound, s)
      else case removeComment i (thread s identity) of
          None \<Rightarrow> (Inl CommentNotFound, s)
        | Some remaining \<Rightarrow>
            if \<not> written then (Inl PersistComment, s)
            else
              let s = s\<lparr>com_threads := (if length remaining = 0 then del identity (com_threads s) else put identity remaining (com_threads s)),
                        com_votes := del i (com_votes s), com_authors := del i (com_authors s)\<rparr>
              in (Inr (listLocked identity viewerHash authorHash s), s))"

definition VoteComment ::
  "string \<Rightarrow> string \<Rightarrow> string \<Rightarrow> string \<Rightarrow> string \<Rightarrow> bool \<Rightarrow> CommentsStore \<Rightarrow> (comment_error + AppComment list) \<times> CommentsStore" where
  "VoteComment identity i vote voterHash authorHash written s =
     (let vote = TrimSpace vote; previous = voteOf (lookup (com_votes s) i) voterHash;
          commentVotes = entry (com_votes s) i; exists = has_key commentVotes voterHash
      in if \<not> valid_vote vote then (Inl CommentVoteChoice, s)
         else if voterHash = '''' then (Inl CommentVoterRequired, s)
         else if i \<notin> com_ID ` set (thread s identity) then (Inl CommentNotFound, s)
         else if previous = vote \<or> vote = VoteClear \<and> previous = '''' then (Inr (listLocked identity voterHash authorHash s), s)
         else if vote \<noteq> VoteClear \<and> \<not> exists \<and> (length commentVotes \<ge> 1024 \<or> totalLen (com_votes s) \<ge> commentsMaxVotes) then (Inl CommentCapacity, s)
         else if \<not> written then (Inl PersistComment, s)
         else let s = s\<lparr>com_votes := applyVote i voterHash vote (com_votes s)\<rparr> in (Inr (listLocked identity voterHash authorHash s), s))"


section \<open>Sound states\<close>

definition comment_ids :: "thread_map \<Rightarrow> string list" where
  "comment_ids ths = concat (map (map com_ID \<circ> snd) ths)"

definition valid_comment :: "AppComment \<Rightarrow> bool" where
  "valid_comment c \<longleftrightarrow> com_ID c \<noteq> '''' \<and> \<not> IsZero (com_CreatedAt c) \<and> TrimSpace (com_Text c) \<noteq> '''' \<and> RuneCountInString (com_Text c) \<le> CommentMaxLength"

definition valid_thread :: "string \<times> AppComment list \<Rightarrow> bool" where
  "valid_thread e = (case e of (k, cs) \<Rightarrow> k \<noteq> '''' \<and> cs \<noteq> [] \<and> length cs \<le> commentsMaxPerApp \<and> (\<forall>c \<in> set cs. valid_comment c))"

definition valid_table :: "votes \<Rightarrow> bool" where
  "valid_table vs \<longleftrightarrow> length vs \<le> 1024 \<and> (\<forall>(voter, vote) \<in> set vs. voter \<noteq> '''' \<and> (vote = VoteUp \<or> vote = VoteDown))"

definition comments_ok :: "thread_map \<Rightarrow> vote_map \<Rightarrow> (string, string) gomap \<Rightarrow> bool" where
  "comments_ok ths vs as \<longleftrightarrow>
     (\<forall>e \<in> set ths. valid_thread e) \<and> distinct (comment_ids ths) \<and> totalLen ths \<le> commentsMaxTotal
     \<and> (\<forall>(i, t) \<in> set vs. i \<in> set (comment_ids ths) \<and> valid_table t) \<and> totalLen vs \<le> commentsMaxVotes
     \<and> (\<forall>(i, h) \<in> set as. i \<in> set (comment_ids ths) \<and> h \<noteq> '''')"

lemma comment_ids_simps [simp]: "comment_ids [] = []" "comment_ids ((k, cs) # m) = map com_ID cs @ comment_ids m"
  by (simp_all add: comment_ids_def)

lemma checkComments_iff:
  "checkComments cs ids = Inr ids' \<longleftrightarrow>
     (\<forall>c \<in> set cs. valid_comment c) \<and> distinct (map com_ID cs) \<and> com_ID ` set cs \<inter> set ids = {} \<and> ids' = rev (map com_ID cs) @ ids"
  by (induction cs arbitrary: ids) (auto simp: valid_comment_def not_less)

lemma checkThreads_iff:
  "checkThreads m ids = Inr ids' \<longleftrightarrow>
     (\<forall>e \<in> set m. valid_thread e) \<and> distinct (comment_ids m) \<and> set (comment_ids m) \<inter> set ids = {} \<and> ids' = rev (comment_ids m) @ ids"
proof (induction m arbitrary: ids)
  case (Cons e m)
  obtain k cs where e: "e = (k, cs)" by (cases e)
  show ?case
  proof (cases "checkComments cs ids")
    case (Inl err)
    then have "\<not> ((\<forall>c \<in> set cs. valid_comment c) \<and> distinct (map com_ID cs) \<and> com_ID ` set cs \<inter> set ids = {})"
      using checkComments_iff [of cs ids "rev (map com_ID cs) @ ids"] by auto
    with Inl show ?thesis by (auto simp: e valid_thread_def)
  next
    case (Inr ids'')
    then have "(\<forall>c \<in> set cs. valid_comment c) \<and> distinct (map com_ID cs) \<and> com_ID ` set cs \<inter> set ids = {} \<and> ids'' = rev (map com_ID cs) @ ids"
      by (simp add: checkComments_iff)
    with Inr Cons.IH [of ids''] show ?thesis by (auto simp: e valid_thread_def not_less)
  qed
qed auto

lemma checkVotes_iff:
  "checkVotes ids m = None \<longleftrightarrow> (\<forall>(i, t) \<in> set m. i \<in> set ids \<and> valid_table t)"
  by (induction ids m rule: checkVotes.induct) (auto simp: valid_table_def not_less case_prod_unfold)

lemma checkState_iff: "checkState ths vs as = None \<longleftrightarrow> comments_ok ths vs as"
proof (cases "checkThreads ths []")
  case (Inl e)
  then have "\<not> ((\<forall>e \<in> set ths. valid_thread e) \<and> distinct (comment_ids ths))"
    using checkThreads_iff [of ths "[]" "rev (comment_ids ths)"] by auto
  then show ?thesis using Inl by (simp add: checkState_def comments_ok_def) blast
next
  case (Inr ids)
  then have "(\<forall>e \<in> set ths. valid_thread e) \<and> distinct (comment_ids ths) \<and> set ids = set (comment_ids ths)" by (auto simp: checkThreads_iff)
  with Inr checkVotes_iff [of ids vs] show ?thesis
    by (auto simp: checkState_def comments_ok_def not_less split: option.splits)
qed


section \<open>The file round trip\<close>

text \<open>A comment that can be written and read back: its time has a text, its counters fit an \<open>int\<close>.\<close>

definition storable :: "comments_env \<Rightarrow> AppComment \<Rightarrow> bool" where
  "storable env c \<longleftrightarrow> parseTime env (formatTime env (com_CreatedAt c)) = Some (com_CreatedAt c) \<and> int64 (com_Up c) \<and> int64 (com_Down c)"

lemma lower_names:
  "ToLower ''id'' = ''id''" "ToLower ''text'' = ''text''" "ToLower ''created_at'' = ''created_at''" "ToLower ''up'' = ''up''" "ToLower ''down'' = ''down''"
  "ToLower ''viewer_vote'' = ''viewer_vote''" "ToLower ''can_delete'' = ''can_delete''"
  "ToLower ''threads'' = ''threads''" "ToLower ''votes'' = ''votes''" "ToLower ''authors'' = ''authors''"
  by code_simp+

interpretation json_comment: json_codec "enc_comment env" "dec_comment env" "storable env" for env
proof unfold_locales
  show "storable env c \<Longrightarrow> dec_comment env (enc_comment env c) = Some c" for c
    by (cases c) (auto simp: enc_comment_def storable_def field_def omitempty_def lower_names)
qed

interpretation json_thread: json_codec "enc_list (enc_comment env)" "dec_list (dec_comment env)" "\<lambda>cs. \<forall>c \<in> set cs. storable env c" for env
  by unfold_locales (simp add: json_comment.list_roundtrip)

interpretation json_table: json_codec "enc_map JStr" dec_table wf_map
  by unfold_locales (simp add: dec_table_def json_string.map_roundtrip)

definition comments_inv :: "comments_env \<Rightarrow> CommentsStore \<Rightarrow> bool" where
  "comments_inv env s \<longleftrightarrow>
     comments_ok (com_threads s) (com_votes s) (com_authors s)
     \<and> wf_map (com_threads s) \<and> wf_map (com_votes s) \<and> wf_map (com_authors s) \<and> (\<forall>(i, t) \<in> set (com_votes s). wf_map t)
     \<and> (\<forall>(k, cs) \<in> set (com_threads s). \<forall>c \<in> set cs. storable env c)
     \<and> limiter_inv (com_limiter s) \<and> limiter_inv (com_voteLimiter s) \<and> (threads_nil s \<longrightarrow> com_threads s = [])"

lemma empty_threads: "comments_ok [] vs as \<longleftrightarrow> vs = [] \<and> as = []"
  by (cases vs; cases as) (auto simp: comments_ok_def totalLen_def)

lemma load_marshal:
  assumes "comments_inv env s"
  shows "loadComments env (marshalComments env s) = Some (Some (com_threads s), com_votes s, com_authors s)"
proof (cases "com_threads s = []")
  case True
  with assms have "com_votes s = []" "com_authors s = []" by (simp_all add: comments_inv_def empty_threads)
  with True show ?thesis by (simp add: loadComments_def marshalComments_def omitempty_def field_def from_members_def)
next
  case False
  from assms have t: "dec_map (dec_list (dec_comment env)) (enc_map (enc_list (enc_comment env)) (com_threads s)) = Some (Some (com_threads s))"
    by (intro json_thread.map_roundtrip) (auto simp: comments_inv_def)
  from assms have v: "dec_map dec_table (enc_map (enc_map JStr) (com_votes s)) = Some (Some (com_votes s))"
    by (intro json_table.map_roundtrip) (auto simp: comments_inv_def)
  from assms have a: "dec_map dec_string (enc_map JStr (com_authors s)) = Some (Some (com_authors s))"
    by (intro json_string.map_roundtrip) (auto simp: comments_inv_def)
  from False t v a show ?thesis
    by (auto simp: loadComments_def marshalComments_def omitempty_def field_def lower_names)
qed


section \<open>Replacing one entry of a map of lists\<close>

definition setEntry :: "'k \<Rightarrow> 'v list \<Rightarrow> ('k, 'v list) gomap \<Rightarrow> ('k, 'v list) gomap" where
  "setEntry k xs m = (if xs = [] then del k m else put k xs m)"

lemma entry_split:
  assumes "wf_map m"
  shows "totalLen m = length (entry m k) + totalLen (del k m)"
    and "mset (concat (map snd m)) = mset (entry m k) + mset (concat (map snd (del k m)))"
proof -
  have t: "totalLen m = (\<Sum>e\<in>#mset m. length (snd e))" for m :: "('a \<times> 'b list) list"
    unfolding totalLen_def by (induction m) auto
  have c: "mset (concat (map snd m)) = (\<Sum>e\<in>#mset m. mset (snd e))" for m :: "('a \<times> 'b list) list"
    by (induction m) auto
  have "totalLen m = length (entry m k) + totalLen (del k m)
      \<and> mset (concat (map snd m)) = mset (entry m k) + mset (concat (map snd (del k m)))"
  proof (cases "lookup m k")
    case None
    then have "del k m = m" by (simp add: map_of_eq_None_iff delete_id)
    with None show ?thesis by (simp add: entry_def)
  next
    case (Some xs)
    with mset_del [OF assms Some] show ?thesis unfolding t c by (simp add: entry_def)
  qed
  then show "totalLen m = length (entry m k) + totalLen (del k m)"
      "mset (concat (map snd m)) = mset (entry m k) + mset (concat (map snd (del k m)))" by blast+
qed

lemma setEntry_split:
  assumes "wf_map m"
  shows "totalLen (setEntry k xs m) = length xs + totalLen (del k m)"
    and "mset (concat (map snd (setEntry k xs m))) = mset xs + mset (concat (map snd (del k m)))"
    and "wf_map (setEntry k xs m)"
    and "e \<in> set (setEntry k xs m) \<Longrightarrow> e = (k, xs) \<and> xs \<noteq> [] \<or> e \<in> set m \<and> fst e \<noteq> k"
  using entry_split [OF wf_map_put [OF assms, of k xs], of k] assms
  by (auto simp: setEntry_def entry_def delete_update_same set_put set_del split: if_splits)

lemma entry_setEntry: "entry (setEntry k xs m) j = (if j = k then xs else entry m j)"
  by (auto simp: setEntry_def entry_def)

lemma entry_member: "x \<in> set (entry m k) \<longleftrightarrow> (\<exists>xs. lookup m k = Some xs \<and> x \<in> set xs)"
  by (cases "lookup m k") (auto simp: entry_def)

lemma entry_in: "entry m k \<noteq> [] \<Longrightarrow> (k, entry m k) \<in> set m"
  by (auto simp: entry_def dest: map_of_SomeD split: option.splits)

lemma ids_concat: "comment_ids m = map com_ID (concat (map snd m))"
  by (simp add: comment_ids_def map_concat comp_def)

lemma ids_member: "c \<in> set (entry m k) \<Longrightarrow> com_ID c \<in> set (comment_ids m)"
  unfolding ids_concat entry_member using map_of_SomeD by fastforce

lemma mset_ids_split:
  "wf_map m \<Longrightarrow> mset (comment_ids m) = mset (map com_ID (entry m k)) + mset (comment_ids (del k m))"
  "wf_map m \<Longrightarrow> mset (comment_ids (setEntry k cs m)) = mset (map com_ID cs) + mset (comment_ids (del k m))"
  by (simp_all add: ids_concat entry_split(2) [of m k] setEntry_split(2) del: mset_concat)

lemma ids_setEntry_add:
  assumes "wf_map m"
  shows "mset (comment_ids (setEntry k (entry m k @ [c]) m)) = add_mset (com_ID c) (mset (comment_ids m))"
  using mset_ids_split [OF assms, of k] by simp

lemma removeComment_Some:
  "removeComment i cs = Some rem \<Longrightarrow> mset (map com_ID cs) = add_mset i (mset (map com_ID rem)) \<and> set rem \<subseteq> set cs \<and> length cs = Suc (length rem)"
  by (induction cs arbitrary: rem) (auto split: if_splits)

lemma removeComment_None: "removeComment i cs = None \<longleftrightarrow> i \<notin> com_ID ` set cs"
  by (induction cs) auto

lemma removeComment_keeps: "removeComment i cs = Some rem \<Longrightarrow> c \<in> set cs \<Longrightarrow> com_ID c \<noteq> i \<Longrightarrow> c \<in> set rem"
  by (induction cs arbitrary: rem) (auto split: if_splits)

lemma ids_setEntry_remove:
  assumes "wf_map m" "removeComment i (entry m k) = Some rem"
  shows "mset (comment_ids m) = add_mset i (mset (comment_ids (setEntry k rem m)))"
  using mset_ids_split [OF assms(1), of k] removeComment_Some [OF assms(2)] by simp

lemma applyVote_setEntry:
  "applyVote i h vote m = setEntry i (if vote = VoteClear then del h (entry m i) else put h vote (entry m i)) m"
proof -
  have "put h vote vs \<noteq> []" for vs :: votes by (metis has_key_Nil has_key_put)
  then show ?thesis by (simp add: applyVote_def setEntry_def entry_def Let_def)
qed


section \<open>Operations keep a state sound\<close>

lemma AddComment_cases:
  assumes "AddComment identity txt viewer author newID now written s = (r, s')"
  obtains (same) "s' = s" "\<exists>e. r = Inl e"
  | (added) c where "s' = s\<lparr>com_threads := setEntry identity (entry (com_threads s) identity @ [c]) (com_threads s), com_authors := put newID author (com_authors s)\<rparr>"
      "c = \<lparr>com_ID = newID, com_Text = TrimSpace txt, com_CreatedAt = now, com_Up = 0, com_Down = 0, com_ViewerVote = '''', com_CanDelete = False\<rparr>"
      "identity \<noteq> ''''" "author \<noteq> ''''" "TrimSpace txt \<noteq> ''''" "RuneCountInString (TrimSpace txt) \<le> CommentMaxLength"
      "totalLen (com_threads s) < commentsMaxTotal" "length (entry (com_threads s) identity) < commentsMaxPerApp" "\<not> threads_nil s"
      "r = Inr (listLocked identity viewer author s')"
  using assms by (auto simp: AddComment_def Let_def setEntry_def not_less not_le split: if_splits)

lemma DeleteComment_cases:
  assumes "DeleteComment identity i viewer author written s = (r, s')"
  obtains (same) "s' = s" "\<exists>e. r = Inl e"
  | (deleted) rem where "s' = s\<lparr>com_threads := setEntry identity rem (com_threads s), com_votes := del i (com_votes s), com_authors := del i (com_authors s)\<rparr>"
      "removeComment i (entry (com_threads s) identity) = Some rem" "author \<noteq> ''''" "lookup (com_authors s) i = Some author"
      "r = Inr (listLocked identity viewer author s')"
proof (cases "author = '''' \<or> lookup (com_authors s) i \<noteq> Some author \<or> removeComment i (entry (com_threads s) identity) = None \<or> \<not> written")
  case True
  with assms have "s' = s \<and> (\<exists>e. r = Inl e)"
    by (cases "removeComment i (entry (com_threads s) identity)") (auto simp: DeleteComment_def split: if_splits)
  then show thesis by (intro same) simp_all
next
  case False
  then obtain rem where "removeComment i (entry (com_threads s) identity) = Some rem" by auto
  with False assms show thesis by (intro deleted) (auto simp: DeleteComment_def Let_def setEntry_def)
qed

lemma VoteComment_cases:
  assumes "VoteComment identity i vote voter author written s = (r, s')"
  obtains (same) "s' = s"
  | (voted) t where "s' = s\<lparr>com_votes := setEntry i t (com_votes s)\<rparr>"
      "t = (if TrimSpace vote = VoteClear then del voter (entry (com_votes s) i) else put voter (TrimSpace vote) (entry (com_votes s) i))"
      "valid_vote (TrimSpace vote)" "voter \<noteq> ''''" "i \<in> com_ID ` set (entry (com_threads s) identity)"
      "TrimSpace vote \<noteq> VoteClear \<Longrightarrow> has_key (entry (com_votes s) i) voter \<or> length (entry (com_votes s) i) < 1024 \<and> totalLen (com_votes s) < commentsMaxVotes"
proof -
  have "s' = s \<or> valid_vote (TrimSpace vote) \<and> voter \<noteq> '''' \<and> i \<in> com_ID ` set (entry (com_threads s) identity)
      \<and> \<not> (TrimSpace vote \<noteq> VoteClear \<and> \<not> has_key (entry (com_votes s) i) voter
           \<and> (length (entry (com_votes s) i) \<ge> 1024 \<or> totalLen (com_votes s) \<ge> commentsMaxVotes))
      \<and> s' = s\<lparr>com_votes := applyVote i voter (TrimSpace vote) (com_votes s)\<rparr>"
    using assms unfolding VoteComment_def Let_def by (simp split: if_splits)
  then show thesis
  proof
    assume "s' = s"
    then show thesis by (rule same)
  next
    assume v: "valid_vote (TrimSpace vote) \<and> voter \<noteq> '''' \<and> i \<in> com_ID ` set (entry (com_threads s) identity)
      \<and> \<not> (TrimSpace vote \<noteq> VoteClear \<and> \<not> has_key (entry (com_votes s) i) voter
           \<and> (length (entry (com_votes s) i) \<ge> 1024 \<or> totalLen (com_votes s) \<ge> commentsMaxVotes))
      \<and> s' = s\<lparr>com_votes := applyVote i voter (TrimSpace vote) (com_votes s)\<rparr>"
    show thesis by (rule voted [OF _ refl]) (use v in \<open>auto simp: applyVote_setEntry\<close>)
  qed
qed

lemma set_mset_ids: "mset xs = add_mset a (mset ys) \<Longrightarrow> set xs = insert a (set ys)"
  by (metis set_mset_add_mset_insert set_mset_mset)

lemma distinct_add: "mset xs = add_mset a (mset ys) \<Longrightarrow> distinct xs \<longleftrightarrow> a \<notin> set ys \<and> distinct ys"
  by (metis distinct.simps(2) mset.simps(2) mset_eq_imp_distinct_iff)

lemma inv_comment:
  assumes "comments_inv env s" "c \<in> set (entry (com_threads s) k)"
  shows "valid_comment c" "storable env c"
proof -
  from assms(2) obtain cs where "(k, cs) \<in> set (com_threads s)" "c \<in> set cs" by (auto simp: entry_member dest: map_of_SomeD)
  with assms(1) show "valid_comment c" "storable env c" by (fastforce simp: comments_inv_def comments_ok_def valid_thread_def)+
qed

lemma threads_setEntry:
  assumes inv: "comments_inv env s" and e: "e \<in> set (setEntry k xs (com_threads s))"
    and k: "k \<noteq> ''''" "length xs \<le> commentsMaxPerApp" "\<And>c. c \<in> set xs \<Longrightarrow> valid_comment c \<and> storable env c"
  shows "valid_thread e \<and> (\<forall>c \<in> set (snd e). storable env c)"
proof -
  from inv have "wf_map (com_threads s)" by (simp add: comments_inv_def)
  from setEntry_split(4) [OF this e] show ?thesis
  proof
    assume "e = (k, xs) \<and> xs \<noteq> []"
    with k show ?thesis by (simp add: valid_thread_def)
  next
    assume "e \<in> set (com_threads s) \<and> fst e \<noteq> k"
    with inv show ?thesis by (auto simp: comments_inv_def comments_ok_def)
  qed
qed

lemma AddComment_inv:
  assumes inv: "comments_inv env s" and newID: "newID \<noteq> ''''" "newID \<notin> set (comment_ids (com_threads s))"
    and now: "now \<noteq> 0" "parseTime env (formatTime env now) = Some now"
  shows "comments_inv env (snd (AddComment identity txt viewer author newID now written s))"
proof -
  let ?m = "com_threads s"
  obtain r s' where a: "AddComment identity txt viewer author newID now written s = (r, s')" by fastforce
  from a show ?thesis
  proof (cases rule: AddComment_cases)
    case (added c)
    have wf: "wf_map ?m" using inv by (simp add: comments_inv_def)
    have c: "valid_comment c" "storable env c" "com_ID c = newID"
      using added(2,5,6) newID now by (simp_all add: valid_comment_def storable_def int64_def)
    note ids = ids_setEntry_add [OF wf, of identity c, unfolded c]
    note set_ids = set_mset_ids [OF ids]
    have "e \<in> set (setEntry identity (entry ?m identity @ [c]) ?m) \<Longrightarrow> valid_thread e \<and> (\<forall>c \<in> set (snd e). storable env c)" for e
      by (erule threads_setEntry [OF inv]) (use c inv_comment [OF inv] added(3,8) in auto)
    moreover have "totalLen (setEntry identity (entry ?m identity @ [c]) ?m) \<le> commentsMaxTotal"
      using entry_split(1) [OF wf, of identity] added(7) by (simp add: setEntry_split(1) [OF wf])
    moreover have "distinct (comment_ids (setEntry identity (entry ?m identity @ [c]) ?m))"
      using inv newID(2) by (simp add: distinct_add [OF ids] comments_inv_def comments_ok_def)
    ultimately show ?thesis using inv added(1,4,9) a set_ids setEntry_split(3) [OF wf]
      by (auto simp: comments_inv_def comments_ok_def set_put)
  qed (use inv a in simp)
qed


lemma DeleteComment_inv:
  assumes inv: "comments_inv env s"
  shows "comments_inv env (snd (DeleteComment identity i viewer author written s))"
proof -
  let ?m = "com_threads s"
  obtain r s' where d: "DeleteComment identity i viewer author written s = (r, s')" by fastforce
  from d show ?thesis
  proof (cases rule: DeleteComment_cases)
    case (deleted rem)
    have wf: "wf_map ?m" using inv by (simp add: comments_inv_def)
    note rem = removeComment_Some [OF deleted(2)]
    note ids = ids_setEntry_remove [OF wf deleted(2)]
    have "(identity, entry ?m identity) \<in> set ?m" using rem by (intro entry_in) auto
    then have k: "identity \<noteq> ''''" "length (entry ?m identity) \<le> commentsMaxPerApp"
      using inv by (auto simp: comments_inv_def comments_ok_def valid_thread_def)
    have "e \<in> set (setEntry identity rem ?m) \<Longrightarrow> valid_thread e \<and> (\<forall>c \<in> set (snd e). storable env c)" for e
      by (erule threads_setEntry [OF inv]) (use rem inv_comment [OF inv] k in auto)
    moreover have "totalLen (setEntry identity rem ?m) \<le> commentsMaxTotal"
      using entry_split(1) [OF wf, of identity] rem inv by (simp add: setEntry_split(1) [OF wf] comments_inv_def comments_ok_def)
    moreover have "distinct (comment_ids (setEntry identity rem ?m))" "i \<notin> set (comment_ids (setEntry identity rem ?m))"
      using inv by (simp_all add: distinct_add [OF ids] comments_inv_def comments_ok_def)
    moreover have "totalLen (del i (com_votes s)) \<le> commentsMaxVotes"
      using inv entry_split(1) [of "com_votes s" i] by (simp add: comments_inv_def comments_ok_def)
    ultimately show ?thesis using inv deleted(1) d set_mset_ids [OF ids] setEntry_split(3) [OF wf, of identity rem] rem
      by (auto simp: comments_inv_def comments_ok_def set_del setEntry_def)
  qed (use inv d in simp)
qed

lemma valid_table_update:
  assumes "valid_table vs" "wf_map vs" "valid_vote vote" "voter \<noteq> ''''" "vote \<noteq> VoteClear \<Longrightarrow> has_key vs voter \<or> length vs < 1024"
    and t: "t = (if vote = VoteClear then del voter vs else put voter vote vs)"
  shows "valid_table t \<and> wf_map t"
  using assms length_del_le [of voter vs]
  by (auto simp: valid_table_def valid_vote_def set_del set_put length_put split: if_splits)

lemma VoteComment_inv:
  assumes inv: "comments_inv env s"
  shows "comments_inv env (snd (VoteComment identity i vote voter author written s))"
proof -
  let ?m = "com_votes s"
  obtain r s' where v: "VoteComment identity i vote voter author written s = (r, s')" by fastforce
  from v show ?thesis
  proof (cases rule: VoteComment_cases)
    case (voted t)
    have wf: "wf_map ?m" using inv by (simp add: comments_inv_def)
    have old: "valid_table (entry ?m i)" "wf_map (entry ?m i)"
      using inv entry_in [of ?m i] by (cases "entry ?m i = []"; auto simp: comments_inv_def comments_ok_def valid_table_def)+
    then have t: "valid_table t \<and> wf_map t" by (rule valid_table_update) (use voted(2-4,6) in auto)
    have "length t \<le> length (entry ?m i) + (if TrimSpace vote = VoteClear \<or> has_key (entry ?m i) voter then 0 else 1)"
      using old length_del_le [of voter "entry ?m i"] by (simp add: voted(2) length_put)
    then have total: "totalLen (setEntry i t ?m) \<le> commentsMaxVotes"
      using inv voted(6) entry_split(1) [OF wf, of i] by (auto simp: setEntry_split(1) [OF wf] comments_inv_def comments_ok_def split: if_splits)
    have "fst e \<in> set (comment_ids (com_threads s)) \<and> valid_table (snd e) \<and> wf_map (snd e)" if "e \<in> set (setEntry i t ?m)" for e
      using setEntry_split(4) [OF wf that]
    proof
      assume "e = (i, t) \<and> t \<noteq> []"
      with voted(5) ids_member t show ?thesis by auto
    next
      assume "e \<in> set ?m \<and> fst e \<noteq> i"
      with inv show ?thesis by (auto simp: comments_inv_def comments_ok_def)
    qed
    then have "\<forall>(j, t) \<in> set (setEntry i t ?m). j \<in> set (comment_ids (com_threads s)) \<and> valid_table t" "\<forall>(j, t) \<in> set (setEntry i t ?m). wf_map t" by auto
    with total show ?thesis using inv voted(1) v setEntry_split(3) [OF wf, of i t]
      by (simp add: comments_inv_def comments_ok_def)
  qed (use inv v in simp)
qed


section \<open>Reachable states\<close>

text \<open>What the parser of times yields can be written and read back.\<close>

definition times_stable :: "comments_env \<Rightarrow> bool" where
  "times_stable env \<longleftrightarrow> (\<forall>t x. parseTime env t = Some x \<longrightarrow> parseTime env (formatTime env x) = Some x)"

lemma sequence_member: "sequence (map f xs) = Some ys \<Longrightarrow> y \<in> set ys \<Longrightarrow> \<exists>x \<in> set xs. f x = Some y"
  by (induction xs arbitrary: ys) (auto split: option.splits)

lemma from_members_subset: "set (from_members kvs) \<subseteq> set kvs"
proof -
  have "wf_map acc \<Longrightarrow> set (fold (\<lambda>(k, v). put k v) kvs acc) \<subseteq> set acc \<union> set kvs" for acc
  proof (induction kvs arbitrary: acc)
    case (Cons e kvs)
    obtain k v where e: "e = (k, v)" by (cases e)
    have "set (put k v acc) \<subseteq> insert e (set acc)" using Cons.prems by (auto simp: set_put e)
    with Cons.IH [OF wf_map_put [OF Cons.prems], of k v] show ?case by (auto simp: e)
  qed simp
  from this [of "[]"] show ?thesis by (simp add: from_members_def)
qed

lemma dec_map_member:
  assumes "dec_map dec j = Some (Some m)" "(k, x) \<in> set m"
  shows "\<exists>j. dec j = Some x"
proof (cases j)
  case (JObj kvs)
  with assms(1) obtain vs where vs: "sequence (map (dec \<circ> snd) kvs) = Some vs" "m = from_members (zip (map fst kvs) vs)" by auto
  with assms(2) from_members_subset have "(k, x) \<in> set (zip (map fst kvs) vs)" by blast
  then have "x \<in> set vs" by (rule set_zip_rightD)
  with sequence_member [OF vs(1)] show ?thesis by auto
qed (use assms in auto)

lemma dec_list_member: "dec_list dec j = Some xs \<Longrightarrow> x \<in> set xs \<Longrightarrow> \<exists>j. dec j = Some x"
  by (cases j) (auto dest: sequence_member)

lemma dec_comment_storable:
  assumes "times_stable env" "dec_comment env j = Some c" "com_CreatedAt c \<noteq> 0"
  shows "storable env c"
proof -
  have i: "dec_int j = Some n \<Longrightarrow> int64 n" for j n by (cases j) (auto simp: int64_def split: if_splits)
  have t: "dec_time env j = Some x \<Longrightarrow> x \<noteq> 0 \<Longrightarrow> parseTime env (formatTime env x) = Some x" for j x
    using assms(1) by (cases j) (auto simp: times_stable_def)
  show ?thesis
    using assms(2,3) i t by (cases j) (auto simp: storable_def split: option.splits)
qed

lemma as_persisted_parts:
  assumes "as_persisted env raw = Some p"
  shows "(\<exists>j. dec_map (dec_list (dec_comment env)) j = Some (Threads p)) \<and> (\<exists>j. dec_map dec_table j = Some (Votes p)) \<and> (\<exists>j. dec_map dec_string j = Some (Authors p))"
  using assms by (cases raw) (auto split: option.splits intro: exI [of _ JNull])

lemma load_parts:
  assumes "loadComments env raw = Some (t, vs, as)"
  shows "(\<exists>j. dec_map (dec_list (dec_comment env)) j = Some t) \<and> (vs = [] \<or> (\<exists>j. dec_map dec_table j = Some (Some vs)))
    \<and> (as = [] \<or> (\<exists>j. dec_map dec_string j = Some (Some as)))"
proof (cases "\<exists>p. as_persisted env raw = Some p \<and> Threads p \<noteq> None")
  case True
  then obtain p where p: "as_persisted env raw = Some p" "Threads p \<noteq> None" by blast
  with assms have "t = Threads p" "vs = (case Votes p of None \<Rightarrow> [] | Some v \<Rightarrow> v)" "as = (case Authors p of None \<Rightarrow> [] | Some a \<Rightarrow> a)"
    by (auto simp: loadComments_def)
  with as_persisted_parts [OF p(1)] show ?thesis by (cases "Votes p"; cases "Authors p") auto
next
  case False
  with assms show ?thesis by (auto simp: loadComments_def Let_def split: option.splits if_splits)
qed

lemma load_sound:
  assumes "loadComments env raw = Some (t, vs, as)"
  shows "\<exists>j. dec_map (dec_list (dec_comment env)) j = Some t" "wf_map vs" "\<forall>(i, t) \<in> set vs. wf_map t" "wf_map as"
proof -
  have tab: "dec_table j = Some x \<Longrightarrow> wf_map x" for j x by (auto simp: dec_table_def dest: dec_map_wf split: option.splits)
  note parts = load_parts [OF assms]
  then show "\<exists>j. dec_map (dec_list (dec_comment env)) j = Some t" by blast
  from parts show "wf_map vs" "wf_map as" by (auto dest: dec_map_wf)
  from parts show "\<forall>(i, t) \<in> set vs. wf_map t" by (auto dest!: dec_map_member tab)
qed

lemma New_inv:
  assumes env: "times_stable env" and new: "NewCommentsStore env path file = Inr s"
  shows "comments_inv env s"
proof -
  define l where "l = (case file of Some (Some raw) \<Rightarrow> loadComments env raw | _ \<Rightarrow> Some (Some [], [], []))"
  obtain t vs as where l: "l = Some (t, vs, as)"
    using new by (cases l) (auto simp: l_def NewCommentsStore_def split: option.splits if_splits)
  then have load: "t = Some [] \<and> vs = [] \<and> as = [] \<or> (\<exists>raw. loadComments env raw = Some (t, vs, as))"
    by (auto simp: l_def split: option.splits)
  have "checkState (case t of None \<Rightarrow> [] | Some ths \<Rightarrow> ths) vs as = None \<and> s = \<lparr>com_threads = (case t of None \<Rightarrow> [] | Some ths \<Rightarrow> ths), threads_nil = (t = None),
      com_votes = vs, com_authors = as, com_limiter = NewSourceLimiter (com_ops env) 3 3 30 10, com_voteLimiter = NewSourceLimiter (com_ops env) 10 20 120 40\<rparr>"
    using new l by (auto simp: l_def NewCommentsStore_def Let_def split: option.splits if_splits)
  then have ok: "checkState (com_threads s) vs as = None" and s: "com_threads s = (case t of None \<Rightarrow> [] | Some ths \<Rightarrow> ths)" "threads_nil s \<longleftrightarrow> t = None"
      "com_votes s = vs" "com_authors s = as" "limiter_inv (com_limiter s)" "limiter_inv (com_voteLimiter s)"
    by (simp_all add: limiter_inv_new)
  have sound: "com_threads s = [] \<or> (\<exists>j. dec_map (dec_list (dec_comment env)) j = Some (Some (com_threads s)))"
    using load load_sound(1) by (cases t) (auto simp: s)
  have wf: "wf_map vs" "\<forall>(i, t) \<in> set vs. wf_map t" "wf_map as"
    using load by (elim disjE exE; simp add: load_sound)+
  have "wf_map (com_threads s)" using sound dec_map_wf by auto
  moreover have "storable env c" if "(k, cs) \<in> set (com_threads s)" "c \<in> set cs" for k cs c
  proof -
    from that sound obtain j where "dec_comment env j = Some c" by (auto dest!: dec_map_member dec_list_member)
    moreover from that ok have "com_CreatedAt c \<noteq> 0" by (auto simp: checkState_iff comments_ok_def valid_thread_def valid_comment_def)
    ultimately show ?thesis using dec_comment_storable [OF env] by blast
  qed
  ultimately show ?thesis using ok s wf by (auto simp: comments_inv_def checkState_iff)
qed


text \<open>
  The requests of clients as operations on the store. \<open>rand.Text\<close> yields an identifier no comment
  has, and the clock an instant that can be written.
\<close>

datatype comment_op =
  AddOp string string string string string go_time bool
| DeleteOp (op_identity: string) (op_id: string) (op_viewer: string) (op_author: string) (op_written: bool)
| VoteOp string string string string string bool
| PostBudget go_time netip_addr
| VoteBudget go_time netip_addr

fun comment_apply :: "comments_env \<Rightarrow> comment_op \<Rightarrow> CommentsStore \<Rightarrow> CommentsStore" where
  "comment_apply env (AddOp identity txt viewer author newID now written) s = snd (AddComment identity txt viewer author newID now written s)"
| "comment_apply env (DeleteOp identity i viewer author written) s = snd (DeleteComment identity i viewer author written s)"
| "comment_apply env (VoteOp identity i vote voter author written) s = snd (VoteComment identity i vote voter author written s)"
| "comment_apply env (PostBudget now source) s = snd (AllowPost env now source s)"
| "comment_apply env (VoteBudget now source) s = snd (AllowCommentVote env now source s)"

fun op_guard :: "comments_env \<Rightarrow> comment_op \<Rightarrow> CommentsStore \<Rightarrow> bool" where
  "op_guard env (AddOp identity txt viewer author newID now written) s \<longleftrightarrow>
     newID \<noteq> '''' \<and> newID \<notin> set (comment_ids (com_threads s)) \<and> now \<noteq> 0 \<and> parseTime env (formatTime env now) = Some now"
| "op_guard env _ s \<longleftrightarrow> True"

inductive comments_run :: "comments_env \<Rightarrow> CommentsStore \<Rightarrow> comment_op list \<Rightarrow> CommentsStore \<Rightarrow> bool" for env where
  run_nil: "comments_run env s [] s"
| run_cons: "op_guard env e s \<Longrightarrow> comments_run env (comment_apply env e s) es s' \<Longrightarrow> comments_run env s (e # es) s'"

inductive_cases run_consE: "comments_run env s (e # es) s'"

inductive comments_reach :: "comments_env \<Rightarrow> CommentsStore \<Rightarrow> bool" for env where
  reach_open: "NewCommentsStore env path file = Inr s \<Longrightarrow> comments_run env s es s' \<Longrightarrow> comments_reach env s'"

lemma budget_frame:
  "com_threads (snd (AllowPost env now source s)) = com_threads s" "com_votes (snd (AllowPost env now source s)) = com_votes s"
  "com_authors (snd (AllowPost env now source s)) = com_authors s" "threads_nil (snd (AllowPost env now source s)) = threads_nil s"
  "com_voteLimiter (snd (AllowPost env now source s)) = com_voteLimiter s" "com_limiter (snd (AllowPost env now source s)) = snd (Allow (com_ops env) now source 1 (com_limiter s))"
  "com_threads (snd (AllowCommentVote env now source s)) = com_threads s" "com_votes (snd (AllowCommentVote env now source s)) = com_votes s"
  "com_authors (snd (AllowCommentVote env now source s)) = com_authors s" "threads_nil (snd (AllowCommentVote env now source s)) = threads_nil s"
  "com_limiter (snd (AllowCommentVote env now source s)) = com_limiter s"
  "com_voteLimiter (snd (AllowCommentVote env now source s)) = snd (Allow (com_ops env) now source 1 (com_voteLimiter s))"
  by (auto simp: AllowPost_def AllowCommentVote_def split: prod.splits)

lemma comment_apply_inv: "comments_inv env s \<Longrightarrow> op_guard env e s \<Longrightarrow> comments_inv env (comment_apply env e s)"
  by (cases e) (simp_all add: AddComment_inv DeleteComment_inv VoteComment_inv, simp_all add: comments_inv_def budget_frame Allow_inv)

lemma run_comments_inv: "comments_run env s es s' \<Longrightarrow> comments_inv env s \<Longrightarrow> comments_inv env s'"
  by (induction rule: comments_run.induct) (auto intro: comment_apply_inv)

lemma reach_inv: "comments_reach env s \<Longrightarrow> times_stable env \<Longrightarrow> comments_inv env s"
  by (auto elim!: comments_reach.cases intro: run_comments_inv New_inv)

section \<open>Comments stay until their author deletes them\<close>

text \<open>The operation cannot delete the comment: it is no deletion, or not in the name of its author.\<close>

fun spares :: "CommentsStore \<Rightarrow> AppComment \<Rightarrow> comment_op \<Rightarrow> bool" where
  "spares s c (DeleteOp identity i viewer author written) \<longleftrightarrow> author = '''' \<or> lookup (com_authors s) (com_ID c) \<noteq> Some author"
| "spares s c _ \<longleftrightarrow> True"

lemma apply_spares:
  assumes guard: "op_guard env e s" and c: "c \<in> set (thread s k)" and sp: "spares s c e"
  shows "c \<in> set (thread (comment_apply env e s) k) \<and> lookup (com_authors (comment_apply env e s)) (com_ID c) = lookup (com_authors s) (com_ID c)"
proof (cases e)
  case (AddOp identity tx viewer author newID now written)
  obtain r s' where a: "AddComment identity tx viewer author newID now written s = (r, s')" by fastforce
  from a show ?thesis
    by (cases rule: AddComment_cases) (use AddOp a guard c ids_member [OF c] in \<open>auto simp: entry_setEntry\<close>)
next
  case (DeleteOp identity i viewer author written)
  obtain r s' where d: "DeleteComment identity i viewer author written s = (r, s')" by fastforce
  from d show ?thesis
  proof (cases rule: DeleteComment_cases)
    case (deleted rem)
    with sp DeleteOp have "com_ID c \<noteq> i" by auto
    with deleted DeleteOp d c removeComment_keeps [OF deleted(2)] show ?thesis by (auto simp: entry_setEntry)
  qed (use d c DeleteOp in simp)
next
  case (VoteOp identity i vote voter author written)
  obtain r s' where v: "VoteComment identity i vote voter author written s = (r, s')" by fastforce
  from v show ?thesis by (cases rule: VoteComment_cases) (use VoteOp v c in auto)
qed (use c in \<open>simp_all add: budget_frame\<close>)

lemma run_spares:
  "comments_run env s es s' \<Longrightarrow> c \<in> set (thread s k) \<Longrightarrow> \<forall>e \<in> set es. spares s c e
    \<Longrightarrow> c \<in> set (thread s' k) \<and> lookup (com_authors s') (com_ID c) = lookup (com_authors s) (com_ID c)"
proof (induction rule: comments_run.induct)
  case (run_cons e s es s')
  note kept = apply_spares [OF run_cons.hyps(1) run_cons.prems(1)]
  from run_cons.prems kept have k: "c \<in> set (thread (comment_apply env e s) k)" "lookup (com_authors (comment_apply env e s)) (com_ID c) = lookup (com_authors s) (com_ID c)"
    by simp_all
  have "spares (comment_apply env e s) c e' = spares s c e'" for e' by (cases e') (simp_all add: k)
  with run_cons k show ?case by auto
qed simp


section \<open>Properties\<close>

text \<open>
  C16: A restart loses no comment. In every state the store can reach, from any file it accepted
  and through any sequence of posts, deletions, votes and failed writes, the document it writes
  passes every check of the next start and yields the same threads, votes and authors. This
  includes the store emptied by its last deletion, whose document has no threads and is read as
  the older schema. A time that was parsed can be written and parsed again.
\<close>

theorem comments_survive_restart:
  assumes "comments_reach env s" "times_stable env" "TrimSpace path \<noteq> ''''"
  shows "\<exists>s'. NewCommentsStore env path (Some (Some (marshalComments env s))) = Inr s' \<and> com_threads s' = com_threads s
    \<and> com_votes s' = com_votes s \<and> com_authors s' = com_authors s"
proof -
  have inv: "comments_inv env s" using assms(1,2) by (rule reach_inv)
  then have "checkState (com_threads s) (com_votes s) (com_authors s) = None" by (simp add: comments_inv_def checkState_iff)
  with assms(3) load_marshal [OF inv] show ?thesis by (simp add: NewCommentsStore_def)
qed

text \<open>
  C17: Only its author removes a comment. Once a comment is in a thread it stays there, unchanged
  and with the same author, through every sequence of requests in which no deletion carries the
  hash of its author; a comment without a recorded author cannot be deleted by anyone.
\<close>

theorem comment_stays_until_author_deletes:
  assumes "comments_run env s es s'" "c \<in> set (thread s k)"
    and "\<forall>e \<in> set es. spares s c e"
  shows "c \<in> set (thread s' k) \<and> lookup (com_authors s') (com_ID c) = lookup (com_authors s) (com_ID c)"
  using run_spares [OF assms] .

text \<open>
  The directory offers deletion exactly to who can delete: a listed comment carries the mark
  \<open>CanDelete\<close> if and only if \<open>Delete\<close> with the same author's hash, when the write succeeds, accepts
  the request and returns a thread without it.
\<close>

theorem can_delete_is_deletable:
  assumes "comments_reach env s" "times_stable env" "c \<in> set (listLocked k viewer author s)"
  shows "com_CanDelete c \<longleftrightarrow> (\<exists>cs. fst (DeleteComment k (com_ID c) viewer author True s) = Inr cs \<and> com_ID c \<notin> com_ID ` set cs)"
proof -
  have inv: "comments_inv env s" using assms(1,2) by (rule reach_inv)
  from assms(3) obtain d where d: "d \<in> set (thread s k)" "com_ID c = com_ID d" "com_CanDelete c \<longleftrightarrow> author \<noteq> '''' \<and> lookup (com_authors s) (com_ID c) = Some author"
    by (auto simp: listLocked_def enrichCommentLocked_def Let_def)
  then obtain rem where rem: "removeComment (com_ID c) (thread s k) = Some rem"
    using removeComment_None [of "com_ID c" "thread s k"] by fastforce
  have "distinct (comment_ids (com_threads s))" "wf_map (com_threads s)" using inv by (auto simp: comments_inv_def comments_ok_def)
  with mset_ids_split(1) [of "com_threads s" k] have "distinct (map com_ID (thread s k))"
    by (metis distinct_append mset_append mset_eq_imp_distinct_iff)
  with removeComment_Some [OF rem] have gone: "com_ID c \<notin> com_ID ` set rem"
    using distinct_add [of "map com_ID (thread s k)" "com_ID c" "map com_ID rem"] by auto
  show ?thesis
  proof (cases "com_CanDelete c")
    case True
    obtain r s' where del: "DeleteComment k (com_ID c) viewer author True s = (r, s')" by fastforce
    from del show ?thesis
    proof (cases rule: DeleteComment_cases)
      case same
      with True d(3) rem del show ?thesis by (auto simp: DeleteComment_def Let_def)
    next
      case (deleted rem')
      with rem have "r = Inr (listLocked k viewer author s')" "thread s' k = rem" by (simp_all add: entry_setEntry)
      with True del gone show ?thesis by (auto simp: listLocked_def enrichCommentLocked_def Let_def)
    qed
  next
    case False
    with d(3) show ?thesis by (auto simp: DeleteComment_def)
  qed
qed

text \<open>
  A file that holds \<open>null\<close> is accepted and leaves the map of the threads nil, in which no comment
  can be stored: every post fails, while a missing file gives a store that accepts one.
\<close>

theorem null_file_refuses_comments:
  assumes "TrimSpace path \<noteq> ''''"
  shows "\<exists>s. NewCommentsStore env path (Some (Some JNull)) = Inr s \<and> (\<forall>k x v a i now w. \<exists>e. AddComment k x v a i now w s = (Inl e, s))"
    and "\<exists>s cs s'. NewCommentsStore env path (Some None) = Inr s \<and> AddComment ''app'' ''hi'' '''' ''me'' ''1'' 7 True s = (Inr cs, s')"
  using assms by (auto simp: NewCommentsStore_def loadComments_def Let_def checkState_def totalLen_def AddComment_def
      TrimSpace_def is_space_def RuneCountInString_def CommentMaxLength_def commentsMaxTotal_def commentsMaxPerApp_def commentsMaxVotes_def entry_def)


section \<open>Witnesses\<close>

definition demo_comments_env :: comments_env where
  "demo_comments_env = \<lparr>formatTime = (\<lambda>t. replicate (nat t) CHR ''s''), parseTime = (\<lambda>s. Some (int (length s))), com_ops = integer_ops\<rparr>"

definition demo_comment :: AppComment where
  "demo_comment = \<lparr>com_ID = ''1'', com_Text = ''hi'', com_CreatedAt = 7, com_Up = 0, com_Down = 0, com_ViewerVote = '''', com_CanDelete = False\<rparr>"

definition demo_fresh :: CommentsStore where
  "demo_fresh = \<lparr>com_threads = [], threads_nil = False, com_votes = [], com_authors = [],
     com_limiter = NewSourceLimiter integer_ops 3 3 30 10, com_voteLimiter = NewSourceLimiter integer_ops 10 20 120 40\<rparr>"

definition demo_comments :: CommentsStore where
  "demo_comments = demo_fresh\<lparr>com_threads := [(''app'', [demo_comment])], com_votes := [(''1'', [(''v'', VoteUp)])], com_authors := [(''1'', ''me'')]\<rparr>"

lemma demo_times: "times_stable demo_comments_env"
  by (auto simp: times_stable_def demo_comments_env_def)

lemma demo_comments_open: "NewCommentsStore demo_comments_env ''f'' (Some None) = Inr demo_fresh"
  by (simp add: NewCommentsStore_def demo_fresh_def checkState_def totalLen_def TrimSpace_def is_space_def demo_comments_env_def)

lemmas comment_eval = AddComment_def VoteComment_def DeleteComment_def demo_fresh_def demo_comments_def demo_comment_def Let_def entry_def totalLen_def
  applyVote_def voteOf_def valid_vote_def vote_names TrimSpace_def is_space_def RuneCountInString_def CommentMaxLength_def commentsMaxTotal_def commentsMaxPerApp_def
  commentsMaxVotes_def

lemma demo_run: "comments_run demo_comments_env demo_fresh [AddOp ''app'' '' hi'' '''' ''me'' ''1'' 7 True, VoteOp ''app'' ''1'' ''up'' ''v'' '''' True] demo_comments"
proof -
  have 1: "snd (AddComment ''app'' '' hi'' '''' ''me'' ''1'' 7 True demo_fresh) = demo_fresh\<lparr>com_threads := [(''app'', [demo_comment])], com_authors := [(''1'', ''me'')]\<rparr>"
    by (simp add: comment_eval)
  have 2: "snd (VoteComment ''app'' ''1'' ''up'' ''v'' '''' True (demo_fresh\<lparr>com_threads := [(''app'', [demo_comment])], com_authors := [(''1'', ''me'')]\<rparr>)) = demo_comments"
    by (simp add: comment_eval)
  show ?thesis by (auto intro!: comments_run.intros simp: 1 2 run_nil) (simp_all add: demo_fresh_def demo_comments_env_def)
qed

lemma demo_reach: "comments_reach demo_comments_env demo_comments"
  using demo_comments_open demo_run by (rule reach_open)

theorem comments_survive_restart_witness:
  "\<exists>s'. NewCommentsStore demo_comments_env ''f'' (Some (Some (marshalComments demo_comments_env demo_comments))) = Inr s' \<and> com_threads s' = com_threads demo_comments
    \<and> com_votes s' = com_votes demo_comments \<and> com_authors s' = com_authors demo_comments"
  using demo_reach demo_times by (rule comments_survive_restart) (simp add: TrimSpace_def is_space_def)

theorem comment_stays_until_author_deletes_witness:
  "demo_comment \<in> set (thread (snd (DeleteComment ''app'' ''1'' '''' ''you'' True demo_comments)) ''app'')"
proof -
  have "comments_run demo_comments_env demo_comments [DeleteOp ''app'' ''1'' '''' ''you'' True] (snd (DeleteComment ''app'' ''1'' '''' ''you'' True demo_comments))"
    by (rule run_cons) (simp_all add: run_nil)
  then show ?thesis
    by (rule comment_stays_until_author_deletes [THEN conjunct1]) (simp_all add: demo_comments_def entry_def demo_comment_def)
qed

theorem can_delete_is_deletable_witness:
  "\<exists>cs. fst (DeleteComment ''app'' ''1'' '''' ''me'' True demo_comments) = Inr cs \<and> ''1'' \<notin> com_ID ` set cs"
proof -
  let ?c = "enrichCommentLocked demo_comments '''' ''me'' demo_comment"
  have "?c \<in> set (listLocked ''app'' '''' ''me'' demo_comments)" by (simp add: listLocked_def entry_def) (simp add: demo_comments_def)
  from can_delete_is_deletable [OF demo_reach demo_times this] show ?thesis
    by (simp add: enrichCommentLocked_def Let_def demo_comment_def demo_comments_def)
qed

end
