(* ===== verification/Directory.thy ===== *)
theory Directory
  imports Lease_Safety Hostnames Comments
begin

text \<open>
  The public directory of the relay server: the handlers of \<open>src/cmd/relay-server/api.go\<close> that read
  and change votes and comments. They join three components: the lease registry says which apps
  are listed, the vote ledger and the comment store keep what visitors say about them. A request
  is what the handlers read of it; the decoded body is an argument, \<open>None\<close> when it is invalid.
\<close>

section \<open>Requests\<close>

record directory =
  dir_reputation :: ReputationStore
  dir_comments :: CommentsStore

record directory_env =
  rep_env :: reputation_env
  com_env :: comments_env
  sha256 :: "bytes \<Rightarrow> bytes"

text \<open>\<open>mediaType\<close>: the parsed \<open>Content-Type\<close>, \<open>None\<close> when it does not parse.\<close>

record api_request =
  rq_Method :: string
  rq_mediaType :: "string option"
  rq_source :: netip_addr
  voterCookie :: "string option"
  authorCookie :: "string option"

text \<open>The readings of the clock, in the order the handlers take them, and whether a write succeeds.\<close>

record api_moment =
  at_admission :: go_time
  at_public :: go_time
  at_policy :: go_time
  at_store :: go_time
  mo_written :: bool

text \<open>A refusal with its status, a refusal with retry guidance, an answer with its status and the cookie it sets, and a handler that panicked.\<close>

datatype 'a api_response = Refused nat | RetryAfter duration | Answer nat 'a string | Aborted

definition MethodGet :: string where "MethodGet = ''GET''"
definition MethodPost :: string where "MethodPost = ''POST''"

definition requireJSONContentType :: "api_request \<Rightarrow> bool" where
  "requireJSONContentType req \<longleftrightarrow> rq_mediaType req = Some ''application/json''"

definition cookieValue :: "string option \<Rightarrow> string" where
  "cookieValue c = (case c of None \<Rightarrow> '''' | Some v \<Rightarrow> v)"

definition commentAuthorHash :: "directory_env \<Rightarrow> api_request \<Rightarrow> string" where
  "commentAuthorHash env req =
     (case authorCookie req of
        None \<Rightarrow> ''''
      | Some v \<Rightarrow> (case base64url_DecodeString v of
            None \<Rightarrow> ''''
          | Some token \<Rightarrow> if length token \<noteq> 32 then '''' else hex_EncodeToString (sha256 env token)))"

section \<open>Listed apps\<close>

definition publicIdentityLeases :: "PublicLease list \<Rightarrow> go_time \<Rightarrow> leaseRegistry \<Rightarrow> PolicyLease list" where
  "publicIdentityLeases public now r =
     filter (\<lambda>l. NormalizeHostname (pl_CanonicalHostname (po_Lease l)) \<in> (NormalizeHostname \<circ> pl_CanonicalHostname) ` set public
        \<and> po_IdentityKey l \<noteq> '''') (PolicyLeases now r)"

definition publicIdentityFor :: "string \<Rightarrow> api_moment \<Rightarrow> leaseRegistry \<Rightarrow> string" where
  "publicIdentityFor hostname at r =
     (if hostname = '''' then ''''
      else case find (\<lambda>l. NormalizeHostname (pl_Hostname (po_Lease l)) = hostname \<or> NormalizeHostname (pl_CanonicalHostname (po_Lease l)) = hostname)
             (publicIdentityLeases (PublicLeases (at_public at) r) (at_policy at) r) of
          None \<Rightarrow> ''''
        | Some l \<Rightarrow> po_IdentityKey l)"

definition servePublicState :: "directory_env \<Rightarrow> api_request \<Rightarrow> api_moment \<Rightarrow> leaseRegistry \<Rightarrow> directory \<Rightarrow> (PublicLease list \<times> ReputationSummary list) api_response" where
  "servePublicState env req at r d =
     (if rq_Method req \<noteq> MethodGet then Refused 405
      else
        let leases = PublicLeases (at_public at) r in
        Answer 200
          (leases, Summaries (ViewerHashFor (rep_env env) (cookieValue (voterCookie req)) (dir_reputation d))
             (map (\<lambda>l. (pl_CanonicalHostname (po_Lease l), pl_Hostname (po_Lease l), po_IdentityKey l)) (publicIdentityLeases leases (at_policy at) r))
             (dir_reputation d)) '''')"

section \<open>Handlers\<close>

definition serveReputationVote ::
  "directory_env \<Rightarrow> api_request \<Rightarrow> (string \<times> string) option \<Rightarrow> api_moment \<Rightarrow> leaseRegistry \<Rightarrow> directory \<Rightarrow> ReputationSummary api_response \<times> directory" where
  "serveReputationVote env req body at r d =
     (if rq_Method req \<noteq> MethodPost then (Refused 405, d)
      else if \<not> requireJSONContentType req then (Refused 415, d)
      else
        let (wait, rep) = AllowVote (rep_env env) (at_admission at) (rq_source req) (dir_reputation d); d = d\<lparr>dir_reputation := rep\<rparr> in
        if wait > 0 then (RetryAfter wait, d)
        else case body of
            None \<Rightarrow> (Refused 400, d)
          | Some (host, vote) \<Rightarrow>
              let hostname = NormalizeHostname host; vote = TrimSpace vote in
              if hostname = '''' then (Refused 400, d)
              else if \<not> valid_vote vote then (Refused 400, d)
              else
                let (res, rep) = CastVote (rep_env env) (at_store at) hostname (publicIdentityFor hostname at r) vote
                       (cookieValue (voterCookie req)) (rq_source req) (mo_written at) (dir_reputation d);
                    d = d\<lparr>dir_reputation := rep\<rparr>
                in (case res of
                      Inl ReputationCapacity \<Rightarrow> Refused 429
                    | Inl ReputationUnknownHostname \<Rightarrow> Refused 404
                    | Inl _ \<Rightarrow> Refused 500
                    | Inr (summary, minted) \<Rightarrow> Answer 200 summary minted, d))"

text \<open>
  \<open>query\<close>: the host name in the URL of a GET; \<open>token\<close>: 32 random bytes, \<open>None\<close> when randomness
  fails; \<open>newID\<close>: what \<open>rand.Text\<close> yields.
\<close>

definition serveComments ::
  "directory_env \<Rightarrow> api_request \<Rightarrow> string \<Rightarrow> (string \<times> string) option \<Rightarrow> bytes option \<Rightarrow> string \<Rightarrow> api_moment \<Rightarrow> leaseRegistry \<Rightarrow> directory
     \<Rightarrow> AppComment list api_response \<times> directory" where
  "serveComments env req query body token newID at r d =
     (let viewerHash = ViewerHashFor (rep_env env) (cookieValue (voterCookie req)) (dir_reputation d); authorHash = commentAuthorHash env req in
      if rq_Method req = MethodGet then
        (let identity = publicIdentityFor (NormalizeHostname query) at r in
         if identity = '''' then (Refused 404, d)
         else (Answer 200 (listLocked identity viewerHash authorHash (dir_comments d)) '''', d))
      else if rq_Method req = MethodPost then
        (let (wait, com) = AllowPost (com_env env) (at_admission at) (rq_source req) (dir_comments d); d = d\<lparr>dir_comments := com\<rparr> in
         if wait > 0 then (RetryAfter wait, d)
         else if \<not> requireJSONContentType req then (Refused 415, d)
         else case body of
             None \<Rightarrow> (Refused 400, d)
           | Some (host, txt) \<Rightarrow>
               let identity = publicIdentityFor (NormalizeHostname host) at r in
               if identity = '''' then (Refused 404, d)
               else if authorHash = '''' \<and> token = None then (Refused 500, d)
               else
                 let (minted, authorHash) = (if authorHash = '''' then (base64url_EncodeToString (the token), hex_EncodeToString (sha256 env (the token))) else ('''', authorHash));
                     (res, com) = AddComment identity txt viewerHash authorHash newID (at_store at) (mo_written at) (dir_comments d);
                     d = d\<lparr>dir_comments := com\<rparr>
                 in (case res of
                       Inl CommentInvalid \<Rightarrow> Refused 400
                     | Inl CommentCapacity \<Rightarrow> Refused 409
                     | Inl NilMapPanic \<Rightarrow> Aborted
                     | Inl _ \<Rightarrow> Refused 500
                     | Inr comments \<Rightarrow> Answer 201 comments minted, d))
      else (Refused 405, d))"

definition serveCommentVote ::
  "directory_env \<Rightarrow> api_request \<Rightarrow> (string \<times> string \<times> string) option \<Rightarrow> api_moment \<Rightarrow> leaseRegistry \<Rightarrow> directory \<Rightarrow> AppComment list api_response \<times> directory" where
  "serveCommentVote env req body at r d =
     (if rq_Method req \<noteq> MethodPost then (Refused 405, d)
      else if \<not> requireJSONContentType req then (Refused 415, d)
      else
        let (wait, com) = AllowCommentVote (com_env env) (at_admission at) (rq_source req) (dir_comments d); d = d\<lparr>dir_comments := com\<rparr> in
        if wait > 0 then (RetryAfter wait, d)
        else case body of
            None \<Rightarrow> (Refused 400, d)
          | Some (host, i, vote) \<Rightarrow>
              let i = TrimSpace i; identity = publicIdentityFor (NormalizeHostname host) at r; vote = TrimSpace vote in
              if i = '''' then (Refused 400, d)
              else if identity = '''' then (Refused 404, d)
              else if \<not> valid_vote vote then (Refused 400, d)
              else case resolveVoterLocked (rep_env env) (cookieValue (voterCookie req)) (rq_source req) (dir_reputation d) of
                  Inl _ \<Rightarrow> (Refused 429, d)
                | Inr (voterHash, minted) \<Rightarrow>
                    let (res, com) = VoteComment identity i vote voterHash (commentAuthorHash env req) (mo_written at) (dir_comments d);
                        d = d\<lparr>dir_comments := com\<rparr>
                    in (case res of
                          Inl CommentNotFound \<Rightarrow> Refused 404
                        | Inl CommentCapacity \<Rightarrow> Refused 409
                        | Inl _ \<Rightarrow> Refused 500
                        | Inr comments \<Rightarrow> Answer 200 comments minted, d))"

definition deleteComment ::
  "directory_env \<Rightarrow> api_request \<Rightarrow> (string \<times> string) option \<Rightarrow> api_moment \<Rightarrow> leaseRegistry \<Rightarrow> directory \<Rightarrow> AppComment list api_response \<times> directory" where
  "deleteComment env req body at r d =
     (if rq_Method req \<noteq> MethodPost then (Refused 405, d)
      else if \<not> requireJSONContentType req then (Refused 415, d)
      else case body of
          None \<Rightarrow> (Refused 400, d)
        | Some (host, i) \<Rightarrow>
            let identity = publicIdentityFor (NormalizeHostname host) at r in
            if identity = '''' then (Refused 404, d)
            else
              let viewerHash = (case voterCookie req of None \<Rightarrow> '''' | Some v \<Rightarrow> ViewerHashFor (rep_env env) v (dir_reputation d));
                  (res, com) = DeleteComment identity (TrimSpace i) viewerHash (commentAuthorHash env req) (mo_written at) (dir_comments d);
                  d = d\<lparr>dir_comments := com\<rparr>
              in (case res of
                    Inl CommentNotFound \<Rightarrow> Refused 404
                  | Inl _ \<Rightarrow> Refused 500
                  | Inr comments \<Rightarrow> Answer 200 comments '''', d))"


section \<open>The directory as a system\<close>

datatype directory_event =
  PostVote api_request "(string \<times> string) option"
| Comments api_request string "(string \<times> string) option" "bytes option" (posted: string)
| PostCommentVote api_request "(string \<times> string \<times> string) option"
| PostDelete api_request "(string \<times> string) option"

fun directory_step :: "directory_env \<Rightarrow> directory_event \<Rightarrow> api_moment \<Rightarrow> leaseRegistry \<Rightarrow> directory \<Rightarrow> directory" where
  "directory_step env (PostVote req body) at r d = snd (serveReputationVote env req body at r d)"
| "directory_step env (Comments req query body token newID) at r d = snd (serveComments env req query body token newID at r d)"
| "directory_step env (PostCommentVote req body) at r d = snd (serveCommentVote env req body at r d)"
| "directory_step env (PostDelete req body) at r d = snd (deleteComment env req body at r d)"

text \<open>
  Each handler does to the stores what a short list of their own operations does, on behalf of
  the identity that is listed under the host name.
\<close>

definition rep_ops :: "directory_env \<Rightarrow> directory_event \<Rightarrow> api_moment \<Rightarrow> leaseRegistry \<Rightarrow> reputation_event list \<Rightarrow> bool" where
  "rep_ops env e at r es \<longleftrightarrow> (\<forall>op \<in> set es. (\<exists>now source. op = Permit now source)
     \<or> (\<exists>req host vote h c. e = PostVote req (Some (host, vote)) \<and> valid_vote (TrimSpace vote)
          \<and> op = Vote (at_store at) h (publicIdentityFor (NormalizeHostname host) at r) (TrimSpace vote) c (rq_source req) (mo_written at)))"

lemma serveReputationVote_ops:
  assumes "serveReputationVote env req body at r d = (resp, d')"
  shows "dir_comments d' = dir_comments d
    \<and> (\<exists>es. rep_ops env (PostVote req body) at r es \<and> dir_reputation d' = fold (reputation_step (rep_env env)) es (dir_reputation d))"
proof -
  let ?p = "Permit (at_admission at) (rq_source req)"
  obtain wait rep where a: "AllowVote (rep_env env) (at_admission at) (rq_source req) (dir_reputation d) = (wait, rep)" by fastforce
  have 0: "rep_ops env (PostVote req body) at r []" "rep_ops env (PostVote req body) at r [?p]" by (simp_all add: rep_ops_def)
  consider "d' = d" | "d' = d\<lparr>dir_reputation := rep\<rparr>"
    | host vote where "body = Some (host, vote)" "valid_vote (TrimSpace vote)"
        "d' = d\<lparr>dir_reputation := snd (CastVote (rep_env env) (at_store at) (NormalizeHostname host) (publicIdentityFor (NormalizeHostname host) at r)
            (TrimSpace vote) (cookieValue (voterCookie req)) (rq_source req) (mo_written at) rep)\<rparr>"
    using assms by (auto simp: serveReputationVote_def Let_def a case_prod_beta split: if_splits option.splits)
  then show ?thesis
  proof cases
    case 1
    with 0(1) show ?thesis by (auto intro!: exI [of _ "[]"])
  next
    case 2
    with 0(2) a show ?thesis by (auto intro!: exI [of _ "[?p]"])
  next
    case (3 host vote)
    let ?v = "Vote (at_store at) (NormalizeHostname host) (publicIdentityFor (NormalizeHostname host) at r) (TrimSpace vote) (cookieValue (voterCookie req)) (rq_source req) (mo_written at)"
    have "rep_ops env (PostVote req body) at r [?p, ?v]" using 3 by (simp add: rep_ops_def)
    with 3 a show ?thesis by (auto intro!: exI [of _ "[?p, ?v]"])
  qed
qed


text \<open>
  The operations on the comment store: an identifier of a post is the one that was drawn, and
  deletions carry the hash of the author's cookie.
\<close>

fun com_op :: "directory_env \<Rightarrow> directory_event \<Rightarrow> api_moment \<Rightarrow> leaseRegistry \<Rightarrow> comment_op \<Rightarrow> bool" where
  "com_op env e at r (AddOp k txt viewer author newID now written) \<longleftrightarrow>
     (\<exists>req query host token. e = Comments req query (Some (host, txt)) token newID \<and> now = at_store at \<and> k = publicIdentityFor (NormalizeHostname host) at r)"
| "com_op env e at r (DeleteOp k i viewer author written) \<longleftrightarrow>
     (\<exists>req host x. e = PostDelete req (Some (host, x)) \<and> author = commentAuthorHash env req \<and> k = publicIdentityFor (NormalizeHostname host) at r)"
| "com_op env e at r (VoteOp k i vote voter author written) \<longleftrightarrow>
     (\<exists>req host x v. e = PostCommentVote req (Some (host, x, v)) \<and> k = publicIdentityFor (NormalizeHostname host) at r)"
| "com_op env e at r _ \<longleftrightarrow> True"

definition com_ops_ok :: "directory_env \<Rightarrow> directory_event \<Rightarrow> api_moment \<Rightarrow> leaseRegistry \<Rightarrow> directory \<Rightarrow> directory \<Rightarrow> bool" where
  "com_ops_ok env e at r d d' \<longleftrightarrow> dir_reputation d' = dir_reputation d
     \<and> (dir_comments d' = dir_comments d
        \<or> (\<exists>op. com_op env e at r op \<and> dir_comments d' = comment_apply (com_env env) op (dir_comments d))
        \<or> (\<exists>op budget. com_op env e at r op \<and> ((\<exists>now source. budget = PostBudget now source) \<or> (\<exists>now source. budget = VoteBudget now source))
             \<and> dir_comments d' = comment_apply (com_env env) op (comment_apply (com_env env) budget (dir_comments d))))"

lemma serveComments_ops:
  assumes "serveComments env req query body token newID at r d = (resp, d')"
  shows "com_ops_ok env (Comments req query body token newID) at r d d'"
proof -
  let ?b = "PostBudget (at_admission at) (rq_source req)"
  obtain wait com where a: "AllowPost (com_env env) (at_admission at) (rq_source req) (dir_comments d) = (wait, com)" by fastforce
  consider "d' = d" | "d' = d\<lparr>dir_comments := com\<rparr>"
    | host x viewer author where "body = Some (host, x)"
        "d' = d\<lparr>dir_comments := snd (AddComment (publicIdentityFor (NormalizeHostname host) at r) x viewer author newID (at_store at) (mo_written at) com)\<rparr>"
    using assms by (auto simp: serveComments_def Let_def a case_prod_beta split: if_splits option.splits sum.splits)
  then show ?thesis
  proof cases
    case 2
    with a show ?thesis unfolding com_ops_ok_def by (intro conjI disjI2 disjI1 exI [of _ ?b]) simp_all
  next
    case (3 host x viewer author)
    let ?a = "AddOp (publicIdentityFor (NormalizeHostname host) at r) x viewer author newID (at_store at) (mo_written at)"
    from 3 a show ?thesis unfolding com_ops_ok_def by (intro conjI disjI2, simp) (rule exI [of _ ?a], rule exI [of _ ?b], simp)
  qed (simp add: com_ops_ok_def)
qed

lemma serveCommentVote_ops:
  assumes "serveCommentVote env req body at r d = (resp, d')"
  shows "com_ops_ok env (PostCommentVote req body) at r d d'"
proof -
  let ?b = "VoteBudget (at_admission at) (rq_source req)"
  obtain wait com where a: "AllowCommentVote (com_env env) (at_admission at) (rq_source req) (dir_comments d) = (wait, com)" by fastforce
  consider "d' = d" | "d' = d\<lparr>dir_comments := com\<rparr>"
    | host i vote voter author where "body = Some (host, i, vote)"
        "d' = d\<lparr>dir_comments := snd (VoteComment (publicIdentityFor (NormalizeHostname host) at r) (TrimSpace i) (TrimSpace vote) voter author (mo_written at) com)\<rparr>"
    using assms by (auto simp: serveCommentVote_def Let_def a case_prod_beta split: if_splits option.splits sum.splits)
  then show ?thesis
  proof cases
    case 2
    with a show ?thesis unfolding com_ops_ok_def by (intro conjI disjI2 disjI1 exI [of _ ?b]) simp_all
  next
    case (3 host i vote voter author)
    let ?a = "VoteOp (publicIdentityFor (NormalizeHostname host) at r) (TrimSpace i) (TrimSpace vote) voter author (mo_written at)"
    from 3 a show ?thesis unfolding com_ops_ok_def by (intro conjI disjI2, simp) (rule exI [of _ ?a], rule exI [of _ ?b], simp)
  qed (simp add: com_ops_ok_def)
qed

lemma deleteComment_ops:
  assumes "deleteComment env req body at r d = (resp, d')"
  shows "com_ops_ok env (PostDelete req body) at r d d'"
proof -
  consider "d' = d" | host i viewer where "body = Some (host, i)"
        "d' = d\<lparr>dir_comments := snd (DeleteComment (publicIdentityFor (NormalizeHostname host) at r) (TrimSpace i) viewer (commentAuthorHash env req) (mo_written at) (dir_comments d))\<rparr>"
    using assms by (auto simp: deleteComment_def Let_def case_prod_beta split: if_splits option.splits sum.splits)
  then show ?thesis
  proof cases
    case (2 host i viewer)
    let ?a = "DeleteOp (publicIdentityFor (NormalizeHostname host) at r) (TrimSpace i) viewer (commentAuthorHash env req) (mo_written at)"
    from 2 show ?thesis unfolding com_ops_ok_def by (intro conjI disjI2 disjI1 exI [of _ ?a]) simp_all
  qed (simp add: com_ops_ok_def)
qed


section \<open>Only listed apps\<close>

text \<open>
  The identity has a live lease under a canonical host name that the public directory lists at
  that moment, so neither hidden nor expired, refused nor long unreachable.
\<close>

definition listed_app :: "api_moment \<Rightarrow> leaseRegistry \<Rightarrow> string \<Rightarrow> bool" where
  "listed_app at r k \<longleftrightarrow> (\<exists>rec \<in> set (records r). isLease rec \<and> \<not> isExpired (at_policy at) rec \<and> String (recKey rec) = k
     \<and> (\<exists>pub \<in> set (records r). listed (at_public at) r pub \<and> NormalizeHostname (CanonicalHostname pub) = NormalizeHostname (CanonicalHostname rec)))"

lemma publicIdentityFor_listed:
  assumes "publicIdentityFor h at r = k" "k \<noteq> ''''"
  shows "listed_app at r k"
proof -
  have find: "find P xs = Some x \<Longrightarrow> x \<in> set xs" for P xs and x :: PolicyLease by (induction xs) (auto split: if_splits)
  from assms obtain l where "l \<in> set (publicIdentityLeases (PublicLeases (at_public at) r) (at_policy at) r)" "po_IdentityKey l = k"
    by (auto simp: publicIdentityFor_def split: if_splits option.splits dest!: find)
  then show ?thesis
    by (fastforce simp: publicIdentityLeases_def PolicyLeases_def PublicLeases_def publicLease_def listed_app_def)
qed

lemma reputation_step_other:
  assumes "\<And>now h v c so w. e \<noteq> Vote now h k v c so w"
  shows "lookup (Identities (rep_state (reputation_step env e s))) k = lookup (Identities (rep_state s)) k"
proof (cases e)
  case (Vote now h i v c so w)
  then have "i \<noteq> k" using assms by blast
  obtain x s' where c: "CastVote env now h i v c so w s = (x, s')" by fastforce
  then have "lookup (Identities (rep_state s')) k = lookup (Identities (rep_state s)) k"
    by (cases rule: CastVote_cases) (use \<open>i \<noteq> k\<close> in \<open>auto simp: applyVote_def Let_def\<close>)
  with Vote c show ?thesis by simp
next
  case (Restart path)
  then show ?thesis using restart_state [of env path s] by auto
qed simp

fun op_thread :: "comment_op \<Rightarrow> string option" where
  "op_thread (AddOp k _ _ _ _ _ _) = Some k"
| "op_thread (DeleteOp k _ _ _ _) = Some k"
| "op_thread _ = None"

lemma comment_apply_other:
  assumes "op_thread e \<noteq> Some k"
  shows "thread (comment_apply env e s) k = thread s k"
proof (cases e)
  case (AddOp j t v a i n w)
  obtain x s' where c: "AddComment j t v a i n w s = (x, s')" by fastforce
  then have "thread s' k = thread s k" by (cases rule: AddComment_cases) (use assms AddOp in \<open>auto simp: entry_setEntry\<close>)
  with AddOp c show ?thesis by simp
next
  case (DeleteOp j i v a w)
  obtain x s' where c: "DeleteComment j i v a w s = (x, s')" by fastforce
  then have "thread s' k = thread s k" by (cases rule: DeleteComment_cases) (use assms DeleteOp in \<open>auto simp: entry_setEntry\<close>)
  with DeleteOp c show ?thesis by simp
next
  case (VoteOp j i vo v a w)
  obtain x s' where c: "VoteComment j i vo v a w s = (x, s')" by fastforce
  then have "thread s' k = thread s k" by (cases rule: VoteComment_cases) auto
  with VoteOp c show ?thesis by simp
qed (simp_all add: budget_frame)

lemma com_op_thread: "com_op env e at r op \<Longrightarrow> op_thread op = Some k \<Longrightarrow> k \<noteq> '''' \<Longrightarrow> listed_app at r k"
  by (cases op) (auto intro: publicIdentityFor_listed)

lemma com_ops_threads:
  assumes "com_ops_ok env e at r d d'" "thread (dir_comments d') k \<noteq> thread (dir_comments d) k" "k \<noteq> ''''"
  shows "listed_app at r k"
  using assms(1) unfolding com_ops_ok_def
proof (elim conjE disjE exE)
  fix op
  assume "com_op env e at r op" "dir_comments d' = comment_apply (com_env env) op (dir_comments d)"
  with assms(2,3) show ?thesis using comment_apply_other [of op k] com_op_thread by metis
next
  fix op budget now source
  assume "com_op env e at r op" "dir_comments d' = comment_apply (com_env env) op (comment_apply (com_env env) budget (dir_comments d))" "budget = PostBudget now source"
  with assms(2,3) show ?thesis using comment_apply_other [of op k] comment_apply_other [of budget k] com_op_thread by (metis op_thread.simps(4) option.distinct(1))
next
  fix op budget now source
  assume "com_op env e at r op" "dir_comments d' = comment_apply (com_env env) op (comment_apply (com_env env) budget (dir_comments d))" "budget = VoteBudget now source"
  with assms(2,3) show ?thesis using comment_apply_other [of op k] comment_apply_other [of budget k] com_op_thread by (metis op_thread.simps(5) option.distinct(1))
qed (use assms(2) in simp)

lemma rep_ops_ledger:
  assumes "rep_ops env e at r es" "k \<noteq> ''''" "\<not> listed_app at r k"
  shows "lookup (Identities (rep_state (fold (reputation_step env') es s))) k = lookup (Identities (rep_state s)) k"
  using assms(1)
proof (induction es arbitrary: s)
  case (Cons op es)
  have "op \<noteq> Vote now h k v c so w" for now h v c so w
    using Cons.prems assms(2,3) publicIdentityFor_listed by (auto simp: rep_ops_def)
  then have "lookup (Identities (rep_state (reputation_step env' op s))) k = lookup (Identities (rep_state s)) k" by (rule reputation_step_other)
  with Cons show ?case by (simp add: rep_ops_def)
qed simp


section \<open>Properties\<close>


text \<open>
  C18: Who posts without a cookie can delete the post later. If \<open>serveComments\<close> accepts a post of a
  client without an author's cookie, it sets a cookie; after any other requests to the comment
  store that are not deletions in that author's name, \<open>deleteComment\<close> with this cookie and the
  identifier of the comment is accepted, as long as the app is listed and the write succeeds.
  SHA-256 yields 32 bytes, the token has 32 bytes, and \<open>rand.Text\<close> yields no spaces.
\<close>

theorem poster_can_delete:
  assumes sha: "\<And>m. length (sha256 env m) = 32" and token: "length token = 32"
    and newID: "TrimSpace newID = newID"
    and no_cookie: "commentAuthorHash env req = ''''"
    and post: "serveComments env req query (Some (host, txt)) (Some token) newID at r d = (Answer 201 comments cookie, d1)"
    and run: "comments_run (com_env env) (dir_comments d1) es (dir_comments d2)"
      "\<forall>op \<in> set es. \<forall>k i v w. op \<noteq> DeleteOp k i v (hex_EncodeToString (sha256 env token)) w"
    and later: "rq_Method req' = MethodPost" "requireJSONContentType req'" "authorCookie req' = Some cookie" "mo_written at'"
      "publicIdentityFor (NormalizeHostname host) at' r' = publicIdentityFor (NormalizeHostname host) at r"
  shows "\<exists>rest d3. deleteComment env req' (Some (host, newID)) at' r' d2 = (Answer 200 rest '''', d3)"
proof -
  let ?h = "hex_EncodeToString (sha256 env token)" and ?k = "publicIdentityFor (NormalizeHostname host) at r"
  obtain wait com where a: "AllowPost (com_env env) (at_admission at) (rq_source req) (dir_comments d) = (wait, com)" by fastforce
  define x where "x = AddComment ?k txt (ViewerHashFor (rep_env env) (cookieValue (voterCookie req)) (dir_reputation d)) ?h newID (at_store at) (mo_written at) com"
  have m: "rq_Method req = MethodPost" using post by (auto simp: serveComments_def Let_def split: if_splits)
  then have "rq_Method req \<noteq> MethodGet" by (simp add: MethodGet_def MethodPost_def)
  with post m have k: "?k \<noteq> ''''" and x: "((case fst x of Inl CommentInvalid \<Rightarrow> Refused 400 | Inl CommentCapacity \<Rightarrow> Refused 409 | Inl NilMapPanic \<Rightarrow> Aborted
      | Inl _ \<Rightarrow> Refused 500 | Inr cs \<Rightarrow> Answer 201 cs (fst (base64url_EncodeToString token, ?h))), d\<lparr>dir_comments := snd x\<rparr>) = (Answer 201 comments cookie, d1)"
    unfolding serveComments_def Let_def by (simp_all add: a no_cookie case_prod_beta flip: x_def split: if_splits)
  from x have "fst x = Inr comments" and cookie: "cookie = base64url_EncodeToString token" and "snd x = dir_comments d1"
    by (auto split: sum.splits comment_error.splits)
  then have add: "x = (Inr comments, dir_comments d1)" by (simp add: prod_eq_iff)
  from add [unfolded x_def] have "\<exists>c \<in> set (thread (dir_comments d1) ?k). com_ID c = newID \<and> lookup (com_authors (dir_comments d1)) newID = Some ?h"
  proof (cases rule: AddComment_cases)
    case (added c)
    then show ?thesis by (intro bexI [of _ c]) (simp_all add: entry_setEntry)
  qed simp
  then obtain c where c: "c \<in> set (thread (dir_comments d1) ?k)" "com_ID c = newID" "lookup (com_authors (dir_comments d1)) newID = Some ?h" by blast
  have "\<forall>op \<in> set es. spares (dir_comments d1) c op"
  proof
    fix op
    assume "op \<in> set es"
    from bspec [OF run(2) this] c(2,3) show "spares (dir_comments d1) c op" by (cases op) auto
  qed
  from run_spares [OF run(1) c(1) this] c have kept: "c \<in> set (thread (dir_comments d2) ?k)" "lookup (com_authors (dir_comments d2)) newID = Some ?h" by auto
  then have "removeComment newID (thread (dir_comments d2) ?k) \<noteq> None" using removeComment_None c(2) by blast
  moreover have "?h \<noteq> ''''" using sha [of token] by (auto simp: hex_EncodeToString_def)
  moreover have "commentAuthorHash env req' = ?h"
    using later(3) token by (simp add: commentAuthorHash_def cookie base64url_DecodeString_EncodeToString)
  ultimately show ?thesis using later k kept newID by (auto simp: deleteComment_def DeleteComment_def Let_def)
qed


section \<open>Witnesses\<close>

definition demo_directory_env :: directory_env where
  "demo_directory_env = \<lparr>rep_env = demo_reputation_env, com_env = demo_comments_env, sha256 = (\<lambda>_. replicate 32 1)\<rparr>"

definition demo_directory :: directory where
  "demo_directory = \<lparr>dir_reputation = demo_reputation, dir_comments = demo_fresh\<rparr>"

definition demo_post :: api_request where
  "demo_post = \<lparr>rq_Method = MethodPost, rq_mediaType = Some ''application/json'', rq_source = Some ''1'', voterCookie = None, authorCookie = None\<rparr>"

definition demo_moment :: api_moment where
  "demo_moment = \<lparr>at_admission = 5, at_public = 1000 * second, at_policy = 1000 * second, at_store = 7, mo_written = True\<rparr>"

definition demo_token :: bytes where "demo_token = replicate 32 0"

definition demo_host :: string where "demo_host = ''blog.example.com''"

lemma demo_listed: "publicIdentityFor (NormalizeHostname demo_host) demo_moment demo_state = String (ServiceKey alice)"
  by code_simp

lemma demo_moment_fields: "at_admission demo_moment = 5" "at_store demo_moment = 7" "mo_written demo_moment"
  by (simp_all add: demo_moment_def)

lemma demo_key: "String (ServiceKey alice) \<noteq> ''''"
  by code_simp

lemma demo_budget: "fst (AllowPost demo_comments_env 5 (Some ''1'') demo_fresh) = 0"
  by (simp add: AllowPost_def demo_fresh_def demo_comments_env_def limiter_eval case_prod_beta)


lemma demo_added:
  assumes "com_threads com = []" "\<not> threads_nil com" "h \<noteq> ''''" "k \<noteq> ''''"
  shows "\<exists>cs s'. AddComment k ''hi'' v h ''1'' 7 True com = (Inr cs, s') \<and> thread s' k \<noteq> []"
  using assms by (simp add: AddComment_def Let_def entry_def totalLen_def TrimSpace_def is_space_def RuneCountInString_def CommentMaxLength_def
      commentsMaxTotal_def commentsMaxPerApp_def)

lemma demo_posted:
  "\<exists>cs d1. serveComments demo_directory_env demo_post '''' (Some (demo_host, ''hi'')) (Some demo_token) ''1'' demo_moment demo_state demo_directory
     = (Answer 201 cs (base64url_EncodeToString demo_token), d1) \<and> thread (dir_comments d1) (String (ServiceKey alice)) \<noteq> []"
proof -
  obtain com where a: "AllowPost demo_comments_env 5 (Some ''1'') demo_fresh = (0, com)" using demo_budget by (metis prod.collapse)
  then have com: "com_threads com = []" "\<not> threads_nil com"
    using budget_frame(1,4) [of demo_comments_env 5 "Some ''1''" demo_fresh] by (simp_all add: demo_fresh_def)
  note demo_key
  moreover have "hex_EncodeToString (replicate 32 1) \<noteq> ''''" by (simp add: hex_EncodeToString_def)
  moreover have "commentAuthorHash demo_directory_env demo_post = ''''" by (simp add: commentAuthorHash_def demo_post_def)
  moreover obtain cs s' where "AddComment (String (ServiceKey alice)) ''hi'' (ViewerHashFor demo_reputation_env '''' demo_reputation) (hex_EncodeToString (replicate 32 1)) ''1'' 7 True com = (Inr cs, s')"
      "thread s' (String (ServiceKey alice)) \<noteq> []"
    using demo_added [OF com] calculation(1,2) by blast
  ultimately show ?thesis
    by (simp add: serveComments_def Let_def demo_listed demo_moment_fields demo_post_def demo_directory_def demo_directory_env_def
        MethodGet_def MethodPost_def requireJSONContentType_def cookieValue_def a)
qed


theorem poster_can_delete_witness:
  "\<exists>rest d1 d3. deleteComment demo_directory_env (demo_post\<lparr>authorCookie := Some (base64url_EncodeToString demo_token)\<rparr>) (Some (demo_host, ''1''))
     demo_moment demo_state d1 = (Answer 200 rest '''', d3)"
proof -
  obtain cs d1 where p: "serveComments demo_directory_env demo_post '''' (Some (demo_host, ''hi'')) (Some demo_token) ''1'' demo_moment demo_state demo_directory
     = (Answer 201 cs (base64url_EncodeToString demo_token), d1)" using demo_posted by blast
  have "\<exists>rest d3. deleteComment demo_directory_env (demo_post\<lparr>authorCookie := Some (base64url_EncodeToString demo_token)\<rparr>) (Some (demo_host, ''1''))
     demo_moment demo_state d1 = (Answer 200 rest '''', d3)"
    by (rule poster_can_delete [OF _ _ _ _ p, where es = "[]"])
      (simp_all add: demo_directory_env_def demo_token_def demo_post_def demo_moment_def requireJSONContentType_def commentAuthorHash_def run_nil TrimSpace_def is_space_def)
  then show ?thesis by blast
qed

end
