(* ===== verification/Admission.thy ===== *)
theory Admission
  imports Access_Policy Lease_Safety Hostnames Source_Limiter
begin

text \<open>
  What every anonymous request of the relay server passes: the address it is accounted to
  (\<open>policy/ingress.go\<close>), the weighted budget before authentication (\<open>policy/preauth.go\<close> and \<open>admit\<close> of
  \<open>policy/mux.go\<close>) and, on registration, the publication of the current access decision
  (\<open>publishAccess\<close> of \<open>policy/mux.go\<close>). All under \<open>src/cmd/relay-server\<close>. The parsers of \<open>net/netip\<close> and
  the arithmetic on prefixes are arguments.
\<close>

section \<open>The address of a client\<close>

type_synonym prefix = string

record netip_env =
  ParseAddr :: "string \<Rightarrow> netip_addr"
  ParseAddrPort :: "string \<Rightarrow> netip_addr"
  Unmap :: "string \<Rightarrow> string"
  ParsePrefix :: "string \<Rightarrow> prefix option"
  unmapPrefix :: "prefix \<Rightarrow> prefix"
  Masked :: "prefix \<Rightarrow> prefix"
  Contains :: "prefix \<Rightarrow> string \<Rightarrow> bool"

record Ingress =
  trustProxyHeaders :: bool
  trustedProxyCIDRs :: "prefix list"

text \<open>What \<open>SourceAddr\<close> reads of a request; a missing header reads as the empty string.\<close>

record source_request =
  RemoteAddr :: string
  XForwardedFor :: string
  XRealIP :: string

definition CompactStrings :: "string list \<Rightarrow> string list" where
  "CompactStrings values = filter (\<lambda>v. v \<noteq> '''') (map TrimSpace values)"

definition SplitCSV :: "string \<Rightarrow> string list" where
  "SplitCSV raw = (if TrimSpace raw = '''' then [] else CompactStrings (splitOn (CHR '','') raw))"

fun parsePrefixes :: "netip_env \<Rightarrow> string list \<Rightarrow> prefix list \<Rightarrow> string + prefix list" where
  "parsePrefixes env [] seen = Inr seen"
| "parsePrefixes env (part # parts) seen =
     (case ParsePrefix env part of
        None \<Rightarrow> Inl part
      | Some prefix \<Rightarrow>
          let prefix = Masked env (unmapPrefix env prefix)
          in parsePrefixes env parts (if prefix \<in> set seen then seen else seen @ [prefix]))"

definition parseTrustedProxyPrefixes :: "netip_env \<Rightarrow> string \<Rightarrow> string + prefix list" where
  "parseTrustedProxyPrefixes env raw = parsePrefixes env (SplitCSV raw) []"

definition NewIngress :: "netip_env \<Rightarrow> bool \<Rightarrow> string \<Rightarrow> string + Ingress" where
  "NewIngress env trust raw =
     (case parseTrustedProxyPrefixes env raw of Inl e \<Rightarrow> Inl e | Inr ps \<Rightarrow> Inr \<lparr>trustProxyHeaders = trust, trustedProxyCIDRs = ps\<rparr>)"

definition parseSourceAddr :: "netip_env \<Rightarrow> string \<Rightarrow> netip_addr" where
  "parseSourceAddr env raw =
     (let raw = TrimSpace raw in
      case ParseAddr env raw of
        Some a \<Rightarrow> Some (Unmap env a)
      | None \<Rightarrow> map_option (Unmap env) (ParseAddrPort env raw))"

definition parseRemoteAddrIP :: "netip_env \<Rightarrow> string \<Rightarrow> netip_addr" where
  "parseRemoteAddrIP env remoteAddr =
     (case SplitHostPort (TrimSpace remoteAddr) of Some host \<Rightarrow> parseSourceAddr env host | None \<Rightarrow> parseSourceAddr env remoteAddr)"

definition isTrustedProxyRemoteAddr :: "netip_env \<Rightarrow> string \<Rightarrow> prefix list \<Rightarrow> bool" where
  "isTrustedProxyRemoteAddr env remoteAddr cidrs =
     (case parseRemoteAddrIP env remoteAddr of None \<Rightarrow> False | Some a \<Rightarrow> \<exists>p \<in> set cidrs. Contains env p a)"

definition peerAddr :: "netip_env \<Rightarrow> source_request \<Rightarrow> netip_addr" where
  "peerAddr env req =
     (case SplitHostPort (RemoteAddr req) of None \<Rightarrow> parseSourceAddr env (RemoteAddr req) | Some host \<Rightarrow> parseSourceAddr env host)"

text \<open>Of \<open>X-Forwarded-For\<close> the first address counts.\<close>

definition SourceAddr :: "netip_env \<Rightarrow> Ingress \<Rightarrow> source_request \<Rightarrow> netip_addr" where
  "SourceAddr env i req =
     (let forwarded = (if XForwardedFor req = '''' then None
            else case Cut (XForwardedFor req) (CHR '','') of Some (before, _) \<Rightarrow> parseSourceAddr env before | None \<Rightarrow> parseSourceAddr env (XForwardedFor req));
          real = (if XRealIP req = '''' then None else parseSourceAddr env (XRealIP req))
      in if trustProxyHeaders i \<and> isTrustedProxyRemoteAddr env (RemoteAddr req) (trustedProxyCIDRs i)
         then (case forwarded of Some a \<Rightarrow> Some a | None \<Rightarrow> (case real of Some a \<Rightarrow> Some a | None \<Rightarrow> peerAddr env req))
         else peerAddr env req)"

definition ClientIP :: "netip_env \<Rightarrow> Ingress \<Rightarrow> source_request \<Rightarrow> string" where
  "ClientIP env i req = (case SourceAddr env i req of None \<Rightarrow> '''' | Some a \<Rightarrow> a)"

section \<open>The budget before authentication\<close>

record PreAuthConfig =
  SourcePerMinute :: int
  SourceBurst :: int
  GlobalPerMinute :: int
  GlobalBurst :: int
  ChallengeCost :: int
  AnnounceCost :: int
  RegisterCost :: int

definition DefaultPreAuthConfig :: PreAuthConfig where
  "DefaultPreAuthConfig = \<lparr>SourcePerMinute = 10, SourceBurst = 100, GlobalPerMinute = 600, GlobalBurst = 200, ChallengeCost = 1, AnnounceCost = 2, RegisterCost = 5\<rparr>"

datatype preauth_error = MustBePositive | MustCoverWeights

definition orDefault :: "int \<Rightarrow> int \<Rightarrow> int" where "orDefault v fallback = (if v = 0 then fallback else v)"

definition weights :: "PreAuthConfig \<Rightarrow> int list" where
  "weights c = [ChallengeCost c, AnnounceCost c, RegisterCost c]"

definition withDefaults :: "PreAuthConfig \<Rightarrow> PreAuthConfig" where
  "withDefaults c =
     (let d = DefaultPreAuthConfig in
      \<lparr>SourcePerMinute = orDefault (SourcePerMinute c) (SourcePerMinute d), SourceBurst = orDefault (SourceBurst c) (SourceBurst d),
       GlobalPerMinute = orDefault (GlobalPerMinute c) (GlobalPerMinute d), GlobalBurst = orDefault (GlobalBurst c) (GlobalBurst d),
       ChallengeCost = orDefault (ChallengeCost c) (ChallengeCost d), AnnounceCost = orDefault (AnnounceCost c) (AnnounceCost d),
       RegisterCost = orDefault (RegisterCost c) (RegisterCost d)\<rparr>)"

definition preauth_fields :: "PreAuthConfig \<Rightarrow> int list" where
  "preauth_fields c = [SourcePerMinute c, SourceBurst c, GlobalPerMinute c, GlobalBurst c] @ weights c"

definition NormalizePreAuthConfig :: "PreAuthConfig \<Rightarrow> preauth_error + PreAuthConfig" where
  "NormalizePreAuthConfig c =
     (if \<exists>v \<in> set (preauth_fields c). v < 0 then Inl MustBePositive
      else
        let c = withDefaults c; weight = Max (set (weights c))
        in if weight > SourceBurst c \<or> weight > GlobalBurst c then Inl MustCoverWeights else Inr c)"

text \<open>\<open>admit\<close>: the wait of a refusal, or \<open>None\<close> when the request goes on to its handler.\<close>

definition admit :: "float_ops \<Rightarrow> netip_env \<Rightarrow> Ingress \<Rightarrow> int \<Rightarrow> source_request \<Rightarrow> go_time \<Rightarrow> SourceLimiter \<Rightarrow> duration option \<times> SourceLimiter" where
  "admit F env i cost req now l =
     (case Allow F now (SourceAddr env i req) cost l of ((wait, _), l) \<Rightarrow> (if wait > 0 then Some wait else None, l))"

section \<open>Publishing an access decision\<close>

definition accessPublishAttempts :: nat where "accessPublishAttempts = 8"

text \<open>
  One attempt: what others did to the registry since the last one, the snapshot that was read and
  the clock. The result says whether the decision was published.
\<close>

type_synonym attempt = "reg_op list \<times> AccessState \<times> go_time"

fun publish_loop :: "ServiceIdentityKey \<Rightarrow> attempt list \<Rightarrow> leaseRegistry \<Rightarrow> bool \<times> leaseRegistry" where
  "publish_loop key [] r = (False, r)"
| "publish_loop key ((others, state, now) # as) r =
     (case setIdentityAccess key (Access state key) (revision state) now (fold reg_step others r) of
        (True, _, r) \<Rightarrow> (True, r)
      | (False, _, r) \<Rightarrow> publish_loop key as r)"

definition publishAccess :: "ServiceIdentityKey \<Rightarrow> attempt list \<Rightarrow> leaseRegistry \<Rightarrow> bool \<times> leaseRegistry" where
  "publishAccess key as r = (if \<not> Valid key then (True, r) else publish_loop key (take accessPublishAttempts as) r)"


section \<open>Lemmas\<close>

lemma untrusted_peer:
  assumes "\<not> (trustProxyHeaders i \<and> isTrustedProxyRemoteAddr env (RemoteAddr req) (trustedProxyCIDRs i))"
  shows "SourceAddr env i req = peerAddr env req"
  unfolding SourceAddr_def Let_def using assms by (simp only: if_False)

text \<open>The cost admitted from a sequence of weighted requests at one instant.\<close>

fun admitted :: "float_ops \<Rightarrow> netip_env \<Rightarrow> Ingress \<Rightarrow> go_time \<Rightarrow> (int \<times> source_request) list \<Rightarrow> SourceLimiter \<Rightarrow> int" where
  "admitted F env i now [] l = 0"
| "admitted F env i now ((cost, req) # rs) l =
     (case admit F env i cost req now l of (None, l) \<Rightarrow> cost + admitted F env i now rs l | (Some _, l) \<Rightarrow> admitted F env i now rs l)"

lemma admitted_spent:
  assumes "\<forall>(c, req) \<in> set rs. SourceAddr env i req = s"
  shows "admitted F env i now rs l = spent (Some s) (map (\<lambda>(c, req). (s, c)) rs) (allow_run F (map (Pair now) (map (\<lambda>(c, req). (s, c)) rs)) l)"
  using assms
proof (induction rs arbitrary: l)
  case (Cons e rs)
  obtain c req where e: "e = (c, req)" by (cases e)
  obtain wait layer l' where A: "Allow F now s c l = ((wait, layer), l')" by (metis surj_pair)
  from Cons show ?case by (auto simp: e A admit_def)
qed simp

lemma fresh_admits:
  assumes ex: "exact_upto F m {of_int64 F rate, of_int64 F grate}" and c: "0 \<le> cost" "cost \<le> bst" "cost \<le> gb" "bst \<le> m" "gb \<le> m"
  shows "fst (fst (Allow F now source cost (NewSourceLimiter F rate bst grate gb))) \<le> 0"
proof -
  let ?l = "NewSourceLimiter F rate bst grate gb"
  have g: "fst (retry F now (of_int64 F grate) (of_int64 F gb) cost \<lparr>tokens = of_int64 F gb, updatedAt = 0, lastUsedAt = 0\<rparr>) \<le> 0"
    using retry_exact(4) [OF ex, of "of_int64 F grate" now gb "\<lparr>tokens = of_int64 F gb, updatedAt = 0, lastUsedAt = 0\<rparr>" cost "of_int64 F gb"] c
    by (cases "retry F now (of_int64 F grate) (of_int64 F gb) cost \<lparr>tokens = of_int64 F gb, updatedAt = 0, lastUsedAt = 0\<rparr>") (simp add: holds_def)
  have s: "fst (retry F now (of_int64 F rate) (of_int64 F bst) cost \<lparr>tokens = of_int64 F bst, updatedAt = now, lastUsedAt = now\<rparr>) \<le> 0"
    using retry_exact(4) [OF ex, of "of_int64 F rate" now bst "\<lparr>tokens = of_int64 F bst, updatedAt = now, lastUsedAt = now\<rparr>" cost "of_int64 F bst"] c
    by (cases "retry F now (of_int64 F rate) (of_int64 F bst) cost \<lparr>tokens = of_int64 F bst, updatedAt = now, lastUsedAt = now\<rparr>") (simp add: holds_def)
  show ?thesis using g s by (simp add: Allow_def NewSourceLimiter_def pruneLimiter_def del_where_def Let_def case_prod_beta)
qed

lemma orDefault_pos: "0 \<le> v \<Longrightarrow> 0 < d \<Longrightarrow> 0 < orDefault v d"
  by (simp add: orDefault_def)

lemma withDefaults_pos: "\<forall>v \<in> set (preauth_fields c). 0 \<le> v \<Longrightarrow> \<forall>v \<in> set (preauth_fields (withDefaults c)). 0 < v"
  by (simp add: preauth_fields_def weights_def withDefaults_def orDefault_pos DefaultPreAuthConfig_def)

lemma withDefaults_id: "\<forall>v \<in> set (preauth_fields c). 0 < v \<Longrightarrow> withDefaults c = c"
  by (simp add: preauth_fields_def weights_def withDefaults_def orDefault_def)

lemma normalized:
  assumes "NormalizePreAuthConfig c = Inr c'"
  shows "\<forall>v \<in> set (preauth_fields c'). 0 < v" "\<forall>w \<in> set (weights c'). w \<le> SourceBurst c' \<and> w \<le> GlobalBurst c'" "NormalizePreAuthConfig c' = Inr c'"
proof -
  from assms have nn: "\<forall>v \<in> set (preauth_fields c). 0 \<le> v" and c': "c' = withDefaults c"
    and m: "Max (set (weights c')) \<le> SourceBurst c'" "Max (set (weights c')) \<le> GlobalBurst c'"
    by (auto simp: NormalizePreAuthConfig_def Let_def not_less split: if_splits)
  show pos: "\<forall>v \<in> set (preauth_fields c'). 0 < v" unfolding c' using nn by (rule withDefaults_pos)
  show "\<forall>w \<in> set (weights c'). w \<le> SourceBurst c' \<and> w \<le> GlobalBurst c'"
    using m Max_ge [of "set (weights c')"] by (meson List.finite_set order_trans)
  show "NormalizePreAuthConfig c' = Inr c'"
    using pos m withDefaults_id [OF pos] by (auto simp: NormalizePreAuthConfig_def Let_def not_less)
qed

lemma setIdentityAccess_effect:
  assumes "setIdentityAccess key access revn now q = (True, conns, q')" "Valid key"
  shows "accessRevision q \<le> revn \<and> (isRoutableLocked key q' \<longleftrightarrow> access = LeaseRoutable) \<and> accessRevision q' = revn"
  using assms by (cases access) (auto simp: setIdentityAccess_def Let_def isRoutableLocked_def applyIdentityAccessLocked_def split: if_splits)

lemma publish_loop_True:
  assumes "publish_loop key as r = (True, r')"
  shows "\<exists>pre others st now post conns. as = pre @ (others, st, now) # post
     \<and> setIdentityAccess key (Access st key) (revision st) now (fold reg_step (concat (map fst pre) @ others) r) = (True, conns, r')"
  using assms
proof (induction key as r rule: publish_loop.induct)
  case (2 key others state now as r)
  obtain b conns q where q: "setIdentityAccess key (Access state key) (revision state) now (fold reg_step others r) = (b, conns, q)" by (metis surj_pair)
  show ?case
  proof (cases b)
    case True
    with 2 q have "q = r'" by simp
    with True q show ?thesis by (intro exI [of _ "[]"] exI [of _ others] exI [of _ state] exI [of _ now] exI [of _ as] exI [of _ conns]) simp
  next
    case False
    then have "q = fold reg_step others r" using q by (auto simp: setIdentityAccess_def Let_def split: if_splits)
    with 2 q False obtain pre others' st now' post conns' where "as = pre @ (others', st, now') # post"
      "setIdentityAccess key (Access st key) (revision st) now' (fold reg_step (concat (map fst pre) @ others') (fold reg_step others r)) = (True, conns', r')"
      by fastforce
    then show ?thesis by (intro exI [of _ "(others, state, now) # pre"] exI [of _ others'] exI [of _ st] exI [of _ now'] exI [of _ post] exI [of _ conns']) simp
  qed
qed simp


section \<open>Properties\<close>


text \<open>
  An accepted configuration locks nobody out and is stable. Normalising it again changes
  nothing, and with fresh buckets the first request of every client is admitted at every
  weighted endpoint.
\<close>

theorem every_endpoint_is_affordable:
  assumes "NormalizePreAuthConfig c = Inr c'"
    and "exact_upto F (max (SourceBurst c') (GlobalBurst c')) {of_int64 F (SourcePerMinute c'), of_int64 F (GlobalPerMinute c')}"
  shows "NormalizePreAuthConfig c' = Inr c' \<and> (\<forall>cost \<in> set (weights c'). \<forall>req now.
     fst (admit F env i cost req now (NewSourceLimiter F (SourcePerMinute c') (SourceBurst c') (GlobalPerMinute c') (GlobalBurst c'))) = None)"
proof (intro conjI ballI allI)
  show "NormalizePreAuthConfig c' = Inr c'" using normalized(3) [OF assms(1)] .
  fix cost req now
  assume "cost \<in> set (weights c')"
  with normalized(1,2) [OF assms(1)] have "0 \<le> cost" "cost \<le> SourceBurst c'" "cost \<le> GlobalBurst c'" by (auto simp: preauth_fields_def)
  from fresh_admits [OF assms(2) this, of now "SourceAddr env i req"]
  show "fst (admit F env i cost req now (NewSourceLimiter F (SourcePerMinute c') (SourceBurst c') (GlobalPerMinute c') (GlobalBurst c'))) = None"
    by (simp add: admit_def case_prod_beta)
qed

text \<open>
  C21: What a registration publishes is in force. If \<open>publishAccess\<close> reports success, then, however
  others changed the registry between its attempts, one of the snapshots it read was at least as
  new as every decision applied before, its revision is now the newest, and the identity is
  routable exactly if that snapshot says so.
\<close>

theorem published_decision_is_in_force:
  assumes "publishAccess key as r = (True, r')" "Valid key"
  shows "\<exists>pre others st now post. take accessPublishAttempts as = pre @ (others, st, now) # post
     \<and> accessRevision (fold reg_step (concat (map fst pre) @ others) r) \<le> revision st
     \<and> accessRevision r' = revision st \<and> (isRoutableLocked key r' \<longleftrightarrow> Access st key = LeaseRoutable)"
proof -
  from assms have "publish_loop key (take accessPublishAttempts as) r = (True, r')" by (simp add: publishAccess_def)
  from publish_loop_True [OF this] obtain pre others st now post conns where p: "take accessPublishAttempts as = pre @ (others, st, now) # post"
    "setIdentityAccess key (Access st key) (revision st) now (fold reg_step (concat (map fst pre) @ others) r) = (True, conns, r')" by blast
  from setIdentityAccess_effect [OF p(2) assms(2)] p(1) show ?thesis by blast
qed

section \<open>Witnesses\<close>

definition demo_netip :: netip_env where
  "demo_netip = \<lparr>ParseAddr = (\<lambda>s. if s = '''' then None else Some s), ParseAddrPort = (\<lambda>_. None), Unmap = id, ParsePrefix = Some, unmapPrefix = id, Masked = id,
     Contains = (\<lambda>p a. p = a)\<rparr>"

definition demo_ingress :: Ingress where
  "demo_ingress = \<lparr>trustProxyHeaders = True, trustedProxyCIDRs = [''9.9.9.9'']\<rparr>"

definition demo_spoof :: "string \<Rightarrow> int \<times> source_request" where
  "demo_spoof x = (5, \<lparr>RemoteAddr = ''1.2.3.4'', XForwardedFor = x, XRealIP = ''''\<rparr>)"

lemma default_config_normal: "NormalizePreAuthConfig DefaultPreAuthConfig = Inr DefaultPreAuthConfig"
  by (simp add: NormalizePreAuthConfig_def withDefaults_def orDefault_def DefaultPreAuthConfig_def weights_def preauth_fields_def)

lemma integer_ops_exact_200: "exact_upto integer_ops 200 rates"
  using integer_ops_exact [of rates] by (auto simp: exact_upto_def)


theorem every_endpoint_is_affordable_witness:
  "fst (admit integer_ops demo_netip demo_ingress 5 (snd (demo_spoof ''5.5.5.5'')) 7 (NewSourceLimiter integer_ops 10 100 600 200)) = None"
  using every_endpoint_is_affordable [OF default_config_normal, of integer_ops demo_netip demo_ingress]
  by (simp add: weights_def DefaultPreAuthConfig_def integer_ops_exact_200)

theorem published_decision_is_in_force_witness:
  "let r = snd (publishAccess (ServiceKey alice) [([], NewAccess, 1001 * second)] demo_state) in accessRevision r = 0 \<and> isRoutableLocked (ServiceKey alice) r"
proof -
  let ?as = "[([], NewAccess, 1001 * second)] :: attempt list"
  have acc: "Access NewAccess (ServiceKey alice) = LeaseRoutable"
    by (simp add: Access_def NewAccess_def IsBanned_def IsDenied_def EffectiveApproval_def Mode_of_def)
  obtain r' where r': "publishAccess (ServiceKey alice) ?as demo_state = (True, r')"
  proof (cases "publishAccess (ServiceKey alice) ?as demo_state")
    case (Pair b q)
    then have "b" using alice_valid demo_state_fields(2)
      by (auto simp: publishAccess_def accessPublishAttempts_def setIdentityAccess_def NewAccess_def Let_def split: prod.splits bool.splits)
    with Pair show thesis by (intro that) simp
  qed
  from published_decision_is_in_force [OF r' alice_valid]
  obtain pre others st now post where "take accessPublishAttempts ?as = pre @ (others, st, now) # post"
    and st: "accessRevision r' = revision st" "isRoutableLocked (ServiceKey alice) r' \<longleftrightarrow> Access st (ServiceKey alice) = LeaseRoutable"
    by blast
  then have "st = NewAccess" by (auto simp: accessPublishAttempts_def Cons_eq_append_conv)
  with st acc have "accessRevision r' = 0" "isRoutableLocked (ServiceKey alice) r'" by (simp_all add: NewAccess_def)
  then show ?thesis by (simp add: r' Let_def)
qed

end
