(* ===== verification/Channel_Binding.thy ===== *)
theory Channel_Binding
  imports Hostnames Relay_Descriptor Datagram_Codec
begin

text \<open>
  Detection of a relay that terminates TLS, \<open>src/sdk/mitm.go\<close>: the handshake that binds a client's
  TLS session to the identity in a canonical host name, and the probe a tunnel sends to itself.
  A TLS session is represented by the keying material it exports per label, a stream by the
  bytes that arrive in time. Signing and recovering a signer are arguments.
\<close>

section \<open>Wire format\<close>

definition bytes_of :: "string \<Rightarrow> bytes" where "bytes_of s = map of_char s"

definition TLSChannelBindingExporterLabel :: string where "TLSChannelBindingExporterLabel = ''EXPORTER-Portal-TLS-Channel-Binding-v1''"
definition TLSChannelBindingDomain :: bytes where "TLSChannelBindingDomain = bytes_of ''portal-tls-channel-binding-v1''"
definition TLSChannelBindingRequestMagic :: bytes where "TLSChannelBindingRequestMagic = bytes_of ''PTCB'' @ [1]"
definition TLSChannelBindingAnswerTag :: bytes where "TLSChannelBindingAnswerTag = bytes_of ''PTCA'' @ [1]"
definition TLSChannelBindingNonceSize :: nat where "TLSChannelBindingNonceSize = 32"
definition TLSChannelBindingExporterSize :: nat where "TLSChannelBindingExporterSize = 32"
definition TLSChannelBindingSignatureSize :: nat where "TLSChannelBindingSignatureSize = 65"

definition TLSChannelBindingRequestSize :: nat where
  "TLSChannelBindingRequestSize = length TLSChannelBindingRequestMagic + TLSChannelBindingNonceSize"

definition mitmProbeExporterLabel :: string where "mitmProbeExporterLabel = ''Portal-MITM-Probe-v1''"
definition MITMProbeReasonExporterMismatch :: string where "MITMProbeReasonExporterMismatch = ''tls_exporter_mismatch''"

record binding_env =
  SignSHA256Secp256k1 :: "bytes \<Rightarrow> bytes option"
  recoverBindingAddress :: "bytes \<Rightarrow> bytes \<Rightarrow> string option"

text \<open>\<open>None\<close>: the connection cannot export; the function fails with \<open>None\<close>.\<close>

type_synonym exporter = "(string \<Rightarrow> bytes option) option"

definition tlsChannelBindingPayload :: "string \<Rightarrow> bytes \<Rightarrow> bytes \<Rightarrow> bytes" where
  "tlsChannelBindingPayload hostname nonce exported =
     TLSChannelBindingDomain @ [0] @ bytes_of (NormalizeHostWithoutPort hostname) @ [0] @ nonce @ exported"

datatype binding_error = BindingHostname hostname_error | TLSConnectionDoesNotSupportKeying | ExportFailed | NonceFailed | WriteRequestFailed
  | ReadAnswerFailed | TunnelDidNotAnswerChannelBinding | ExporterMismatchRelay | RecoverSignerFailed | SignerDoesNotMatch string string | BindingCanceled
  | CanonicalHostnameUnavailable | ReadRequestFailed | SignBindingFailed | WriteAnswerFailed

section \<open>The client\<close>

definition bindingRequest :: "bytes \<Rightarrow> bytes" where
  "bindingRequest nonce = TLSChannelBindingRequestMagic @ nonce"

text \<open>
  \<open>nonce\<close>: \<open>None\<close> when randomness fails; \<open>wrote\<close>: the request was written; \<open>reply\<close>: what was received
  before the deadline; \<open>canceled\<close>: the context ended. The result is the error that closed the
  connection, \<open>None\<close> for a connection that is handed to the application.
\<close>

definition VerifyTLSChannelBinding ::
  "binding_env \<Rightarrow> string \<Rightarrow> exporter \<Rightarrow> bytes option \<Rightarrow> bool \<Rightarrow> bytes \<Rightarrow> bool \<Rightarrow> binding_error option" where
  "VerifyTLSChannelBinding env hostname exporter nonce wrote reply canceled =
     (case ExtractCanonicalHostnameAddress hostname of
        Inl e \<Rightarrow> Some (BindingHostname e)
      | Inr expectedAddr \<Rightarrow>
          (case exporter of
             None \<Rightarrow> Some TLSConnectionDoesNotSupportKeying
           | Some exportFn \<Rightarrow>
               (case exportFn TLSChannelBindingExporterLabel of
                  None \<Rightarrow> Some ExportFailed
                | Some clientExporter \<Rightarrow>
                    (case nonce of
                       None \<Rightarrow> Some NonceFailed
                     | Some nonce \<Rightarrow>
                         let tagSize = length TLSChannelBindingAnswerTag; signedSize = TLSChannelBindingExporterSize + TLSChannelBindingSignatureSize;
                             signed = take signedSize (drop tagSize reply);
                             tunnelExporter = take TLSChannelBindingExporterSize signed; compactSig = drop TLSChannelBindingExporterSize signed
                         in if \<not> wrote then Some WriteRequestFailed
                            else if length reply < tagSize then Some ReadAnswerFailed
                            else if take tagSize reply \<noteq> TLSChannelBindingAnswerTag then Some TunnelDidNotAnswerChannelBinding
                            else if length signed < signedSize then Some ReadAnswerFailed
                            else if clientExporter \<noteq> tunnelExporter then Some ExporterMismatchRelay
                            else (case recoverBindingAddress env (tlsChannelBindingPayload hostname nonce clientExporter) compactSig of
                                    None \<Rightarrow> Some RecoverSignerFailed
                                  | Some recoveredAddr \<Rightarrow>
                                      if \<not> EqualFold recoveredAddr expectedAddr then Some (SignerDoesNotMatch recoveredAddr expectedAddr)
                                      else if canceled then Some BindingCanceled else None)))))"

section \<open>The tunnel\<close>

text \<open>The result is what is written to the client and what remains of the stream for the application.\<close>

definition serveChannelBindingHandshake ::
  "binding_env \<Rightarrow> string \<Rightarrow> bytes \<Rightarrow> (string \<Rightarrow> bytes option) \<Rightarrow> bool \<Rightarrow> binding_error + bytes \<times> bytes" where
  "serveChannelBindingHandshake env hostname stream exportFn wrote =
     (if hostname = '''' then Inl CanonicalHostnameUnavailable
      else if length stream < TLSChannelBindingRequestSize then Inl ReadRequestFailed
      else
        let nonce = drop (length TLSChannelBindingRequestMagic) (take TLSChannelBindingRequestSize stream) in
        case exportFn TLSChannelBindingExporterLabel of
          None \<Rightarrow> Inl ExportFailed
        | Some exported \<Rightarrow>
            (case SignSHA256Secp256k1 env (tlsChannelBindingPayload hostname nonce exported) of
               None \<Rightarrow> Inl SignBindingFailed
             | Some compactSig \<Rightarrow>
                 if \<not> wrote then Inl WriteAnswerFailed
                 else Inr (TLSChannelBindingAnswerTag @ exported @ compactSig, drop TLSChannelBindingRequestSize stream)))"

text \<open>A reserved probe: the exporter it expects, empty until attached, and the one result its channel holds.\<close>

record mitmProbePending =
  expected :: bytes
  resultCh :: "string option"

record mitmManager =
  responderCapable :: bool
  pending :: "(bytes, mitmProbePending) gomap"
  cacheExposure :: bool
  leaseHostname :: string

definition reset_mitm :: "mitmManager \<Rightarrow> mitmManager" where "reset_mitm m = m\<lparr>pending := []\<rparr>"

definition setResponderCapable :: "bool \<Rightarrow> mitmManager \<Rightarrow> mitmManager" where "setResponderCapable c m = m\<lparr>responderCapable := c\<rparr>"

definition reserveProbe :: "bytes \<Rightarrow> mitmManager \<Rightarrow> mitmManager" where
  "reserveProbe nonce m = m\<lparr>pending := put nonce \<lparr>expected = [], resultCh = None\<rparr> (pending m)\<rparr>"

definition releaseProbe :: "bytes \<Rightarrow> mitmManager \<Rightarrow> mitmManager" where
  "releaseProbe nonce m = m\<lparr>pending := del nonce (pending m)\<rparr>"

definition attachExpected :: "bytes \<Rightarrow> bytes \<Rightarrow> mitmManager \<Rightarrow> mitmManager" where
  "attachExpected nonce value m =
     (case lookup (pending m) nonce of None \<Rightarrow> m | Some st \<Rightarrow> m\<lparr>pending := put nonce (st\<lparr>expected := value\<rparr>) (pending m)\<rparr>)"

definition completeProbe :: "bytes \<Rightarrow> bytes \<Rightarrow> mitmManager \<Rightarrow> mitmManager" where
  "completeProbe nonce actual m =
     (case lookup (pending m) nonce of
        None \<Rightarrow> m
      | Some st \<Rightarrow>
          let reason = (if expected st \<noteq> actual then MITMProbeReasonExporterMismatch else '''')
          in if resultCh st = None then m\<lparr>pending := put nonce (st\<lparr>resultCh := Some reason\<rparr>) (pending m)\<rparr> else m)"

text \<open>
  An accepted connection: its exporter, the bytes that arrive in the peek window and those that
  follow, and whether an answer can be written.
\<close>

record tunnel_conn =
  tc_exporter :: exporter
  tc_early :: bytes
  tc_rest :: bytes
  tc_wrote :: bool

definition stream :: "tunnel_conn \<Rightarrow> bytes" where "stream c = tc_early c @ tc_rest c"

datatype conn_result =
  NextConn (written: bytes) (readable: bytes)
| Handled
| HandledError binding_error

definition maybeHandleConn :: "binding_env \<Rightarrow> tunnel_conn \<Rightarrow> mitmManager \<Rightarrow> conn_result \<times> mitmManager" where
  "maybeHandleConn env c m =
     (case tc_exporter c of
        None \<Rightarrow> (NextConn [] (stream c), m)
      | Some exportFn \<Rightarrow>
          let hasPending = (pending m \<noteq> []); canChannelBind = (responderCapable m \<and> \<not> cacheExposure m) in
          if \<not> hasPending \<and> \<not> canChannelBind then (NextConn [] (stream c), m)
          else
            let peeked = take (if hasPending then 16 else length TLSChannelBindingRequestMagic) (tc_early c) in
            if canChannelBind \<and> take (length TLSChannelBindingRequestMagic) peeked = TLSChannelBindingRequestMagic
            then (case serveChannelBindingHandshake env (leaseHostname m) (stream c) exportFn (tc_wrote c) of
                    Inl e \<Rightarrow> (HandledError e, m)
                  | Inr (answer, remaining) \<Rightarrow> (NextConn answer remaining, m))
            else if length peeked \<noteq> 16 \<or> \<not> hasPending \<or> \<not> has_key (pending m) peeked then (NextConn [] (stream c), m)
            else (case exportFn mitmProbeExporterLabel of
                    None \<Rightarrow> (HandledError ExportFailed, m)
                  | Some actual \<Rightarrow> (Handled, completeProbe peeked actual m)))"


section \<open>Lemmas\<close>

lemma tag_lengths [simp]: "length TLSChannelBindingAnswerTag = 5" "length TLSChannelBindingRequestMagic = 5"
  by (simp_all add: TLSChannelBindingAnswerTag_def TLSChannelBindingRequestMagic_def bytes_of_def)

lemmas binding_sizes = TLSChannelBindingNonceSize_def TLSChannelBindingExporterSize_def TLSChannelBindingSignatureSize_def TLSChannelBindingRequestSize_def

lemma bytes_of_inj: "bytes_of a = bytes_of b \<Longrightarrow> a = b"
proof -
  have "inj (of_char :: char \<Rightarrow> byte)"
  proof (rule injI)
    fix x y
    assume "(of_char x :: byte) = of_char y"
    then have "(word_of_nat (of_char x) :: byte) = word_of_nat (of_char y)" by (simp add: of_nat_of_char)
    then have "unat (word_of_nat (of_char x) :: byte) = unat (word_of_nat (of_char y) :: byte)" by simp
    then have "(of_char x :: nat) = of_char y" by (simp add: unsigned_of_nat take_bit_eq_mod)
    then show "x = y" by simp
  qed
  then show "bytes_of a = bytes_of b \<Longrightarrow> a = b" by (simp add: bytes_of_def inj_map_eq_map)
qed

text \<open>
  The signed payload determines the host name, the nonce and the exporter, although host names of
  different lengths may contain any byte: nonce and exporter have fixed sizes.
\<close>

lemma payload_inj:
  assumes "tlsChannelBindingPayload h n e = tlsChannelBindingPayload h' n' e'"
    and "length n = length n'" "length e = length e'"
  shows "NormalizeHostWithoutPort h = NormalizeHostWithoutPort h' \<and> n = n' \<and> e = e'"
proof -
  let ?h = "bytes_of (NormalizeHostWithoutPort h)" and ?h' = "bytes_of (NormalizeHostWithoutPort h')"
  from assms(1) have "(?h @ [0]) @ n @ e = (?h' @ [0]) @ n' @ e'" by (simp add: tlsChannelBindingPayload_def)
  moreover have "length (n @ e) = length (n' @ e')" using assms(2,3) by simp
  ultimately have "?h @ [0] = ?h' @ [0] \<and> n @ e = n' @ e'" by (subst (asm) append_eq_append_conv) auto
  with assms(2) show ?thesis using bytes_of_inj by auto
qed

lemma Verify_accepts_iff:
  "VerifyTLSChannelBinding env h exporter nonce wrote reply canceled = None \<longleftrightarrow>
     (\<exists>expectedAddr exportFn ce n sig rest addr. ExtractCanonicalHostnameAddress h = Inr expectedAddr \<and> exporter = Some exportFn
        \<and> exportFn TLSChannelBindingExporterLabel = Some ce \<and> nonce = Some n \<and> wrote \<and> \<not> canceled
        \<and> reply = TLSChannelBindingAnswerTag @ ce @ sig @ rest \<and> length ce = 32 \<and> length sig = 65
        \<and> recoverBindingAddress env (tlsChannelBindingPayload h n ce) sig = Some addr \<and> EqualFold addr expectedAddr)"
  (is "?v = None \<longleftrightarrow> ?ok")
proof
  assume "?v = None"
  then obtain expectedAddr exportFn ce n addr where *: "ExtractCanonicalHostnameAddress h = Inr expectedAddr" "exporter = Some exportFn"
    "exportFn TLSChannelBindingExporterLabel = Some ce" "nonce = Some n" "wrote" "\<not> canceled" "take 5 reply = TLSChannelBindingAnswerTag"
    "\<not> length (take 97 (drop 5 reply)) < 97" "ce = take 32 (take 97 (drop 5 reply))"
    "recoverBindingAddress env (tlsChannelBindingPayload h n ce) (drop 32 (take 97 (drop 5 reply))) = Some addr" "EqualFold addr expectedAddr"
    by (auto simp: VerifyTLSChannelBinding_def Let_def binding_sizes split: sum.splits option.splits if_splits)
  define sig where "sig = drop 32 (take 97 (drop 5 reply))"
  have signed: "take 97 (drop 5 reply) = ce @ sig" unfolding sig_def *(9) by (rule append_take_drop_id [symmetric])
  have "TLSChannelBindingAnswerTag @ (ce @ sig) @ drop 97 (drop 5 reply) = reply"
    by (simp only: append_take_drop_id flip: *(7) signed)
  then have "reply = TLSChannelBindingAnswerTag @ ce @ sig @ drop 97 (drop 5 reply)" by simp
  moreover have "length ce = 32" "length sig = 65" using *(8,9) by (auto simp: sig_def)
  ultimately show ?ok using *(1-6,10,11) unfolding sig_def [symmetric]
    by (intro exI [of _ expectedAddr] exI [of _ exportFn] exI [of _ ce] exI [of _ n] exI [of _ sig] exI [of _ "drop 97 (drop 5 reply)"] exI [of _ addr]) simp
next
  assume ?ok
  then show "?v = None" by (auto simp: VerifyTLSChannelBinding_def Let_def binding_sizes)
qed


lemma Verify_answer:
  assumes "ExtractCanonicalHostnameAddress h = Inr a" "f TLSChannelBindingExporterLabel = Some e" "length e = 32" "length sig = 65"
    and "recoverBindingAddress env (tlsChannelBindingPayload h n e) sig = Some addr" "EqualFold addr a"
  shows "VerifyTLSChannelBinding env h (Some f) (Some n) True (TLSChannelBindingAnswerTag @ e @ sig) False = None"
  unfolding Verify_accepts_iff using assms by auto

lemma serve_request:
  assumes "h \<noteq> ''''" "length n = 32" "f TLSChannelBindingExporterLabel = Some e" "SignSHA256Secp256k1 env (tlsChannelBindingPayload h n e) = Some sig"
  shows "serveChannelBindingHandshake env h (bindingRequest n @ app) f True = Inr (TLSChannelBindingAnswerTag @ e @ sig, app)"
  using assms by (simp add: serveChannelBindingHandshake_def bindingRequest_def binding_sizes Let_def)

lemma maybeHandle_request:
  assumes c: "tc_exporter c = Some f" "stream c = bindingRequest n @ app" "5 \<le> length (tc_early c)"
    and m: "responderCapable m" "\<not> cacheExposure m"
  shows "maybeHandleConn env c m = (case serveChannelBindingHandshake env (leaseHostname m) (stream c) f (tc_wrote c) of
     Inl e \<Rightarrow> (HandledError e, m) | Inr (answer, remaining) \<Rightarrow> (NextConn answer remaining, m))"
proof -
  have "take 5 (tc_early c) = take 5 (stream c)" using c(3) by (simp add: stream_def)
  also have "\<dots> = TLSChannelBindingRequestMagic" by (simp add: c(2) bindingRequest_def)
  finally have "take 5 (take (if pending m \<noteq> [] then 16 else 5) (tc_early c)) = TLSChannelBindingRequestMagic" by simp
  with c m show ?thesis by (simp add: maybeHandleConn_def Let_def)
qed

text \<open>What others do to the manager: the steps of a probe and the connections that are accepted.\<close>

datatype probe_event = Reserve bytes | Attach bytes bytes | Conn tunnel_conn | Release bytes | Reset | Capable bool

fun probe_step :: "binding_env \<Rightarrow> probe_event \<Rightarrow> mitmManager \<Rightarrow> mitmManager" where
  "probe_step env (Reserve n) m = reserveProbe n m"
| "probe_step env (Attach n v) m = attachExpected n v m"
| "probe_step env (Conn c) m = snd (maybeHandleConn env c m)"
| "probe_step env (Release n) m = releaseProbe n m"
| "probe_step env Reset m = reset_mitm m"
| "probe_step env (Capable b) m = setResponderCapable b m"

text \<open>The connection carries the nonce and its session exports the value.\<close>

definition carries :: "bytes \<Rightarrow> bytes \<Rightarrow> tunnel_conn \<Rightarrow> bool" where
  "carries n v c \<longleftrightarrow> take 16 (tc_early c) = n \<and> (\<exists>f. tc_exporter c = Some f \<and> f mitmProbeExporterLabel = Some v)"

definition probes_sound :: "probe_event list \<Rightarrow> mitmManager \<Rightarrow> bool" where
  "probes_sound es m \<longleftrightarrow> (\<forall>n st. lookup (pending m) n = Some st \<longrightarrow>
     (expected st \<noteq> [] \<longrightarrow> Attach n (expected st) \<in> set es)
     \<and> (resultCh st = Some '''' \<longrightarrow> (\<exists>v c. Conn c \<in> set es \<and> carries n v c \<and> (v = [] \<or> Attach n v \<in> set es))))"

lemma maybeHandle_pending:
  "pending (snd (maybeHandleConn env c m)) = pending m \<or>
     (\<exists>n v. carries n v c \<and> snd (maybeHandleConn env c m) = completeProbe n v m)"
proof (cases "tc_exporter c")
  case (Some f)
  then show ?thesis
    by (cases "f mitmProbeExporterLabel") (auto simp: maybeHandleConn_def Let_def carries_def split: sum.splits if_splits)
qed (simp add: maybeHandleConn_def)

lemma probes_sound_mono: "probes_sound es m \<Longrightarrow> probes_sound (es @ [e]) m"
  unfolding probes_sound_def by (auto, blast+)

lemma probes_sound_attach:
  assumes "probes_sound es m" "Attach n v \<in> set es"
  shows "probes_sound es (attachExpected n v m)"
  using assms by (cases "lookup (pending m) n") (auto simp: probes_sound_def attachExpected_def)

lemma probes_sound_step:
  assumes "probes_sound es m"
  shows "probes_sound (es @ [e]) (probe_step env e m)"
proof (cases e)
  case (Conn c)
  have mono: "probes_sound (es @ [Conn c]) m" using assms by (rule probes_sound_mono)
  consider "pending (snd (maybeHandleConn env c m)) = pending m" | n v where "carries n v c" "snd (maybeHandleConn env c m) = completeProbe n v m"
    using maybeHandle_pending by blast
  then show ?thesis
  proof cases
    case 1
    with mono Conn show ?thesis by (simp add: probes_sound_def)
  next
    case (2 n v)
    have "probes_sound (es @ [Conn c]) (completeProbe n v m)"
    proof (cases "lookup (pending m) n")
      case (Some st)
      show ?thesis
      proof (cases "resultCh st = None \<and> expected st = v")
        case True
        then have "v = [] \<or> Attach n v \<in> set es" using assms Some by (auto simp: probes_sound_def)
        with True Some mono 2(1) show ?thesis by (auto simp: completeProbe_def probes_sound_def)
      next
        case False
        with Some mono show ?thesis by (auto simp: completeProbe_def probes_sound_def MITMProbeReasonExporterMismatch_def Let_def)
      qed
    qed (use mono in \<open>simp add: completeProbe_def\<close>)
    with 2 Conn show ?thesis by simp
  qed
next
  case (Attach n v)
  from probes_sound_attach [OF probes_sound_mono [OF assms, of e]] Attach show ?thesis by simp
qed (use probes_sound_mono [OF assms, of e] in \<open>auto simp: probes_sound_def reserveProbe_def releaseProbe_def reset_mitm_def setResponderCapable_def split: if_splits\<close>)

lemma probes_sound_run: "probes_sound es m \<Longrightarrow> probes_sound (es @ fs) (fold (probe_step env) fs m)"
proof (induction fs arbitrary: es m)
  case (Cons f fs)
  from Cons.IH [OF probes_sound_step [OF Cons.prems, of f env]] show ?case by simp
qed simp


section \<open>Properties\<close>

text \<open>
  C12: An accepted binding names its terminator. If a client accepts a connection to a canonical
  host name, and only the holder of the address in that name produces signatures that recover to
  it, namely in the handshakes of its tunnels, then one of these handshakes answered this nonce
  for this host name on a TLS session that exports the same keying material as the client's own:
  no relay terminated the session in between, and an answer for another name, another nonce or
  another session is never accepted.
\<close>

theorem accepted_binding_agrees:
  assumes "VerifyTLSChannelBinding env h (Some f) (Some n) wrote reply canceled = None" "length n = 32"
    and "ExtractCanonicalHostnameAddress h = Inr a"
    and signed: "\<forall>p sig addr. recoverBindingAddress env p sig = Some addr \<and> EqualFold addr a \<longrightarrow>
      (\<exists>h' n' f' e'. (h', n', f') \<in> served \<and> p = tlsChannelBindingPayload h' n' e' \<and> length n' = 32
         \<and> f' TLSChannelBindingExporterLabel = Some e' \<and> length e' = 32)"
  shows "\<exists>h' f'. (h', n, f') \<in> served \<and> NormalizeHostWithoutPort h' = NormalizeHostWithoutPort h
     \<and> f' TLSChannelBindingExporterLabel = f TLSChannelBindingExporterLabel"
proof -
  from assms(1) obtain ce sig addr where v: "f TLSChannelBindingExporterLabel = Some ce" "length ce = 32"
    "recoverBindingAddress env (tlsChannelBindingPayload h n ce) sig = Some addr" "EqualFold addr a"
    using assms(3) unfolding Verify_accepts_iff by auto
  with signed obtain h' n' f' e' where s: "(h', n', f') \<in> served" "tlsChannelBindingPayload h n ce = tlsChannelBindingPayload h' n' e'"
    "length n' = 32" "f' TLSChannelBindingExporterLabel = Some e'" "length e' = 32" by blast
  from payload_inj [OF s(2)] assms(2) v(2) s(3,5) have "NormalizeHostWithoutPort h = NormalizeHostWithoutPort h' \<and> n = n' \<and> ce = e'" by simp
  with s(1,4) v(1) show ?thesis by auto
qed

text \<open>
  C13: An honest tunnel is accepted. A client's request that reaches a capable tunnel on one TLS
  session, however the stream is cut behind the magic, is answered, the application reads exactly
  what follows the request, and the client accepts the answer, if the tunnel's lease has the host
  name the client asked for and its key recovers to the address in it.
\<close>

theorem honest_tunnel_is_accepted:
  assumes "tc_exporter c = Some f" "stream c = bindingRequest n @ app" "5 \<le> length (tc_early c)" "tc_wrote c"
    and "responderCapable m" "\<not> cacheExposure m" "leaseHostname m \<noteq> ''''"
    and "NormalizeHostWithoutPort (leaseHostname m) = NormalizeHostWithoutPort h" "ExtractCanonicalHostnameAddress h = Inr a"
    and "length n = 32" "f TLSChannelBindingExporterLabel = Some e" "length e = 32"
    and "SignSHA256Secp256k1 env (tlsChannelBindingPayload h n e) = Some sig" "length sig = 65"
    and "recoverBindingAddress env (tlsChannelBindingPayload h n e) sig = Some addr" "EqualFold addr a"
  shows "\<exists>answer. maybeHandleConn env c m = (NextConn answer app, m) \<and> VerifyTLSChannelBinding env h (Some f) (Some n) True answer False = None"
proof -
  have p: "tlsChannelBindingPayload (leaseHostname m) n e = tlsChannelBindingPayload h n e" using assms(8) by (simp add: tlsChannelBindingPayload_def)
  have "serveChannelBindingHandshake env (leaseHostname m) (stream c) f (tc_wrote c) = Inr (TLSChannelBindingAnswerTag @ e @ sig, app)"
    using serve_request [of "leaseHostname m" n f e env sig app] assms p by simp
  then have "maybeHandleConn env c m = (NextConn (TLSChannelBindingAnswerTag @ e @ sig) app, m)"
    using maybeHandle_request [OF assms(1-3,5,6), of env] by simp
  moreover have "VerifyTLSChannelBinding env h (Some f) (Some n) True (TLSChannelBindingAnswerTag @ e @ sig) False = None"
    using assms(9,11,12,14,15,16) by (rule Verify_answer)
  ultimately show ?thesis by blast
qed

text \<open>
  C14: A clean self-probe means passthrough. In every history of reservations, attached exporters,
  accepted connections, releases and resets, a probe reports no reason only if the tunnel accepted
  a connection that carries its nonce and exports the very keying material that was attached for
  it, so terminated the session of the probe; a connection that completes the probe before its
  exporter is attached is reported as a mismatch. Exporters yield no empty value.
\<close>

theorem clean_probe_is_passthrough:
  assumes "lookup (pending (fold (probe_step env) es m0)) n = Some st" "resultCh st = Some ''''" "pending m0 = []"
    and "\<forall>c f. Conn c \<in> set es \<and> tc_exporter c = Some f \<longrightarrow> f mitmProbeExporterLabel \<noteq> Some []"
  shows "\<exists>v c. Conn c \<in> set es \<and> carries n v c \<and> Attach n v \<in> set es"
proof -
  have "probes_sound [] m0" using assms(3) by (simp add: probes_sound_def)
  from probes_sound_run [OF this, of es env] assms(1,2) obtain v c where "Conn c \<in> set es" "carries n v c" "v = [] \<or> Attach n v \<in> set es"
    unfolding probes_sound_def append_Nil by blast
  with assms(4) show ?thesis by (auto simp: carries_def)
qed

text \<open>A stream that is neither a binding request nor a pending probe reaches the application byte for byte.\<close>

theorem application_stream_is_untouched:
  assumes "take 5 (tc_early c) \<noteq> TLSChannelBindingRequestMagic" "\<not> has_key (pending m) (take 16 (tc_early c))"
  shows "maybeHandleConn env c m = (NextConn [] (stream c), m)"
  using assms by (auto simp: maybeHandleConn_def Let_def split: option.splits)

section \<open>Witnesses\<close>

definition demo_tunnel_host :: string where "demo_tunnel_host = ''blog-'' @ replicate 40 (CHR ''a'') @ ''.example.com''"
definition demo_tunnel_address :: string where "demo_tunnel_address = ''0x'' @ replicate 40 (CHR ''a'')"
definition demo_nonce :: bytes where "demo_nonce = replicate 32 1"
definition demo_export :: "string \<Rightarrow> bytes option" where "demo_export l = Some (replicate 32 2)"
definition demo_binding_sig :: bytes where "demo_binding_sig = replicate 65 7"

definition demo_binding_env :: binding_env where
  "demo_binding_env = \<lparr>SignSHA256Secp256k1 = (\<lambda>p. Some demo_binding_sig),
     recoverBindingAddress = (\<lambda>p sig. if sig = demo_binding_sig \<and> p = tlsChannelBindingPayload demo_tunnel_host demo_nonce (replicate 32 2) then Some demo_tunnel_address else None)\<rparr>"

definition demo_tunnel :: mitmManager where
  "demo_tunnel = \<lparr>responderCapable = True, pending = [], cacheExposure = False, leaseHostname = demo_tunnel_host\<rparr>"

definition demo_conn :: tunnel_conn where
  "demo_conn = \<lparr>tc_exporter = Some demo_export, tc_early = bindingRequest demo_nonce, tc_rest = [9], tc_wrote = True\<rparr>"

lemma demo_extract: "ExtractCanonicalHostnameAddress demo_tunnel_host = Inr demo_tunnel_address"
  by code_simp

lemma demo_binding: "recoverBindingAddress demo_binding_env (tlsChannelBindingPayload demo_tunnel_host demo_nonce (replicate 32 2)) demo_binding_sig = Some demo_tunnel_address"
  by (simp add: demo_binding_env_def)

theorem honest_tunnel_is_accepted_witness:
  "\<exists>answer. maybeHandleConn demo_binding_env demo_conn demo_tunnel = (NextConn answer [9], demo_tunnel)
     \<and> VerifyTLSChannelBinding demo_binding_env demo_tunnel_host (Some demo_export) (Some demo_nonce) True answer False = None"
  by (rule honest_tunnel_is_accepted [OF _ _ _ _ _ _ _ _ demo_extract _ _ _ _ _ demo_binding])
    (simp_all add: demo_conn_def demo_tunnel_def stream_def bindingRequest_def demo_tunnel_host_def demo_nonce_def demo_export_def demo_binding_env_def
      demo_binding_sig_def EqualFold_def)

theorem accepted_binding_agrees_witness:
  "\<exists>h' f'. (h', demo_nonce, f') \<in> {(demo_tunnel_host, demo_nonce, demo_export)} \<and> f' TLSChannelBindingExporterLabel = demo_export TLSChannelBindingExporterLabel"
proof -
  have v: "VerifyTLSChannelBinding demo_binding_env demo_tunnel_host (Some demo_export) (Some demo_nonce) True
      (TLSChannelBindingAnswerTag @ replicate 32 2 @ demo_binding_sig) False = None"
    by (rule Verify_answer [OF demo_extract _ _ _ demo_binding]) (simp_all add: demo_export_def demo_binding_sig_def EqualFold_def)
  have "\<forall>p sig addr. recoverBindingAddress demo_binding_env p sig = Some addr \<and> EqualFold addr demo_tunnel_address \<longrightarrow>
      (\<exists>h' n' f' e'. (h', n', f') \<in> {(demo_tunnel_host, demo_nonce, demo_export)} \<and> p = tlsChannelBindingPayload h' n' e' \<and> length n' = 32
         \<and> f' TLSChannelBindingExporterLabel = Some e' \<and> length e' = 32)"
    by (auto simp: demo_binding_env_def demo_export_def demo_nonce_def split: if_splits)
  from accepted_binding_agrees [OF v _ demo_extract this] show ?thesis by (auto simp: demo_nonce_def)
qed

definition demo_probe :: tunnel_conn where
  "demo_probe = \<lparr>tc_exporter = Some demo_export, tc_early = replicate 16 5 @ [6], tc_rest = [], tc_wrote = True\<rparr>"

definition demo_probe_run :: "probe_event list" where
  "demo_probe_run = [Reserve (replicate 16 5), Attach (replicate 16 5) (replicate 32 2), Conn demo_probe]"

theorem clean_probe_is_passthrough_witness:
  "\<exists>v c. Conn c \<in> set demo_probe_run \<and> carries (replicate 16 5) v c \<and> Attach (replicate 16 5) v \<in> set demo_probe_run"
proof -
  have magic: "take 5 (replicate 16 5 :: bytes) \<noteq> TLSChannelBindingRequestMagic" by code_simp
  have "lookup (pending (fold (probe_step demo_binding_env) demo_probe_run demo_tunnel)) (replicate 16 5) = Some \<lparr>expected = replicate 32 2, resultCh = Some ''''\<rparr>"
    using magic by (simp add: demo_probe_run_def reserveProbe_def attachExpected_def maybeHandleConn_def demo_probe_def demo_tunnel_def demo_export_def
        completeProbe_def has_key_lookup Let_def)
  then show ?thesis
    by (rule clean_probe_is_passthrough) (auto simp: demo_tunnel_def demo_probe_run_def demo_probe_def demo_export_def)
qed

end
