(* ===== verification/Spec2Isabelle.thy ===== *)
theory Spec2Isabelle
  imports Service_Types Access_Policy Port_Pool Datagram_Codec Reverse_Framing Reverse_Pool Datagram_Session Datagram_Relay Cache_Manager Hostnames Binding_Registry Lease_Routing
    Relay_Trust Relay_Selection Overlay_Demo Directory Admission Channel_Binding
begin

text \<open>
  Portal is a relay for self-hosted services. A tunnel client registers a \<^emph>\<open>lease\<close> with a relay
  (\<open>src/portal\<close>), keeps reverse connections to it, and the relay hands public TLS, TCP and UDP
  traffic for the lease's host names to those connections. Relays find each other by signed
  descriptors (\<open>src/portal/discovery\<close>) and may carry reverse connections for each other through an
  overlay (\<open>src/portal/overlay\<close>). An operator decides which identities may be routed and hosts a
  public directory with votes and comments (\<open>src/cmd/relay-server/policy\<close>). This development models
  that logic from the Go sources and proves what makes it correct.

  \<^bold>\<open>Conventions\<close> (theory \<open>Prelude\<close>). Every definition is executable and translates the code it is named
  after; the record fields and error constructors keep the names of the source. A method on a
  struct is a function that returns the updated record; what runs under one lock is one
  function, and a method that releases a lock in between is cut at that point, so that the
  theorems about runs cover every interleaving of its sections. A Go map is an association list
  with distinct keys, and a theorem about all such lists covers every iteration order. Errors
  are values of a datatype of the component, in a sum or an option. \<open>time.Now()\<close> and random values are
  arguments. Time is an integer number of nanoseconds with Go's zero time at 0; widths matter
  and are kept for flow numbers, varints, revisions and bytes (\<open>HOL-Library.Word\<close>). A float64 is its
  bit pattern and its arithmetic an argument (\<open>Float64\<close>). The locales \<open>op_system\<close> and \<open>mono_system\<close> are the
  contract of a component with an invariant; the components interpret them on their own
  operations and obtain their results about runs from them.

  \<^bold>\<open>Leases.\<close> \<open>Service_Types\<close> (\<open>src/types/identity.go\<close>, \<open>policy.go\<close>), \<open>Hostnames\<close> (\<open>src/utils/utils.go\<close>),
  \<open>Lease_Token\<close> and \<open>Register_Challenge\<close> (\<open>src/portal/identity\<close>), \<open>Bandwidth\<close> (\<open>src/portal/proxy.go\<close>),
  \<open>Port_Pool\<close>, \<open>Lease_Record\<close> and \<open>Lease_Registry\<close> (\<open>src/portal/lease.go\<close>, \<open>record.go\<close>) hold the definitions.
  \<open>Lease_System\<close> is the transition system of all sections of the registry, \<open>Lease_Invariants\<close> its
  invariant, \<open>Lease_Safety\<close> the properties of runs (consistency, isolation of refused identities,
  stale decisions, expiry, one use of challenges, locality of renewal), \<open>Lease_Routing\<close> the ownership
  of host names and a run in which an expired lease is revived.

  \<^bold>\<open>Transport.\<close> \<open>Reverse_Pool\<close> and \<open>Reverse_Framing\<close> (\<open>src/portal/transport\<close>) model the idle reverse
  connections and their frames, \<open>Datagram_Codec\<close> the datagram format of \<open>src/types/transport.go\<close>,
  \<open>Datagram_Session\<close> and \<open>Datagram_Relay\<close> the QUIC backhaul of a lease and its UDP flow table.
  \<open>Client_Hello\<close> and \<open>Binding_Registry\<close> (\<open>src/portal/keyless/bindings.go\<close>) capture the ClientHello of a
  forwarded connection and pin it to a one-time binding, shown to refine a table of permits.

  \<^bold>\<open>Operator.\<close> \<open>Access_Policy\<close> (\<open>src/cmd/relay-server/policy/access.go\<close>) models modes, approvals and bans,
  \<open>Cache_Manager\<close> (\<open>src/portal/cache\<close>) the cache of static sites with its byte accounting.
  \<open>Source_Limiter\<close> (\<open>policy/source_limiter.go\<close> and its copy in the overlay) models the token buckets per
  client, \<open>Admission\<close> (\<open>policy/ingress.go\<close>, \<open>preauth.go\<close> and parts of \<open>mux.go\<close>) the address a request is
  accounted to, the budget before authentication and the publication of access decisions:
  forged headers buy no budget, and a published decision is in force.

  \<^bold>\<open>Client.\<close> \<open>Channel_Binding\<close> (\<open>src/sdk/mitm.go\<close>) models the handshake that binds a client's TLS session to
  the identity in a canonical host name, and the table of self-probes of a tunnel: an accepted
  binding agrees with a handshake of that identity on the same session, an honest tunnel is
  accepted, and a clean probe means that no relay terminated TLS.

  \<^bold>\<open>Public directory.\<close> \<open>Reputation\<close> and \<open>Comments\<close> (\<open>policy/reputation.go\<close>, \<open>comments.go\<close>) model the vote ledger
  and the comment store, \<open>Json_Doc\<close> the JSON documents they are written to, \<open>Directory\<close> the handlers of
  \<open>src/cmd/relay-server/api.go\<close> that join both with the lease registry. Shown are the caps of the
  ledger, that a client without valid cookies stays one voter, that a restart loses no comment,
  that only its author removes a comment and can do so, and that only listed apps collect votes
  and comments.

  \<^bold>\<open>Discovery.\<close> \<open>Relay_Descriptor\<close> models normalisation, signing and verification of descriptors,
  \<open>Relay_Set\<close> the set of known relays (\<open>relayset.go\<close>, \<open>relaystate.go\<close>), \<open>Relay_Selection\<close> the choice of
  relays (\<open>mols.go\<close>, \<open>controller.go\<close>). \<open>Relay_Set_Safety\<close> and \<open>Relay_Trust\<close> hold the properties of runs: no
  rollback, listing only after a poll, bans, and bounded slots for a flooding identity.
  \<open>Relay_Signing\<close> shows the round trip of a signed descriptor; \<open>Relay_Demo\<close> is a small network for the
  witnesses.

  \<^bold>\<open>Overlay.\<close> \<open>Base_Codec\<close> models the base32 and base64 encodings, \<open>Overlay_Capability\<close> the destinations
  and signed capabilities of \<open>src/portal/overlay/runtime.go\<close>, \<open>Overlay_Runtime\<close> the choice of a gateway, the
  issue of endpoints and the admission and accounting at the gateway. \<open>Overlay_Safety\<close> holds the
  properties of runs: exact accounts, avoidance of failed gateways, and agreement between the
  issue of an endpoint and the connection that is accepted for it; \<open>Overlay_Demo\<close> holds the witnesses.

  \<^bold>\<open>Arguments and hypotheses.\<close> SHA-256, Keccak, HMAC, the signing and recovery of secp256k1 keys, JOSE,
  the text of times, URL and IP parsing, IDNA and float64 arithmetic are arguments of the definitions that
  use them. A property that depends on them names what it uses: that decoding inverts encoding,
  that recovery returns the signer, that a clock does not go back. Each such property has a
  witness on a concrete instance.

  \<^bold>\<open>Bounds.\<close> Loops that delete while they scan are \<open>function\<close>s with a measure. The search for a free
  flow number wraps around and is a \<open>partial_function\<close>; it is shown to return whenever the table is
  below its limit. The eviction loop of the cache is a \<open>function\<close> on the number of generations. No
  definition uses fuel.

  \<^bold>\<open>Not modelled.\<close> Sockets, files, HTTP and goroutines appear only as arguments that carry their
  answers. Left out are the start-up and HTTP handlers of the relay (\<open>server.go\<close>, \<open>api_server.go\<close>, and
  of \<open>src/cmd/relay-server/api.go\<close> everything but the public directory), certificate issue (\<open>src/portal/acme\<close>), the keyless signer, the client
  library apart from \<open>mitm.go\<close> and its commands (\<open>src/sdk\<close>, \<open>src/cmd/portal-tunnel\<close>), the polling loop of discovery
  (its results are the events of the relay set), and the token bucket that paces bytes in
  \<open>proxy.go\<close>.
\<close>

end
